(* ===== verification/Prelude.thy ===== *)
theory Prelude
  imports Main "HOL-Library.Word" "HOL-Library.Multiset"
begin

text \<open>
  What every component of the development shares: the machine types of the Go sources, big-endian
  byte encodings (\<^verbatim>\<open>encoding/binary\<close>), bounded reads from a byte stream (\<^verbatim>\<open>io.ReadFull\<close>), the
  result type of fallible code, and the interface locales that several components implement:
  self-delimiting encodings, comparison orders with the stable sort that Go's \<^verbatim>\<open>sort.SliceStable\<close>
  performs, and step systems with invariants.

  A Go \<^verbatim>\<open>[]byte\<close> is a list of bytes; a nil slice and an empty slice are both \<open>[]\<close> (no modelled code
  tells them apart, except where a text block says so). Go's \<^verbatim>\<open>int\<close> is \<open>int\<close> or \<open>nat\<close>: the quantities
  kept in it are lengths, ports and counters far below \<^verbatim>\<open>2^63\<close>; fixed-width unsigned integers are words.
\<close>

named_theorems wire_simps \<open>unfolding rules of the byte encodings\<close>
named_theorems go_defs \<open>definitions of Go library routines\<close>

type_synonym byte = "8 word"
type_synonym uint16 = "16 word"
type_synonym uint32 = "32 word"
type_synonym uint64 = "64 word"
type_synonym bytes = "byte list"

section \<open>Results of fallible code\<close>

text \<open>\<open>Inl e\<close> is an error return, \<open>Inr x\<close> a normal one. \<open>bindR\<close> is the \<^verbatim>\<open>if err != nil { return err }\<close> idiom.\<close>

definition bindR :: "'e + 'a \<Rightarrow> ('a \<Rightarrow> 'e + 'b) \<Rightarrow> 'e + 'b" where
  "bindR r f = (case r of Inl e \<Rightarrow> Inl e | Inr x \<Rightarrow> f x)"

lemma bindR_simps [simp]:
  "bindR (Inl e) f = Inl e"
  "bindR (Inr x) f = f x"
  by (simp_all add: bindR_def)

lemma bindR_Inr_iff: "bindR r f = Inr y \<longleftrightarrow> (\<exists>x. r = Inr x \<and> f x = Inr y)"
  by (cases r) auto

lemma bindR_Inl_iff: "bindR r f = Inl e \<longleftrightarrow> r = Inl e \<or> (\<exists>x. r = Inr x \<and> f x = Inl e)"
  by (cases r) auto

definition is_ok :: "'e + 'a \<Rightarrow> bool" where
  "is_ok r = (case r of Inl _ \<Rightarrow> False | Inr _ \<Rightarrow> True)"

lemma is_ok_simps [simp]: "is_ok (Inr x)" "\<not> is_ok (Inl e)"
  by (simp_all add: is_ok_def)

section \<open>Big-endian integers\<close>

definition put_be16 :: "uint16 \<Rightarrow> bytes" where
  "put_be16 w = [ucast (drop_bit 8 w), ucast w]"

definition put_be32 :: "uint32 \<Rightarrow> bytes" where
  "put_be32 w = [ucast (drop_bit 24 w), ucast (drop_bit 16 w), ucast (drop_bit 8 w), ucast w]"

text \<open>The readers take the bytes of a fixed-size slice one by one, so no out-of-range read can arise.\<close>

definition be16 :: "byte \<Rightarrow> byte \<Rightarrow> uint16" where
  "be16 a b = push_bit 8 (ucast a) + ucast b"

definition be32 :: "byte \<Rightarrow> byte \<Rightarrow> byte \<Rightarrow> byte \<Rightarrow> uint32" where
  "be32 a b c d = push_bit 24 (ucast a) + push_bit 16 (ucast b) + push_bit 8 (ucast c) + ucast d"

lemma length_put_be [simp]: "length (put_be16 w) = 2" "length (put_be32 v) = 4"
  by (simp_all add: put_be16_def put_be32_def)

lemma be16_unat: "unat (be16 a b) = unat a * 256 + unat b"
proof -
  have "unat a < 256" "unat b < 256" using unsigned_less[of a] unsigned_less[of b] by simp_all
  then show ?thesis
  by (simp add: be16_def unat_word_ariths push_bit_eq_mult unsigned_ucast_eq take_bit_eq_mod)
qed

lemma be32_unat: "unat (be32 a b c d) = unat a * 2^24 + unat b * 2^16 + unat c * 2^8 + unat d"
proof -
  have "unat a < 256" "unat b < 256" "unat c < 256" "unat d < 256" 
   using unsigned_less[of a] unsigned_less[of b] unsigned_less[of c]  unsigned_less[of d] by simp_all
  then show ?thesis
  by (simp add: be32_def unat_word_ariths push_bit_eq_mult unsigned_ucast_eq take_bit_eq_mod)
qed

lemma be16_put: "be16 (ucast (drop_bit 8 w)) (ucast w) = w"
proof -
  have "unat w < 65536" using unsigned_less [of w] by simp
  then have "unat (be16 (ucast (drop_bit 8 w)) (ucast w)) = unat w"
    by (simp add: be16_unat unsigned_ucast_eq take_bit_eq_mod unat_drop_bit_eq drop_bit_eq_div unat_div)
  then show ?thesis by (simp add: word_unat_eq_iff)
qed

lemma be32_digits:
  fixes n :: nat
  assumes "n < 4294967296"
  shows "n div 2^24 mod 256 * 2^24 + n div 2^16 mod 256 * 2^16 + n div 2^8 mod 256 * 2^8 + n mod 256 = n"
proof -
  define m1 where "m1 = n div 256"
  define m2 where "m2 = m1 div 256"
  define m3 where "m3 = m2 div 256"
  have d: "n div 2^24 = m3" "n div 2^16 = m2" "n div 2^8 = m1"
    by (simp_all add: m1_def m2_def m3_def div_mult2_eq [symmetric])
  have e: "n = m1 * 256 + n mod 256" "m1 = m2 * 256 + m1 mod 256" "m2 = m3 * 256 + m2 mod 256"
    by (simp_all add: m1_def m2_def m3_def)
  have "m3 < 256" using assms by (simp add: m1_def m2_def m3_def)
  then show ?thesis unfolding d using e by simp
qed

lemma be32_put: "be32 (ucast (drop_bit 24 w)) (ucast (drop_bit 16 w)) (ucast (drop_bit 8 w)) (ucast w) = w"
proof -
  have w: "unat w < 4294967296" using unsigned_less [of w] by simp
  have "unat (be32 (ucast (drop_bit 24 w)) (ucast (drop_bit 16 w)) (ucast (drop_bit 8 w)) (ucast w)) = 
    (unat w div 2^24) mod 256 * 2^24 + (unat w div 2^16) mod 256 * 2^16 + (unat w div 2^8) mod 256 * 2^8 + unat w mod 256"
    by (simp add: be32_unat unsigned_ucast_eq take_bit_eq_mod unat_drop_bit_eq drop_bit_eq_div unat_div)
  also have "... = unat w" by (rule be32_digits [OF w])
  finally show ?thesis by (simp add: word_unat_eq_iff)
qed

lemmas be_roundtrip [simp] = be16_put be32_put

section \<open>Bounded reads\<close>

text \<open>
  A reader is the list of bytes the peer has sent before it closes the stream. \<^verbatim>\<open>io.ReadFull\<close> takes exactly
  \<open>n\<close> bytes or fails: \<^verbatim>\<open>io.EOF\<close> when no byte was left, \<^verbatim>\<open>io.ErrUnexpectedEOF\<close> when the stream ended inside
  the read.
\<close>

datatype io_error = EOF | UnexpectedEOF

definition ReadFull :: "nat \<Rightarrow> bytes \<Rightarrow> io_error + (bytes \<times> bytes)" where
  "ReadFull n bs =
     (if n \<le> length bs then Inr (take n bs, drop n bs)
      else if bs = [] then Inl EOF else Inl UnexpectedEOF)"

lemma ReadFull_append [simp]: "length p = n \<Longrightarrow> ReadFull n (p @ rest) = Inr (p, rest)"
  by (simp add: ReadFull_def)

lemma ReadFull_Inr: "ReadFull n bs = Inr (p, rest) \<longleftrightarrow> bs = p @ rest \<and> length p = n"
  by (auto simp: ReadFull_def split: if_splits)

lemma ReadFull_short: "length bs < n \<Longrightarrow> \<exists>e. ReadFull n bs = Inl e"
  by (simp add: ReadFull_def)

section \<open>Interface: self-delimiting encodings\<close>

text \<open>
  \<open>ok\<close> holds of the values the encoder accepts. The laws say that decoding what was encoded gives the value
  back and leaves the bytes after it untouched, and that the decoder accepts no other spelling.
\<close>

fun drain :: "nat \<Rightarrow> (bytes \<Rightarrow> 'e + ('a \<times> bytes)) \<Rightarrow> bytes \<Rightarrow> 'a list \<times> bytes" where
  "drain 0 dec bs = ([], bs)"
| "drain (Suc n) dec bs =
     (case dec bs of Inl _ \<Rightarrow> ([], bs)
      | Inr (x, rest) \<Rightarrow> (let (xs, r) = drain n dec rest in (x # xs, r)))"

locale self_delimiting =
  fixes ok :: "'a \<Rightarrow> bool"
    and enc :: "'a \<Rightarrow> bytes"
    and dec :: "bytes \<Rightarrow> 'e + ('a \<times> bytes)"
  assumes dec_enc: "ok x \<Longrightarrow> dec (enc x @ rest) = Inr (x, rest)"
    and dec_ok: "dec bs = Inr (x, rest) \<Longrightarrow> ok x"
    and dec_exact: "dec bs = Inr (x, rest) \<Longrightarrow> bs = enc x @ rest"
begin

lemma dec_iff: "dec bs = Inr (x, rest) \<longleftrightarrow> ok x \<and> bs = enc x @ rest"
  using dec_enc dec_ok dec_exact by blast

lemma prefix_free:
  assumes "ok x" "ok y" "enc x @ r = enc y @ s"
  shows "x = y \<and> r = s"
proof -
  have "Inr (x, r) = dec (enc y @ s)" using dec_enc [OF assms(1), of r] assms(3) by metis
  also have "\<dots> = Inr (y, s)" by (rule dec_enc [OF assms(2)])
  finally show ?thesis by blast
qed

lemma enc_inj: "ok x \<Longrightarrow> ok y \<Longrightarrow> enc x = enc y \<Longrightarrow> x = y"
  by (rule prefix_free [THEN conjunct1, of x y "[]" "[]"]) simp_all

lemma drain_concat:
  "\<forall>x\<in>set xs. ok x \<Longrightarrow> drain (length xs) dec (concat (map enc xs) @ rest) = (xs, rest)"
  by (induction xs) (simp_all add: dec_enc)

lemma drain_exact: "drain n dec bs = (xs, rest) \<Longrightarrow> bs = concat (map enc xs) @ rest \<and> (\<forall>x\<in>set xs. ok x)"
proof (induction n arbitrary: bs xs)
  case 0
  then show ?case by simp
next
  case (Suc n)
  show ?case
  proof (cases "dec bs")
    case (Inl e)
    with Suc.prems show ?thesis by simp
  next
    case (Inr p)
    obtain x r where p: "p = (x, r)" by (cases p)
    obtain ys where ys: "drain n dec r = (ys, rest)" "xs = x # ys"
      using Suc.prems Inr p by (auto split: prod.splits)
    from Suc.IH [OF ys(1)] ys(2) Inr p show ?thesis by (simp add: dec_iff)
  qed
qed

end

section \<open>Interface: comparison functions and stable sorting\<close>

text \<open>
  \<^verbatim>\<open>sort.SliceStable(xs, less)\<close> returns the one permutation of \<open>xs\<close> that is ordered by \<open>lt\<close> and keeps the order
  of elements \<open>lt\<close> does not separate; insertion from the right computes it.
\<close>

fun insert_by :: "('a \<Rightarrow> 'a \<Rightarrow> bool) \<Rightarrow> 'a \<Rightarrow> 'a list \<Rightarrow> 'a list" where
  "insert_by lt x [] = [x]"
| "insert_by lt x (y # ys) = (if lt y x then y # insert_by lt x ys else x # y # ys)"

definition SliceStable :: "('a \<Rightarrow> 'a \<Rightarrow> bool) \<Rightarrow> 'a list \<Rightarrow> 'a list" where
  "SliceStable lt xs = foldr (insert_by lt) xs []"

lemma SliceStable_simps [simp]:
  "SliceStable lt [] = []"
  "SliceStable lt (x # xs) = insert_by lt x (SliceStable lt xs)"
  by (simp_all add: SliceStable_def)

lemma mset_insert_by [simp]: "mset (insert_by lt x xs) = add_mset x (mset xs)"
  by (induction xs) auto

lemma mset_SliceStable [simp]: "mset (SliceStable lt xs) = mset xs"
  by (induction xs) auto

lemma set_SliceStable [simp]: "set (SliceStable lt xs) = set xs"
  by (metis mset_SliceStable set_mset_mset)

lemma SliceStable_Nil_iff [simp]: "SliceStable lt xs = [] \<longleftrightarrow> xs = []"
  by (metis mset_SliceStable mset_zero_iff)

lemma set_insert_by [simp]: "set (insert_by lt x xs) = insert x (set xs)"
  by (induction xs) auto

locale weak_order =
  fixes lt :: "'a \<Rightarrow> 'a \<Rightarrow> bool"
  assumes asym: "lt x y \<Longrightarrow> \<not> lt y x"
    and neg_trans: "lt x z \<Longrightarrow> lt x y \<or> lt y z"
begin

lemma irrefl: "\<not> lt x x"
  using asym by blast

lemma trans: "lt x y \<Longrightarrow> lt y z \<Longrightarrow> lt x z"
  using asym neg_trans by blast

lemma le_trans: "\<not> lt y x \<Longrightarrow> \<not> lt z y \<Longrightarrow> \<not> lt z x"
  using neg_trans by blast

lemma sorted_insert_by:
  "sorted_wrt (\<lambda>x y. \<not> lt y x) xs \<Longrightarrow> sorted_wrt (\<lambda>x y. \<not> lt y x) (insert_by lt x xs)"
proof (induction xs)
  case Nil
  then show ?case by simp
next
  case (Cons y ys)
  show ?case
  proof (cases "lt y x")
    case True
    with Cons asym [OF True] show ?thesis by simp
  next
    case False
    with Cons.prems have "\<forall>z\<in>set ys. \<not> lt z x" using neg_trans [of _ x y] by auto
    with False Cons.prems show ?thesis by simp
  qed
qed

lemma sorted_SliceStable: "sorted_wrt (\<lambda>x y. \<not> lt y x) (SliceStable lt xs)"
  by (induction xs) (simp_all add: sorted_insert_by)

text \<open>The head of the sorted slice is the first of the least elements of the input.\<close>

lemma hd_SliceStable:
  assumes "SliceStable lt xs = y # ys"
  shows "\<exists>us vs. xs = us @ y # vs \<and> (\<forall>u\<in>set us. lt y u) \<and> (\<forall>v\<in>set vs. \<not> lt v y)"
  using assms
proof (induction xs arbitrary: y ys)
  case Nil
  then show ?case by simp
next
  case (Cons x xs)
  show ?case
  proof (cases "SliceStable lt xs")
    case Nil
    with Cons.prems show ?thesis by (intro exI [of _ "[]"] exI [of _ xs]) simp
  next
    case (Cons z zs)
    from Cons.IH [OF this] obtain us vs
      where z: "xs = us @ z # vs" "\<forall>u\<in>set us. lt z u" "\<forall>v\<in>set vs. \<not> lt v z" by blast
    show ?thesis
    proof (cases "lt z x")
      case True
      with Cons Cons.prems have "y = z" by simp
      with z True show ?thesis by (intro exI [of _ "x # us"] exI [of _ vs]) simp
    next
      case False
      with Cons Cons.prems have y: "y = x" by simp
      have "\<not> lt v x" if "v \<in> set xs" for v
      proof -
        from that z(1) consider "v \<in> set us" | "v = z" | "v \<in> set vs" by auto
        then have "\<not> lt v z" using z(2,3) irrefl asym by cases blast+
        then show ?thesis using le_trans [OF False] by blast
      qed
      with y show ?thesis by (intro exI [of _ "[]"] exI [of _ xs]) simp
    qed
  qed
qed

lemma hd_SliceStable_least: "SliceStable lt xs = y # ys \<Longrightarrow> x \<in> set xs \<Longrightarrow> \<not> lt x y"
proof -
  assume y: "SliceStable lt xs = y # ys" and x: "x \<in> set xs"
  from hd_SliceStable [OF y] obtain us vs
    where xs: "xs = us @ y # vs" and us: "\<forall>u\<in>set us. lt y u" and vs: "\<forall>v\<in>set vs. \<not> lt v y" by blast
  from x xs consider "x \<in> set us" | "x = y" | "x \<in> set vs" by auto
  then show "\<not> lt x y" using us vs irrefl asym by cases blast+
qed

end

section \<open>Step systems\<close>

text \<open>A run of a deterministic machine over a list of events, and the principle that lifts one-step facts to runs.\<close>

definition run_steps :: "('s \<Rightarrow> 'e \<Rightarrow> 's) \<Rightarrow> 's \<Rightarrow> 'e list \<Rightarrow> 's" where
  "run_steps step s es = foldl step s es"

lemma run_steps_simps [simp]:
  "run_steps step s [] = s"
  "run_steps step s (e # es) = run_steps step (step s e) es"
  "run_steps step s (es @ fs) = run_steps step (run_steps step s es) fs"
  by (simp_all add: run_steps_def)

lemma run_steps_invariant:
  assumes "\<And>s e. P s \<Longrightarrow> P (step s e)" and "P s"
  shows "P (run_steps step s es)"
  using assms(2) by (induction es arbitrary: s) (auto intro: assms(1))

lemma run_steps_preorder:
  assumes "\<And>s. R s s" and "\<And>s t u. R s t \<Longrightarrow> R t u \<Longrightarrow> R s u"
    and "\<And>s e. P s \<Longrightarrow> P (step s e)" and "\<And>s e. P s \<Longrightarrow> R s (step s e)" and "P s"
  shows "R s (run_steps step s es)"
  using assms(5)
proof (induction es arbitrary: s)
  case Nil
  then show ?case by (simp add: assms(1))
next
  case (Cons e es)
  from Cons.IH [OF assms(3) [OF Cons.prems]] have "R (step s e) (run_steps step (step s e) es)" .
  from assms(2) [OF assms(4) [OF Cons.prems] this] show ?case by simp
qed

end
