(* ===== verification/Go_Strings.thy ===== *)
theory Go_Strings
  imports Prelude "HOL-Library.Char_ord" "HOL-Library.List_Lexorder"
begin

text \<open>
  The routines of Go's \<^verbatim>\<open>strings\<close> and \<^verbatim>\<open>strconv\<close> packages that the modelled sources call. A Go string is a
  sequence of bytes, and so is \<open>string\<close> here (a \<open>char\<close> is one byte). The order on \<open>string\<close> is the bytewise
  lexicographic one, which is Go's \<open><\<close> on strings.

  \<open>TrimSpace\<close> removes the Unicode white space Go removes, given by the UTF-8 encodings of those code points.
  \<open>ToLower\<close> is exact on ASCII text; the Unicode case tables it consults for other text are the parameter
  \<open>ul\<close>, over which everything that uses it is stated.
\<close>

section \<open>White space\<close>

definition ascii_spaces :: "string list" where
  "ascii_spaces = map (\<lambda>n. [char_of (n::nat)]) [9, 10, 11, 12, 13, 32]"

definition unicode_spaces :: "string list" where
  "unicode_spaces = map (map char_of)
     ([[0xC2, 0x85], [0xC2, 0xA0], [0xE1, 0x9A, 0x80]]
      @ map (\<lambda>n. [0xE2, 0x80, n]) [0x80, 0x81, 0x82, 0x83, 0x84, 0x85, 0x86, 0x87, 0x88, 0x89, 0x8A, 0xA8, 0xA9, 0xAF]
      @ [[0xE2, 0x81, 0x9F], [0xE3, 0x80, 0x80 :: nat]])"

definition HasPrefix :: "string \<Rightarrow> string \<Rightarrow> bool" where
  "HasPrefix s p \<longleftrightarrow> take (length p) s = p"

definition HasSuffix :: "string \<Rightarrow> string \<Rightarrow> bool" where
  "HasSuffix s p \<longleftrightarrow> length p \<le> length s \<and> drop (length s - length p) s = p"

definition TrimPrefix :: "string \<Rightarrow> string \<Rightarrow> string" where
  "TrimPrefix s p = (if HasPrefix s p then drop (length p) s else s)"

definition TrimSuffix :: "string \<Rightarrow> string \<Rightarrow> string" where
  "TrimSuffix s p = (if HasSuffix s p then take (length s - length p) s else s)"

text \<open>Strip any of the given words from the front as long as one is there.\<close>

definition strip_one :: "string list \<Rightarrow> string \<Rightarrow> string" where
  "strip_one ws s = (case find (HasPrefix s) ws of None \<Rightarrow> s | Some w \<Rightarrow> drop (length w) s)"

fun strip :: "nat \<Rightarrow> string list \<Rightarrow> string \<Rightarrow> string" where
  "strip 0 ws s = s"
| "strip (Suc n) ws s =
     (let t = strip_one ws s in if length t < length s then strip n ws t else s)"

definition TrimLeftSpace :: "string \<Rightarrow> string" where
  "TrimLeftSpace s = strip (length s) (ascii_spaces @ unicode_spaces) s"

definition TrimRightSpace :: "string \<Rightarrow> string" where
  "TrimRightSpace s = rev (strip (length s) (map rev (ascii_spaces @ unicode_spaces)) (rev s))"

definition TrimSpace :: "string \<Rightarrow> string" where
  "TrimSpace s = TrimRightSpace (TrimLeftSpace s)"

section \<open>Case, splitting, searching\<close>

definition is_ascii :: "string \<Rightarrow> bool" where
  "is_ascii s \<longleftrightarrow> (\<forall>c\<in>set s. of_char c < (128::nat))"

definition lower_char :: "char \<Rightarrow> char" where
  "lower_char c = (let n = of_char c :: nat in if 65 \<le> n \<and> n \<le> 90 then char_of (n + 32) else c)"

definition ToLower :: "(string \<Rightarrow> string) \<Rightarrow> string \<Rightarrow> string" where
  "ToLower ul s = (if is_ascii s then map lower_char s else ul s)"

text \<open>
  \<^verbatim>\<open>strings.EqualFold\<close>: exact on ASCII texts; \<open>uf\<close> stands for Unicode case folding when one of the texts is not ASCII.
\<close>

definition EqualFold :: "(string \<Rightarrow> string \<Rightarrow> bool) \<Rightarrow> string \<Rightarrow> string \<Rightarrow> bool" where
  "EqualFold uf s t = (if is_ascii s \<and> is_ascii t then map lower_char s = map lower_char t else uf s t)"

fun Split :: "char \<Rightarrow> string \<Rightarrow> string list" where
  "Split sep [] = [[]]"
| "Split sep (c # cs) =
     (if c = sep then [] # Split sep cs
      else (case Split sep cs of [] \<Rightarrow> [[c]] | w # ws \<Rightarrow> (c # w) # ws))"

fun Join :: "char \<Rightarrow> string list \<Rightarrow> string" where
  "Join sep [] = []"
| "Join sep [w] = w"
| "Join sep (w # ws) = w @ sep # Join sep ws"

text \<open>\<^verbatim>\<open>strings.Cut\<close>: around the first separator, and whether it occurs.\<close>

fun Cut :: "char \<Rightarrow> string \<Rightarrow> string \<times> string \<times> bool" where
  "Cut sep [] = ([], [], False)"
| "Cut sep (c # cs) =
     (if c = sep then ([], cs, True)
      else (let (a, b, f) = Cut sep cs in (c # a, b, f)))"

section \<open>Decimal numbers\<close>

definition is_digit :: "char \<Rightarrow> bool" where
  "is_digit c \<longleftrightarrow> CHR ''0'' \<le> c \<and> c \<le> CHR ''9''"

definition digit_val :: "char \<Rightarrow> nat" where
  "digit_val c = of_char c - 48"

definition digits_val :: "string \<Rightarrow> nat" where
  "digits_val s = foldl (\<lambda>n c. 10 * n + digit_val c) 0 s"

definition parse_digits :: "string \<Rightarrow> nat option" where
  "parse_digits s = (if s \<noteq> [] \<and> list_all is_digit s then Some (digits_val s) else None)"

text \<open>\<^verbatim>\<open>strconv.Atoi\<close>: an optional sign, at least one digit, and a value that fits 64 bits.\<close>

definition Atoi :: "string \<Rightarrow> int option" where
  "Atoi s =
     (case s of [] \<Rightarrow> None
      | c # cs \<Rightarrow>
          if c = CHR ''-'' then
            (case parse_digits cs of None \<Rightarrow> None | Some n \<Rightarrow> if n \<le> 2 ^ 63 then Some (- int n) else None)
          else
            (case parse_digits (if c = CHR ''+'' then cs else s) of None \<Rightarrow> None
             | Some n \<Rightarrow> if n < 2 ^ 63 then Some (int n) else None))"

fun show_nat :: "nat \<Rightarrow> string" where
  "show_nat n = (if n < 10 then [char_of (48 + n)] else show_nat (n div 10) @ [char_of (48 + n mod 10)])"

declare show_nat.simps [simp del]

definition Itoa :: "int \<Rightarrow> string" where
  "Itoa i = (if i < 0 then CHR ''-'' # show_nat (nat (- i)) else show_nat (nat i))"

section \<open>Facts\<close>

lemma HasPrefix_append [simp]: "HasPrefix (p @ s) p"
  by (simp add: HasPrefix_def)

lemma HasPrefix_iff: "HasPrefix s p \<longleftrightarrow> (\<exists>t. s = p @ t)"
  by (metis HasPrefix_append HasPrefix_def append_take_drop_id)

lemma HasSuffix_iff: "HasSuffix s p \<longleftrightarrow> (\<exists>t. s = t @ p)"
proof
  assume "HasSuffix s p"
  then show "\<exists>t. s = t @ p" by (metis HasSuffix_def append_take_drop_id)
qed (auto simp: HasSuffix_def)

lemma TrimPrefix_append [simp]: "TrimPrefix (p @ s) p = s"
  by (simp add: TrimPrefix_def)

lemma TrimSuffix_append [simp]: "TrimSuffix (s @ p) p = s"
  by (simp add: TrimSuffix_def HasSuffix_def)

lemma TrimSuffix_other: "\<not> HasSuffix s p \<Longrightarrow> TrimSuffix s p = s"
  by (simp add: TrimSuffix_def)

lemma Split_not_Nil [simp]: "Split sep s \<noteq> []"
  by (induction s) (auto split: list.splits)

lemma Join_Cons: "ws \<noteq> [] \<Longrightarrow> Join sep (w # ws) = w @ sep # Join sep ws"
  by (cases ws) auto

lemma Join_Split [simp]: "Join sep (Split sep s) = s"
proof (induction s)
  case Nil
  then show ?case by simp
next
  case (Cons c cs)
  obtain w ws where w: "Split sep cs = w # ws" by (cases "Split sep cs") auto
  with Cons show ?case by (cases ws) (auto simp: Join_Cons)
qed

lemma Split_no_sep: "w \<in> set (Split sep s) \<Longrightarrow> sep \<notin> set w"
  by (induction s arbitrary: w) (auto split: list.splits if_splits)

lemma Split_word: "sep \<notin> set w \<Longrightarrow> Split sep w = [w]"
  by (induction w) auto

lemma Split_append: "sep \<notin> set w \<Longrightarrow> Split sep (w @ sep # s) = w # Split sep s"
  by (induction w) auto

lemma Split_Join:
  "ws \<noteq> [] \<Longrightarrow> \<forall>w\<in>set ws. sep \<notin> set w \<Longrightarrow> Split sep (Join sep ws) = ws"
  by (induction sep ws rule: Join.induct) (auto simp: Split_word Split_append)

lemma Cut_found: "sep \<notin> set a \<Longrightarrow> Cut sep (a @ sep # b) = (a, b, True)"
  by (induction a) auto

lemma Cut_not_found: "sep \<notin> set a \<Longrightarrow> Cut sep a = (a, [], False)"
  by (induction a) auto

lemma Cut_True: "Cut sep s = (a, b, True) \<Longrightarrow> s = a @ sep # b \<and> sep \<notin> set a"
  by (induction s arbitrary: a) (auto split: if_splits prod.splits)

lemma Cut_False: "Cut sep s = (a, b, False) \<Longrightarrow> s = a \<and> b = [] \<and> sep \<notin> set s"
  by (induction s arbitrary: a) (auto split: if_splits prod.splits)

subsection \<open>Decimal round trip\<close>

lemma digit_char: "n < 10 \<Longrightarrow> is_digit (char_of (48 + n)) \<and> digit_val (char_of (48 + n)) = n"
  by (simp add: is_digit_def digit_val_def less_eq_char_def)

lemma digits_val_append [simp]: "digits_val (s @ [c]) = 10 * digits_val s + digit_val c"
  by (simp add: digits_val_def)

lemma show_nat_props: "show_nat n \<noteq> [] \<and> list_all is_digit (show_nat n) \<and> digits_val (show_nat n) = n"
proof (induction n rule: show_nat.induct)
  case (1 n)
  show ?case
  proof (cases "n < 10")
    case True
    then show ?thesis
      using digit_char [OF True] by (simp add: show_nat.simps [of n] digits_val_def)
  next
    case False
    have "n mod 10 < 10" by simp
    from digit_char [OF this] "1.IH" [OF False] show ?thesis
      by (subst (1 2 3) show_nat.simps) (simp add: False)
  qed
qed

lemma parse_digits_show_nat [simp]: "parse_digits (show_nat n) = Some n"
  using show_nat_props [of n] by (simp add: parse_digits_def)

lemma is_digit_range: "is_digit c \<longleftrightarrow> 48 \<le> (of_char c :: nat) \<and> of_char c \<le> (57::nat)"
  by (simp add: is_digit_def less_eq_char_def)

lemma is_digit_not [simp]: "\<not> is_digit CHR ''-''" "\<not> is_digit CHR ''+''" "\<not> is_digit CHR ''.''" "\<not> is_digit CHR '',''"
  by (simp_all add: is_digit_range)

lemma Atoi_show_nat: "n < 2 ^ 63 \<Longrightarrow> Atoi (show_nat n) = Some (int n)"
proof -
  assume n: "n < 2 ^ 63"
  obtain c cs where c: "show_nat n = c # cs" and d: "is_digit c"
    using show_nat_props [of n] by (cases "show_nat n") auto
  from d have "c \<noteq> CHR ''-''" "c \<noteq> CHR ''+''" by auto
  with n c show ?thesis
    using parse_digits_show_nat [of n] by (simp add: Atoi_def)
qed

lemma show_nat_chars: "c \<in> set (show_nat n) \<Longrightarrow> is_digit c"
  using show_nat_props [of n] by (auto simp: list_all_iff)

lemma show_nat_inj: "show_nat m = show_nat n \<Longrightarrow> m = n"
  using show_nat_props by metis

lemma show_nat_not_Nil [simp]: "show_nat n \<noteq> []"
  using show_nat_props by blast

lemma Atoi_Itoa: "- (2 ^ 63) \<le> i \<Longrightarrow> i < 2 ^ 63 \<Longrightarrow> Atoi (Itoa i) = Some i"
proof (cases "i < 0")
  case True
  assume "- (2 ^ 63) \<le> i"
  with True have "nat (- i) \<le> 2 ^ 63" by (simp add: nat_le_iff)
  with True show ?thesis by (simp add: Itoa_def Atoi_def)
next
  case False
  assume "i < 2 ^ 63"
  with False have "nat i < 2 ^ 63" by (simp add: nat_less_iff)
  with False Atoi_show_nat [of "nat i"] show ?thesis by (simp add: Itoa_def)
qed

subsection \<open>Trimming\<close>

lemma strip_one_suffix: "\<exists>p. s = p @ strip_one ws s"
  by (auto simp: strip_one_def HasPrefix_iff find_Some_iff split: option.splits)

text \<open>Text with no white space at either end is left alone.\<close>

definition edge_free :: "string \<Rightarrow> bool" where
  "edge_free s \<longleftrightarrow> find (HasPrefix s) (ascii_spaces @ unicode_spaces) = None
      \<and> find (HasPrefix (rev s)) (map rev (ascii_spaces @ unicode_spaces)) = None"

lemma strip_stop: "find (HasPrefix s) ws = None \<Longrightarrow> strip n ws s = s"
  by (cases n) (simp_all add: strip_one_def)

lemma TrimSpace_edge_free: "edge_free s \<Longrightarrow> TrimSpace s = s"
  by (simp add: edge_free_def TrimSpace_def TrimLeftSpace_def TrimRightSpace_def strip_stop)

text \<open>A printable ASCII character (no space) at both ends is enough.\<close>

definition graphic :: "char \<Rightarrow> bool" where
  "graphic c \<longleftrightarrow> 33 \<le> (of_char c :: nat) \<and> of_char c \<le> (126::nat)"

lemma space_words:
  "list_all (\<lambda>w. w \<noteq> [] \<and> \<not> graphic (hd w) \<and> \<not> graphic (last w)) (ascii_spaces @ unicode_spaces)"
  by (simp add: ascii_spaces_def unicode_spaces_def graphic_def)

lemma HasPrefix_hd: "w \<noteq> [] \<Longrightarrow> HasPrefix (c # s) w \<Longrightarrow> hd w = c"
  by (cases w) (auto simp: HasPrefix_iff)

lemma no_space_prefix:
  assumes "graphic c"
  shows "find (HasPrefix (c # s)) (ascii_spaces @ unicode_spaces) = None"
    and "find (HasPrefix (c # s)) (map rev (ascii_spaces @ unicode_spaces)) = None"
proof -
  have "\<not> HasPrefix (c # s) w" "\<not> HasPrefix (c # s) (rev w)"
    if "w \<in> set (ascii_spaces @ unicode_spaces)" for w
  proof -
    from that space_words have w: "w \<noteq> []" "\<not> graphic (hd w)" "\<not> graphic (last w)"
      unfolding list_all_iff by blast+
    then show "\<not> HasPrefix (c # s) w" using assms HasPrefix_hd by metis
    from w show "\<not> HasPrefix (c # s) (rev w)"
      using assms HasPrefix_hd [of "rev w"] by (metis hd_rev rev_is_Nil_conv)
  qed
  then show "find (HasPrefix (c # s)) (ascii_spaces @ unicode_spaces) = None"
    and "find (HasPrefix (c # s)) (map rev (ascii_spaces @ unicode_spaces)) = None"
    unfolding find_None_iff by auto
qed

lemma edge_freeI: "s \<noteq> [] \<Longrightarrow> graphic (hd s) \<Longrightarrow> graphic (last s) \<Longrightarrow> edge_free s"
proof -
  assume s: "s \<noteq> []" "graphic (hd s)" "graphic (last s)"
  obtain c cs where c: "s = c # cs" using s by (cases s) auto
  obtain d ds where d: "rev s = d # ds" using s by (cases "rev s") auto
  then have "d = last s" by (metis hd_rev list.sel(1))
  with c s have "graphic c" "graphic d" by simp_all
  then show ?thesis
    unfolding edge_free_def d by (simp only: c no_space_prefix simp_thms)
qed

lemma digit_graphic: "is_digit c \<Longrightarrow> graphic c"
  by (simp add: is_digit_range graphic_def)

lemma TrimSpace_graphic: "s \<noteq> [] \<Longrightarrow> graphic (hd s) \<Longrightarrow> graphic (last s) \<Longrightarrow> TrimSpace s = s"
  by (simp add: TrimSpace_edge_free edge_freeI)

lemma TrimSpace_Nil [simp]: "TrimSpace [] = []"
  by (simp add: TrimSpace_def TrimLeftSpace_def TrimRightSpace_def)

end
