(* ===== verification/Frame.thy ===== *)
theory Frame
  imports Prelude Go_Strings
begin

text \<open>
  The wire vocabulary of \<^verbatim>\<open>internal/protocol\<close>: the frame with its validity rule (\<^verbatim>\<open>frame.go\<close>), the flow-control
  helpers (\<^verbatim>\<open>window.go\<close>), version and feature negotiation (\<^verbatim>\<open>capabilities.go\<close>), WebSocket subprotocol
  selection (\<^verbatim>\<open>subprotocol.go\<close>), the open-result rule (\<^verbatim>\<open>open_result.go\<close>) and UDP
  associations (\<^verbatim>\<open>udp.go\<close>). The JSON encoder and decoder are parameters.
\<close>

section \<open>Frames\<close>

abbreviation (input) CurrentVersion :: byte where "CurrentVersion \<equiv> 1"

definition MaxPayload :: nat where "MaxPayload = 2 ^ 20"
definition MaxMetadataPayload :: nat where "MaxMetadataPayload = 32 * 2 ^ 10"
definition MaxOpenResultPayload :: nat where "MaxOpenResultPayload = 2 ^ 10"

datatype protocol_error =
    ErrUnsupportedVersion | ErrUnknownFrameType | ErrPayloadTooLarge | ErrInvalidFrame
  | ErrStreamClosed | ErrStreamReset | ErrWindowExhausted | ErrInvalidTransition
  | ErrDatagramTooLarge | ErrSendWindowOverflow | ErrReceiveWindowOverflow | ErrNoCommonVersion
  | ErrInvalidICMPEcho | ErrJSON | ErrRead io_error

abbreviation (input) FrameOpenStream :: byte where "FrameOpenStream \<equiv> 1"
abbreviation (input) FrameData :: byte where "FrameData \<equiv> 2"
abbreviation (input) FrameHalfClose :: byte where "FrameHalfClose \<equiv> 3"
abbreviation (input) FrameReset :: byte where "FrameReset \<equiv> 4"
abbreviation (input) FrameWindowUpdate :: byte where "FrameWindowUpdate \<equiv> 5"
abbreviation (input) FrameGoAway :: byte where "FrameGoAway \<equiv> 6"
abbreviation (input) FramePing :: byte where "FramePing \<equiv> 7"
abbreviation (input) FramePong :: byte where "FramePong \<equiv> 8"
abbreviation (input) FrameAgentHello :: byte where "FrameAgentHello \<equiv> 9"
abbreviation (input) FrameAgentMetadataUpdate :: byte where "FrameAgentMetadataUpdate \<equiv> 10"
abbreviation (input) FrameAgentMetadataAck :: byte where "FrameAgentMetadataAck \<equiv> 11"
abbreviation (input) FrameTraceStart :: byte where "FrameTraceStart \<equiv> 12"
abbreviation (input) FrameTraceHop :: byte where "FrameTraceHop \<equiv> 13"
abbreviation (input) FrameTraceEnd :: byte where "FrameTraceEnd \<equiv> 14"
abbreviation (input) FrameOpenResult :: byte where "FrameOpenResult \<equiv> 15"
abbreviation (input) FrameClientHello :: byte where "FrameClientHello \<equiv> 16"
abbreviation (input) FrameClientMetadataUpdate :: byte where "FrameClientMetadataUpdate \<equiv> 17"
abbreviation (input) FrameClientMetadataAck :: byte where "FrameClientMetadataAck \<equiv> 18"

abbreviation (input) FlagFin :: uint16 where "FlagFin \<equiv> 1"
abbreviation (input) FlagAck :: uint16 where "FlagAck \<equiv> 2"
abbreviation (input) FlagStrictOpen :: uint16 where "FlagStrictOpen \<equiv> 4"

record frame =
  Version :: byte
  FType :: byte
  Flags :: uint16
  StreamID :: uint32
  Window :: uint32
  Payload :: bytes

definition knownFrameType :: "byte \<Rightarrow> bool" where
  "knownFrameType t \<longleftrightarrow> FrameOpenStream \<le> t \<and> t \<le> FrameClientMetadataAck"

definition isMetadataFrame :: "byte \<Rightarrow> bool" where
  "isMetadataFrame t \<longleftrightarrow>
     (FrameAgentHello \<le> t \<and> t \<le> FrameAgentMetadataAck) \<or> (FrameClientHello \<le> t \<and> t \<le> FrameClientMetadataAck)"

definition isTraceFrame :: "byte \<Rightarrow> bool" where
  "isTraceFrame t \<longleftrightarrow> FrameTraceStart \<le> t \<and> t \<le> FrameTraceEnd"

text \<open>\<open>None\<close> is Go's \<^verbatim>\<open>nil\<close> error.\<close>

definition Validate :: "frame \<Rightarrow> protocol_error option" where
  "Validate f =
     (if Version f \<noteq> CurrentVersion then Some ErrUnsupportedVersion
      else if \<not> knownFrameType (FType f) then Some ErrUnknownFrameType
      else if length (Payload f) > MaxPayload then Some ErrPayloadTooLarge
      else if isMetadataFrame (FType f) \<and> length (Payload f) > MaxMetadataPayload then Some ErrPayloadTooLarge
      else if FType f = FrameOpenResult \<and> length (Payload f) > MaxOpenResultPayload then Some ErrPayloadTooLarge
      else if StreamID f = 0 \<and> FType f \<noteq> FrameGoAway \<and> FType f \<noteq> FramePing \<and> FType f \<noteq> FramePong
              \<and> \<not> isMetadataFrame (FType f) \<and> \<not> isTraceFrame (FType f) then Some ErrInvalidFrame
      else if FType f = FrameWindowUpdate \<and> Window f = 0 then Some ErrInvalidFrame
      else None)"

section \<open>Flow-control windows\<close>

abbreviation (input) MaxStreamFrame :: nat where "MaxStreamFrame \<equiv> 32768"
abbreviation (input) DefaultServerReceiveWindow :: nat where "DefaultServerReceiveWindow \<equiv> 16 * MaxStreamFrame"
abbreviation (input) DefaultAgentReceiveWindow :: nat where "DefaultAgentReceiveWindow \<equiv> 262144"
abbreviation (input) DefaultWindowUpdateThreshold :: nat where "DefaultWindowUpdateThreshold \<equiv> 131072"
abbreviation (input) MinRefillableWindow :: nat where
  "MinRefillableWindow \<equiv> DefaultWindowUpdateThreshold + MaxStreamFrame"

definition ShouldFlushWindowUpdate :: "uint32 \<Rightarrow> uint32 \<Rightarrow> uint32 \<Rightarrow> bool" where
  "ShouldFlushWindowUpdate remaining unacked threshold =
     (if unacked = 0 then False
      else unacked \<ge> threshold \<or> remaining < of_nat MaxStreamFrame)"

definition NegotiateReceiveWindow :: "uint32 \<Rightarrow> uint32" where
  "NegotiateReceiveWindow advertised =
     (if advertised < of_nat MinRefillableWindow \<or> advertised > of_nat DefaultServerReceiveWindow
      then of_nat DefaultServerReceiveWindow else advertised)"

section \<open>Version and feature negotiation\<close>

record capability_hello =
  Versions :: "byte list"
  Features :: "string list"

record negotiated_capabilities =
  NVersion :: byte
  NFeatures :: "string list"

text \<open>The loop over the client's versions keeps the largest one that the server lists as well.\<close>

definition select_version :: "byte list \<Rightarrow> byte list \<Rightarrow> byte" where
  "select_version server client =
     foldl (\<lambda>selected v. if v \<in> set server \<and> v > selected then v else selected) 0 client"

text \<open>The loop over the client's features, with the set of features already taken.\<close>

fun common_features :: "string list \<Rightarrow> string list \<Rightarrow> string list \<Rightarrow> string list" where
  "common_features server seen [] = []"
| "common_features server seen (f # fs) =
     (if f \<in> set server \<and> f \<notin> set seen then f # common_features server (f # seen) fs
      else common_features server seen fs)"

definition NegotiateCapabilities ::
  "capability_hello \<Rightarrow> capability_hello \<Rightarrow> protocol_error + negotiated_capabilities" where
  "NegotiateCapabilities client server =
     (let selected = select_version (Versions server) (Versions client) in
      if selected = 0 then Inl ErrNoCommonVersion
      else Inr \<lparr>NVersion = selected, NFeatures = sort (common_features (Features server) [] (Features client))\<rparr>)"

section \<open>Subprotocol selection\<close>

definition SubprotocolLegacy :: string where "SubprotocolLegacy = ''tunnelmesh.v1''"
definition SubprotocolOpenResult :: string where "SubprotocolOpenResult = ''tunnelmesh.v1.open-result''"
definition SubprotocolFlowControl :: string where
  "SubprotocolFlowControl = ''tunnelmesh.v1.open-result.flow-control''"
definition SubprotocolClientMetadata :: string where
  "SubprotocolClientMetadata = ''tunnelmesh.v1.open-result.flow-control.metadata''"

definition ClientSubprotocols :: "string list" where
  "ClientSubprotocols =
     [SubprotocolClientMetadata, SubprotocolFlowControl, SubprotocolOpenResult, SubprotocolLegacy]"

definition normalize_offers :: "string list \<Rightarrow> string list" where
  "normalize_offers offered =
     filter (\<lambda>v. v \<noteq> []) (map TrimSpace (concat (map (Split CHR '','') offered)))"

definition SelectSubprotocol :: "string list \<Rightarrow> string \<times> bool" where
  "SelectSubprotocol offered =
     (let normalized = normalize_offers offered in
      case find (\<lambda>candidate. candidate \<in> set normalized)
             [SubprotocolClientMetadata, SubprotocolFlowControl, SubprotocolOpenResult] of
        Some candidate \<Rightarrow> (candidate, True)
      | None \<Rightarrow> if SubprotocolLegacy \<in> set normalized then (SubprotocolLegacy, False) else ([], False))"

section \<open>Open results\<close>

record open_result =
  Accepted :: bool
  Stage :: string
  Code :: string
  Retryable :: bool
  RetryAfterMS :: int

definition open_result_stages :: "string list" where
  "open_result_stages =
     [''authorization'', ''selection'', ''relay'', ''queue'', ''dns'', ''connect'', ''policy'', ''protocol'']"

definition open_result_codes :: "string list" where
  "open_result_codes =
     [''ok'', ''forbidden'', ''agent_offline'', ''queue_full'', ''timeout'', ''network_unreachable'',
      ''host_unreachable'', ''connection_refused'', ''unsupported_capability'', ''internal_error'']"

definition validate_open_result :: "open_result \<Rightarrow> protocol_error option" where
  "validate_open_result p =
     (if Stage p \<notin> set open_result_stages then Some ErrInvalidFrame
      else if Code p \<notin> set open_result_codes then Some ErrInvalidFrame
      else if Accepted p \<noteq> (Code p = ''ok'') then Some ErrInvalidFrame
      else if RetryAfterMS p < 0 then Some ErrInvalidFrame
      else None)"

definition EncodeOpenResultPayload :: "(open_result \<Rightarrow> bytes option) \<Rightarrow> open_result \<Rightarrow> protocol_error + bytes" where
  "EncodeOpenResultPayload marshal p =
     (case validate_open_result p of Some e \<Rightarrow> Inl e
      | None \<Rightarrow>
        (case marshal p of None \<Rightarrow> Inl ErrJSON
         | Some encoded \<Rightarrow> if length encoded > MaxOpenResultPayload then Inl ErrPayloadTooLarge else Inr encoded))"

definition DecodeOpenResultPayload :: "(bytes \<Rightarrow> open_result option) \<Rightarrow> bytes \<Rightarrow> protocol_error + open_result" where
  "DecodeOpenResultPayload unmarshal encoded =
     (if length encoded > MaxOpenResultPayload then Inl ErrPayloadTooLarge
      else (case unmarshal encoded of None \<Rightarrow> Inl ErrJSON
            | Some p \<Rightarrow> (case validate_open_result p of Some e \<Rightarrow> Inl e | None \<Rightarrow> Inr p)))"

definition openResultFailure :: "string \<Rightarrow> string \<Rightarrow> open_result" where
  "openResultFailure stage code =
     \<lparr>Accepted = False, Stage = stage, Code = code,
      Retryable = (code = ''queue_full'' \<or> code = ''timeout''), RetryAfterMS = 0\<rparr>"

section \<open>Datagrams\<close>

definition MaxDatagram :: nat where "MaxDatagram = 64 * 1024"

record udp_association =
  maxDatagram :: nat

definition NewUDPAssociation :: "int \<Rightarrow> udp_association" where
  "NewUDPAssociation m =
     \<lparr>maxDatagram = (if m \<le> 0 \<or> m > int MaxDatagram then MaxDatagram else nat m)\<rparr>"

definition EncodeDatagram :: "udp_association \<Rightarrow> bytes \<Rightarrow> protocol_error + bytes" where
  "EncodeDatagram a payload =
     (if length payload > maxDatagram a then Inl ErrDatagramTooLarge else Inr payload)"

definition DecodeDatagram :: "udp_association \<Rightarrow> bytes \<Rightarrow> protocol_error + bytes" where
  "DecodeDatagram a payload =
     (if length payload > maxDatagram a then Inl ErrDatagramTooLarge else Inr payload)"

section \<open>Facts\<close>

lemma Validate_None_iff:
  "Validate f = None \<longleftrightarrow>
     Version f = CurrentVersion \<and> knownFrameType (FType f)
     \<and> length (Payload f) \<le> MaxPayload
     \<and> (isMetadataFrame (FType f) \<longrightarrow> length (Payload f) \<le> MaxMetadataPayload)
     \<and> (FType f = FrameOpenResult \<longrightarrow> length (Payload f) \<le> MaxOpenResultPayload)
     \<and> (StreamID f = 0 \<longrightarrow> FType f \<in> {FrameGoAway, FramePing, FramePong} \<or> isMetadataFrame (FType f) \<or> isTraceFrame (FType f))
     \<and> (FType f = FrameWindowUpdate \<longrightarrow> Window f \<noteq> 0)"
  by (auto simp: Validate_def not_less)

lemma Validate_payload: "Validate f = None \<Longrightarrow> length (Payload f) \<le> MaxPayload"
  by (simp add: Validate_None_iff)

lemma NegotiateReceiveWindow_range:
  "MinRefillableWindow \<le> unat (NegotiateReceiveWindow w) \<and> unat (NegotiateReceiveWindow w) \<le> DefaultServerReceiveWindow"
  by (simp add: NegotiateReceiveWindow_def word_less_nat_alt)

lemma NegotiateReceiveWindow_id:
  "MinRefillableWindow \<le> unat w \<Longrightarrow> unat w \<le> DefaultServerReceiveWindow \<Longrightarrow> NegotiateReceiveWindow w = w"
  by (simp add: NegotiateReceiveWindow_def word_less_nat_alt)

lemma ShouldFlush_iff:
  "ShouldFlushWindowUpdate r u t \<longleftrightarrow> 0 < unat u \<and> (unat t \<le> unat u \<or> unat r < MaxStreamFrame)"
  by (auto simp: ShouldFlushWindowUpdate_def word_less_nat_alt word_le_nat_alt unat_gt_0)

lemma select_version_acc:
  "foldl (\<lambda>sel v. if v \<in> S \<and> v > sel then v else sel) a vs = Max (insert a (set vs \<inter> S))"
proof (induction vs arbitrary: a)
  case Nil
  then show ?case by simp
next
  case (Cons v vs)
  have "Max (insert (max a v) (set vs \<inter> S)) = Max (insert a (insert v (set vs \<inter> S)))"
    by (cases "set vs \<inter> S = {}") (simp_all add: max.assoc)
  then show ?case
    by (cases "v \<in> S"; cases "a < v") (simp_all add: Cons.IH Int_insert_left max_absorb1 max_absorb2)
qed

lemma select_version_Max: "select_version server client = Max (insert 0 (set client \<inter> set server))"
  by (simp add: select_version_def select_version_acc)

lemma set_common_features: "set (common_features server seen fs) = (set fs \<inter> set server) - set seen"
  by (induction fs arbitrary: seen) auto

lemma distinct_common_features: "distinct (common_features server seen fs)"
  by (induction fs arbitrary: seen) (auto simp: set_common_features)

lemma openResultFailure_valid:
  "stage \<in> set open_result_stages \<Longrightarrow> code \<in> set open_result_codes \<Longrightarrow> code \<noteq> ''ok'' \<Longrightarrow>
   validate_open_result (openResultFailure stage code) = None"
  by (simp add: validate_open_result_def openResultFailure_def)

end
