(* ===== verification/Codec.thy ===== *)
theory Codec
  imports Frame
begin

text \<open>
  The three byte formats of \<^verbatim>\<open>internal/protocol\<close>: frames (\<^verbatim>\<open>codec.go\<close>), the agent preface (\<^verbatim>\<open>preface.go\<close>) and the
  output records of a script run (\<^verbatim>\<open>exec.go\<close>). Writers go through a model of \<^verbatim>\<open>io.Writer\<close>, readers consume the byte
  list the peer sent. Each format is an instance of the interface \<^verbatim>\<open>self_delimiting\<close>: reading back gives the written
  values, the encodings are prefix free, and a reader never takes a byte beyond the value it returns.
\<close>

section \<open>Writers\<close>

text \<open>
  \<^verbatim>\<open>w.Write(p)\<close> returns how many bytes it took and an error, and leaves the writer in a new state. The caller's
  slice expression \<^verbatim>\<open>p[n:]\<close> panics when a broken writer reports more bytes than it was given.
\<close>

type_synonym ('w, 'e) writer = "'w \<Rightarrow> bytes \<Rightarrow> nat \<times> 'e option \<times> 'w"

datatype 'e write_error = ErrShortWrite | ErrWrite 'e | PanicSliceBounds | ErrFrame protocol_error

function writeFull :: "('w, 'e) writer \<Rightarrow> 'w \<Rightarrow> bytes \<Rightarrow> 'e write_error option \<times> 'w" where
  "writeFull Write w p =
     (if p = [] then (None, w)
      else (case Write w p of (n, err, w') \<Rightarrow>
        if n > length p then (Some PanicSliceBounds, w')
        else (case err of Some e \<Rightarrow> (Some (ErrWrite e), w')
              | None \<Rightarrow> if n = 0 then (Some ErrShortWrite, w') else writeFull Write w' (drop n p))))"
  by pat_completeness auto
termination
  by (relation "measure (\<lambda>(_, _, p). length p)") auto

declare writeFull.simps [simp del]

text \<open>A \<^verbatim>\<open>bytes.Buffer\<close> takes everything and never fails.\<close>

definition buffer_write :: "(bytes, 'e) writer" where
  "buffer_write b p = (length p, None, b @ p)"

text \<open>
  A writer that stores what it takes and may take only part of it: \<open>chunk\<close> says how much it takes of a slice.
\<close>

definition chunk_write :: "(nat \<Rightarrow> nat) \<Rightarrow> (bytes, 'e) writer" where
  "chunk_write chunk b p = (let n = min (length p) (chunk (length p)) in (n, None, b @ take n p))"

lemma writeFull_chunks:
  assumes "\<And>n. 0 < n \<Longrightarrow> 0 < chunk n"
  shows "writeFull (chunk_write chunk :: (bytes, 'e) writer) b p = (None, b @ p)"
proof (induction "length p" arbitrary: b p rule: less_induct)
  case less
  show ?case
  proof (cases "p = []")
    case True
    then show ?thesis by (simp add: writeFull.simps)
  next
    case False
    define n where "n = min (length p) (chunk (length p))"
    have n: "0 < n" "n \<le> length p" using assms [of "length p"] False by (auto simp: n_def)
    have "writeFull (chunk_write chunk :: (bytes, 'e) writer) b p = writeFull (chunk_write chunk) (b @ take n p) (drop n p)"
      using False n by (subst writeFull.simps) (simp add: chunk_write_def Let_def n_def [symmetric])
    also have "\<dots> = (None, (b @ take n p) @ drop n p)" by (rule less) (use n False in simp)
    finally show ?thesis by simp
  qed
qed

section \<open>Frames\<close>

abbreviation (input) headerSize :: nat where "headerSize \<equiv> 16"

definition frame_header :: "frame \<Rightarrow> bytes" where
  "frame_header f =
     [Version f, FType f] @ put_be16 (Flags f) @ put_be32 (StreamID f)
     @ put_be32 (of_nat (length (Payload f))) @ put_be32 (Window f)"

definition frame_bytes :: "frame \<Rightarrow> bytes" where
  "frame_bytes f = frame_header f @ Payload f"

text \<open>
  \<open>maxp\<close> is the encoder's \<^verbatim>\<open>MaxPayload\<close> field. A non-positive value is replaced by the default, a larger one is kept,
  but \<open>Validate\<close> bounds the payload as well.
\<close>

definition WriteFrame :: "int \<Rightarrow> ('w, 'e) writer \<Rightarrow> 'w \<Rightarrow> frame \<Rightarrow> 'e write_error option \<times> 'w" where
  "WriteFrame maxp Write w f =
     (let m = (if maxp \<le> 0 then int MaxPayload else maxp) in
      if int (length (Payload f)) > m then (Some (ErrFrame ErrPayloadTooLarge), w)
      else (case Validate f of Some e \<Rightarrow> (Some (ErrFrame e), w)
        | None \<Rightarrow>
          (case writeFull Write w (frame_header f) of
             (Some e, w') \<Rightarrow> (Some e, w')
           | (None, w') \<Rightarrow> if length (Payload f) > 0 then writeFull Write w' (Payload f) else (None, w'))))"

definition effectiveMaxPayload :: "int \<Rightarrow> nat" where
  "effectiveMaxPayload maxp = (if maxp \<le> 0 \<or> maxp > int MaxPayload then MaxPayload else nat maxp)"

definition frame_of_header :: "bytes \<Rightarrow> frame \<times> uint32" where
  "frame_of_header h =
     (\<lparr>Version = h ! 0, FType = h ! 1, Flags = be16 (h ! 2) (h ! 3),
       StreamID = be32 (h ! 4) (h ! 5) (h ! 6) (h ! 7),
       Window = be32 (h ! 12) (h ! 13) (h ! 14) (h ! 15), Payload = []\<rparr>,
      be32 (h ! 8) (h ! 9) (h ! 10) (h ! 11))"

definition readE :: "nat \<Rightarrow> bytes \<Rightarrow> protocol_error + (bytes \<times> bytes)" where
  "readE n bs = (case ReadFull n bs of Inl e \<Rightarrow> Inl (ErrRead e) | Inr r \<Rightarrow> Inr r)"

definition ReadFrame :: "int \<Rightarrow> bytes \<Rightarrow> protocol_error + (frame \<times> bytes)" where
  "ReadFrame maxp bs =
     bindR (readE headerSize bs) (\<lambda>(h, rest).
       let (f, n) = frame_of_header h in
       if Version f \<noteq> CurrentVersion then Inl ErrUnsupportedVersion
       else if \<not> knownFrameType (FType f) then Inl ErrUnknownFrameType
       else if unat n > effectiveMaxPayload maxp then Inl ErrPayloadTooLarge
       else if isMetadataFrame (FType f) \<and> unat n > MaxMetadataPayload then Inl ErrPayloadTooLarge
       else bindR (if unat n > 0 then readE (unat n) rest else Inr ([], rest)) (\<lambda>(payload, rest').
         let f' = f\<lparr>Payload := payload\<rparr> in
         case Validate f' of Some e \<Rightarrow> Inl e | None \<Rightarrow> Inr (f', rest')))"

definition frame_ok :: "int \<Rightarrow> frame \<Rightarrow> bool" where
  "frame_ok maxp f \<longleftrightarrow> Validate f = None \<and> length (Payload f) \<le> effectiveMaxPayload maxp"

lemma readE_iff [simp]: "readE n bs = Inr (p, rest) \<longleftrightarrow> bs = p @ rest \<and> length p = n"
  by (auto simp: readE_def ReadFull_Inr split: sum.splits)

lemma readE_append: "length p = n \<Longrightarrow> readE n (p @ rest) = Inr (p, rest)"
  by simp

lemma effectiveMaxPayload_le: "effectiveMaxPayload maxp \<le> MaxPayload"
  by (auto simp: effectiveMaxPayload_def)

lemma payload_fits: "n \<le> MaxPayload \<Longrightarrow> unat (of_nat n :: uint32) = n"
  by (simp add: MaxPayload_def unat_of_nat)

lemma length_frame_header [simp]: "length (frame_header f) = headerSize"
  by (simp add: frame_header_def)

lemma frame_of_header_frame_header:
  "frame_of_header (frame_header f) = (f\<lparr>Payload := []\<rparr>, of_nat (length (Payload f)))"
  by (simp add: frame_of_header_def frame_header_def put_be16_def put_be32_def)

lemma bytes_of_be16: "put_be16 (be16 a b) = [a, b]"
proof -
  have ab: "unat a < 256" "unat b < 256" using unsigned_less [of a] unsigned_less [of b] by simp_all
  then have "unat (ucast (drop_bit 8 (be16 a b)) :: byte) = unat a" "unat (ucast (be16 a b) :: byte) = unat b"
    by (simp_all add: unsigned_ucast_eq take_bit_eq_mod unat_drop_bit_eq drop_bit_eq_div unat_div be16_unat)
  then show ?thesis by (simp add: put_be16_def word_unat_eq_iff)
qed

lemma be32_fields:
  fixes a b c d :: nat
  assumes "b < 256" "c < 256" "d < 256"
  shows "(a * 16777216 + b * 65536 + c * 256 + d) div 16777216 = a"
    "(a * 16777216 + b * 65536 + c * 256 + d) div 65536 mod 256 = b"
    "(a * 16777216 + b * 65536 + c * 256 + d) div 256 mod 256 = c"
    "(a * 16777216 + b * 65536 + c * 256 + d) mod 256 = d"
proof -
  define u where "u = a * 256 + b"
  define v where "v = u * 256 + c"
  have n: "a * 16777216 + b * 65536 + c * 256 + d = v * 256 + d" by (simp add: u_def v_def)
  have v: "(v * 256 + d) div 256 = v" "(v * 256 + d) mod 256 = d" using assms(3) by simp_all
  have u: "v div 256 = u" "v mod 256 = c" "u div 256 = a" "u mod 256 = b"
    using assms(1,2) by (simp_all add: v_def) (simp_all add: u_def)
  have "(v * 256 + d) div 16777216 = (v * 256 + d) div 256 div 256 div 256"
    "(v * 256 + d) div 65536 = (v * 256 + d) div 256 div 256"
    by (simp_all only: div_mult2_eq [symmetric]) simp_all
  then show "(a * 16777216 + b * 65536 + c * 256 + d) div 16777216 = a"
    "(a * 16777216 + b * 65536 + c * 256 + d) div 65536 mod 256 = b"
    "(a * 16777216 + b * 65536 + c * 256 + d) div 256 mod 256 = c"
    "(a * 16777216 + b * 65536 + c * 256 + d) mod 256 = d"
    unfolding n v(1) u by (simp_all add: u v assms(3))
qed

lemma bytes_of_be32: "put_be32 (be32 a b c d) = [a, b, c, d]"
proof -
  have x: "unat a < 256" "unat b < 256" "unat c < 256" "unat d < 256"
    using unsigned_less [of a] unsigned_less [of b] unsigned_less [of c] unsigned_less [of d] by simp_all
  then have "unat (ucast (drop_bit 24 (be32 a b c d)) :: byte) = unat a"
    "unat (ucast (drop_bit 16 (be32 a b c d)) :: byte) = unat b"
    "unat (ucast (drop_bit 8 (be32 a b c d)) :: byte) = unat c"
    "unat (ucast (be32 a b c d) :: byte) = unat d"
    by (simp_all add: unsigned_ucast_eq take_bit_eq_mod unat_drop_bit_eq drop_bit_eq_div unat_div be32_unat be32_fields)
  then show ?thesis by (simp add: put_be32_def word_unat_eq_iff)
qed

lemma list16:
  assumes "length h = 16"
  shows "h = [h ! 0, h ! 1, h ! 2, h ! 3, h ! 4, h ! 5, h ! 6, h ! 7,
              h ! 8, h ! 9, h ! 10, h ! 11, h ! 12, h ! 13, h ! 14, h ! 15]"
  using assms by (simp add: numeral_eq_Suc length_Suc_conv) (elim exE conjE, simp)

lemma frame_header_of_header:
  assumes "length h = headerSize" "frame_of_header h = (f, n)" "length p = unat n"
  shows "frame_header (f\<lparr>Payload := p\<rparr>) = h"
proof -
  have "frame_header (f\<lparr>Payload := p\<rparr>) =
    [h ! 0, h ! 1] @ put_be16 (be16 (h ! 2) (h ! 3)) @ put_be32 (be32 (h ! 4) (h ! 5) (h ! 6) (h ! 7))
    @ put_be32 (be32 (h ! 8) (h ! 9) (h ! 10) (h ! 11)) @ put_be32 (be32 (h ! 12) (h ! 13) (h ! 14) (h ! 15))"
    using assms(2,3) by (auto simp: frame_of_header_def frame_header_def)
  also have "\<dots> = h"
    by (subst (17) list16 [OF assms(1)]) (simp add: bytes_of_be16 bytes_of_be32)
  finally show ?thesis .
qed

lemma ReadFrame_Inr_iff:
  "ReadFrame maxp bs = Inr (f, rest) \<longleftrightarrow> frame_ok maxp f \<and> bs = frame_bytes f @ rest"
proof
  assume l: "frame_ok maxp f \<and> bs = frame_bytes f @ rest"
  then have v: "Validate f = None" and m: "length (Payload f) \<le> effectiveMaxPayload maxp"
    by (simp_all add: frame_ok_def)
  have n: "unat (of_nat (length (Payload f)) :: uint32) = length (Payload f)"
    using v by (simp add: payload_fits Validate_payload)
  have bs: "readE headerSize bs = Inr (frame_header f, Payload f @ rest)"
    using l by (simp add: frame_bytes_def)
  have k: "Version f = CurrentVersion" "knownFrameType (FType f)"
    "\<not> (isMetadataFrame (FType f) \<and> MaxMetadataPayload < length (Payload f))"
    using v by (auto simp: Validate_None_iff)
  have "ReadFrame maxp bs = bindR (if length (Payload f) > 0 then readE (length (Payload f)) (Payload f @ rest)
      else Inr ([], Payload f @ rest)) (\<lambda>(payload, rest'). let f' = f\<lparr>Payload := payload\<rparr> in
         case Validate f' of Some e \<Rightarrow> Inl e | None \<Rightarrow> Inr (f', rest'))"
    using k m by (auto simp: ReadFrame_def bs frame_of_header_frame_header n not_less)
  moreover have "(if length (Payload f) > 0 then readE (length (Payload f)) (Payload f @ rest)
      else Inr ([], Payload f @ rest)) = Inr (Payload f, rest)"
    by (simp add: readE_append)
  ultimately show "ReadFrame maxp bs = Inr (f, rest)"
    using v by simp
next
  assume r: "ReadFrame maxp bs = Inr (f, rest)"
  then obtain h r1 where h: "bs = h @ r1" "length h = headerSize"
    by (auto simp: ReadFrame_def bindR_Inr_iff)
  obtain f0 n where f0: "frame_of_header h = (f0, n)" by (cases "frame_of_header h")
  from r h f0 obtain p r2 where p: "unat n \<le> effectiveMaxPayload maxp" "Validate (f0\<lparr>Payload := p\<rparr>) = None"
    "f = f0\<lparr>Payload := p\<rparr>" "rest = r2" "(if unat n > 0 then readE (unat n) r1 else Inr ([], r1)) = Inr (p, r2)"
    by (auto simp: ReadFrame_def bindR_Inr_iff readE_append Let_def not_less split: if_splits option.splits)
  then have q: "r1 = p @ r2" "length p = unat n" by (auto split: if_splits)
  show "frame_ok maxp f \<and> bs = frame_bytes f @ rest"
    using p q h frame_header_of_header [OF h(2) f0 q(2)] by (simp add: frame_ok_def frame_bytes_def)
qed

interpretation frames: self_delimiting "frame_ok maxp" frame_bytes "ReadFrame maxp"
  by unfold_locales (simp_all add: ReadFrame_Inr_iff)

definition write_limit :: "int \<Rightarrow> nat" where
  "write_limit maxp = (if maxp \<le> 0 then MaxPayload else nat maxp)"

lemma WriteFrame_chunks:
  assumes "\<And>n. 0 < n \<Longrightarrow> 0 < chunk n"
  shows "WriteFrame maxp (chunk_write chunk) b f =
    (if length (Payload f) > write_limit maxp then (Some (ErrFrame ErrPayloadTooLarge), b)
     else case Validate f of Some e \<Rightarrow> (Some (ErrFrame e), b) | None \<Rightarrow> (None, b @ frame_bytes f))"
  by (auto simp: WriteFrame_def frame_bytes_def Let_def write_limit_def writeFull_chunks [OF assms] split: option.splits)

lemma buffer_write_chunks: "buffer_write = chunk_write id"
  by (simp add: fun_eq_iff buffer_write_def chunk_write_def)

section \<open>The agent preface\<close>

definition prefaceMagic :: bytes where "prefaceMagic = [84, 77, 65, 71]"
abbreviation (input) PrefaceVersion :: byte where "PrefaceVersion \<equiv> 1"
abbreviation (input) MaxPrefaceToken :: nat where "MaxPrefaceToken \<equiv> 2048"
abbreviation (input) prefaceHeaderLen :: nat where "prefaceHeaderLen \<equiv> 8"

datatype preface_error = ErrBadPreface

definition preface_bytes :: "bytes \<Rightarrow> bytes" where
  "preface_bytes token = prefaceMagic @ [PrefaceVersion, 0] @ put_be16 (of_nat (length token)) @ token"

definition WritePreface :: "bytes \<Rightarrow> preface_error + bytes" where
  "WritePreface token =
     (if length token = 0 \<or> length token > MaxPrefaceToken then Inl ErrBadPreface else Inr (preface_bytes token))"

definition ReadPreface :: "bytes \<Rightarrow> preface_error + (bytes \<times> bytes)" where
  "ReadPreface bs =
     (case ReadFull prefaceHeaderLen bs of Inl _ \<Rightarrow> Inl ErrBadPreface
      | Inr (h, rest) \<Rightarrow>
        if take 4 h \<noteq> prefaceMagic \<or> h ! 4 \<noteq> PrefaceVersion \<or> h ! 5 \<noteq> 0 then Inl ErrBadPreface
        else (let n = unat (be16 (h ! 6) (h ! 7)) in
          if n = 0 \<or> n > MaxPrefaceToken then Inl ErrBadPreface
          else (case ReadFull n rest of Inl _ \<Rightarrow> Inl ErrBadPreface | Inr r \<Rightarrow> Inr r)))"

definition token_ok :: "bytes \<Rightarrow> bool" where
  "token_ok token \<longleftrightarrow> length token \<noteq> 0 \<and> length token \<le> MaxPrefaceToken"

lemma ReadPreface_Inr_iff:
  "ReadPreface bs = Inr (token, rest) \<longleftrightarrow> token_ok token \<and> bs = preface_bytes token @ rest"
proof
  assume l: "token_ok token \<and> bs = preface_bytes token @ rest"
  define h where "h = prefaceMagic @ [PrefaceVersion, 0] @ put_be16 (of_nat (length token))"
  have h: "ReadFull prefaceHeaderLen bs = Inr (h, token @ rest)"
    using l by (simp add: ReadFull_Inr h_def preface_bytes_def prefaceMagic_def)
  have "unat (of_nat (length token) :: uint16) = length token"
    using l by (simp add: token_ok_def unat_of_nat)
  then show "ReadPreface bs = Inr (token, rest)"
    using l unfolding ReadPreface_def h by (simp add: h_def prefaceMagic_def put_be16_def token_ok_def)
next
  assume "ReadPreface bs = Inr (token, rest)"
  then obtain h r where h: "bs = h @ r" "length h = prefaceHeaderLen" "take 4 h = prefaceMagic"
      "h ! 4 = PrefaceVersion" "h ! 5 = 0"
    and n: "unat (be16 (h ! 6) (h ! 7)) \<noteq> 0" "unat (be16 (h ! 6) (h ! 7)) \<le> MaxPrefaceToken"
    and t: "r = token @ rest" "length token = unat (be16 (h ! 6) (h ! 7))"
    by (auto simp: ReadPreface_def Let_def ReadFull_Inr split: if_splits sum.splits)
  have "h = take 4 h @ [h ! 4, h ! 5, h ! 6, h ! 7]"
    using h(2) by (simp add: numeral_eq_Suc length_Suc_conv) (elim exE conjE, simp)
  also have "\<dots> = prefaceMagic @ [PrefaceVersion, 0] @ put_be16 (of_nat (length token))"
    by (simp add: h(3-5) t(2) bytes_of_be16)
  finally have "h = prefaceMagic @ [PrefaceVersion, 0] @ put_be16 (of_nat (length token))" .
  then have "bs = preface_bytes token @ rest" unfolding h(1) t(1) preface_bytes_def by (simp only: append.assoc)
  moreover have "token_ok token" unfolding token_ok_def t(2) using n by blast
  ultimately show "token_ok token \<and> bs = preface_bytes token @ rest" by blast
qed

interpretation prefaces: self_delimiting token_ok preface_bytes ReadPreface
  by unfold_locales (simp_all add: ReadPreface_Inr_iff)

section \<open>Output records of a script run\<close>

abbreviation (input) MaxExecRecordPayload :: nat where "MaxExecRecordPayload \<equiv> 65536"

datatype exec_error = ErrInvalidExecRecord | ErrExecRead io_error

definition exec_record_bytes :: "byte \<times> bytes \<Rightarrow> bytes" where
  "exec_record_bytes r = [fst r] @ put_be32 (of_nat (length (snd r))) @ snd r"

definition WriteExecRecord :: "byte \<Rightarrow> bytes \<Rightarrow> exec_error + bytes" where
  "WriteExecRecord kind payload =
     (if length payload > MaxExecRecordPayload then Inl ErrInvalidExecRecord
      else Inr (exec_record_bytes (kind, payload)))"

definition ReadExecRecord :: "bytes \<Rightarrow> exec_error + ((byte \<times> bytes) \<times> bytes)" where
  "ReadExecRecord bs =
     (case ReadFull 5 bs of Inl e \<Rightarrow> Inl (ErrExecRead e)
      | Inr (h, rest) \<Rightarrow>
        (let n = unat (be32 (h ! 1) (h ! 2) (h ! 3) (h ! 4)) in
         if n > MaxExecRecordPayload then Inl ErrInvalidExecRecord
         else (case ReadFull n rest of Inl e \<Rightarrow> Inl (ErrExecRead e)
               | Inr (payload, rest') \<Rightarrow> Inr ((h ! 0, payload), rest'))))"

definition exec_record_ok :: "byte \<times> bytes \<Rightarrow> bool" where
  "exec_record_ok r \<longleftrightarrow> length (snd r) \<le> MaxExecRecordPayload"

lemma ReadExecRecord_Inr_iff:
  "ReadExecRecord bs = Inr (r, rest) \<longleftrightarrow> exec_record_ok r \<and> bs = exec_record_bytes r @ rest"
proof
  assume l: "exec_record_ok r \<and> bs = exec_record_bytes r @ rest"
  define h where "h = [fst r] @ put_be32 (of_nat (length (snd r)))"
  have h: "ReadFull 5 bs = Inr (h, snd r @ rest)"
    using l by (simp add: ReadFull_Inr h_def exec_record_bytes_def)
  have "unat (of_nat (length (snd r)) :: uint32) = length (snd r)"
    using l by (simp add: exec_record_ok_def unat_of_nat)
  then show "ReadExecRecord bs = Inr (r, rest)"
    using l unfolding ReadExecRecord_def h by (simp add: h_def put_be32_def exec_record_ok_def)
next
  assume "ReadExecRecord bs = Inr (r, rest)"
  then obtain h u where h: "bs = h @ u" "length h = 5" "fst r = h ! 0"
    and n: "unat (be32 (h ! 1) (h ! 2) (h ! 3) (h ! 4)) \<le> MaxExecRecordPayload"
    and t: "u = snd r @ rest" "length (snd r) = unat (be32 (h ! 1) (h ! 2) (h ! 3) (h ! 4))"
    by (auto simp: ReadExecRecord_def Let_def ReadFull_Inr split: if_splits sum.splits)
  have "h = [h ! 0, h ! 1, h ! 2, h ! 3, h ! 4]"
    using h(2) by (simp add: numeral_eq_Suc length_Suc_conv) (elim exE conjE, simp)
  also have "\<dots> = [fst r] @ put_be32 (of_nat (length (snd r)))"
    by (simp add: h(3) t(2) bytes_of_be32)
  finally have "h = [fst r] @ put_be32 (of_nat (length (snd r)))" .
  then have "bs = exec_record_bytes r @ rest" unfolding h(1) t(1) exec_record_bytes_def by (simp only: append.assoc)
  moreover have "exec_record_ok r" unfolding exec_record_ok_def t(2) by (rule n)
  ultimately show "exec_record_ok r \<and> bs = exec_record_bytes r @ rest" by blast
qed

interpretation exec_records: self_delimiting exec_record_ok exec_record_bytes ReadExecRecord
  by unfold_locales (simp_all add: ReadExecRecord_Inr_iff)

section \<open>Properties\<close>

text \<open>A sender writes frames one after the other on a connection; the first failure ends it.\<close>

fun WriteFrames :: "int \<Rightarrow> ('w, 'e) writer \<Rightarrow> 'w \<Rightarrow> frame list \<Rightarrow> 'e write_error option \<times> 'w" where
  "WriteFrames maxp Write w [] = (None, w)"
| "WriteFrames maxp Write w (f # fs) =
     (case WriteFrame maxp Write w f of (None, w') \<Rightarrow> WriteFrames maxp Write w' fs | (Some e, w') \<Rightarrow> (Some e, w'))"

lemma WriteFrames_chunks:
  assumes "\<And>n. 0 < n \<Longrightarrow> 0 < chunk n" "\<forall>f\<in>set fs. frame_ok maxp f"
  shows "WriteFrames maxp (chunk_write chunk) b fs = (None, b @ concat (map frame_bytes fs))"
  using assms(2)
proof (induction fs arbitrary: b)
  case Nil
  then show ?case by simp
next
  case (Cons f fs)
  then have f: "Validate f = None" "length (Payload f) \<le> effectiveMaxPayload maxp" by (simp_all add: frame_ok_def)
  then have "length (Payload f) \<le> write_limit maxp"
    by (auto simp: effectiveMaxPayload_def write_limit_def le_nat_iff split: if_splits)
  with f Cons show ?case by (simp add: WriteFrame_chunks [of chunk, OF assms(1)])
qed

definition sample_frames :: "frame list" where
  "sample_frames =
     [\<lparr>Version = 1, FType = FrameData, Flags = 0, StreamID = 7, Window = 0, Payload = [1, 2, 3]\<rparr>,
      \<lparr>Version = 1, FType = FrameHalfClose, Flags = 0, StreamID = 7, Window = 0, Payload = []\<rparr>]"

text \<open>
  C9. Frames that validate and fit the payload limit survive the wire: whatever partial writes the connection makes, a
  receiver that reads the bytes written gets the same frames in the same order, and no byte is left over.
\<close>

theorem frames_survive_the_wire:
  assumes "\<And>n. 0 < n \<Longrightarrow> 0 < chunk n" and "\<forall>f\<in>set fs. frame_ok maxp f"
  shows "\<exists>bs. WriteFrames maxp (chunk_write chunk :: (bytes, 'e) writer) [] fs = (None, bs)
    \<and> drain (length fs) (ReadFrame maxp) bs = (fs, [])"
proof (intro exI conjI)
  show "WriteFrames maxp (chunk_write chunk :: (bytes, 'e) writer) [] fs = (None, concat (map frame_bytes fs))"
    using WriteFrames_chunks [of chunk fs maxp "[]", OF assms] by simp
  show "drain (length fs) (ReadFrame maxp) (concat (map frame_bytes fs)) = (fs, [])"
    using frames.drain_concat [OF assms(2), of "[]"] by simp
qed

theorem frames_survive_the_wire_witness:
  "\<exists>bs. WriteFrames 8 (chunk_write (\<lambda>n. 1) :: (bytes, io_error) writer) [] sample_frames = (None, bs)
    \<and> drain (length sample_frames) (ReadFrame 8) bs = (sample_frames, [])"
  by (rule frames_survive_the_wire)
    (simp_all add: sample_frames_def frame_ok_def Validate_None_iff effectiveMaxPayload_def knownFrameType_def
      isMetadataFrame_def isTraceFrame_def MaxPayload_def MaxMetadataPayload_def MaxOpenResultPayload_def)

text \<open>
  The decoder is exact: it returns a frame and the unread rest if and only if the input is the encoding of that
  frame followed by that rest and the frame validates within the limit. So the decoder accepts one spelling per frame,
  reads no byte beyond it, and never delivers a frame that \<^verbatim>\<open>Validate\<close> rejects.
\<close>

lemma frame_decoder_exact:
  "ReadFrame maxp bs = Inr (f, rest) \<longleftrightarrow>
     Validate f = None \<and> length (Payload f) \<le> effectiveMaxPayload maxp \<and> bs = frame_bytes f @ rest"
  by (simp add: ReadFrame_Inr_iff frame_ok_def)

text \<open>
  A declared length beyond the limit is refused on the header alone: the answer does not depend on anything after
  the first sixteen bytes, so nothing is allocated or read for it.
\<close>

lemma frame_length_checked_first:
  assumes "length h = headerSize" and "frame_of_header h = (f, n)"
    and "unat n > effectiveMaxPayload maxp \<or> isMetadataFrame (FType f) \<and> unat n > MaxMetadataPayload"
  shows "\<exists>e\<in>{ErrUnsupportedVersion, ErrUnknownFrameType, ErrPayloadTooLarge}. \<forall>rest. ReadFrame maxp (h @ rest) = Inl e"
  using assms by (auto simp: ReadFrame_def readE_append)

text \<open>
  The agent preface: what \<^verbatim>\<open>WritePreface\<close> emits is what \<^verbatim>\<open>ReadPreface\<close> accepts, for exactly the tokens of 1 to 2048
  bytes, and the bytes of the first frame after the token are left for the frame decoder.
\<close>

lemma preface_exact:
  "ReadPreface bs = Inr (token, rest) \<longleftrightarrow> (\<exists>out. WritePreface token = Inr out \<and> bs = out @ rest)"
  by (auto simp: ReadPreface_Inr_iff WritePreface_def token_ok_def)

text \<open>
  The output of a script run: any sequence of records that fit the limit is accepted by the writer and, from the
  concatenated bytes, read back record by record with the bytes that follow left untouched.
\<close>

lemma exec_records_roundtrip:
  assumes "\<forall>r\<in>set rs. length (snd r) \<le> MaxExecRecordPayload"
  shows "map (\<lambda>r. WriteExecRecord (fst r) (snd r)) rs = map (\<lambda>r. Inr (exec_record_bytes r)) rs
    \<and> drain (length rs) ReadExecRecord (concat (map exec_record_bytes rs) @ rest) = (rs, rest)"
  using assms by (auto simp: exec_records.drain_concat exec_record_ok_def WriteExecRecord_def)

end
