(* ===== verification/Payloads.thy ===== *)
theory Payloads
  imports Codec
begin

text \<open>
  The structured payloads that frames carry: metadata snapshots and acknowledgements of agents and clients
  (\<^verbatim>\<open>frame.go\<close>), stream opening (\<^verbatim>\<open>stream_open.go\<close>), echo requests and replies (\<^verbatim>\<open>icmp.go\<close>), script headers (\<^verbatim>\<open>exec.go\<close>) and
  signed trace hops (\<^verbatim>\<open>traceroute.go\<close>). \<^verbatim>\<open>json.Marshal\<close> and \<^verbatim>\<open>json.Unmarshal\<close> at the payload's type are arguments of the
  definitions (\<open>None\<close> is their error return), and so is the keyed hash of the trace signature. Points in time are
  nanosecond counts.
\<close>

section \<open>Payload types\<close>

record agent_metadata_item =
  ami_Name :: string
  ami_Source :: string
  ami_Value :: string

record metadata_error =
  me_Name :: string
  me_Code :: string
  me_Message :: string

record agent_metadata_payload =
  amp_AgentID :: string
  amp_InstanceID :: string
  amp_ConnectionID :: string
  amp_NodeID :: string
  amp_Epoch :: int
  amp_Revision :: uint64
  amp_ReportedAt :: int
  amp_Items :: "agent_metadata_item list"
  amp_Errors :: "metadata_error list"
  amp_Capabilities :: "string list"

record agent_metadata_ack_payload =
  ama_AgentID :: string
  ama_Epoch :: int
  ama_Revision :: uint64
  ama_Accepted :: bool
  ama_Idempotent :: bool
  ama_ConnectionPoolSupported :: bool
  ama_MaxConnectionsPerAgent :: int
  ama_Errors :: "metadata_error list"
  ama_Capabilities :: "string list"
  ama_ServerVersion :: string

record client_metadata_item =
  cmi_Name :: string
  cmi_Source :: string
  cmi_Value :: string
  cmi_Redacted :: bool

record client_listener =
  cl_Protocol :: string
  cl_ListenAddress :: string
  cl_AgentID :: string
  cl_Enabled :: bool

record client_metadata_payload =
  cmp_InstanceID :: string
  cmp_ConnectionSlot :: int
  cmp_AgentIDs :: "string list"
  cmp_Version :: string
  cmp_Commit :: string
  cmp_Platform :: string
  cmp_Hostname :: string
  cmp_ProcessStartAt :: int
  cmp_ReportedAt :: int
  cmp_Revision :: uint64
  cmp_Listeners :: "client_listener list"
  cmp_Items :: "client_metadata_item list"
  cmp_Capabilities :: "string list"
  cmp_Errors :: "metadata_error list"

record client_metadata_ack_payload =
  cma_ClientInstanceID :: string
  cma_InstanceID :: string
  cma_ConnectionID :: string
  cma_Revision :: uint64
  cma_Accepted :: bool
  cma_Idempotent :: bool
  cma_Errors :: "metadata_error list"
  cma_ServerVersion :: string

record stream_open_payload =
  so_AgentID :: string
  so_Protocol :: string
  so_TargetHost :: string
  so_TargetPort :: int
  so_TargetScheme :: string
  so_HostHeader :: string
  so_TLSServerName :: string
  so_Metadata :: bytes

record icmp_echo_request =
  ier_CorrelationID :: string
  ier_Identifier :: uint16
  ier_Sequence :: uint16
  ier_Data :: bytes

record icmp_echo_reply =
  iep_CorrelationID :: string
  iep_Identifier :: uint16
  iep_Sequence :: uint16
  iep_Data :: bytes
  iep_Status :: string
  iep_RTTMillis :: int

record exec_header =
  TimeoutSeconds :: int
  ScriptBytes :: int

section \<open>Bounded JSON encodings\<close>

text \<open>The guard that the encoders and decoders share; \<open>too_large\<close> is the error they return for an oversized text.\<close>

definition encode_bounded :: "nat \<Rightarrow> protocol_error \<Rightarrow> ('a \<Rightarrow> bytes option) \<Rightarrow> 'a \<Rightarrow> protocol_error + bytes" where
  "encode_bounded limit too_large marshal v =
     (case marshal v of None \<Rightarrow> Inl ErrJSON
      | Some encoded \<Rightarrow> if length encoded > limit then Inl too_large else Inr encoded)"

definition decode_bounded :: "nat \<Rightarrow> protocol_error \<Rightarrow> (bytes \<Rightarrow> 'a option) \<Rightarrow> bytes \<Rightarrow> protocol_error + 'a" where
  "decode_bounded limit too_large unmarshal encoded =
     (if length encoded > limit then Inl too_large
      else (case unmarshal encoded of None \<Rightarrow> Inl ErrJSON | Some v \<Rightarrow> Inr v))"

definition EncodeAgentMetadataPayload ::
  "(agent_metadata_payload \<Rightarrow> bytes option) \<Rightarrow> agent_metadata_payload \<Rightarrow> protocol_error + bytes" where
  "EncodeAgentMetadataPayload = encode_bounded MaxMetadataPayload ErrPayloadTooLarge"

definition DecodeAgentMetadataPayload ::
  "(bytes \<Rightarrow> agent_metadata_payload option) \<Rightarrow> bytes \<Rightarrow> protocol_error + agent_metadata_payload" where
  "DecodeAgentMetadataPayload = decode_bounded MaxMetadataPayload ErrPayloadTooLarge"

definition EncodeAgentMetadataAckPayload ::
  "(agent_metadata_ack_payload \<Rightarrow> bytes option) \<Rightarrow> agent_metadata_ack_payload \<Rightarrow> protocol_error + bytes" where
  "EncodeAgentMetadataAckPayload = encode_bounded MaxMetadataPayload ErrPayloadTooLarge"

definition DecodeAgentMetadataAckPayload ::
  "(bytes \<Rightarrow> agent_metadata_ack_payload option) \<Rightarrow> bytes \<Rightarrow> protocol_error + agent_metadata_ack_payload" where
  "DecodeAgentMetadataAckPayload = decode_bounded MaxMetadataPayload ErrPayloadTooLarge"

definition EncodeClientMetadataPayload ::
  "(client_metadata_payload \<Rightarrow> bytes option) \<Rightarrow> client_metadata_payload \<Rightarrow> protocol_error + bytes" where
  "EncodeClientMetadataPayload = encode_bounded MaxMetadataPayload ErrPayloadTooLarge"

definition DecodeClientMetadataPayload ::
  "(bytes \<Rightarrow> client_metadata_payload option) \<Rightarrow> bytes \<Rightarrow> protocol_error + client_metadata_payload" where
  "DecodeClientMetadataPayload = decode_bounded MaxMetadataPayload ErrPayloadTooLarge"

definition EncodeClientMetadataAckPayload ::
  "(client_metadata_ack_payload \<Rightarrow> bytes option) \<Rightarrow> client_metadata_ack_payload \<Rightarrow> protocol_error + bytes" where
  "EncodeClientMetadataAckPayload = encode_bounded MaxMetadataPayload ErrPayloadTooLarge"

definition DecodeClientMetadataAckPayload ::
  "(bytes \<Rightarrow> client_metadata_ack_payload option) \<Rightarrow> bytes \<Rightarrow> protocol_error + client_metadata_ack_payload" where
  "DecodeClientMetadataAckPayload = decode_bounded MaxMetadataPayload ErrPayloadTooLarge"

definition EncodeStreamOpenPayload ::
  "(stream_open_payload \<Rightarrow> bytes option) \<Rightarrow> stream_open_payload \<Rightarrow> protocol_error + bytes" where
  "EncodeStreamOpenPayload = encode_bounded MaxPayload ErrPayloadTooLarge"

definition DecodeStreamOpenPayload ::
  "(bytes \<Rightarrow> stream_open_payload option) \<Rightarrow> bytes \<Rightarrow> protocol_error + stream_open_payload" where
  "DecodeStreamOpenPayload = decode_bounded MaxPayload ErrPayloadTooLarge"

section \<open>Echo messages\<close>

definition ICMPEchoStatuses :: "string list" where
  "ICMPEchoStatuses = [''ok'', ''timeout'', ''capacity_exhausted'', ''unreachable'', ''unsupported'', ''cancelled'']"

definition isICMPEchoStatus :: "string \<Rightarrow> bool" where
  "isICMPEchoStatus status \<longleftrightarrow> (\<exists>candidate\<in>set ICMPEchoStatuses. candidate = status)"

definition EncodeICMPEchoRequest ::
  "(icmp_echo_request \<Rightarrow> bytes option) \<Rightarrow> icmp_echo_request \<Rightarrow> protocol_error + bytes" where
  "EncodeICMPEchoRequest = encode_bounded MaxDatagram ErrDatagramTooLarge"

definition DecodeICMPEchoRequest ::
  "(bytes \<Rightarrow> icmp_echo_request option) \<Rightarrow> bytes \<Rightarrow> protocol_error + icmp_echo_request" where
  "DecodeICMPEchoRequest unmarshal encoded =
     bindR (decode_bounded MaxDatagram ErrDatagramTooLarge unmarshal encoded) (\<lambda>request.
       if TrimSpace (ier_CorrelationID request) = [] then Inl ErrInvalidICMPEcho else Inr request)"

definition EncodeICMPEchoReply ::
  "(icmp_echo_reply \<Rightarrow> bytes option) \<Rightarrow> icmp_echo_reply \<Rightarrow> protocol_error + bytes" where
  "EncodeICMPEchoReply = encode_bounded MaxDatagram ErrDatagramTooLarge"

definition DecodeICMPEchoReply ::
  "(bytes \<Rightarrow> icmp_echo_reply option) \<Rightarrow> bytes \<Rightarrow> protocol_error + icmp_echo_reply" where
  "DecodeICMPEchoReply unmarshal encoded =
     bindR (decode_bounded MaxDatagram ErrDatagramTooLarge unmarshal encoded) (\<lambda>reply.
       if TrimSpace (iep_CorrelationID reply) = [] then Inl ErrInvalidICMPEcho
       else if \<not> isICMPEchoStatus (iep_Status reply) then Inl ErrInvalidICMPEcho
       else Inr reply)"

section \<open>Script headers\<close>

abbreviation (input) MaxExecHeaderBytes :: nat where "MaxExecHeaderBytes \<equiv> 1024"

datatype exec_header_error = ErrInvalidExecHeader | ErrExecJSON

definition EncodeExecHeader :: "(exec_header \<Rightarrow> bytes option) \<Rightarrow> exec_header \<Rightarrow> exec_header_error + bytes" where
  "EncodeExecHeader marshal h =
     (if TimeoutSeconds h < 0 \<or> ScriptBytes h < 0 then Inl ErrInvalidExecHeader
      else (case marshal h of None \<Rightarrow> Inl ErrExecJSON
        | Some body \<Rightarrow> if length body > MaxExecHeaderBytes then Inl ErrInvalidExecHeader
                      else Inr (put_be32 (of_nat (length body)) @ body)))"

text \<open>\<open>Inr None\<close> is the return with \<^verbatim>\<open>consumed == 0\<close> and no error: the buffer is still short.\<close>

definition ParseExecHeader ::
  "(bytes \<Rightarrow> exec_header option) \<Rightarrow> bytes \<Rightarrow> exec_header_error + (exec_header \<times> nat) option" where
  "ParseExecHeader unmarshal buf =
     (if length buf < 4 then Inr None
      else (let len = unat (be32 (buf ! 0) (buf ! 1) (buf ! 2) (buf ! 3)) in
        if len = 0 \<or> len > MaxExecHeaderBytes then Inl ErrInvalidExecHeader
        else if length buf < 4 + len then Inr None
        else (case unmarshal (take len (drop 4 buf)) of None \<Rightarrow> Inl ErrInvalidExecHeader
          | Some h \<Rightarrow> if TimeoutSeconds h < 0 \<or> ScriptBytes h < 0 then Inl ErrInvalidExecHeader
                      else Inr (Some (h, 4 + len)))))"

lemma decode_encode_bounded:
  assumes "\<And>b. marshal v = Some b \<Longrightarrow> unmarshal b = Some v" "encode_bounded limit e marshal v = Inr b"
  shows "decode_bounded limit e unmarshal b = Inr v" "length b \<le> limit"
  using assms by (auto simp: encode_bounded_def decode_bounded_def split: option.splits if_splits)

text \<open>Feeding the header bytes one at a time reports ``short'' until the last byte and then the header.\<close>

lemma ParseExecHeader_prefixes:
  assumes rt: "\<And>b. marshal h = Some b \<Longrightarrow> b \<noteq> [] \<and> unmarshal b = Some h"
    and enc: "EncodeExecHeader marshal h = Inr out"
  shows "ParseExecHeader unmarshal (take k (out @ rest)) =
    Inr (if k < length out then None else Some (h, length out))"
proof -
  from enc obtain body where b: "marshal h = Some body" "length body \<le> MaxExecHeaderBytes"
    "out = put_be32 (of_nat (length body)) @ body" "TimeoutSeconds h \<ge> 0" "ScriptBytes h \<ge> 0"
    by (auto simp: EncodeExecHeader_def split: if_splits option.splits)
  have ne: "body \<noteq> []" "unmarshal body = Some h" using rt [OF b(1)] by simp_all
  define buf where "buf = take k (out @ rest)"
  have len: "length buf = min k (length out + length rest)" by (simp add: buf_def)
  have out: "length out = 4 + length body" by (simp add: b(3))
  show ?thesis
  proof (cases "k < 4")
    case True
    then show ?thesis using out by (simp add: ParseExecHeader_def)
  next
    case False
    then have buf: "buf = put_be32 (of_nat (length body)) @ take (k - 4) (body @ rest)"
      by (simp add: buf_def b(3))
    have n: "unat (be32 (buf ! 0) (buf ! 1) (buf ! 2) (buf ! 3)) = length body"
      using b(2) by (simp add: buf put_be32_def unat_of_nat)
    have d: "take (length body) (drop 4 buf) = body" if "4 + length body \<le> k"
      using that by (simp add: buf take_drop)
    have "ParseExecHeader unmarshal buf = Inr (if k < length out then None else Some (h, length out))"
      unfolding ParseExecHeader_def n Let_def using False ne b(2,4,5) len out d by (auto simp: min_def)
    then show ?thesis by (simp add: buf_def)
  qed
qed

end
