(* ===== verification/Trace.thy ===== *)
theory Trace
  imports Payloads
begin

text \<open>
  The signed hop chain of \<^verbatim>\<open>internal/protocol/traceroute.go\<close>. \<open>mac key data\<close> is the hex text of HMAC-SHA256 and \<open>marshal\<close>
  the JSON text of a hop; both are arguments. The facts: appending produces chains that verify, verification accepts
  exactly the chains that appending produces, and a verified chain is determined by its last signature as long as
  no two of the signed texts collide under the hash.
\<close>

record certificate_info =
  ci_Subject :: string
  ci_Issuer :: string
  ci_Serial :: string
  ci_FingerprintSHA256 :: string
  ci_NotBefore :: int
  ci_NotAfter :: int

record token_info =
  ti_ID :: string
  ti_Type :: string
  ti_Prefix :: string
  ti_Scope :: string
  ti_Secret :: string

record trace_hop =
  th_TraceID :: string
  th_Hop :: int
  th_Role :: string
  th_NodeID :: string
  th_PeerType :: string
  th_Transport :: string
  th_ReceivedAt :: int
  th_ForwardedAt :: int
  th_QueueDelayMs :: int
  th_HopRTTMs :: int
  th_Result :: string
  th_PrivateIPs :: "string list"
  th_RealAddress :: string
  th_Certificate :: "certificate_info option"
  th_Token :: "token_info option"
  th_PreviousSignature :: string
  th_Signature :: string

record trace_chain =
  tc_key :: bytes
  tc_previous :: string
  tc_next :: int

datatype trace_error = TraceUnavailable | TraceSequence | TraceKeyRequired | TraceSignature

definition string_bytes :: "string \<Rightarrow> bytes" where
  "string_bytes s = map (\<lambda>c. of_nat (of_char c)) s"

definition signed_text :: "(trace_hop \<Rightarrow> bytes) \<Rightarrow> trace_hop \<Rightarrow> bytes" where
  "signed_text marshal hop =
     string_bytes (th_PreviousSignature hop) @ marshal (hop\<lparr>th_Signature := []\<rparr>)"

definition traceHopSignature :: "(bytes \<Rightarrow> bytes \<Rightarrow> string) \<Rightarrow> (trace_hop \<Rightarrow> bytes) \<Rightarrow> trace_hop \<Rightarrow> bytes \<Rightarrow> string" where
  "traceHopSignature mac marshal hop key = mac key (signed_text marshal hop)"

definition NewTraceHopChain :: "bytes \<Rightarrow> trace_chain" where
  "NewTraceHopChain key = \<lparr>tc_key = key, tc_previous = [], tc_next = 1\<rparr>"

definition AppendHop ::
  "(bytes \<Rightarrow> bytes \<Rightarrow> string) \<Rightarrow> (trace_hop \<Rightarrow> bytes) \<Rightarrow> trace_chain \<Rightarrow> trace_hop \<Rightarrow> trace_error + (trace_hop \<times> trace_chain)" where
  "AppendHop mac marshal c hop =
     (if tc_key c = [] then Inl TraceUnavailable
      else (let hop1 = (if th_Hop hop = 0 then hop\<lparr>th_Hop := tc_next c\<rparr> else hop) in
        if th_Hop hop1 \<noteq> tc_next c then Inl TraceSequence
        else (let hop2 = hop1\<lparr>th_PreviousSignature := tc_previous c\<rparr>;
                  hop3 = hop2\<lparr>th_Signature := traceHopSignature mac marshal hop2 (tc_key c)\<rparr> in
          Inr (hop3, c\<lparr>tc_previous := th_Signature hop3, tc_next := tc_next c + 1\<rparr>))))"

text \<open>A collector appends the hops in order.\<close>

fun append_hops ::
  "(bytes \<Rightarrow> bytes \<Rightarrow> string) \<Rightarrow> (trace_hop \<Rightarrow> bytes) \<Rightarrow> trace_chain \<Rightarrow> trace_hop list \<Rightarrow> trace_error + trace_hop list" where
  "append_hops mac marshal c [] = Inr []"
| "append_hops mac marshal c (h # hs) =
     bindR (AppendHop mac marshal c h) (\<lambda>(h', c'). bindR (append_hops mac marshal c' hs) (\<lambda>hs'. Inr (h' # hs')))"

fun verify_from ::
  "(bytes \<Rightarrow> bytes \<Rightarrow> string) \<Rightarrow> (trace_hop \<Rightarrow> bytes) \<Rightarrow> bytes \<Rightarrow> int \<Rightarrow> string \<Rightarrow> trace_hop list \<Rightarrow> trace_error option" where
  "verify_from mac marshal key i previous [] = None"
| "verify_from mac marshal key i previous (hop # hops) =
     (if th_Hop hop \<noteq> i + 1 \<or> th_PreviousSignature hop \<noteq> previous then Some TraceSequence
      else if th_Signature hop \<noteq> traceHopSignature mac marshal hop key then Some TraceSignature
      else verify_from mac marshal key (i + 1) (th_Signature hop) hops)"

definition VerifyTraceHopChain ::
  "(bytes \<Rightarrow> bytes \<Rightarrow> string) \<Rightarrow> (trace_hop \<Rightarrow> bytes) \<Rightarrow> trace_hop list \<Rightarrow> bytes \<Rightarrow> trace_error option" where
  "VerifyTraceHopChain mac marshal hops key =
     (if key = [] then Some TraceKeyRequired else verify_from mac marshal key 0 [] hops)"

definition RedactTraceHop :: "trace_hop \<Rightarrow> bool \<Rightarrow> trace_hop" where
  "RedactTraceHop hop includeSensitive =
     (if \<not> includeSensitive
      then hop\<lparr>th_PrivateIPs := [], th_RealAddress := [], th_Certificate := None, th_Token := None\<rparr> else hop)"

section \<open>Facts\<close>

lemma signed_text_Signature [simp]: "signed_text marshal (hop\<lparr>th_Signature := s\<rparr>) = signed_text marshal hop"
  by (simp add: signed_text_def)

lemma append_verify:
  assumes "append_hops mac marshal c hs = Inr hs'"
  shows "verify_from mac marshal (tc_key c) (tc_next c - 1) (tc_previous c) hs' = None"
  using assms
proof (induction hs arbitrary: c hs')
  case Nil
  then show ?case by simp
next
  case (Cons h hs)
  from Cons.prems obtain h' c' hs1 where h': "AppendHop mac marshal c h = Inr (h', c')"
    and hs1: "append_hops mac marshal c' hs = Inr hs1" "hs' = h' # hs1"
    by (auto simp: bindR_Inr_iff)
  from h' have f: "th_Hop h' = tc_next c" "th_PreviousSignature h' = tc_previous c"
    "th_Signature h' = traceHopSignature mac marshal h' (tc_key c)"
    and c': "c' = c\<lparr>tc_previous := th_Signature h', tc_next := tc_next c + 1\<rparr>"
    by (auto simp: AppendHop_def Let_def traceHopSignature_def split: if_splits)
  have "verify_from mac marshal (tc_key c) (tc_next c) (th_Signature h') hs1 = None"
    using Cons.IH [OF hs1(1)] by (simp add: c')
  with f hs1(2) show ?case by simp
qed

lemma verify_append:
  assumes "verify_from mac marshal (tc_key c) (tc_next c - 1) (tc_previous c) hs = None" "tc_key c \<noteq> []" "tc_next c > 0"
  shows "append_hops mac marshal c hs = Inr hs"
  using assms
proof (induction hs arbitrary: c)
  case Nil
  then show ?case by simp
next
  case (Cons h hs)
  let ?c' = "c\<lparr>tc_previous := th_Signature h, tc_next := tc_next c + 1\<rparr>"
  from Cons.prems have h: "th_Hop h = tc_next c" "th_PreviousSignature h = tc_previous c"
    "th_Signature h = traceHopSignature mac marshal h (tc_key c)"
    "verify_from mac marshal (tc_key c) (tc_next c) (th_Signature h) hs = None"
    by (auto split: if_splits)
  have n: "th_Hop h \<noteq> 0" using h(1) Cons.prems(3) by simp
  have e: "h\<lparr>th_PreviousSignature := tc_previous c, th_Signature := traceHopSignature mac marshal h (tc_key c)\<rparr> = h"
    "h\<lparr>th_PreviousSignature := tc_previous c\<rparr> = h"
    by (simp_all only: h(2) [symmetric] h(3) [symmetric]) simp_all
  have "AppendHop mac marshal c h = Inr (h, ?c')"
    using Cons.prems(2) n h(1) e by (simp add: AppendHop_def Let_def) (simp only: h(3))
  moreover have "append_hops mac marshal ?c' hs = Inr hs"
    using Cons.prems h(4) by (intro Cons.IH) simp_all
  ultimately show ?case by simp
qed

lemma verify_iff_append:
  "VerifyTraceHopChain mac marshal hops key = None \<longleftrightarrow>
     key \<noteq> [] \<and> append_hops mac marshal (NewTraceHopChain key) hops = Inr hops"
proof
  assume "VerifyTraceHopChain mac marshal hops key = None"
  then show "key \<noteq> [] \<and> append_hops mac marshal (NewTraceHopChain key) hops = Inr hops"
    using verify_append [of mac marshal "NewTraceHopChain key" hops]
    by (auto simp: VerifyTraceHopChain_def NewTraceHopChain_def split: if_splits)
next
  assume "key \<noteq> [] \<and> append_hops mac marshal (NewTraceHopChain key) hops = Inr hops"
  then show "VerifyTraceHopChain mac marshal hops key = None"
    using append_verify [of mac marshal "NewTraceHopChain key" hops hops]
    by (auto simp: VerifyTraceHopChain_def NewTraceHopChain_def)
qed

text \<open>A verified chain, read from its end: each signature covers the text that contains the one before it.\<close>

fun linked :: "(bytes \<Rightarrow> bytes \<Rightarrow> string) \<Rightarrow> (trace_hop \<Rightarrow> bytes) \<Rightarrow> bytes \<Rightarrow> trace_hop list \<Rightarrow> bool" where
  "linked mac marshal key [] = True"
| "linked mac marshal key (h # older) =
     (th_Signature h = mac key (signed_text marshal h)
      \<and> th_PreviousSignature h = (case older of [] \<Rightarrow> [] | g # _ \<Rightarrow> th_Signature g)
      \<and> linked mac marshal key older)"

lemma linked_verify:
  "verify_from mac marshal key i (case acc of [] \<Rightarrow> [] | g # _ \<Rightarrow> th_Signature g) hops = None \<Longrightarrow>
   linked mac marshal key acc \<Longrightarrow> linked mac marshal key (rev hops @ acc)"
proof (induction hops arbitrary: i acc)
  case Nil
  then show ?case by simp
next
  case (Cons h hops)
  then have "linked mac marshal key (h # acc)"
    by (auto simp: traceHopSignature_def split: if_splits)
  moreover have "verify_from mac marshal key (i + 1) (case h # acc of [] \<Rightarrow> [] | g # _ \<Rightarrow> th_Signature g) hops = None"
    using Cons.prems(1) by (auto split: if_splits)
  ultimately show ?case using Cons.IH [of "i + 1" "h # acc"] by simp
qed

lemma string_bytes_inj: "string_bytes s = string_bytes t \<longleftrightarrow> s = t"
proof -
  have "inj (\<lambda>c::char. of_nat (of_char c) :: byte)"
  proof (rule injI)
    fix c d :: char
    assume "(of_nat (of_char c) :: byte) = of_nat (of_char d)"
    then have "unat (of_nat (of_char c) :: byte) = unat (of_nat (of_char d) :: byte)" by simp
    moreover have "of_char c < (256 :: nat)" "of_char d < (256 :: nat)" by (rule nat_of_char_less_256)+
    ultimately show "c = d" by (simp add: unat_of_nat)
  qed
  then show ?thesis by (simp add: string_bytes_def inj_map_eq_map)
qed

text \<open>
  \<open>hex64\<close>: the hash text has 64 characters and does not begin as a JSON object does. \<open>json_object\<close>: the text of a
  hop begins with an opening brace.
\<close>

definition hex64 :: "string \<Rightarrow> bool" where
  "hex64 s \<longleftrightarrow> length s = 64 \<and> hd s \<noteq> CHR 0x7B"

lemma signed_text_split:
  assumes m: "\<And>h. \<exists>r. marshal h = 0x7B # r"
    and p: "th_PreviousSignature h = [] \<or> hex64 (th_PreviousSignature h)"
    and q: "th_PreviousSignature g = [] \<or> hex64 (th_PreviousSignature g)"
    and eq: "signed_text marshal h = signed_text marshal g"
  shows "th_PreviousSignature h = th_PreviousSignature g
    \<and> marshal (h\<lparr>th_Signature := []\<rparr>) = marshal (g\<lparr>th_Signature := []\<rparr>)"
proof -
  have first: "hd (string_bytes s @ t) \<noteq> 0x7B" if "hex64 s" for s t
  proof -
    have "s = hd s # tl s" using that by (cases s) (simp_all add: hex64_def)
    moreover have "string_bytes [hd s] \<noteq> string_bytes [CHR 0x7B]"
      using that by (simp add: hex64_def string_bytes_inj)
    ultimately show ?thesis by (cases s) (simp_all add: string_bytes_def)
  qed
  obtain r1 r2 where r: "marshal (h\<lparr>th_Signature := []\<rparr>) = 0x7B # r1" "marshal (g\<lparr>th_Signature := []\<rparr>) = 0x7B # r2"
    using m by meson
  have clash: False
    if "hex64 s" "string_bytes s @ t = string_bytes [] @ 0x7B # r" for s t and r :: bytes
    using first [OF that(1), of t] that(2) by (simp add: string_bytes_def)
  have len: "length (string_bytes (th_PreviousSignature h)) = length (string_bytes (th_PreviousSignature g))"
    using p q
  proof (elim disjE)
    assume n: "th_PreviousSignature h = []" and x: "hex64 (th_PreviousSignature g)"
    have "string_bytes (th_PreviousSignature g) @ marshal (g\<lparr>th_Signature := []\<rparr>) = string_bytes [] @ 0x7B # r1"
      using eq unfolding signed_text_def n r(1) by (rule sym)
    from clash [OF x this] show ?thesis ..
  next
    assume x: "hex64 (th_PreviousSignature h)" and n: "th_PreviousSignature g = []"
    from clash [OF x eq [unfolded signed_text_def n r(2)]] show ?thesis ..
  qed (simp_all add: string_bytes_def hex64_def)
  have "string_bytes (th_PreviousSignature h) = string_bytes (th_PreviousSignature g)
    \<and> marshal (h\<lparr>th_Signature := []\<rparr>) = marshal (g\<lparr>th_Signature := []\<rparr>)"
    using iffD1 [OF append_eq_append_conv [OF disjI1 [OF len]] eq [unfolded signed_text_def]] .
  then show ?thesis by (simp only: string_bytes_inj)
qed

lemma linked_previous:
  assumes x: "\<And>d. hex64 (mac key d)" and l: "linked mac marshal key (h # hs)"
  shows "th_PreviousSignature h = [] \<and> hs = [] \<or>
    (\<exists>h' hs'. hs = h' # hs' \<and> th_PreviousSignature h = th_Signature h' \<and> hex64 (th_PreviousSignature h)
      \<and> linked mac marshal key (h' # hs'))"
  using l x by (cases hs) auto

lemma linked_unique:
  assumes m: "\<And>h. \<exists>r. marshal h = 0x7B # r" and x: "\<And>d. hex64 (mac key d)"
  shows "linked mac marshal key (h # hs) \<Longrightarrow> linked mac marshal key (g # gs) \<Longrightarrow>
    inj_on (mac key) (signed_text marshal ` set (h # hs @ g # gs)) \<Longrightarrow> th_Signature h = th_Signature g \<Longrightarrow>
    map (\<lambda>h. marshal (h\<lparr>th_Signature := []\<rparr>)) (h # hs) = map (\<lambda>h. marshal (h\<lparr>th_Signature := []\<rparr>)) (g # gs)"
proof (induction hs arbitrary: h g gs)
  note prev = linked_previous [of mac key marshal, OF x]
  {
    fix h hs g gs
    assume l: "linked mac marshal key (h # hs)" "linked mac marshal key (g # gs)"
      and i: "inj_on (mac key) (signed_text marshal ` set (h # hs @ g # gs))" and s: "th_Signature h = th_Signature g"
    have "mac key (signed_text marshal h) = mac key (signed_text marshal g)" using l s by simp
    then have "signed_text marshal h = signed_text marshal g" by (rule inj_onD [OF i]) auto
    then have "th_PreviousSignature h = th_PreviousSignature g
      \<and> marshal (h\<lparr>th_Signature := []\<rparr>) = marshal (g\<lparr>th_Signature := []\<rparr>)"
      using prev [OF l(1)] prev [OF l(2)] by (intro signed_text_split [of marshal h g, OF m]) blast+
  } note top = this
  {
    case Nil
    note t = top [OF Nil.prems]
    have "th_PreviousSignature h = []" using prev [OF Nil.prems(1)] by blast
    then have "gs = []" using t prev [OF Nil.prems(2)] by (auto simp: hex64_def)
    with t show ?case by simp
  next
    case (Cons h' hs)
    note t = top [OF Cons.prems]
    have h: "th_PreviousSignature h = th_Signature h'" "hex64 (th_PreviousSignature h)" "linked mac marshal key (h' # hs)"
      using prev [OF Cons.prems(1)] by blast+
    obtain g' gs' where g: "gs = g' # gs'" "th_PreviousSignature g = th_Signature g'" "linked mac marshal key (g' # gs')"
      using prev [OF Cons.prems(2)] t h(2) by (auto simp: hex64_def)
    have "inj_on (mac key) (signed_text marshal ` set (h' # hs @ g' # gs'))"
      by (rule inj_on_subset [OF Cons.prems(3)]) (auto simp: g)
    moreover have "th_Signature h' = th_Signature g'" using t h(1) g(2) by simp
    ultimately show ?case using Cons.IH [OF h(3) g(3)] t by (simp add: g)
  }
qed

end
