(* ===== verification/Stream_State.thy ===== *)
theory Stream_State
  imports Frame
begin

text \<open>
  The per-stream state machine of \<^verbatim>\<open>internal/protocol/stream.go\<close>. Every method holds the stream's mutex for its whole
  body, so concurrent callers are some sequence of these operations. Each operation returns its error (\<open>None\<close> is
  \<^verbatim>\<open>nil\<close>) with the new state. The facts: a failed call changes nothing, closed and reset are final, the status only moves
  forward and refines two independent half-open flags, and the two windows account exactly for the bytes sent and
  received, without wrap-around.
\<close>

datatype StreamStatus =
  StreamIdle | StreamOpen | StreamHalfClosedLocal | StreamHalfClosedRemote | StreamClosed | StreamReset

record stream_state =
  ss_id :: uint32
  ss_status :: StreamStatus
  sendWindow :: uint32
  receiveWindow :: uint32

type_synonym stream_result = "protocol_error option \<times> stream_state"

definition NewStreamState :: "uint32 \<Rightarrow> uint32 \<Rightarrow> protocol_error + stream_state" where
  "NewStreamState i initialWindow =
     (if i = 0 then Inl ErrInvalidFrame
      else (let w = (if initialWindow = 0 then 65535 else initialWindow) in
        Inr \<lparr>ss_id = i, ss_status = StreamIdle, sendWindow = w, receiveWindow = w\<rparr>))"

definition OpenLocal :: "stream_state \<Rightarrow> stream_result" where
  "OpenLocal s =
     (if ss_status s \<noteq> StreamIdle then (Some ErrInvalidTransition, s) else (None, s\<lparr>ss_status := StreamOpen\<rparr>))"

definition HalfCloseLocal :: "stream_state \<Rightarrow> stream_result" where
  "HalfCloseLocal s =
     (case ss_status s of
        StreamOpen \<Rightarrow> (None, s\<lparr>ss_status := StreamHalfClosedLocal\<rparr>)
      | StreamHalfClosedRemote \<Rightarrow> (None, s\<lparr>ss_status := StreamClosed\<rparr>)
      | StreamHalfClosedLocal \<Rightarrow> (None, s)
      | StreamClosed \<Rightarrow> (Some ErrStreamClosed, s)
      | StreamReset \<Rightarrow> (Some ErrStreamReset, s)
      | StreamIdle \<Rightarrow> (Some ErrInvalidTransition, s))"

definition HalfCloseRemote :: "stream_state \<Rightarrow> stream_result" where
  "HalfCloseRemote s =
     (case ss_status s of
        StreamOpen \<Rightarrow> (None, s\<lparr>ss_status := StreamHalfClosedRemote\<rparr>)
      | StreamHalfClosedLocal \<Rightarrow> (None, s\<lparr>ss_status := StreamClosed\<rparr>)
      | StreamHalfClosedRemote \<Rightarrow> (None, s)
      | StreamClosed \<Rightarrow> (Some ErrStreamClosed, s)
      | StreamReset \<Rightarrow> (Some ErrStreamReset, s)
      | StreamIdle \<Rightarrow> (Some ErrInvalidTransition, s))"

definition ResetStream :: "stream_state \<Rightarrow> stream_result" where
  "ResetStream s =
     (if ss_status s = StreamReset then (Some ErrStreamReset, s)
      else if ss_status s = StreamClosed then (Some ErrStreamClosed, s)
      else (None, s\<lparr>ss_status := StreamReset\<rparr>))"

text \<open>The guard \<^verbatim>\<open>uint64(w) + uint64(n) > math.MaxUint32\<close> is computed without overflow.\<close>

definition exceeds_uint32 :: "uint32 \<Rightarrow> uint32 \<Rightarrow> bool" where
  "exceeds_uint32 w n \<longleftrightarrow> unat w + unat n > 2 ^ 32 - 1"

definition AddSendWindow :: "stream_state \<Rightarrow> uint32 \<Rightarrow> stream_result" where
  "AddSendWindow s n =
     (if ss_status s = StreamReset then (Some ErrStreamReset, s)
      else if ss_status s = StreamClosed then (Some ErrStreamClosed, s)
      else if exceeds_uint32 (sendWindow s) n then (Some ErrSendWindowOverflow, s)
      else (None, s\<lparr>sendWindow := sendWindow s + n\<rparr>))"

definition ConsumeSend :: "stream_state \<Rightarrow> uint32 \<Rightarrow> stream_result" where
  "ConsumeSend s n =
     (if ss_status s = StreamReset then (Some ErrStreamReset, s)
      else if ss_status s = StreamClosed \<or> ss_status s = StreamHalfClosedLocal then (Some ErrStreamClosed, s)
      else if n > sendWindow s then (Some ErrWindowExhausted, s)
      else (None, s\<lparr>sendWindow := sendWindow s - n\<rparr>))"

definition AddReceiveWindow :: "stream_state \<Rightarrow> uint32 \<Rightarrow> stream_result" where
  "AddReceiveWindow s n =
     (if ss_status s = StreamReset then (Some ErrStreamReset, s)
      else if ss_status s = StreamClosed then (Some ErrStreamClosed, s)
      else if exceeds_uint32 (receiveWindow s) n then (Some ErrReceiveWindowOverflow, s)
      else (None, s\<lparr>receiveWindow := receiveWindow s + n\<rparr>))"

definition consumeReceive :: "stream_state \<Rightarrow> uint32 \<Rightarrow> stream_result" where
  "consumeReceive s n =
     (if n > receiveWindow s then (Some ErrWindowExhausted, s)
      else (None, s\<lparr>receiveWindow := receiveWindow s - n\<rparr>))"

definition Handle :: "stream_state \<Rightarrow> frame \<Rightarrow> stream_result" where
  "Handle s f =
     (case Validate f of Some e \<Rightarrow> (Some e, s)
      | None \<Rightarrow>
        if StreamID f \<noteq> ss_id s then (Some ErrInvalidFrame, s)
        else if FType f = FrameOpenStream then
          (if ss_status s \<noteq> StreamIdle then (Some ErrInvalidTransition, s)
           else (None, s\<lparr>ss_status := StreamOpen, sendWindow := (if Window f \<noteq> 0 then Window f else sendWindow s)\<rparr>))
        else if FType f = FrameData then
          (if ss_status s = StreamReset then (Some ErrStreamReset, s)
           else if ss_status s = StreamClosed \<or> ss_status s = StreamHalfClosedRemote \<or> ss_status s = StreamIdle
             then (Some ErrStreamClosed, s)
           else consumeReceive s (of_nat (length (Payload f))))
        else if FType f = FrameHalfClose then
          (case ss_status s of
             StreamOpen \<Rightarrow> (None, s\<lparr>ss_status := StreamHalfClosedRemote\<rparr>)
           | StreamHalfClosedLocal \<Rightarrow> (None, s\<lparr>ss_status := StreamClosed\<rparr>)
           | StreamHalfClosedRemote \<Rightarrow> (None, s)
           | StreamClosed \<Rightarrow> (Some ErrStreamClosed, s)
           | StreamReset \<Rightarrow> (Some ErrStreamReset, s)
           | StreamIdle \<Rightarrow> (Some ErrInvalidTransition, s))
        else if FType f = FrameReset then
          (if ss_status s = StreamReset then (Some ErrStreamReset, s)
           else if ss_status s = StreamClosed then (Some ErrStreamClosed, s)
           else (None, s\<lparr>ss_status := StreamReset\<rparr>))
        else if FType f = FrameWindowUpdate then
          (if ss_status s = StreamReset then (Some ErrStreamReset, s)
           else if ss_status s = StreamClosed then (Some ErrStreamClosed, s)
           else if Window f = 0 \<or> exceeds_uint32 (sendWindow s) (Window f) then (Some ErrInvalidFrame, s)
           else (None, s\<lparr>sendWindow := sendWindow s + Window f\<rparr>))
        else (Some ErrInvalidFrame, s))"

section \<open>Runs\<close>

datatype stream_action =
    OpOpenLocal | OpHalfCloseLocal | OpHalfCloseRemote | OpReset
  | OpAddSend uint32 | OpConsume uint32 | OpAddReceive uint32 | OpFrame frame

fun stream_op :: "stream_state \<Rightarrow> stream_action \<Rightarrow> stream_result" where
  "stream_op s OpOpenLocal = OpenLocal s"
| "stream_op s OpHalfCloseLocal = HalfCloseLocal s"
| "stream_op s OpHalfCloseRemote = HalfCloseRemote s"
| "stream_op s OpReset = ResetStream s"
| "stream_op s (OpAddSend n) = AddSendWindow s n"
| "stream_op s (OpConsume n) = ConsumeSend s n"
| "stream_op s (OpAddReceive n) = AddReceiveWindow s n"
| "stream_op s (OpFrame f) = Handle s f"

text \<open>The operations of a run that returned no error, and the state the run ends in.\<close>

fun accepted :: "stream_state \<Rightarrow> stream_action list \<Rightarrow> stream_action list" where
  "accepted s [] = []"
| "accepted s (a # as) =
     (case stream_op s a of (None, s') \<Rightarrow> a # accepted s' as | (Some _, s') \<Rightarrow> accepted s' as)"

definition stream_run :: "stream_state \<Rightarrow> stream_action list \<Rightarrow> stream_state" where
  "stream_run = run_steps (\<lambda>s a. snd (stream_op s a))"

text \<open>What one accepted operation sends, is granted, receives and grants, in bytes.\<close>

fun op_sent :: "stream_action \<Rightarrow> nat" where
  "op_sent (OpConsume n) = unat n"
| "op_sent _ = 0"

fun op_credit :: "stream_action \<Rightarrow> nat" where
  "op_credit (OpAddSend n) = unat n"
| "op_credit (OpFrame f) = (if FType f = FrameWindowUpdate then unat (Window f) else 0)"
| "op_credit _ = 0"

fun op_received :: "stream_action \<Rightarrow> nat" where
  "op_received (OpFrame f) = (if FType f = FrameData then length (Payload f) else 0)"
| "op_received _ = 0"

fun op_granted :: "stream_action \<Rightarrow> nat" where
  "op_granted (OpAddReceive n) = unat n"
| "op_granted _ = 0"

section \<open>Facts\<close>

named_theorems stream_defs \<open>the operations of a stream\<close>

lemmas stream_op_defs [stream_defs] =
  OpenLocal_def HalfCloseLocal_def HalfCloseRemote_def ResetStream_def AddSendWindow_def ConsumeSend_def
  AddReceiveWindow_def consumeReceive_def Handle_def

lemma failed_op: "stream_op s a = (Some e, s') \<Longrightarrow> s' = s"
  by (cases a) (auto simp: stream_defs split: if_splits StreamStatus.splits option.splits)

lemma terminal_op: "ss_status s \<in> {StreamClosed, StreamReset} \<Longrightarrow> \<exists>e. stream_op s a = (Some e, s)"
  by (cases a) (auto simp: stream_defs split: if_splits StreamStatus.splits option.splits)

text \<open>
  The abstract status: whether the stream was opened, whether each side still sends, whether it was reset. Closed is
  the state in which both sides have ended.
\<close>

record half_flags =
  opened :: bool
  local_done :: bool
  remote_done :: bool
  was_reset :: bool

fun flags :: "StreamStatus \<Rightarrow> half_flags" where
  "flags StreamIdle = \<lparr>opened = False, local_done = False, remote_done = False, was_reset = False\<rparr>"
| "flags StreamOpen = \<lparr>opened = True, local_done = False, remote_done = False, was_reset = False\<rparr>"
| "flags StreamHalfClosedLocal = \<lparr>opened = True, local_done = True, remote_done = False, was_reset = False\<rparr>"
| "flags StreamHalfClosedRemote = \<lparr>opened = True, local_done = False, remote_done = True, was_reset = False\<rparr>"
| "flags StreamClosed = \<lparr>opened = True, local_done = True, remote_done = True, was_reset = False\<rparr>"
| "flags StreamReset = \<lparr>opened = True, local_done = True, remote_done = True, was_reset = True\<rparr>"

fun flags_op :: "half_flags \<Rightarrow> stream_action \<Rightarrow> half_flags" where
  "flags_op g OpOpenLocal = g\<lparr>opened := True\<rparr>"
| "flags_op g OpHalfCloseLocal = g\<lparr>local_done := True\<rparr>"
| "flags_op g OpHalfCloseRemote = g\<lparr>remote_done := True\<rparr>"
| "flags_op g OpReset = \<lparr>opened = True, local_done = True, remote_done = True, was_reset = True\<rparr>"
| "flags_op g (OpFrame f) =
     (if FType f = FrameOpenStream then g\<lparr>opened := True\<rparr>
      else if FType f = FrameHalfClose then g\<lparr>remote_done := True\<rparr>
      else if FType f = FrameReset then \<lparr>opened = True, local_done = True, remote_done = True, was_reset = True\<rparr>
      else g)"
| "flags_op g _ = g"

lemma flags_inj: "flags a = flags b \<longleftrightarrow> a = b"
  by (cases a; cases b) simp_all

lemma flags_step: "stream_op s a = (None, s') \<Longrightarrow> flags (ss_status s') = flags_op (flags (ss_status s)) a"
  by (cases a; cases "ss_status s") (auto simp: stream_defs split: if_splits option.splits)

lemma flags_run:
  "flags (ss_status (stream_run s as)) = foldl flags_op (flags (ss_status s)) (accepted s as)"
proof (induction as arbitrary: s)
  case Nil
  then show ?case by (simp add: stream_run_def)
next
  case (Cons a as)
  obtain r s' where r: "stream_op s a = (r, s')" by (cases "stream_op s a")
  show ?case
  proof (cases r)
    case None
    with r Cons [of s'] flags_step [of s a s'] show ?thesis by (simp add: stream_run_def)
  next
    case (Some e)
    with r Cons [of s'] failed_op [of s a e s'] show ?thesis by (simp add: stream_run_def)
  qed
qed

lemma unat_add_fits: "\<not> exceeds_uint32 w n \<Longrightarrow> unat (w + n) = unat w + unat n"
  by (simp add: exceeds_uint32_def unat_word_ariths)

lemma unat_diff_fits: "n \<le> (w :: uint32) \<Longrightarrow> unat (w - n) + unat n = unat w"
  by (simp add: unat_sub word_le_nat_alt)

lemma send_step:
  assumes "stream_op s a = (None, s')" "ss_status s \<noteq> StreamIdle"
  shows "unat (sendWindow s') + op_sent a = unat (sendWindow s) + op_credit a" "ss_status s' \<noteq> StreamIdle"
  using assms
  by (cases a; auto simp: stream_defs unat_add_fits unat_diff_fits split: if_splits StreamStatus.splits option.splits)+

lemma receive_step:
  assumes "stream_op s a = (None, s')"
  shows "unat (receiveWindow s') + op_received a = unat (receiveWindow s) + op_granted a"
proof -
  have "unat (of_nat (length (Payload f)) :: uint32) = length (Payload f)" if "Validate f = None" for f :: frame
    using Validate_payload [OF that] by (simp add: MaxPayload_def unat_of_nat)
  with assms show ?thesis
    by (cases a; auto simp: stream_defs unat_add_fits not_less split: if_splits StreamStatus.splits option.splits)
      (metis unat_diff_fits)+
qed

text \<open>A quantity that every accepted operation changes by its own inflow and outflow does so over a whole run.\<close>

lemma run_accounting:
  assumes step: "\<And>s a s'. Q s \<Longrightarrow> stream_op s a = (None, s') \<Longrightarrow> Q s' \<and> m s' + out a = m s + into a"
  shows "Q s \<Longrightarrow> m (stream_run s as) + sum_list (map out (accepted s as))
    = (m s :: nat) + sum_list (map into (accepted s as))"
proof (induction as arbitrary: s)
  case Nil
  then show ?case by (simp add: stream_run_def)
next
  case (Cons a as)
  obtain r s' where r: "stream_op s a = (r, s')" by (cases "stream_op s a")
  show ?case
  proof (cases r)
    case None
    with step [OF Cons.prems, of a s'] r Cons.IH [of s'] show ?thesis by (simp add: stream_run_def)
  next
    case (Some e)
    with r Cons failed_op [of s a e s'] show ?thesis by (simp add: stream_run_def)
  qed
qed

lemma send_run:
  "ss_status s \<noteq> StreamIdle \<Longrightarrow>
   unat (sendWindow (stream_run s as)) + sum_list (map op_sent (accepted s as))
     = unat (sendWindow s) + sum_list (map op_credit (accepted s as))"
  by (rule run_accounting [where Q = "\<lambda>s. ss_status s \<noteq> StreamIdle" and m = "\<lambda>s. unat (sendWindow s)"])
    (auto dest: send_step)

lemma receive_run:
  "unat (receiveWindow (stream_run s as)) + sum_list (map op_received (accepted s as))
     = unat (receiveWindow s) + sum_list (map op_granted (accepted s as))"
  by (rule run_accounting [where Q = "\<lambda>s. True" and m = "\<lambda>s. unat (receiveWindow s)"]) (auto dest: receive_step)

section \<open>Properties\<close>

lemma terminal_run: "ss_status s \<in> {StreamClosed, StreamReset} \<Longrightarrow> stream_run s as = s \<and> accepted s as = []"
proof (induction as)
  case Nil
  then show ?case by (simp add: stream_run_def)
next
  case (Cons a as)
  obtain e where "stream_op s a = (Some e, s)" using terminal_op [OF Cons.prems] by blast
  with Cons show ?case by (simp add: stream_run_def)
qed

text \<open>
  C32. Flow-control accounting over any interleaving of calls on an opened stream: the send window is exactly the
  initial one plus the credit received minus the bytes sent, the receive window exactly the initial one plus the
  credit granted minus the bytes received. Neither ever wraps around its 32 bits, so the bytes sent never exceed the
  credit, and the bytes accepted from the peer never exceed the credit granted.
\<close>

theorem stream_window_accounting:
  assumes "ss_status s \<noteq> StreamIdle"
  shows "int (unat (sendWindow (stream_run s as)))
      = int (unat (sendWindow s)) + int (\<Sum>a\<leftarrow>accepted s as. op_credit a) - int (\<Sum>a\<leftarrow>accepted s as. op_sent a)
    \<and> int (unat (receiveWindow (stream_run s as)))
      = int (unat (receiveWindow s)) + int (\<Sum>a\<leftarrow>accepted s as. op_granted a) - int (\<Sum>a\<leftarrow>accepted s as. op_received a)"
  using send_run [OF assms, of as] receive_run [of s as] by linarith

definition sample_stream :: stream_state where
  "sample_stream = \<lparr>ss_id = 3, ss_status = StreamOpen, sendWindow = 10, receiveWindow = 10\<rparr>"

theorem stream_window_accounting_witness:
  "int (unat (sendWindow (stream_run sample_stream [OpConsume 7, OpConsume 9, OpAddSend 5])))
      = int (unat (sendWindow sample_stream))
        + int (\<Sum>a\<leftarrow>accepted sample_stream [OpConsume 7, OpConsume 9, OpAddSend 5]. op_credit a)
        - int (\<Sum>a\<leftarrow>accepted sample_stream [OpConsume 7, OpConsume 9, OpAddSend 5]. op_sent a)"
  by (rule stream_window_accounting [THEN conjunct1]) (simp add: sample_stream_def)

text \<open>
  The six-valued status is a refinement of two independent directions: over any sequence of calls it is what one
  gets by setting the flags ``local side ended'', ``remote side ended'' and ``reset'' for the calls that succeeded. In
  particular a stream is closed exactly when both sides ended, in whatever order that happened.
\<close>

lemma stream_status_refines_flags:
  "flags (ss_status (stream_run s as)) = foldl flags_op (flags (ss_status s)) (accepted s as)"
  by (rule flags_run)

text \<open>
  Closed and reset are final: every later call of every kind returns an error and leaves the stream, its windows
  included, as it was.
\<close>

lemma stream_end_is_final:
  assumes "ss_status s \<in> {StreamClosed, StreamReset}"
  shows "stream_run s as = s \<and> accepted s as = []"
  by (rule terminal_run [OF assms])

end
