(* ===== verification/Bounded_Queue.thy ===== *)
theory Bounded_Queue
  imports Frame
begin

text \<open>
  \<^verbatim>\<open>internal/session/bounded_queue.go\<close> and \<^verbatim>\<open>internal/session/frame_demux.go\<close>: the byte-bounded frame queue and the receive
  demultiplexer made of one such queue per stream. Every method runs under the queue's mutex. \<open>now\<close> is the
  reading of the clock inside a call, in nanoseconds.

  The interface \<^verbatim>\<open>bounded_fifo\<close> states what the users of a queue rely on: a push either is refused or appends, a pop
  takes the oldest element. Its consequence, that a consumer sees exactly the accepted frames in order, is proved
  once for every instance.
\<close>

section \<open>Interface: a first-in first-out buffer that may refuse\<close>

datatype ('t, 'a) fifo_op = FPush 't 'a | FPop 't

text \<open>One run of producers and consumers: the accepted elements, the delivered ones, and the final queue.\<close>

fun fifo_run ::
  "('t \<Rightarrow> 'q \<Rightarrow> 'a \<Rightarrow> 'q option) \<Rightarrow> ('t \<Rightarrow> 'q \<Rightarrow> ('a \<times> 'q) option) \<Rightarrow> 'q \<Rightarrow> ('t, 'a) fifo_op list \<Rightarrow>
    'a list \<times> 'a list \<times> 'q" where
  "fifo_run push pop q [] = ([], [], q)"
| "fifo_run push pop q (FPush t x # ops) =
     (case push t q x of None \<Rightarrow> fifo_run push pop q ops
      | Some q' \<Rightarrow> (let (ins, outs, r) = fifo_run push pop q' ops in (x # ins, outs, r)))"
| "fifo_run push pop q (FPop t # ops) =
     (case pop t q of None \<Rightarrow> fifo_run push pop q ops
      | Some (x, q') \<Rightarrow> (let (ins, outs, r) = fifo_run push pop q' ops in (ins, x # outs, r)))"

locale bounded_fifo =
  fixes contents :: "'q \<Rightarrow> 'a list"
    and push :: "'t \<Rightarrow> 'q \<Rightarrow> 'a \<Rightarrow> 'q option"
    and pop :: "'t \<Rightarrow> 'q \<Rightarrow> ('a \<times> 'q) option"
    and inv :: "'q \<Rightarrow> bool"
  assumes push_inv: "inv q \<Longrightarrow> push t q x = Some q' \<Longrightarrow> inv q'"
    and push_contents: "inv q \<Longrightarrow> push t q x = Some q' \<Longrightarrow> contents q' = contents q @ [x]"
    and pop_inv: "inv q \<Longrightarrow> pop t q = Some (x, q') \<Longrightarrow> inv q'"
    and pop_contents: "inv q \<Longrightarrow> pop t q = Some (x, q') \<Longrightarrow> contents q = x # contents q'"
    and pop_empty: "inv q \<Longrightarrow> pop t q = None \<Longrightarrow> contents q = []"
begin

lemma fifo_order:
  "inv q \<Longrightarrow> fifo_run push pop q ops = (ins, outs, r) \<Longrightarrow> contents q @ ins = outs @ contents r \<and> inv r"
proof (induction ops arbitrary: q ins outs)
  case Nil
  then show ?case by simp
next
  case (Cons op ops)
  show ?case
  proof (cases op)
    case (FPush t x)
    show ?thesis
    proof (cases "push t q x")
      case None
      with FPush Cons show ?thesis by simp
    next
      case (Some q')
      obtain ins' where i: "fifo_run push pop q' ops = (ins', outs, r)" "ins = x # ins'"
        using Cons.prems(2) FPush Some by (auto split: prod.splits)
      show ?thesis
        using Cons.IH [OF push_inv [OF Cons.prems(1) Some] i(1)] push_contents [OF Cons.prems(1) Some] i(2) by simp
    qed
  next
    case (FPop t)
    show ?thesis
    proof (cases "pop t q")
      case None
      with FPop Cons show ?thesis by simp
    next
      case (Some p)
      obtain x q' where p: "p = (x, q')" by (cases p)
      obtain outs' where o: "fifo_run push pop q' ops = (ins, outs', r)" "outs = x # outs'"
        using Cons.prems(2) FPop Some p by (auto split: prod.splits)
      have s: "pop t q = Some (x, q')" using Some p by simp
      show ?thesis
        using Cons.IH [OF pop_inv [OF Cons.prems(1) s] o(1)] pop_contents [OF Cons.prems(1) s] o(2) by simp
    qed
  qed
qed

lemma pop_iff: "inv q \<Longrightarrow> pop t q = None \<longleftrightarrow> contents q = []"
  using pop_empty pop_contents by (metis list.distinct(1) not_None_eq surj_pair)

end

section \<open>The bounded frame queue\<close>

record bounded_queue =
  frames :: "frame list"
  qbytes :: int
  maxBytes :: int
  qclosed :: bool
  waits :: "int list"
  lastWait :: int

definition NewBoundedFrameQueue :: "int \<Rightarrow> bounded_queue" where
  "NewBoundedFrameQueue m =
     \<lparr>frames = [], qbytes = 0, maxBytes = (if m \<le> 0 then 1 else m), qclosed = False, waits = [], lastWait = 0\<rparr>"

text \<open>\<open>None\<close> is the result \<^verbatim>\<open>false\<close>, which leaves the queue as it was.\<close>

definition TryPush :: "int \<Rightarrow> bounded_queue \<Rightarrow> frame \<Rightarrow> bounded_queue option" where
  "TryPush now q f =
     (if qclosed q then None
      else (let size = int (length (Payload f)) in
        if qbytes q + size > maxBytes q \<or> int (length (frames q)) \<ge> maxBytes q then None
        else Some (q\<lparr>frames := frames q @ [f], qbytes := qbytes q + size, waits := waits q @ [now]\<rparr>)))"

definition popLocked :: "int \<Rightarrow> bounded_queue \<Rightarrow> (frame \<times> bounded_queue) option" where
  "popLocked now q =
     (case frames q of [] \<Rightarrow> None
      | f # fs \<Rightarrow>
        (let q1 = q\<lparr>frames := fs, qbytes := qbytes q - int (length (Payload f))\<rparr> in
         Some (f, case waits q of [] \<Rightarrow> q1 | t # ts \<Rightarrow> q1\<lparr>lastWait := now - t, waits := ts\<rparr>)))"

definition TryPop :: "int \<Rightarrow> bounded_queue \<Rightarrow> (frame \<times> bounded_queue) option" where
  "TryPop now q = popLocked now q"

text \<open>One pass of the loop in \<^verbatim>\<open>Pop\<close>: a frame, the end of the queue, or a wait on the condition variable.\<close>

datatype pop_result = Popped frame bounded_queue | PopClosed | PopWait

definition Pop :: "int \<Rightarrow> bounded_queue \<Rightarrow> pop_result" where
  "Pop now q =
     (case popLocked now q of Some (f, q') \<Rightarrow> Popped f q'
      | None \<Rightarrow> if qclosed q then PopClosed else PopWait)"

definition CloseAfterDrain :: "bounded_queue \<Rightarrow> bounded_queue" where
  "CloseAfterDrain q = q\<lparr>qclosed := True\<rparr>"

definition CloseQueue :: "bounded_queue \<Rightarrow> bounded_queue" where
  "CloseQueue q = q\<lparr>qclosed := True, frames := [], qbytes := 0\<rparr>"

definition payload_bytes :: "frame list \<Rightarrow> int" where
  "payload_bytes fs = (\<Sum>f\<leftarrow>fs. int (length (Payload f)))"

definition queue_inv :: "bounded_queue \<Rightarrow> bool" where
  "queue_inv q \<longleftrightarrow> 0 < maxBytes q \<and> qbytes q = payload_bytes (frames q) \<and> qbytes q \<le> maxBytes q
     \<and> int (length (frames q)) \<le> maxBytes q \<and> (\<not> qclosed q \<longrightarrow> length (waits q) = length (frames q))"

lemma payload_bytes_simps [simp]:
  "payload_bytes [] = 0"
  "payload_bytes (f # fs) = int (length (Payload f)) + payload_bytes fs"
  "payload_bytes (fs @ gs) = payload_bytes fs + payload_bytes gs"
  by (simp_all add: payload_bytes_def)

lemma payload_bytes_nonneg [simp]: "0 \<le> payload_bytes fs"
  by (induction fs) simp_all

lemma queue_inv_New [simp]: "queue_inv (NewBoundedFrameQueue m)"
  by (simp add: queue_inv_def NewBoundedFrameQueue_def)

lemma TryPush_Some:
  "TryPush now q f = Some q' \<longleftrightarrow>
     \<not> qclosed q \<and> qbytes q + int (length (Payload f)) \<le> maxBytes q \<and> int (length (frames q)) < maxBytes q
     \<and> q' = q\<lparr>frames := frames q @ [f], qbytes := qbytes q + int (length (Payload f)), waits := waits q @ [now]\<rparr>"
  by (auto simp: TryPush_def Let_def)

lemma popLocked_Some:
  "popLocked now q = Some (f, q') \<Longrightarrow>
     frames q = f # frames q' \<and> qbytes q' = qbytes q - int (length (Payload f)) \<and> maxBytes q' = maxBytes q
     \<and> qclosed q' = qclosed q \<and> waits q' = tl (waits q)"
  by (auto simp: popLocked_def Let_def split: list.splits)

lemma popLocked_None [simp]: "popLocked now q = None \<longleftrightarrow> frames q = []"
  by (simp add: popLocked_def Let_def split: list.splits)

lemma queue_inv_push: "queue_inv q \<Longrightarrow> TryPush now q f = Some q' \<Longrightarrow> queue_inv q'"
  by (auto simp: queue_inv_def TryPush_Some)

lemma queue_inv_pop: "queue_inv q \<Longrightarrow> popLocked now q = Some (f, q') \<Longrightarrow> queue_inv q'"
  by (drule popLocked_Some) (auto simp: queue_inv_def)

lemma queue_inv_close: "queue_inv q \<Longrightarrow> queue_inv (CloseQueue q)" "queue_inv q \<Longrightarrow> queue_inv (CloseAfterDrain q)"
  by (auto simp: queue_inv_def CloseQueue_def CloseAfterDrain_def)

interpretation frame_fifo: bounded_fifo frames TryPush TryPop queue_inv
proof unfold_locales
  fix q q' :: bounded_queue and t :: int and f :: frame
  assume q: "queue_inv q"
  show "queue_inv q'" "frames q' = frames q @ [f]" if "TryPush t q f = Some q'"
    using queue_inv_push [OF q that] that by (simp_all add: TryPush_Some)
  show "queue_inv q'" "frames q = f # frames q'" if "TryPop t q = Some (f, q')"
    using queue_inv_pop [OF q, of t f q'] popLocked_Some [of t q f q'] that by (simp_all add: TryPop_def)
  show "frames q = []" if "TryPop t q = None"
    using that by (simp add: TryPop_def)
qed

text \<open>A frame fits exactly when the accepted bytes and the frame count leave room for it.\<close>

lemma TryPush_total:
  "queue_inv q \<Longrightarrow> \<not> qclosed q \<Longrightarrow> payload_bytes (frames q) + int (length (Payload f)) \<le> maxBytes q \<Longrightarrow>
   int (length (frames q)) < maxBytes q \<Longrightarrow> TryPush now q f \<noteq> None"
  by (simp add: TryPush_def queue_inv_def Let_def not_le)

section \<open>The receive demultiplexer\<close>

datatype session_error = ErrControlQueueFull | ErrStreamQueueFull

text \<open>\<open>control\<close> is the connection-level handler; \<open>'c\<close> is its state.\<close>

record frame_demux =
  queues :: "uint32 \<rightharpoonup> bounded_queue"
  maxStreamBytes :: int
  dclosed :: bool

definition NewFrameDemux :: "int \<Rightarrow> frame_demux" where
  "NewFrameDemux m =
     \<lparr>queues = Map.empty, maxStreamBytes = (if m \<le> 0 then 262144 else m), dclosed = False\<rparr>"

definition RemoveStream :: "frame_demux \<Rightarrow> uint32 \<Rightarrow> frame_demux" where
  "RemoveStream d sid = d\<lparr>queues := (queues d)(sid := None)\<rparr>"

definition Dispatch ::
  "('c \<Rightarrow> frame \<Rightarrow> 'e option \<times> 'c) option \<Rightarrow> int \<Rightarrow> frame_demux \<times> 'c \<Rightarrow> frame \<Rightarrow> ('e + session_error) option \<times> frame_demux \<times> 'c" where
  "Dispatch control now dc f =
     (case dc of (d, c) \<Rightarrow>
      if FType f \<noteq> FrameData then
        (case control of None \<Rightarrow> (None, d, c)
         | Some handler \<Rightarrow> (case handler c f of (None, c') \<Rightarrow> (None, d, c') | (Some e, c') \<Rightarrow> (Some (Inl e), d, c')))
      else if StreamID f = 0 then (Some (Inr ErrStreamQueueFull), d, c)
      else if dclosed d then (Some (Inr ErrStreamQueueFull), d, c)
      else (let (queue, created) =
                 (case queues d (StreamID f) of Some q \<Rightarrow> (q, False) | None \<Rightarrow> (NewBoundedFrameQueue (maxStreamBytes d), True));
               d1 = (if created then d\<lparr>queues := (queues d)(StreamID f \<mapsto> queue)\<rparr> else d) in
        case TryPush now queue f of
          Some q' \<Rightarrow> (None, d1\<lparr>queues := (queues d1)(StreamID f \<mapsto> q')\<rparr>, c)
        | None \<Rightarrow> (Some (Inr ErrStreamQueueFull), if created then RemoveStream d1 (StreamID f) else d1, c)))"

text \<open>A consumer takes its frames from the queue that \<^verbatim>\<open>Stream\<close> returns.\<close>

definition StreamQueue :: "frame_demux \<Rightarrow> uint32 \<Rightarrow> bounded_queue option" where
  "StreamQueue d sid = (if dclosed d then None else queues d sid)"

definition ConsumeStream :: "int \<Rightarrow> frame_demux \<Rightarrow> uint32 \<Rightarrow> (frame \<times> frame_demux) option" where
  "ConsumeStream now d sid =
     (case StreamQueue d sid of None \<Rightarrow> None
      | Some q \<Rightarrow> (case TryPop now q of None \<Rightarrow> None
          | Some (f, q') \<Rightarrow> Some (f, d\<lparr>queues := (queues d)(sid \<mapsto> q')\<rparr>)))"

definition CloseDemux :: "frame_demux \<Rightarrow> frame_demux" where
  "CloseDemux d = (if dclosed d then d else d\<lparr>dclosed := True, queues := Map.empty\<rparr>)"

definition demux_inv :: "frame_demux \<Rightarrow> bool" where
  "demux_inv d \<longleftrightarrow> (\<forall>sid q. queues d sid = Some q \<longrightarrow> sid \<noteq> 0 \<and> queue_inv q \<and> maxBytes q = maxStreamBytes d)
     \<and> 0 < maxStreamBytes d"

definition stream_frames :: "frame_demux \<Rightarrow> uint32 \<Rightarrow> frame list" where
  "stream_frames d sid = (case StreamQueue d sid of None \<Rightarrow> [] | Some q \<Rightarrow> frames q)"

lemma demux_inv_New: "demux_inv (NewFrameDemux m)"
  by (simp add: demux_inv_def NewFrameDemux_def)

lemma New_maxBytes: "0 < m \<Longrightarrow> maxBytes (NewBoundedFrameQueue m) = m"
  by (simp add: NewBoundedFrameQueue_def)

definition demux_queue :: "frame_demux \<Rightarrow> uint32 \<Rightarrow> bounded_queue" where
  "demux_queue d sid = (case queues d sid of Some q \<Rightarrow> q | None \<Rightarrow> NewBoundedFrameQueue (maxStreamBytes d))"

text \<open>A refused frame leaves the demultiplexer as it was, also when the queue had to be made for it.\<close>

lemma Dispatch_data:
  assumes "FType f = FrameData" "StreamID f \<noteq> 0" "\<not> dclosed d"
  shows "Dispatch control now (d, c) f =
    (case TryPush now (demux_queue d (StreamID f)) f of
       Some q' \<Rightarrow> (None, d\<lparr>queues := (queues d)(StreamID f \<mapsto> q')\<rparr>, c)
     | None \<Rightarrow> (Some (Inr ErrStreamQueueFull), d, c))"
proof (cases "queues d (StreamID f)")
  case None
  then have "(queues d)(StreamID f := None) = queues d" by (simp add: fun_upd_idem)
  with None assms show ?thesis by (simp add: Dispatch_def demux_queue_def RemoveStream_def split: option.splits)
next
  case (Some q)
  with assms show ?thesis by (simp add: Dispatch_def demux_queue_def split: option.splits)
qed

lemma Dispatch_other:
  assumes "Dispatch control now (d, c) f = (r, d', c')" "FType f \<noteq> FrameData \<or> StreamID f = 0 \<or> dclosed d"
  shows "d' = d"
  using assms by (auto simp: Dispatch_def split: if_splits option.splits prod.splits)

lemma demux_queue_inv:
  "demux_inv d \<Longrightarrow> queue_inv (demux_queue d sid) \<and> maxBytes (demux_queue d sid) = maxStreamBytes d"
  by (auto simp: demux_inv_def demux_queue_def New_maxBytes split: option.splits)

lemma Dispatch_cases:
  assumes "Dispatch control now (d, c) f = (r, d', c')"
  obtains "d' = d" "FType f = FrameData \<longrightarrow> r \<noteq> None"
  | q where "FType f = FrameData" "StreamID f \<noteq> 0" "\<not> dclosed d" "r = None" "c' = c"
      "TryPush now (demux_queue d (StreamID f)) f = Some q" "d' = d\<lparr>queues := (queues d)(StreamID f \<mapsto> q)\<rparr>"
proof (cases "FType f = FrameData \<and> StreamID f \<noteq> 0 \<and> \<not> dclosed d")
  case True
  then show ?thesis using assms that by (auto simp: Dispatch_data split: option.splits)
next
  case False
  have "d' = d" using Dispatch_other [OF assms] False by blast
  moreover have "FType f = FrameData \<longrightarrow> r \<noteq> None" using assms False by (auto simp: Dispatch_def split: if_splits)
  ultimately show ?thesis by (rule that(1))
qed

lemma demux_inv_Dispatch:
  assumes "demux_inv d" "Dispatch control now (d, c) f = (r, d', c')"
  shows "demux_inv d'"
  using assms(2)
proof (cases rule: Dispatch_cases)
  case 1
  then show ?thesis using assms(1) by simp
next
  case (2 q)
  have "queue_inv q" "maxBytes q = maxStreamBytes d"
    using 2(6) demux_queue_inv [OF assms(1), of "StreamID f"] queue_inv_push by (auto simp: TryPush_Some)
  with 2 assms(1) show ?thesis by (auto simp: demux_inv_def)
qed

lemma demux_inv_Consume:
  assumes "demux_inv d" "ConsumeStream now d sid = Some (f, d')"
  shows "demux_inv d'"
proof -
  from assms(2) obtain q q' where q: "queues d sid = Some q" "popLocked now q = Some (f, q')"
    "d' = d\<lparr>queues := (queues d)(sid \<mapsto> q')\<rparr>"
    by (auto simp: ConsumeStream_def StreamQueue_def TryPop_def split: if_splits option.splits)
  with assms(1) queue_inv_pop [of q now f q'] popLocked_Some [OF q(2)] show ?thesis by (auto simp: demux_inv_def)
qed

lemma stream_frames_Dispatch:
  assumes "Dispatch control now (d, c) f = (r, d', c')"
  shows "stream_frames d' sid =
    stream_frames d sid @ (if r = None \<and> FType f = FrameData \<and> StreamID f = sid then [f] else [])"
  using assms
proof (cases rule: Dispatch_cases)
  case 1
  then show ?thesis by auto
next
  case (2 q)
  have "frames q = stream_frames d (StreamID f) @ [f]"
    using 2(3,6) by (auto simp: TryPush_Some stream_frames_def StreamQueue_def demux_queue_def
        NewBoundedFrameQueue_def split: option.splits)
  with 2 show ?thesis by (simp add: stream_frames_def StreamQueue_def)
qed

lemma stream_frames_Consume:
  "ConsumeStream now d sid = Some (f, d') \<Longrightarrow>
   stream_frames d sid = f # stream_frames d' sid \<and> (\<forall>i. i \<noteq> sid \<longrightarrow> stream_frames d' i = stream_frames d i)"
  by (auto simp: ConsumeStream_def StreamQueue_def TryPop_def stream_frames_def split: if_splits option.splits
      dest: popLocked_Some)

lemma ConsumeStream_None: "ConsumeStream now d sid = None \<Longrightarrow> stream_frames d sid = []"
  by (auto simp: ConsumeStream_def stream_frames_def TryPop_def split: option.splits)

text \<open>
  A receive loop and the consumers of the streams, interleaved: the DATA frames that were accepted, the frames
  that consumers took with the stream they took them from, and the final state.
\<close>

datatype demux_event = DDispatch int frame | DConsume int uint32

fun demux_run ::
  "('c \<Rightarrow> frame \<Rightarrow> 'e option \<times> 'c) option \<Rightarrow> frame_demux \<times> 'c \<Rightarrow> demux_event list \<Rightarrow>
    frame list \<times> (uint32 \<times> frame) list \<times> frame_demux \<times> 'c" where
  "demux_run control dc [] = ([], [], dc)"
| "demux_run control dc (DDispatch now f # es) =
     (let (r, dc') = Dispatch control now dc f; (ins, outs, z) = demux_run control dc' es in
      (if r = None \<and> FType f = FrameData then f # ins else ins, outs, z))"
| "demux_run control dc (DConsume now sid # es) =
     (case ConsumeStream now (fst dc) sid of None \<Rightarrow> demux_run control dc es
      | Some (f, d') \<Rightarrow>
        (let (ins, outs, z) = demux_run control (d', snd dc) es in (ins, (sid, f) # outs, z)))"

definition taken :: "uint32 \<Rightarrow> (uint32 \<times> frame) list \<Rightarrow> frame list" where
  "taken sid outs = map snd (filter (\<lambda>p. fst p = sid) outs)"

lemma demux_order:
  "demux_run control (d, c) es = (ins, outs, d', c') \<Longrightarrow>
   stream_frames d sid @ filter (\<lambda>f. StreamID f = sid) ins = taken sid outs @ stream_frames d' sid"
proof (induction es arbitrary: d c ins outs)
  case Nil
  then show ?case by (simp add: taken_def)
next
  case (Cons e es)
  show ?case
  proof (cases e)
    case (DDispatch now f)
    obtain r d1 c1 where r: "Dispatch control now (d, c) f = (r, d1, c1)" by (metis prod_cases3)
    obtain ins1 where i: "demux_run control (d1, c1) es = (ins1, outs, d', c')"
      "ins = (if r = None \<and> FType f = FrameData then f # ins1 else ins1)"
      using Cons.prems by (auto simp: DDispatch r split: prod.splits)
    show ?thesis using Cons.IH [OF i(1)] by (auto simp: stream_frames_Dispatch [OF r] i(2))
  next
    case (DConsume now i)
    show ?thesis
    proof (cases "ConsumeStream now d i")
      case None
      with Cons.prems Cons.IH show ?thesis by (simp add: DConsume)
    next
      case (Some p)
      obtain f d1 where p: "ConsumeStream now d i = Some (f, d1)" using Some by (cases p) simp
      obtain outs1 where o: "demux_run control (d1, c) es = (ins, outs1, d', c')" "outs = (i, f) # outs1"
        using Cons.prems by (auto simp: DConsume p split: prod.splits)
      show ?thesis using Cons.IH [OF o(1)] stream_frames_Consume [OF p] by (cases "i = sid") (auto simp: o(2) taken_def)
    qed
  qed
qed

section \<open>Properties\<close>

text \<open>
  The bounded queue under any interleaving of producers and consumers: what was queued at the start followed by the
  accepted frames is what was delivered followed by what is still queued. No frame is lost, duplicated or overtaken, and
  the queued bytes never exceed the bound.
\<close>

lemma bounded_queue_fifo:
  assumes "queue_inv q"
  shows "case fifo_run TryPush TryPop q ops of (ins, outs, r) \<Rightarrow>
    frames q @ ins = outs @ frames r \<and> payload_bytes (frames r) \<le> maxBytes r"
proof -
  obtain ins outs r where e: "fifo_run TryPush TryPop q ops = (ins, outs, r)" by (metis prod_cases3)
  from frame_fifo.fifo_order [OF assms e] e show ?thesis by (simp add: queue_inv_def)
qed

text \<open>
  Stream isolation in the receive demultiplexer: for every stream, whatever the other streams do and however full
  their queues are, the frames its consumer took followed by those still queued are exactly the DATA frames accepted for
  that stream, in arrival order.
\<close>

lemma demux_isolates_streams:
  "case demux_run control (NewFrameDemux m, c) es of (ins, outs, d, _) \<Rightarrow>
    filter (\<lambda>f. StreamID f = sid) ins = taken sid outs @ stream_frames d sid"
  using demux_order [of control "NewFrameDemux m" c es _ _ _ _ sid]
  by (auto simp: stream_frames_def StreamQueue_def NewFrameDemux_def split: prod.splits)

definition sample_data :: "uint32 \<Rightarrow> bytes \<Rightarrow> frame" where
  "sample_data sid p = \<lparr>Version = 1, FType = FrameData, Flags = 0, StreamID = sid, Window = 0, Payload = p\<rparr>"

end
