(* ===== verification/Fair_Writer.thy ===== *)
theory Fair_Writer
  imports Bounded_Queue
begin

text \<open>
  \<^verbatim>\<open>internal/session/fair_writer.go\<close>: the writer that serialises all sends of a connection. Control frames have priority,
  data frames wait in one bounded queue per stream, and the streams take turns. Every method runs under the writer's
  mutex, so concurrent callers are a sequence of these operations.

  The turn order is abstracted to one list, the streams in the order in which the scan would visit them
  (\<open>turns\<close>), with the frames waiting per stream (\<open>waiting\<close>). The facts: the detailed cursor arithmetic implements rotation
  of that list, each stream's frames leave in the order they were accepted, a waiting frame is always found, streams
  that are already active are served in turn, and the arrival of new streams can postpone an active one without bound.
\<close>

section \<open>State\<close>

text \<open>A control item carries the number of the channel that is closed once the item has been sent.\<close>

type_synonym control_item = "frame \<times> nat option"

record fair_writer =
  control :: "control_item list"
  streams :: "uint32 \<rightharpoonup> bounded_queue"
  order :: "uint32 list"
  cursor :: nat
  ControlQueueSize :: nat
  StreamQueueBytes :: int
  QuantumBytes :: int
  waitSamples :: "int list"
  fclosed :: bool
  done_closed :: "nat list"

definition NewFairFrameWriter :: "int \<Rightarrow> int \<Rightarrow> int \<Rightarrow> fair_writer" where
  "NewFairFrameWriter controlSize streamBytes quantum =
     \<lparr>control = [], streams = Map.empty, order = [], cursor = 0,
      ControlQueueSize = (if controlSize \<le> 0 then 64 else nat controlSize),
      StreamQueueBytes = (if streamBytes \<le> 0 then 262144 else streamBytes),
      QuantumBytes = (if quantum \<le> 0 then 32768 else quantum),
      waitSamples = [], fclosed = False, done_closed = []\<rparr>"

section \<open>Latency samples\<close>

definition RecordSample :: "int list \<Rightarrow> int \<Rightarrow> int list" where
  "RecordSample values duration =
     (let vs = values @ [max 0 duration] in if length vs > 64 then drop (length vs - 64) vs else vs)"

definition P95 :: "int list \<Rightarrow> int" where
  "P95 values =
     (if values = [] then 0
      else (let index = (length values * 95 + 99) div 100 in
        sort values ! (if index \<ge> length values then length values - 1 else index)))"

section \<open>Enqueueing\<close>

definition enqueueControl :: "fair_writer \<Rightarrow> frame \<Rightarrow> nat option \<Rightarrow> session_error option \<times> fair_writer" where
  "enqueueControl w f done =
     (if fclosed w then (Some ErrControlQueueFull, w)
      else if length (control w) \<ge> ControlQueueSize w then (Some ErrControlQueueFull, w)
      else (None, w\<lparr>control := control w @ [(f, done)]\<rparr>))"

text \<open>
  \<^verbatim>\<open>removeStreamLocked\<close> is only called with the queue that the map holds for the stream, so the pointer comparison
  succeeds exactly when the stream is present.
\<close>

definition order_index :: "uint32 \<Rightarrow> uint32 list \<Rightarrow> nat" where
  "order_index sid ids = length (takeWhile (\<lambda>i. i \<noteq> sid) ids)"

definition removeStreamLocked :: "fair_writer \<Rightarrow> uint32 \<Rightarrow> fair_writer" where
  "removeStreamLocked w sid =
     (case streams w sid of None \<Rightarrow> w
      | Some q \<Rightarrow>
        (let w1 = w\<lparr>streams := (streams w)(sid := None)\<rparr>; i = order_index sid (order w) in
         if i < length (order w)
         then w1\<lparr>order := take i (order w) @ drop (Suc i) (order w),
                 cursor := (if cursor w > i then cursor w - 1 else cursor w)\<rparr>
         else w1))"

definition EnqueueData :: "int \<Rightarrow> fair_writer \<Rightarrow> uint32 \<Rightarrow> frame \<Rightarrow> session_error option \<times> fair_writer" where
  "EnqueueData now w sid f0 =
     (if sid = 0 then (Some ErrStreamQueueFull, w)
      else (let f = f0\<lparr>StreamID := sid\<rparr> in
        if fclosed w then (Some ErrStreamQueueFull, w)
        else (let (queue, created) =
                   (case streams w sid of Some q \<Rightarrow> (q, False) | None \<Rightarrow> (NewBoundedFrameQueue (StreamQueueBytes w), True));
                 w1 = (if created
                   then w\<lparr>streams := (streams w)(sid \<mapsto> queue), order := order w @ [sid],
                          cursor := length (order w @ [sid]) - 1\<rparr>
                   else w) in
          case TryPush now queue f of
            None \<Rightarrow> (Some ErrStreamQueueFull, if created then removeStreamLocked w1 sid else w1)
          | Some q' \<Rightarrow> (None, w1\<lparr>streams := (streams w1)(sid \<mapsto> q')\<rparr>))))"

definition EnqueueControl :: "int \<Rightarrow> fair_writer \<Rightarrow> frame \<Rightarrow> session_error option \<times> fair_writer" where
  "EnqueueControl now w f =
     (if FType f = FrameHalfClose \<and> StreamID f \<noteq> 0 then EnqueueData now w (StreamID f) f
      else enqueueControl w f None)"

section \<open>Taking the next frame\<close>

definition retireIdleLocked :: "fair_writer \<Rightarrow> uint32 list \<Rightarrow> fair_writer" where
  "retireIdleLocked w ids =
     foldl (\<lambda>w id. case streams w id of None \<Rightarrow> w
                    | Some q \<Rightarrow> if length (frames q) > 0 then w else removeStreamLocked w id) w ids"

text \<open>The loop over \<^verbatim>\<open>range w.order\<close>: the first argument is the number of iterations left.\<close>

fun scan :: "nat \<Rightarrow> int \<Rightarrow> fair_writer \<Rightarrow> uint32 list \<Rightarrow> frame option \<times> fair_writer" where
  "scan 0 now w idle = (None, retireIdleLocked w idle)"
| "scan (Suc k) now w idle =
     (let index = cursor w mod length (order w);
          streamID = order w ! index;
          w1 = w\<lparr>cursor := (index + 1) mod length (order w)\<rparr> in
      case streams w streamID of None \<Rightarrow> scan k now w1 idle
      | Some q \<Rightarrow>
        (case TryPop now q of
           Some (f, q') \<Rightarrow>
             (Some f, retireIdleLocked (w1\<lparr>streams := (streams w1)(streamID \<mapsto> q'),
                        waitSamples := RecordSample (waitSamples w1) (lastWait q')\<rparr>) idle)
         | None \<Rightarrow> scan k now w1 (idle @ [streamID])))"

definition nextDataLocked :: "int \<Rightarrow> fair_writer \<Rightarrow> frame option \<times> fair_writer" where
  "nextDataLocked now w = scan (length (order w)) now w []"

text \<open>One pass of the loop in \<^verbatim>\<open>next\<close>: an item, the end of the writer, or a wait.\<close>

datatype next_result = NextItem control_item | NextStop | NextWait

definition next_frame :: "bool \<Rightarrow> int \<Rightarrow> fair_writer \<Rightarrow> next_result \<times> fair_writer" where
  "next_frame ctxDone now w =
     (if fclosed w then (NextStop, w)
      else if ctxDone then (NextStop, w)
      else (case control w of
          item # rest \<Rightarrow> (NextItem item, w\<lparr>control := rest\<rparr>)
        | [] \<Rightarrow> (case nextDataLocked now w of
              (Some f, w') \<Rightarrow> (NextItem (f, None), w')
            | (None, w') \<Rightarrow> (NextWait, w'))))"

definition hasDataLocked :: "fair_writer \<Rightarrow> bool" where
  "hasDataLocked w \<longleftrightarrow> (\<exists>sid\<in>set (order w). case streams w sid of None \<Rightarrow> False | Some q \<Rightarrow> length (frames q) > 0)"

text \<open>The condition under which \<^verbatim>\<open>Drain\<close> stops waiting.\<close>

definition drained :: "fair_writer \<Rightarrow> bool" where
  "drained w \<longleftrightarrow> \<not> (\<not> fclosed w \<and> (length (control w) > 0 \<or> hasDataLocked w))"

definition close_done :: "nat option \<Rightarrow> nat list" where
  "close_done d = (case d of None \<Rightarrow> [] | Some c \<Rightarrow> [c])"

definition CloseWriter :: "fair_writer \<Rightarrow> fair_writer" where
  "CloseWriter w =
     (if fclosed w then w
      else w\<lparr>fclosed := True, control := [], streams := Map.empty, order := [],
             done_closed := done_closed w @ concat (map (close_done \<circ> snd) (control w))\<rparr>)"

text \<open>One iteration of \<^verbatim>\<open>Run\<close>; \<open>send\<close> is the connection, \<open>'n\<close> its state.\<close>

datatype 'e run_result = RunContinue | RunWait | RunReturn "'e option"

definition RunOnce ::
  "('n \<Rightarrow> frame \<Rightarrow> 'e option \<times> 'n) \<Rightarrow> 'e option \<Rightarrow> 'e option \<Rightarrow> int \<Rightarrow> fair_writer \<times> 'n \<Rightarrow> 'e run_result \<times> fair_writer \<times> 'n" where
  "RunOnce send ctxErr ctxErrAfter now wn =
     (case wn of (w, n) \<Rightarrow>
      (case next_frame (ctxErr \<noteq> None) now w of
         (NextStop, w1) \<Rightarrow>
           (case ctxErr of Some e \<Rightarrow> (RunReturn (Some e), CloseWriter w1, n) | None \<Rightarrow> (RunReturn None, w1, n))
       | (NextWait, w1) \<Rightarrow> (RunWait, w1, n)
       | (NextItem (f, d), w1) \<Rightarrow>
           (case send n f of
              (Some e, n') \<Rightarrow>
                (RunReturn (Some e), CloseWriter (w1\<lparr>done_closed := done_closed w1 @ close_done d\<rparr>), n')
            | (None, n') \<Rightarrow>
                (let w2 = w1\<lparr>done_closed := done_closed w1 @ close_done d\<rparr> in
                 case ctxErrAfter of Some e \<Rightarrow> (RunReturn (Some e), CloseWriter w2, n')
                 | None \<Rightarrow> (RunContinue, w2, n')))))"

section \<open>Invariant and abstraction\<close>

definition writer_inv :: "fair_writer \<Rightarrow> bool" where
  "writer_inv w \<longleftrightarrow> distinct (order w) \<and> set (order w) = dom (streams w) \<and> cursor w \<le> length (order w)
     \<and> 0 < StreamQueueBytes w \<and> 0 \<notin> set (order w)
     \<and> (\<forall>sid q. streams w sid = Some q \<longrightarrow> queue_inv q \<and> \<not> qclosed q \<and> maxBytes q = StreamQueueBytes w
            \<and> (\<forall>f\<in>set (frames q). StreamID f = sid))"

definition waiting :: "fair_writer \<Rightarrow> uint32 \<Rightarrow> frame list" where
  "waiting w sid = (case streams w sid of None \<Rightarrow> [] | Some q \<Rightarrow> frames q)"

text \<open>The streams in the order in which the next scan visits them.\<close>

definition turns :: "fair_writer \<Rightarrow> uint32 list" where
  "turns w = drop (cursor w) (order w) @ take (cursor w) (order w)"

lemma set_turns [simp]: "set (turns w) = set (order w)"
  by (metis Un_commute append_take_drop_id set_append turns_def)

lemma distinct_turns: "distinct (order w) \<Longrightarrow> distinct (turns w)"
  by (metis append_take_drop_id distinct_append inf_commute turns_def)

lemma length_turns [simp]: "length (turns w) = length (order w)"
  by (simp add: turns_def)

lemma writer_inv_New: "writer_inv (NewFairFrameWriter c s q)"
  by (simp add: writer_inv_def NewFairFrameWriter_def)

lemma drop_take_mod: "c \<le> length xs \<Longrightarrow> drop (c mod length xs) xs @ take (c mod length xs) xs = drop c xs @ take c xs"
  by (cases "c = length xs") simp_all

lemma turns_advance:
  assumes "cursor w \<le> length (order w)" "order w \<noteq> []"
  defines "i \<equiv> cursor w mod length (order w)"
  shows "turns w = order w ! i # tl (turns w)"
    and "turns (w\<lparr>cursor := (i + 1) mod length (order w)\<rparr>) = tl (turns w) @ [order w ! i]"
    and "(i + 1) mod length (order w) \<le> length (order w)"
proof -
  let ?o = "order w"
  have i: "i < length ?o" using assms(2) by (simp add: i_def)
  have t: "turns w = drop i ?o @ take i ?o" using drop_take_mod [OF assms(1)] by (simp add: turns_def i_def)
  also have "\<dots> = ?o ! i # (drop (Suc i) ?o @ take i ?o)" using i by (simp add: Cons_nth_drop_Suc)
  finally have h: "turns w = ?o ! i # (drop (Suc i) ?o @ take i ?o)" .
  then show "turns w = ?o ! i # tl (turns w)" by simp
  have "turns (w\<lparr>cursor := (i + 1) mod length ?o\<rparr>) = drop (i + 1) ?o @ take (i + 1) ?o"
    using drop_take_mod [of "i + 1" ?o] i by (simp add: turns_def)
  also have "\<dots> = tl (turns w) @ [?o ! i]" using i by (simp add: h take_Suc_conv_app_nth)
  finally show "turns (w\<lparr>cursor := (i + 1) mod length ?o\<rparr>) = tl (turns w) @ [?o ! i]" .
  show "(i + 1) mod length ?o \<le> length ?o" using assms(2) by (simp add: less_imp_le)
qed

lemma order_index_lt: "sid \<in> set ids \<Longrightarrow> order_index sid ids < length ids \<and> ids ! order_index sid ids = sid"
  unfolding order_index_def by (induction ids) auto

lemma order_index_notin: "sid \<notin> set ids \<Longrightarrow> order_index sid ids = length ids"
  unfolding order_index_def by (subst takeWhile_eq_all_conv [THEN iffD2]) auto

lemma remove_index: "take (order_index sid ids) ids @ drop (Suc (order_index sid ids)) ids = remove1 sid ids"
proof (induction ids)
  case Nil
  then show ?case by (simp add: order_index_def)
next
  case (Cons i ids)
  then show ?case by (cases "i = sid") (simp_all add: order_index_def)
qed

lemma turns_remove:
  assumes c: "c \<le> length ids" and d: "distinct ids" and m: "sid \<in> set ids"
  defines "i \<equiv> order_index sid ids"
  defines "c' \<equiv> (if c > i then c - 1 else c)"
  shows "drop c' (remove1 sid ids) @ take c' (remove1 sid ids) = remove1 sid (drop c ids @ take c ids)"
    and "c' \<le> length (remove1 sid ids)"
proof -
  have i: "i < length ids" "ids ! i = sid" using order_index_lt [OF m] by (simp_all add: i_def)
  define us where "us = take i ids"
  define vs where "vs = drop (Suc i) ids"
  have ids: "ids = us @ sid # vs" and lu: "length us = i"
    using i id_take_nth_drop [OF i(1)] by (simp_all add: us_def vs_def)
  have nin: "sid \<notin> set us" "sid \<notin> set vs" using d unfolding ids by simp_all
  then have r: "remove1 sid ids = us @ vs" by (simp add: ids remove1_append)
  show "c' \<le> length (remove1 sid ids)" using c i(1) lu unfolding r c'_def by (auto simp: ids)
  show "drop c' (remove1 sid ids) @ take c' (remove1 sid ids) = remove1 sid (drop c ids @ take c ids)"
  proof (cases "c > i")
    case True
    then obtain k where k: "c = Suc (i + k)" by (auto dest: less_imp_Suc_add)
    have "sid \<notin> set (drop k vs)" using nin(2) by (meson in_set_dropD)
    then show ?thesis using True nin lu unfolding r by (simp add: c'_def k ids remove1_append)
  next
    case False
    have "sid \<notin> set (drop c us)" using nin(1) by (meson in_set_dropD)
    then show ?thesis using False nin lu unfolding r by (simp add: c'_def ids remove1_append)
  qed
qed

lemma removeStreamLocked_absent: "streams w sid = None \<Longrightarrow> removeStreamLocked w sid = w"
  by (simp add: removeStreamLocked_def)

lemma removeStreamLocked_present:
  assumes "writer_inv w" "streams w sid \<noteq> None"
  shows "turns (removeStreamLocked w sid) = remove1 sid (turns w)"
    and "streams (removeStreamLocked w sid) = (streams w)(sid := None)"
    and "writer_inv (removeStreamLocked w sid)"
    and "order (removeStreamLocked w sid) = remove1 sid (order w)"
proof -
  have m: "sid \<in> set (order w)" and d: "distinct (order w)" and c: "cursor w \<le> length (order w)"
    using assms by (auto simp: writer_inv_def dom_def)
  obtain q where q: "streams w sid = Some q" using assms(2) by blast
  have e: "removeStreamLocked w sid = w\<lparr>streams := (streams w)(sid := None), order := remove1 sid (order w),
      cursor := (if cursor w > order_index sid (order w) then cursor w - 1 else cursor w)\<rparr>"
    using order_index_lt [OF m] by (simp add: removeStreamLocked_def q Let_def remove_index)
  show "turns (removeStreamLocked w sid) = remove1 sid (turns w)"
    using turns_remove(1) [OF c d m] by (simp add: e turns_def)
  show "streams (removeStreamLocked w sid) = (streams w)(sid := None)" "order (removeStreamLocked w sid) = remove1 sid (order w)"
    by (simp_all add: e)
  show "writer_inv (removeStreamLocked w sid)"
    using assms(1) turns_remove(2) [OF c d m] d by (auto simp: e writer_inv_def set_remove1_eq)
qed

lemma removeStreamLocked_frame [simp]:
  "control (removeStreamLocked w sid) = control w" "fclosed (removeStreamLocked w sid) = fclosed w"
  "StreamQueueBytes (removeStreamLocked w sid) = StreamQueueBytes w"
  "ControlQueueSize (removeStreamLocked w sid) = ControlQueueSize w"
  "done_closed (removeStreamLocked w sid) = done_closed w"
  by (simp_all add: removeStreamLocked_def Let_def split: option.splits)

text \<open>Retiring removes the given streams from the turn list; they hold no frame, so nothing is lost.\<close>

lemma retire_spec:
  assumes "writer_inv w" "\<forall>i\<in>set ids. waiting w i = []"
  shows "writer_inv (retireIdleLocked w ids) \<and> turns (retireIdleLocked w ids) = filter (\<lambda>i. i \<notin> set ids) (turns w)
    \<and> waiting (retireIdleLocked w ids) = waiting w \<and> control (retireIdleLocked w ids) = control w
    \<and> fclosed (retireIdleLocked w ids) = fclosed w \<and> StreamQueueBytes (retireIdleLocked w ids) = StreamQueueBytes w
    \<and> ControlQueueSize (retireIdleLocked w ids) = ControlQueueSize w"
  using assms
proof (induction ids arbitrary: w)
  case Nil
  then show ?case by (simp add: retireIdleLocked_def)
next
  case (Cons i ids)
  show ?case
  proof (cases "streams w i")
    case None
    then have "i \<notin> set (turns w)" using Cons.prems(1) by (auto simp: writer_inv_def)
    then have f: "filter (\<lambda>j. j \<notin> set (i # ids)) (turns w) = filter (\<lambda>j. j \<notin> set ids) (turns w)"
      by (intro filter_cong) auto
    have "retireIdleLocked w (i # ids) = retireIdleLocked w ids" by (simp add: retireIdleLocked_def None)
    then show ?thesis using Cons.IH [OF Cons.prems(1)] Cons.prems(2) f by simp
  next
    case (Some q)
    let ?w = "removeStreamLocked w i"
    have ne: "streams w i \<noteq> None" using Some by simp
    have "frames q = []" using Cons.prems(2) Some by (simp add: waiting_def)
    then have e: "retireIdleLocked w (i # ids) = retireIdleLocked ?w ids" by (simp add: retireIdleLocked_def Some)
    have w: "waiting ?w = waiting w"
      using Cons.prems(2) by (auto simp: waiting_def removeStreamLocked_present(2) [OF Cons.prems(1) ne] fun_eq_iff split: option.splits)
    have "distinct (turns w)" using Cons.prems(1) by (simp add: writer_inv_def distinct_turns)
    then have t: "filter (\<lambda>j. j \<notin> set ids) (remove1 i (turns w)) = filter (\<lambda>j. j \<notin> set (i # ids)) (turns w)"
      by (auto simp: distinct_remove1_removeAll removeAll_filter_not_eq intro: filter_cong)
    show ?thesis
      using Cons.IH [OF removeStreamLocked_present(3) [OF Cons.prems(1) ne]] Cons.prems(2)
      by (simp add: e w removeStreamLocked_present(1) [OF Cons.prems(1) ne] t)
  qed
qed

text \<open>
  What taking a data frame does to the turn list: streams with nothing waiting are dropped up to the first one that
  has a frame, which gives its oldest frame and goes to the end.
\<close>

definition served :: "fair_writer \<Rightarrow> uint32 \<Rightarrow> frame \<Rightarrow> fair_writer \<Rightarrow> bool" where
  "served w sid f w' \<longleftrightarrow>
     (\<exists>us vs. turns w = us @ sid # vs \<and> (\<forall>i\<in>set us. waiting w i = []) \<and> turns w' = vs @ [sid])
     \<and> waiting w sid = f # waiting w' sid \<and> (\<forall>i. i \<noteq> sid \<longrightarrow> waiting w' i = waiting w i)"

lemma writer_inv_pop:
  assumes "writer_inv w" "streams w sid = Some q" "TryPop now q = Some (f, q')"
  shows "writer_inv (w\<lparr>streams := (streams w)(sid \<mapsto> q'), waitSamples := vs\<rparr>)"
  using assms queue_inv_pop [of q now f q'] popLocked_Some [of now q f q']
  by (auto simp: writer_inv_def TryPop_def)

lemma writer_inv_cursor: "writer_inv w \<Longrightarrow> c \<le> length (order w) \<Longrightarrow> writer_inv (w\<lparr>cursor := c\<rparr>)"
  by (auto simp: writer_inv_def)

lemma scan_spec:
  assumes "writer_inv w" "turns w = xs @ ys" "k = length xs" "\<forall>i\<in>set ys. waiting w i = []" "scan k now w ys = (r, w')"
  shows "writer_inv w' \<and> control w' = control w \<and> fclosed w' = fclosed w \<and> StreamQueueBytes w' = StreamQueueBytes w
    \<and> ControlQueueSize w' = ControlQueueSize w
    \<and> (case r of
         None \<Rightarrow> (\<forall>i\<in>set xs. waiting w i = []) \<and> turns w' = [] \<and> waiting w' = waiting w
       | Some f \<Rightarrow> (\<exists>us sid vs. xs = us @ sid # vs \<and> (\<forall>i\<in>set us. waiting w i = []) \<and> turns w' = vs @ [sid]
             \<and> waiting w sid = f # waiting w' sid \<and> (\<forall>i. i \<noteq> sid \<longrightarrow> waiting w' i = waiting w i)))"
  using assms
proof (induction k arbitrary: w xs ys)
  case 0
  then show ?case using retire_spec [of w ys] by (auto simp: filter_empty_conv)
next
  case (Suc k)
  let ?i = "cursor w mod length (order w)"
  let ?x = "order w ! ?i"
  let ?w1 = "w\<lparr>cursor := (?i + 1) mod length (order w)\<rparr>"
  obtain x xs' where xs: "xs = x # xs'" using Suc.prems(3) by (cases xs) auto
  have c: "cursor w \<le> length (order w)" using Suc.prems(1) by (simp add: writer_inv_def)
  have ne: "order w \<noteq> []" using Suc.prems(2) xs length_turns [of w] by auto
  note adv = turns_advance [OF c ne]
  have x: "x = ?x" using adv(1) Suc.prems(2) xs by simp
  have t1: "turns ?w1 = xs' @ ys @ [x]" using adv(2) Suc.prems(2) xs x by simp
  have i1: "writer_inv ?w1" by (rule writer_inv_cursor [OF Suc.prems(1) adv(3)])
  have "x \<in> set (order w)" using Suc.prems(2) xs set_turns [of w] by auto
  then obtain q where q: "streams w x = Some q" using Suc.prems(1) by (auto simp: writer_inv_def)
  have wt: "waiting ?w1 = waiting w" by (simp add: waiting_def fun_eq_iff)
  show ?case
  proof (cases "TryPop now q")
    case None
    then have e: "waiting w x = []" by (simp add: waiting_def q TryPop_def)
    have "scan k now ?w1 (ys @ [x]) = (r, w')"
      using Suc.prems(5) None q x by (simp add: Let_def)
    note ih = Suc.IH [OF i1 t1 _ _ this]
    show ?thesis
    proof (cases r)
      case None
      then show ?thesis using ih Suc.prems(3,4) e xs wt by simp
    next
      case (Some f)
      then obtain us sid vs where u: "xs' = us @ sid # vs" "\<forall>i\<in>set us. waiting w i = []" "turns w' = vs @ [sid]"
        "waiting w sid = f # waiting w' sid" "\<forall>i. i \<noteq> sid \<longrightarrow> waiting w' i = waiting w i"
        using ih Suc.prems(3,4) e xs wt by auto
      have "\<exists>us sid vs. xs = us @ sid # vs \<and> (\<forall>i\<in>set us. waiting w i = []) \<and> turns w' = vs @ [sid]
          \<and> waiting w sid = f # waiting w' sid \<and> (\<forall>i. i \<noteq> sid \<longrightarrow> waiting w' i = waiting w i)"
        using u e by (intro exI [of _ "x # us"] exI [of _ sid] exI [of _ vs]) (simp add: xs)
      then show ?thesis using Some ih Suc.prems(3,4) e xs wt by simp
    qed
  next
    case (Some p)
    obtain f q' where p: "TryPop now q = Some (f, q')" using Some by (cases p) simp
    define w2 where "w2 = ?w1\<lparr>streams := (streams w)(x \<mapsto> q'), waitSamples := RecordSample (waitSamples w) (lastWait q')\<rparr>"
    have w': "r = Some f" "w' = retireIdleLocked w2 ys"
      using Suc.prems(5) p q x by (simp_all add: Let_def w2_def)
    have i2: "writer_inv w2" using writer_inv_pop [OF i1 _ p, of x] q by (simp add: w2_def)
    have d: "distinct (turns w)" using Suc.prems(1) by (simp add: writer_inv_def distinct_turns)
    then have nx: "x \<notin> set ys" "set xs' \<inter> set ys = {}" using Suc.prems(2) xs by auto
    have wt2: "waiting w2 i = (if i = x then frames q' else waiting w i)" for i by (simp add: waiting_def w2_def)
    have "\<forall>i\<in>set ys. waiting w2 i = []" using nx Suc.prems(4) by (auto simp: wt2)
    note ret = retire_spec [OF i2 this]
    have "turns w2 = turns ?w1" by (simp add: turns_def w2_def)
    then have "turns w' = xs' @ [x]"
      using ret nx t1 w' by (simp add: filter_empty_conv) (intro filter_True, auto)
    moreover have "waiting w x = f # waiting w' x"
      using ret w' popLocked_Some [OF p [unfolded TryPop_def]] wt2 [of x] by (simp add: waiting_def [of w] q)
    moreover have "\<forall>i. i \<noteq> x \<longrightarrow> waiting w' i = waiting w i" using ret w' by (simp add: wt2)
    ultimately have "\<exists>us sid vs. xs = us @ sid # vs \<and> (\<forall>i\<in>set us. waiting w i = []) \<and> turns w' = vs @ [sid]
        \<and> waiting w sid = f # waiting w' sid \<and> (\<forall>i. i \<noteq> sid \<longrightarrow> waiting w' i = waiting w i)"
      by (intro exI [of _ "[]"] exI [of _ x] exI [of _ xs']) (simp add: xs)
    with ret w' show ?thesis by (simp add: w2_def)
  qed
qed

lemma nextDataLocked_spec:
  assumes "writer_inv w" "nextDataLocked now w = (r, w')"
  shows "writer_inv w' \<and> control w' = control w \<and> fclosed w' = fclosed w \<and> StreamQueueBytes w' = StreamQueueBytes w
    \<and> ControlQueueSize w' = ControlQueueSize w
    \<and> (case r of None \<Rightarrow> (\<forall>i. waiting w i = []) \<and> turns w' = [] \<and> waiting w' = waiting w
        | Some f \<Rightarrow> (\<exists>sid. served w sid f w'))"
proof -
  have "waiting w i = []" if "i \<notin> set (order w)" for i
    using assms(1) that by (auto simp: writer_inv_def waiting_def split: option.splits)
  moreover note spec = scan_spec [OF assms(1), of "turns w" "[]" "length (order w)" now r w']
  ultimately show ?thesis
  proof (cases r)
    case None
    with spec assms(2) \<open>\<And>i. i \<notin> set (order w) \<Longrightarrow> waiting w i = []\<close> show ?thesis
      by (simp add: nextDataLocked_def) blast
  next
    case (Some f)
    with spec assms(2) show ?thesis by (simp add: nextDataLocked_def served_def) blast
  qed
qed

lemma EnqueueData_existing:
  assumes "writer_inv w" "sid \<noteq> 0" "\<not> fclosed w" "streams w sid = Some q"
  shows "EnqueueData now w sid f =
    (case TryPush now q (f\<lparr>StreamID := sid\<rparr>) of None \<Rightarrow> (Some ErrStreamQueueFull, w)
     | Some q' \<Rightarrow> (None, w\<lparr>streams := (streams w)(sid \<mapsto> q')\<rparr>))"
  using assms by (simp add: EnqueueData_def split: option.splits)

lemma EnqueueData_new:
  assumes "writer_inv w" "sid \<noteq> 0" "\<not> fclosed w" "streams w sid = None"
  shows "EnqueueData now w sid f =
    (case TryPush now (NewBoundedFrameQueue (StreamQueueBytes w)) (f\<lparr>StreamID := sid\<rparr>) of
       None \<Rightarrow> (Some ErrStreamQueueFull, w\<lparr>cursor := length (order w)\<rparr>)
     | Some q' \<Rightarrow> (None, w\<lparr>streams := (streams w)(sid \<mapsto> q'), order := order w @ [sid], cursor := length (order w)\<rparr>))"
proof -
  have n: "sid \<notin> set (order w)" using assms by (auto simp: writer_inv_def)
  have i: "order_index sid (order w @ [sid]) = length (order w)"
    using n by (simp add: order_index_def takeWhile_append)
  have u: "(streams w)(sid := None) = streams w" using assms(4) by (simp add: fun_upd_idem)
  show ?thesis using assms n
    by (simp add: EnqueueData_def Let_def removeStreamLocked_def i u split: option.splits)
qed

lemma EnqueueData_spec:
  assumes w: "writer_inv w" and e: "EnqueueData now w sid f = (r, w')"
  shows "writer_inv w' \<and> control w' = control w \<and> fclosed w' = fclosed w \<and> StreamQueueBytes w' = StreamQueueBytes w
    \<and> ControlQueueSize w' = ControlQueueSize w
    \<and> waiting w' = (if r = None then (waiting w)(sid := waiting w sid @ [f\<lparr>StreamID := sid\<rparr>]) else waiting w)
    \<and> (sid \<in> set (order w) \<longrightarrow> turns w' = turns w)
    \<and> (sid \<notin> set (order w) \<longrightarrow> r = None \<longrightarrow> turns w' = sid # order w)"
proof (cases "sid = 0 \<or> fclosed w")
  case True
  then have "r = Some ErrStreamQueueFull" "w' = w" using e by (auto simp: EnqueueData_def Let_def split: if_splits)
  with w show ?thesis by simp
next
  case False
  show ?thesis
  proof (cases "streams w sid")
    case None
    then have n: "sid \<notin> set (order w)" using w by (auto simp: writer_inv_def)
    let ?q = "NewBoundedFrameQueue (StreamQueueBytes w)"
    have m: "0 < StreamQueueBytes w" using w by (simp add: writer_inv_def)
    show ?thesis
    proof (cases "TryPush now ?q (f\<lparr>StreamID := sid\<rparr>)")
      case None': None
      then show ?thesis using e EnqueueData_new [OF w _ _ None] False n w
        by (auto simp: writer_inv_def waiting_def)
    next
      case (Some q')
      have q': "queue_inv q'" "frames q' = [f\<lparr>StreamID := sid\<rparr>]" "\<not> qclosed q'" "maxBytes q' = StreamQueueBytes w"
        using queue_inv_push [OF queue_inv_New Some] Some m
        by (auto simp: TryPush_Some NewBoundedFrameQueue_def)
      then show ?thesis using e EnqueueData_new [OF w _ _ None] False n w Some None
        by (auto simp: writer_inv_def waiting_def turns_def fun_eq_iff split: if_splits)
    qed
  next
    case (Some q)
    then have q: "queue_inv q" "maxBytes q = StreamQueueBytes w" "\<forall>g\<in>set (frames q). StreamID g = sid"
      using w by (auto simp: writer_inv_def)
    have o: "sid \<in> set (order w)" using w Some by (auto simp: writer_inv_def)
    show ?thesis
    proof (cases "TryPush now q (f\<lparr>StreamID := sid\<rparr>)")
      case None
      then show ?thesis using e EnqueueData_existing [OF w _ _ Some] False w o by auto
    next
      case (Some q')
      have q': "queue_inv q'" "frames q' = frames q @ [f\<lparr>StreamID := sid\<rparr>]" "\<not> qclosed q'" "maxBytes q' = StreamQueueBytes w"
        using queue_inv_push [OF q(1) Some] Some q(2) by (auto simp: TryPush_Some)
      then show ?thesis
        using e EnqueueData_existing [OF w _ _ \<open>streams w sid = Some q\<close>] False w Some q(3) \<open>streams w sid = Some q\<close> o
        by (auto simp: writer_inv_def waiting_def turns_def fun_eq_iff split: if_splits)
    qed
  qed
qed

section \<open>Runs\<close>

text \<open>
  Producers and the send loop, interleaved. The log records the frames accepted for the data queues (with their
  stream), the accepted control frames, and the two kinds of frames handed to the connection.
\<close>

datatype writer_event = WData int uint32 frame | WControl int frame | WNext int

record writer_log =
  in_data :: "frame list"
  in_control :: "frame list"
  out_data :: "frame list"
  out_control :: "frame list"

definition log_step :: "fair_writer \<times> writer_log \<Rightarrow> writer_event \<Rightarrow> fair_writer \<times> writer_log" where
  "log_step wl e =
     (case wl of (w, l) \<Rightarrow>
      (case e of
         WData now sid f \<Rightarrow>
           (case EnqueueData now w sid f of
              (None, w') \<Rightarrow> (w', l\<lparr>in_data := in_data l @ [f\<lparr>StreamID := sid\<rparr>]\<rparr>)
            | (Some _, w') \<Rightarrow> (w', l))
       | WControl now f \<Rightarrow>
           (case EnqueueControl now w f of
              (None, w') \<Rightarrow>
                (w', if FType f = FrameHalfClose \<and> StreamID f \<noteq> 0 then l\<lparr>in_data := in_data l @ [f]\<rparr>
                     else l\<lparr>in_control := in_control l @ [f]\<rparr>)
            | (Some _, w') \<Rightarrow> (w', l))
       | WNext now \<Rightarrow>
           (case next_frame False now w of
              (NextItem (f, _), w') \<Rightarrow>
                (w', if control w \<noteq> [] then l\<lparr>out_control := out_control l @ [f]\<rparr> else l\<lparr>out_data := out_data l @ [f]\<rparr>)
            | (_, w') \<Rightarrow> (w', l))))"

definition of_stream :: "uint32 \<Rightarrow> frame list \<Rightarrow> frame list" where
  "of_stream sid fs = filter (\<lambda>f. StreamID f = sid) fs"

definition log_inv :: "fair_writer \<times> writer_log \<Rightarrow> bool" where
  "log_inv wl \<longleftrightarrow> writer_inv (fst wl)
     \<and> (\<forall>sid. of_stream sid (in_data (snd wl)) = of_stream sid (out_data (snd wl)) @ waiting (fst wl) sid)
     \<and> in_control (snd wl) = out_control (snd wl) @ map fst (control (fst wl))"

lemma of_stream_simps [simp]:
  "of_stream sid [] = []"
  "of_stream sid (fs @ gs) = of_stream sid fs @ of_stream sid gs"
  "of_stream sid (f # fs) = (if StreamID f = sid then f # of_stream sid fs else of_stream sid fs)"
  by (simp_all add: of_stream_def)

lemma next_frame_spec:
  assumes w: "writer_inv w" and e: "next_frame c now w = (r, w')"
  shows "writer_inv w' \<and> (case r of
      NextStop \<Rightarrow> w' = w \<and> (fclosed w \<or> c)
    | NextWait \<Rightarrow> control w = [] \<and> control w' = [] \<and> (\<forall>i. waiting w i = []) \<and> waiting w' = waiting w \<and> turns w' = []
    | NextItem (f, d) \<Rightarrow>
        (if control w \<noteq> [] then control w = (f, d) # control w' \<and> waiting w' = waiting w \<and> turns w' = turns w
         else control w' = [] \<and> d = None \<and> (\<exists>sid. served w sid f w')))"
proof (cases "fclosed w \<or> c")
  case True
  then show ?thesis using w e by (auto simp: next_frame_def split: if_splits)
next
  case False
  show ?thesis
  proof (cases "control w")
    case (Cons item rest)
    then have "r = NextItem item" "w' = w\<lparr>control := rest\<rparr>" using False e by (auto simp: next_frame_def)
    with w Cons show ?thesis by (auto simp: writer_inv_def waiting_def turns_def fun_eq_iff split: prod.splits)
  next
    case Nil
    obtain r1 w1 where n: "nextDataLocked now w = (r1, w1)" by (cases "nextDataLocked now w")
    note spec = nextDataLocked_spec [OF w n]
    show ?thesis
    proof (cases r1)
      case None
      then have "r = NextWait" "w' = w1" using False e Nil n by (auto simp: next_frame_def)
      with spec None Nil show ?thesis by simp
    next
      case (Some f)
      then have "r = NextItem (f, None)" "w' = w1" using False e Nil n by (auto simp: next_frame_def)
      with spec Some Nil show ?thesis by simp
    qed
  qed
qed

lemma served_stream_id:
  "writer_inv w \<Longrightarrow> served w sid f w' \<Longrightarrow> StreamID f = sid"
  by (auto simp: writer_inv_def served_def waiting_def split: option.splits)

lemma log_inv_step:
  assumes "log_inv wl"
  shows "log_inv (log_step wl e)"
proof -
  obtain w l where wl: "wl = (w, l)" by (cases wl)
  have w: "writer_inv w" and l: "\<And>sid. of_stream sid (in_data l) = of_stream sid (out_data l) @ waiting w sid"
    and c: "in_control l = out_control l @ map fst (control w)" using assms by (auto simp: log_inv_def wl)
  show ?thesis
  proof (cases e)
    case (WData now sid f)
    obtain r w' where e': "EnqueueData now w sid f = (r, w')" by (cases "EnqueueData now w sid f")
    show ?thesis using EnqueueData_spec [OF w e'] l c
      by (cases r) (auto simp: log_step_def wl WData e' log_inv_def)
  next
    case (WControl now f)
    show ?thesis
    proof (cases "FType f = FrameHalfClose \<and> StreamID f \<noteq> 0")
      case True
      obtain r w' where e': "EnqueueData now w (StreamID f) f = (r, w')" by (cases "EnqueueData now w (StreamID f) f")
      show ?thesis using EnqueueData_spec [OF w e'] l c True
        by (cases r) (auto simp: log_step_def wl WControl EnqueueControl_def e' log_inv_def)
    next
      case False
      then show ?thesis using w l c
        by (auto simp: log_step_def wl WControl EnqueueControl_def enqueueControl_def log_inv_def writer_inv_def waiting_def)
    qed
  next
    case (WNext now)
    obtain r w' where n: "next_frame False now w = (r, w')" by (cases "next_frame False now w")
    note spec = next_frame_spec [OF w n]
    show ?thesis
    proof (cases r)
      case (NextItem item)
      obtain f d where item: "item = (f, d)" by (cases item)
      show ?thesis
      proof (cases "control w = []")
        case True
        then obtain sid where s: "served w sid f w'" using spec NextItem item by auto
        have "StreamID f = sid" by (rule served_stream_id [OF w s])
        then show ?thesis using s spec l c True NextItem item
          by (auto simp: log_step_def wl WNext n log_inv_def served_def)
      next
        case False
        then show ?thesis using spec l c NextItem item by (simp add: log_step_def wl WNext n log_inv_def)
      qed
    next
      case NextStop
      then show ?thesis using spec w l c by (simp add: log_step_def wl WNext n log_inv_def)
    next
      case NextWait
      then show ?thesis using spec l c by (simp add: log_step_def wl WNext n log_inv_def)
    qed
  qed
qed

lemma log_inv_run:
  "log_inv wl \<Longrightarrow> log_inv (run_steps log_step wl es)"
  by (rule run_steps_invariant) (rule log_inv_step)

definition empty_log :: writer_log where
  "empty_log = \<lparr>in_data = [], in_control = [], out_data = [], out_control = []\<rparr>"

lemma log_inv_New: "log_inv (NewFairFrameWriter c s q, empty_log)"
  using writer_inv_New [of c s q] by (simp add: log_inv_def empty_log_def) (simp add: NewFairFrameWriter_def waiting_def)

section \<open>Turns\<close>

definition position :: "fair_writer \<Rightarrow> uint32 \<Rightarrow> nat" where
  "position w sid = length (takeWhile (\<lambda>i. i \<noteq> sid) (turns w))"

text \<open>An event that does not make a stream active.\<close>

definition starts_none :: "fair_writer \<Rightarrow> writer_event \<Rightarrow> bool" where
  "starts_none w e =
     (case e of WData _ sid _ \<Rightarrow> sid \<in> set (order w)
      | WControl _ f \<Rightarrow> FType f = FrameHalfClose \<and> StreamID f \<noteq> 0 \<longrightarrow> StreamID f \<in> set (order w)
      | WNext _ \<Rightarrow> True)"

fun no_new_streams :: "fair_writer \<times> writer_log \<Rightarrow> writer_event list \<Rightarrow> bool" where
  "no_new_streams wl [] = True"
| "no_new_streams wl (e # es) = (starts_none (fst wl) e \<and> no_new_streams (log_step wl e) es)"

lemma position_append:
  "turns w = us @ sid # vs \<Longrightarrow> sid \<notin> set us \<Longrightarrow> position w sid = length us"
  unfolding position_def by (simp only:, subst takeWhile_append2 [of us]) auto

text \<open>Serving another stream brings a waiting one forward by at least one place.\<close>

lemma served_position:
  assumes w: "writer_inv w" and s: "served w i f w'" and n: "sid \<noteq> i" "sid \<in> set (order w)" "waiting w sid \<noteq> []"
  shows "Suc (position w' sid) \<le> position w sid \<and> sid \<in> set (turns w') \<and> waiting w' sid \<noteq> []"
proof -
  obtain us vs where u: "turns w = us @ i # vs" "\<forall>j\<in>set us. waiting w j = []" "turns w' = vs @ [i]"
    and wt: "\<forall>j. j \<noteq> i \<longrightarrow> waiting w' j = waiting w j"
    using s by (auto simp: served_def)
  have "sid \<in> set (turns w)" using n by simp
  then have "sid \<in> set vs" using u n by auto
  then obtain as bs where v: "vs = as @ sid # bs" "sid \<notin> set as" by (meson split_list_first)
  have "distinct (turns w)" using w by (simp add: writer_inv_def distinct_turns)
  then have "sid \<notin> set (us @ i # as)" using u v by auto
  then have "position w sid = length (us @ i # as)" by (intro position_append [where vs = bs]) (simp_all add: u v)
  moreover have "position w' sid = length as" by (intro position_append [where vs = "bs @ [i]"]) (simp_all add: u v)
  ultimately show ?thesis using v u wt n by simp
qed

lemma active_step:
  assumes inv: "writer_inv w" and a: "sid \<in> set (order w)" "waiting w sid \<noteq> []" and q: "starts_none w e"
    and st: "log_step (w, l) e = (w', l')" and u: "of_stream sid (out_data l') = of_stream sid (out_data l)"
  shows "writer_inv w' \<and> sid \<in> set (order w') \<and> waiting w' sid \<noteq> []
    \<and> length (out_data l') + position w' sid \<le> length (out_data l) + position w sid"
proof -
  have data: ?thesis if e': "EnqueueData now w i f = (r, w')" and i: "i \<in> set (order w)"
    and l': "out_data l' = out_data l" for now i f r
  proof -
    note spec = EnqueueData_spec [OF inv e']
    have t: "turns w' = turns w" using spec i by blast
    then have "set (order w') = set (order w)" by (metis set_turns)
    moreover have "waiting w' sid \<noteq> []" using spec a(2) by (cases "r = None") auto
    ultimately show ?thesis using spec t a l' by (simp add: position_def)
  qed
  show ?thesis
  proof (cases e)
    case (WData now i f)
    obtain r w1 where e': "EnqueueData now w i f = (r, w1)" by (cases "EnqueueData now w i f")
    then have "w' = w1" "out_data l' = out_data l" using st WData by (auto simp: log_step_def split: option.splits)
    then show ?thesis using data [of now i f r] e' q WData by (simp add: starts_none_def)
  next
    case (WControl now f)
    show ?thesis
    proof (cases "FType f = FrameHalfClose \<and> StreamID f \<noteq> 0")
      case True
      obtain r w1 where e': "EnqueueData now w (StreamID f) f = (r, w1)" by (cases "EnqueueData now w (StreamID f) f")
      then have "w' = w1" "out_data l' = out_data l"
        using st WControl True by (auto simp: log_step_def EnqueueControl_def split: option.splits)
      then show ?thesis using data [of now "StreamID f" f r] e' q WControl True by (simp add: starts_none_def)
    next
      case False
      then have "order w' = order w" "cursor w' = cursor w" "streams w' = streams w" "StreamQueueBytes w' = StreamQueueBytes w"
        "out_data l' = out_data l"
        using st WControl by (auto simp: log_step_def EnqueueControl_def enqueueControl_def split: if_splits)
      then show ?thesis using inv a by (auto simp: writer_inv_def waiting_def position_def turns_def)
    qed
  next
    case (WNext now)
    obtain r w1 where n: "next_frame False now w = (r, w1)" by (cases "next_frame False now w")
    note spec = next_frame_spec [OF inv n]
    show ?thesis
    proof (cases r)
      case (NextItem item)
      obtain f d where item: "item = (f, d)" by (cases item)
      show ?thesis
      proof (cases "control w = []")
        case True
        then obtain i where s: "served w i f w1" using spec NextItem item by auto
        have l': "w' = w1" "out_data l' = out_data l @ [f]" using st WNext n NextItem item True by (auto simp: log_step_def)
        have "sid \<noteq> i" using u l'(2) served_stream_id [OF inv s] by auto
        from served_position [OF inv s this a] l' spec set_turns [of w1] show ?thesis by auto
      next
        case False
        then have "w' = w1" "out_data l' = out_data l" "turns w1 = turns w" "waiting w1 = waiting w"
          using st WNext n NextItem item spec by (auto simp: log_step_def)
        then show ?thesis using a spec set_turns [of w1] set_turns [of w] by (simp add: position_def)
      qed
    next
      case NextStop
      then show ?thesis using st WNext n spec a inv by (auto simp: log_step_def)
    next
      case NextWait
      then show ?thesis using spec a by auto
    qed
  qed
qed

lemma out_data_grows: "\<exists>fs. out_data (snd (log_step wl e)) = out_data (snd wl) @ fs"
  by (cases wl; cases e) (auto simp: log_step_def split: prod.splits option.splits next_result.splits)

lemma out_data_grows_run: "\<exists>fs. out_data (snd (run_steps log_step wl es)) = out_data (snd wl) @ fs"
proof (induction es arbitrary: wl)
  case Nil
  then show ?case by simp
next
  case (Cons e es)
  with out_data_grows [of wl e] show ?case by (metis append.assoc run_steps_simps(2))
qed

lemma active_run:
  "writer_inv (fst wl) \<Longrightarrow> sid \<in> set (order (fst wl)) \<Longrightarrow> waiting (fst wl) sid \<noteq> [] \<Longrightarrow> no_new_streams wl es \<Longrightarrow>
   of_stream sid (out_data (snd (run_steps log_step wl es))) = of_stream sid (out_data (snd wl)) \<Longrightarrow>
   length (out_data (snd (run_steps log_step wl es))) \<le> length (out_data (snd wl)) + position (fst wl) sid"
proof (induction es arbitrary: wl)
  case Nil
  then show ?case by simp
next
  case (Cons e es)
  obtain w l where wl: "wl = (w, l)" by (cases wl)
  obtain w1 l1 where st: "log_step (w, l) e = (w1, l1)" by (cases "log_step (w, l) e")
  obtain fs gs where g: "out_data l1 = out_data l @ fs" "out_data (snd (run_steps log_step (w1, l1) es)) = out_data l1 @ gs"
    using out_data_grows [of "(w, l)" e] out_data_grows_run [of "(w1, l1)" es] st by auto
  have s: "of_stream sid fs = []" "of_stream sid gs = []" using Cons.prems(5) g by (simp_all add: wl st)
  have u: "of_stream sid (out_data l1) = of_stream sid (out_data l)" by (simp add: g(1) s)
  have a: "writer_inv w1" "sid \<in> set (order w1)" "waiting w1 sid \<noteq> []"
    "length (out_data l1) + position w1 sid \<le> length (out_data l) + position w sid"
    using active_step [OF _ _ _ _ st u] Cons.prems by (simp_all add: wl)
  have n: "no_new_streams (w1, l1) es" using Cons.prems(4) by (simp add: wl st)
  have o: "of_stream sid (out_data (snd (run_steps log_step (w1, l1) es))) = of_stream sid (out_data (snd (w1, l1)))"
    by (simp add: g s)
  from Cons.IH [of "(w1, l1)"] a n o show ?case by (simp add: wl st)
qed

section \<open>Properties\<close>

text \<open>
  C26. Order and conservation of the writer under any interleaving of producers and the send loop: for every stream, the
  data and half-close frames accepted for it are exactly those handed to the connection, in the same order, followed by
  those still queued, so a half-close never overtakes data; the accepted control frames leave in order as well.
\<close>

theorem fair_writer_order:
  "case run_steps log_step (NewFairFrameWriter c s q, empty_log) es of (w, l) \<Rightarrow>
    (\<forall>sid. of_stream sid (in_data l) = of_stream sid (out_data l) @ waiting w sid)
    \<and> in_control l = out_control l @ map fst (control w)"
  using log_inv_run [OF log_inv_New, of c s q es] by (auto simp: log_inv_def split: prod.splits)


definition sample_writer :: fair_writer where
  "sample_writer =
     fst (run_steps log_step (NewFairFrameWriter 0 0 0, empty_log)
       [WData 0 1 (sample_data 1 [0]), WData 0 2 (sample_data 2 [0])])"

lemma sample_writer_inv: "writer_inv sample_writer"
proof -
  have "log_inv (run_steps log_step (NewFairFrameWriter 0 0 0, empty_log)
       [WData 0 1 (sample_data 1 [0]), WData 0 2 (sample_data 2 [0])])"
    by (rule log_inv_run [OF log_inv_New])
  then show ?thesis by (simp only: sample_writer_def log_inv_def)
qed

lemmas writer_eval = log_step_def NewFairFrameWriter_def EnqueueData_def EnqueueControl_def enqueueControl_def
  next_frame_def nextDataLocked_def TryPush_def NewBoundedFrameQueue_def TryPop_def popLocked_def
  retireIdleLocked_def removeStreamLocked_def RecordSample_def empty_log_def sample_data_def


text \<open>
  The send loop never sleeps on work and keeps no idle queue: when \<^verbatim>\<open>next\<close> decides to wait, no control frame and no
  data frame is queued for any stream, and the turn list and the queue map are empty.
\<close>

lemma fair_writer_waits_only_when_empty:
  assumes "writer_inv w" and "next_frame ctxDone now w = (NextWait, w')"
  shows "control w = [] \<and> (\<forall>sid. waiting w sid = []) \<and> order w' = [] \<and> dom (streams w') = {}"
proof -
  note spec = next_frame_spec [OF assms]
  then have "set (turns w') = {}" by simp
  then show ?thesis using spec by (simp add: writer_inv_def)
qed

section \<open>New streams and the turn order\<close>

text \<open>
  A stream that becomes active sets the cursor to its own place at the end of \<^verbatim>\<open>w.order\<close>, so after it the scan starts
  again at the front of the list, not where it was. One round of the schedule below: stream 1 gets another frame, a
  new stream becomes active with one frame, and the loop sends two frames.
\<close>

definition fresh_stream :: "nat \<Rightarrow> uint32" where
  "fresh_stream k = of_nat (k + 3)"

definition arrival_round :: "nat \<Rightarrow> writer_event list" where
  "arrival_round k =
     [WData 0 1 (sample_data 1 [0]), WData 0 (fresh_stream k) (sample_data (fresh_stream k) [0]), WNext 0, WNext 0]"

fun arrivals :: "nat \<Rightarrow> writer_event list" where
  "arrivals 0 =
     [WData 0 1 (sample_data 1 [0]), WData 0 2 (sample_data 2 [0]), WData 0 2 (sample_data 2 [0]), WNext 0, WNext 0]"
| "arrivals (Suc k) = arrivals k @ arrival_round k"

definition postponed :: "nat \<Rightarrow> fair_writer \<Rightarrow> bool" where
  "postponed k w \<longleftrightarrow> writer_inv w \<and> control w = [] \<and> \<not> fclosed w \<and> StreamQueueBytes w = 262144 \<and> cursor w = 1
     \<and> (\<exists>rest. order w = 1 # 2 # rest \<and> set rest \<subseteq> fresh_stream ` {..<k})
     \<and> waiting w 1 = [] \<and> waiting w 2 \<noteq> []"

lemma fresh_stream_new:
  assumes "k < 2 ^ 31"
  shows "fresh_stream k \<noteq> 0 \<and> fresh_stream k \<noteq> 1 \<and> fresh_stream k \<noteq> 2 \<and> fresh_stream k \<notin> fresh_stream ` {..<k}"
proof -
  have u: "unat (fresh_stream j) = j + 3" if "j < 2 ^ 31" for j
    using that unfolding fresh_stream_def by (subst unat_of_nat) simp
  have "unat (fresh_stream k) \<noteq> unat (fresh_stream j)" if "j < k" for j
    using that assms u [of j] u [of k] by simp
  then have "fresh_stream k \<notin> fresh_stream ` {..<k}" by (metis imageE lessThan_iff)
  moreover have "unat (fresh_stream k) \<noteq> unat (0 :: uint32)" "unat (fresh_stream k) \<noteq> unat (1 :: uint32)"
    "unat (fresh_stream k) \<noteq> unat (2 :: uint32)" using u [OF assms] by simp_all
  ultimately show ?thesis by metis
qed

lemma nextDataLocked_head:
  assumes "order w \<noteq> []" "sid = order w ! (cursor w mod length (order w))" "streams w sid = Some q" "TryPop now q = Some (f, q')"
  shows "nextDataLocked now w =
    (Some f, w\<lparr>cursor := (cursor w mod length (order w) + 1) mod length (order w), streams := (streams w)(sid \<mapsto> q'),
       waitSamples := RecordSample (waitSamples w) (lastWait q')\<rparr>)"
proof -
  obtain n where n: "length (order w) = Suc n" using assms(1) by (cases "order w") auto
  have "scan (Suc n) now w [] =
    (Some f, w\<lparr>cursor := (cursor w mod length (order w) + 1) mod length (order w), streams := (streams w)(sid \<mapsto> q'),
       waitSamples := RecordSample (waitSamples w) (lastWait q')\<rparr>)"
    using assms(2-) by (simp add: Let_def retireIdleLocked_def)
  then show ?thesis by (simp only: nextDataLocked_def n)
qed

lemma next_frame_head:
  assumes w: "writer_inv w" "control w = []" "\<not> fclosed w" "order w \<noteq> []"
    and s: "sid = order w ! (cursor w mod length (order w))" "waiting w sid = f # fs"
  shows "\<exists>w'. next_frame False now w = (NextItem (f, None), w') \<and> writer_inv w' \<and> control w' = [] \<and> \<not> fclosed w'
    \<and> order w' = order w \<and> cursor w' = (cursor w mod length (order w) + 1) mod length (order w)
    \<and> StreamQueueBytes w' = StreamQueueBytes w \<and> waiting w' = (waiting w)(sid := fs)"
proof -
  obtain q where q: "streams w sid = Some q" "frames q = f # fs" using s(2) by (auto simp: waiting_def split: option.splits)
  then obtain q' where p: "TryPop now q = Some (f, q')" "frames q' = fs"
    by (cases "waits q") (auto simp: TryPop_def popLocked_def Let_def)
  obtain w' where w': "nextDataLocked now w = (Some f, w')" "w' = w\<lparr>cursor := (cursor w mod length (order w) + 1) mod length (order w),
      streams := (streams w)(sid \<mapsto> q'), waitSamples := RecordSample (waitSamples w) (lastWait q')\<rparr>"
    using nextDataLocked_head [OF w(4) s(1) q(1) p(1)] by blast
  have "next_frame False now w = (NextItem (f, None), w')" using w w' by (simp add: next_frame_def)
  moreover have "writer_inv w'" using nextDataLocked_spec [OF w(1) w'(1)] by blast
  ultimately show ?thesis using w p by (auto simp: w'(2) waiting_def fun_eq_iff)
qed

lemma EnqueueData_fits:
  assumes w: "writer_inv w" "\<not> fclosed w" "sid \<noteq> 0" "waiting w sid = []" "StreamQueueBytes w = 262144"
  shows "\<exists>w'. EnqueueData now w sid (sample_data sid [0]) = (None, w') \<and> writer_inv w' \<and> control w' = control w \<and> \<not> fclosed w'
    \<and> StreamQueueBytes w' = 262144 \<and> waiting w' = (waiting w)(sid := [sample_data sid [0]])
    \<and> order w' = (if sid \<in> set (order w) then order w else order w @ [sid])
    \<and> cursor w' = (if sid \<in> set (order w) then cursor w else length (order w))"
proof -
  obtain r w' where e: "EnqueueData now w sid (sample_data sid [0]) = (r, w')" by (cases "EnqueueData now w sid (sample_data sid [0])")
  note spec = EnqueueData_spec [OF w(1) e]
  have sd: "(sample_data sid [0])\<lparr>StreamID := sid\<rparr> = sample_data sid [0]" "length (Payload (sample_data sid [0])) = 1"
    by (simp_all add: sample_data_def)
  have "r = None \<and> order w' = (if sid \<in> set (order w) then order w else order w @ [sid])
    \<and> cursor w' = (if sid \<in> set (order w) then cursor w else length (order w))"
  proof (cases "streams w sid")
    case None
    then have "sid \<notin> set (order w)" using w(1) by (auto simp: writer_inv_def)
    then show ?thesis using e EnqueueData_new [OF w(1,3,2) None] w(5) sd
      by (auto simp: TryPush_def NewBoundedFrameQueue_def)
  next
    case (Some q)
    then have m: "sid \<in> set (order w)" using w(1) by (auto simp: writer_inv_def)
    have "queue_inv q" "\<not> qclosed q" "maxBytes q = 262144" "frames q = []"
      using w Some by (auto simp: writer_inv_def waiting_def)
    then have "TryPush now q (sample_data sid [0]) \<noteq> None" using sd by (simp add: TryPush_def queue_inv_def)
    then show ?thesis using e EnqueueData_existing [OF w(1,3,2) Some] m sd by auto
  qed
  then show ?thesis using spec e w(2,4,5) sd by auto
qed

lemma arrival_round_step:
  assumes p: "postponed k w" and k: "k < 2 ^ 31"
  shows "\<exists>w' l'. run_steps log_step (w, l) (arrival_round k) = (w', l') \<and> postponed (Suc k) w'
    \<and> out_data l' = out_data l @ [sample_data (fresh_stream k) [0], sample_data 1 [0]]"
proof -
  let ?n = "fresh_stream k"
  obtain rest where o: "order w = 1 # 2 # rest" "set rest \<subseteq> fresh_stream ` {..<k}" using p by (auto simp: postponed_def)
  have w: "writer_inv w" "control w = []" "\<not> fclosed w" "StreamQueueBytes w = 262144" "cursor w = 1" "waiting w 1 = []" "waiting w 2 \<noteq> []"
    using p by (auto simp: postponed_def)
  note n = fresh_stream_new [OF k]
  have nin: "?n \<notin> set (order w)" using o n by auto
  obtain w1 where w1: "EnqueueData 0 w 1 (sample_data 1 [0]) = (None, w1)" "writer_inv w1" "control w1 = []" "\<not> fclosed w1"
    "StreamQueueBytes w1 = 262144" "waiting w1 = (waiting w)(1 := [sample_data 1 [0]])" "order w1 = order w" "cursor w1 = 1"
    using EnqueueData_fits [OF w(1,3) _ w(6,4), of 0] w(2,5) o by auto
  have nw: "waiting w1 ?n = []" using w1(2,6,7) nin n
    by (auto simp: writer_inv_def waiting_def split: option.splits) (metis domI nin option.distinct(1) w(1) writer_inv_def)
  obtain w2 where w2: "EnqueueData 0 w1 ?n (sample_data ?n [0]) = (None, w2)" "writer_inv w2" "control w2 = []" "\<not> fclosed w2"
    "StreamQueueBytes w2 = 262144" "waiting w2 = (waiting w1)(?n := [sample_data ?n [0]])" "order w2 = order w @ [?n]"
    "cursor w2 = length (order w)"
    using EnqueueData_fits [OF w1(2,4) _ nw w1(5), of 0] w1(3,7,8) nin n by auto
  have i2: "?n = order w2 ! (cursor w2 mod length (order w2))" using w2(7,8) by (simp add: nth_append)
  obtain w3 where w3: "next_frame False 0 w2 = (NextItem (sample_data ?n [0], None), w3)" "writer_inv w3" "control w3 = []"
    "\<not> fclosed w3" "order w3 = order w2" "cursor w3 = 0" "StreamQueueBytes w3 = 262144" "waiting w3 = (waiting w2)(?n := [])"
    using next_frame_head [OF w2(2,3,4) _ i2, of "sample_data ?n [0]" "[]" 0] w2(5-8) by auto
  have i3: "1 = order w3 ! (cursor w3 mod length (order w3))" using w3(5,6) w2(7) o by simp
  obtain w4 where w4: "next_frame False 0 w3 = (NextItem (sample_data 1 [0], None), w4)" "writer_inv w4" "control w4 = []"
    "\<not> fclosed w4" "order w4 = order w3" "cursor w4 = 1" "StreamQueueBytes w4 = 262144" "waiting w4 = (waiting w3)(1 := [])"
    using next_frame_head [OF w3(2,3,4) _ i3, of "sample_data 1 [0]" "[]" 0] w3(5-8) w2(6,7) w1(6) n o by auto
  have "order w4 = 1 # 2 # (rest @ [?n])" "set (rest @ [?n]) \<subseteq> fresh_stream ` {..<Suc k}"
    using w4(5) w3(5) w2(7) o by auto
  then have "postponed (Suc k) w4"
    using w4 w3(8) w2(6) w1(6) w(7) n by (auto simp: postponed_def)
  moreover have "run_steps log_step (w, l) (arrival_round k) =
      (w4, l\<lparr>in_data := in_data l @ [sample_data 1 [0], sample_data ?n [0]],
             out_data := out_data l @ [sample_data ?n [0], sample_data 1 [0]]\<rparr>)"
    using w1(1) w2(1) w3(1) w4(1) w2(3) w3(3) by (simp add: arrival_round_def log_step_def) (simp add: sample_data_def)
  ultimately show ?thesis by auto
qed

lemma postponed_start:
  "postponed 0 (fst (run_steps log_step (NewFairFrameWriter 0 0 0, empty_log) (arrivals 0)))
   \<and> out_data (snd (run_steps log_step (NewFairFrameWriter 0 0 0, empty_log) (arrivals 0))) = [sample_data 2 [0], sample_data 1 [0]]"
proof -
  have "writer_inv (fst (run_steps log_step (NewFairFrameWriter 0 0 0, empty_log) (arrivals 0)))"
    using log_inv_run [OF log_inv_New, of 0 0 0 "arrivals 0"] unfolding log_inv_def by blast
  then show ?thesis unfolding postponed_def
    by (simp add: writer_eval Let_def waiting_def eval_nat_numeral)
qed

lemma arrivals_postpone:
  "n \<le> 2 ^ 31 \<Longrightarrow> \<exists>w l fs. run_steps log_step (NewFairFrameWriter 0 0 0, empty_log) (arrivals n) = (w, l) \<and> postponed n w
    \<and> out_data l = [sample_data 2 [0], sample_data 1 [0]] @ fs \<and> of_stream 2 fs = [] \<and> length (of_stream 1 fs) = n"
proof (induction n)
  case 0
  obtain w l where "run_steps log_step (NewFairFrameWriter 0 0 0, empty_log) (arrivals 0) = (w, l)"
    by (cases "run_steps log_step (NewFairFrameWriter 0 0 0, empty_log) (arrivals 0)")
  with postponed_start show ?case by simp
next
  case (Suc n)
  then obtain w l fs where h: "run_steps log_step (NewFairFrameWriter 0 0 0, empty_log) (arrivals n) = (w, l)" "postponed n w"
    "out_data l = [sample_data 2 [0], sample_data 1 [0]] @ fs" "of_stream 2 fs = []" "length (of_stream 1 fs) = n" by auto
  have n: "n < 2 ^ 31" using Suc.prems by simp
  from arrival_round_step [OF h(2) n, of l] obtain w' l' where h': "run_steps log_step (w, l) (arrival_round n) = (w', l')"
    "postponed (Suc n) w'" "out_data l' = out_data l @ [sample_data (fresh_stream n) [0], sample_data 1 [0]]" by blast
  have "of_stream 2 (fs @ [sample_data (fresh_stream n) [0], sample_data 1 [0]]) = []"
    "length (of_stream 1 (fs @ [sample_data (fresh_stream n) [0], sample_data 1 [0]])) = Suc n"
    using h fresh_stream_new [OF n] by (simp_all add: sample_data_def)
  with h h' show ?case by (simp del: of_stream_simps)
qed

text \<open>
  Fairness fails when streams keep arriving: for every number of rounds there is a schedule, in which each round makes
  one new stream active, such that stream 2 has a frame waiting throughout and none of its frames is sent, while stream
  1, which was served last before the schedule began, is served once in every round.
\<close>

lemma new_streams_postpone_active:
  assumes "n \<le> 2 ^ 31"
  shows "case run_steps log_step (NewFairFrameWriter 0 0 0, empty_log) (arrivals n) of (w, l) \<Rightarrow>
    waiting w 2 \<noteq> [] \<and> length (of_stream 2 (out_data l)) = 1 \<and> length (of_stream 1 (out_data l)) = n + 1"
  using arrivals_postpone [OF assms] by (auto simp: postponed_def sample_data_def)

text \<open>
  \<^verbatim>\<open>Drain\<close> may return while a frame is being sent: once the loop has taken the only frame, the condition of \<^verbatim>\<open>Drain\<close>
  holds although \<^verbatim>\<open>sender\<close> has not been called. \<^verbatim>\<open>EnqueueControlSync\<close> may return without its frame having been sent:
  closing the writer closes the channel it waits on.
\<close>

theorem drain_ignores_frame_in_flight:
  "drained (snd (next_frame False now (snd (enqueueControl (NewFairFrameWriter 0 0 0) f d))))
   \<and> fst (next_frame False now (snd (enqueueControl (NewFairFrameWriter 0 0 0) f d))) = NextItem (f, d)"
  by (simp add: writer_eval drained_def hasDataLocked_def)

theorem sync_send_returns_on_close:
  "c \<in> set (done_closed (CloseWriter (snd (enqueueControl (NewFairFrameWriter 0 0 0) f (Some c)))))"
  by (simp add: writer_eval CloseWriter_def close_done_def)

end
