(* ===== verification/Relay_Service.thy ===== *)
theory Relay_Service
  imports Payloads
begin

text \<open>
  \<^verbatim>\<open>internal/relay/service.go\<close> and \<^verbatim>\<open>internal/relay/selection.go\<close>: the registry of peer servers, fenced by epoch, and the adapter
  that sends a stream request to the local agent transport or to the peer that holds the selected connection. Node
  transports and the selector are interfaces of the Go code; their operations are arguments.

  The interface \<^verbatim>\<open>fencing\<close> states what callers rely on when they register an incarnation under a key: an older or equal
  epoch is refused, a newer one replaces it. The session manager implements it as well.
\<close>

section \<open>Interface: registration fenced by epoch\<close>

fun fence_run :: "('s \<Rightarrow> 'k \<Rightarrow> int \<Rightarrow> 'p \<Rightarrow> bool \<times> 's) \<Rightarrow> 's \<Rightarrow> ('k \<times> int \<times> 'p) list \<Rightarrow> ('k \<times> int) list \<times> 's" where
  "fence_run reg s [] = ([], s)"
| "fence_run reg s ((k, e, p) # xs) =
     (let (ok, s') = reg s k e p; (acc, r) = fence_run reg s' xs in (if ok then (k, e) # acc else acc, r))"

definition epochs_of :: "'k \<Rightarrow> ('k \<times> int) list \<Rightarrow> int list" where
  "epochs_of k acc = map snd (filter (\<lambda>p. fst p = k) acc)"

lemma epochs_of_simps [simp]:
  "epochs_of k [] = []"
  "epochs_of k ((j, e) # acc) = (if j = k then e # epochs_of k acc else epochs_of k acc)"
  by (simp_all add: epochs_of_def)

locale fencing =
  fixes cur :: "'s \<Rightarrow> 'k \<Rightarrow> int option"
    and reg :: "'s \<Rightarrow> 'k \<Rightarrow> int \<Rightarrow> 'p \<Rightarrow> bool \<times> 's"
    and inv :: "'s \<Rightarrow> bool"
  assumes reg_inv: "inv s \<Longrightarrow> reg s k e p = (ok, s') \<Longrightarrow> inv s'"
    and reg_accept: "inv s \<Longrightarrow> reg s k e p = (True, s') \<Longrightarrow> cur s' = (cur s)(k \<mapsto> e)"
    and reg_newer: "inv s \<Longrightarrow> reg s k e p = (True, s') \<Longrightarrow> cur s k = Some d \<Longrightarrow> d < e"
    and reg_refuse: "inv s \<Longrightarrow> reg s k e p = (False, s') \<Longrightarrow> cur s' = cur s"
begin

text \<open>The epochs accepted for one key strictly increase, beginning above the current one; the last is current.\<close>

lemma epochs_increase:
  "inv s \<Longrightarrow> fence_run reg s xs = (acc, r) \<Longrightarrow>
   sorted_wrt (<) (case cur s k of None \<Rightarrow> epochs_of k acc | Some d \<Rightarrow> d # epochs_of k acc)
   \<and> cur r k = (if epochs_of k acc = [] then cur s k else Some (last (epochs_of k acc))) \<and> inv r"
proof (induction xs arbitrary: s acc)
  case Nil
  then show ?case by (simp split: option.splits)
next
  case (Cons x xs)
  obtain j e p where x: "x = (j, e, p)" by (cases x)
  obtain ok s' where r: "reg s j e p = (ok, s')" by (cases "reg s j e p")
  obtain acc' where a: "fence_run reg s' xs = (acc', r)" "acc = (if ok then (j, e) # acc' else acc')"
    using Cons.prems(2) by (auto simp: x r split: prod.splits)
  note ih = Cons.IH [OF reg_inv [OF Cons.prems(1) r] a(1)]
  show ?case
  proof (cases ok)
    case False
    then have "cur s' = cur s" "acc = acc'" using reg_refuse [OF Cons.prems(1), of j e p s'] r a by simp_all
    with ih show ?thesis by (simp split: option.splits)
  next
    case True
    with r have r': "reg s j e p = (True, s')" by simp
    note c = reg_accept [OF Cons.prems(1) r']
    show ?thesis
    proof (cases "j = k")
      case True
      then have "sorted_wrt (<) (e # epochs_of k acc')" using ih c by simp
      moreover have "d < e" if "cur s k = Some d" for d using reg_newer [OF Cons.prems(1) r', of d] that True by simp
      ultimately have "sorted_wrt (<) (case cur s k of None \<Rightarrow> e # epochs_of k acc' | Some d \<Rightarrow> d # e # epochs_of k acc')"
        by (auto split: option.splits)
      then show ?thesis using ih a \<open>ok\<close> True c by (simp split: option.splits)
    next
      case False
      then show ?thesis using ih a \<open>ok\<close> c by (simp split: option.splits)
    qed
  qed
qed

end

section \<open>Requests\<close>

datatype relay_error = RelayErrEpoch | ErrNodeDisconnected | RelayErrBackpressure | RelayOther string

record stream_request =
  sr_NodeID :: string
  sr_AgentID :: string
  sr_CaseInsensitiveAgentID :: bool
  sr_Epoch :: int
  sr_TargetConnectionID :: string
  sr_TargetConnectionEpoch :: int
  sr_StreamID :: uint32
  sr_StrictOpen :: bool
  sr_InitialWindow :: uint32
  sr_Protocol :: string
  sr_TargetHost :: string
  sr_TargetPort :: int
  sr_TargetScheme :: string
  sr_HostHeader :: string
  sr_TLSServerName :: string
  sr_Metadata :: bytes

text \<open>
  A node transport is named by a value of \<open>'t\<close>. \<open>open_stream\<close> is its \<^verbatim>\<open>OpenStream\<close>; \<open>open_result\<close> is \<^verbatim>\<open>OpenStreamResult\<close>
  when the transport implements it. A connection is a value of \<open>'c\<close>; \<open>None\<close> is \<^verbatim>\<open>nil\<close>.
\<close>

type_synonym 'c opened = "'c option \<times> relay_error option"
type_synonym 'c opened_result = "'c option \<times> open_result \<times> relay_error option"

record ('t, 'c) node_ops =
  open_stream :: "'t \<Rightarrow> stream_request \<Rightarrow> 'c opened"
  open_stream_result :: "'t \<Rightarrow> (stream_request \<Rightarrow> 'c opened_result) option"

section \<open>The relay service\<close>

record 't relay_service =
  nodes :: "string \<rightharpoonup> int \<times> 't"
  local_node :: "'t option"

definition NewRelayService :: "'t option \<Rightarrow> 't relay_service" where
  "NewRelayService local_tr = \<lparr>nodes = Map.empty, local_node = local_tr\<rparr>"

text \<open>The first component tells whether the entry was stored.\<close>

definition RegisterNode :: "'t relay_service \<Rightarrow> string \<Rightarrow> int \<Rightarrow> 't option \<Rightarrow> bool \<times> 't relay_service" where
  "RegisterNode r i epoch tr =
     (case tr of None \<Rightarrow> (False, r)
      | Some t \<Rightarrow>
        if i = [] then (False, r)
        else (case nodes r i of
            Some (e, _) \<Rightarrow> if e \<ge> epoch then (False, r) else (True, r\<lparr>nodes := (nodes r)(i \<mapsto> (epoch, t))\<rparr>)
          | None \<Rightarrow> (True, r\<lparr>nodes := (nodes r)(i \<mapsto> (epoch, t))\<rparr>)))"

text \<open>The second component is the transport to close.\<close>

definition UnregisterNode :: "'t relay_service \<Rightarrow> string \<Rightarrow> 't relay_service \<times> 't option" where
  "UnregisterNode r i = (r\<lparr>nodes := (nodes r)(i := None)\<rparr>, map_option snd (nodes r i))"

definition node_transport :: "'t relay_service \<Rightarrow> stream_request \<Rightarrow> relay_error + 't" where
  "node_transport r req =
     (if sr_NodeID req = [] then (case local_node r of None \<Rightarrow> Inl ErrNodeDisconnected | Some t \<Rightarrow> Inr t)
      else (case nodes r (sr_NodeID req) of
          None \<Rightarrow> Inl ErrNodeDisconnected
        | Some (e, t) \<Rightarrow> if sr_Epoch req \<noteq> e then Inl RelayErrEpoch else Inr t))"

definition RelayOpenStream :: "('t, 'c) node_ops \<Rightarrow> 't relay_service \<Rightarrow> stream_request \<Rightarrow> 'c opened" where
  "RelayOpenStream ops r req =
     (if sr_NodeID req = [] then
        (case local_node r of None \<Rightarrow> (None, Some ErrNodeDisconnected) | Some t \<Rightarrow> open_stream ops t req)
      else (case nodes r (sr_NodeID req) of
          None \<Rightarrow> (None, Some ErrNodeDisconnected)
        | Some (e, t) \<Rightarrow> if sr_Epoch req \<noteq> e then (None, Some RelayErrEpoch) else open_stream ops t req))"

definition accepted_result :: open_result where
  "accepted_result = \<lparr>Accepted = True, Stage = ''connect'', Code = ''ok'', Retryable = False, RetryAfterMS = 0\<rparr>"

text \<open>Opening with a result on a transport that may lack the capability.\<close>

definition open_with_result :: "('t, 'c) node_ops \<Rightarrow> 't \<Rightarrow> stream_request \<Rightarrow> 'c opened_result" where
  "open_with_result ops t req =
     (case open_stream_result ops t of
        Some openr \<Rightarrow> openr req
      | None \<Rightarrow>
        if sr_StrictOpen req then (None, openResultFailure ''relay'' ''unsupported_capability'', None)
        else (case open_stream ops t req of
            (Some c, None) \<Rightarrow> (Some c, accepted_result, None)
          | (_, e) \<Rightarrow> (None, openResultFailure ''relay'' ''internal_error'', e)))"

definition RelayOpenStreamResult :: "('t, 'c) node_ops \<Rightarrow> 't relay_service \<Rightarrow> stream_request \<Rightarrow> 'c opened_result" where
  "RelayOpenStreamResult ops r req =
     (case node_transport r req of
        Inl e \<Rightarrow> (None, openResultFailure ''relay'' ''agent_offline'', Some e)
      | Inr t \<Rightarrow> open_with_result ops t req)"

section \<open>Selected transports\<close>

record connection_target =
  ct_AgentID :: string
  ct_ConnectionID :: string
  ct_ConnectionEpoch :: int
  ct_Local :: bool
  ct_ServerNodeID :: string
  ct_ServerNodeEpoch :: int
  ct_ActiveStreams :: int
  ct_HealthScore :: int

record 't selected_transport =
  st_local :: "'t option"
  st_remote :: "'t relay_service option"

definition pin_request :: "stream_request \<Rightarrow> connection_target \<Rightarrow> stream_request" where
  "pin_request req t =
     (let req1 = (if ct_AgentID t \<noteq> [] then req\<lparr>sr_AgentID := ct_AgentID t\<rparr> else req) in
      req1\<lparr>sr_TargetConnectionID := ct_ConnectionID t, sr_TargetConnectionEpoch := ct_ConnectionEpoch t\<rparr>)"

definition SelectedOpenStream ::
  "('t, 'c) node_ops \<Rightarrow> (string \<Rightarrow> string \<Rightarrow> relay_error + connection_target) \<Rightarrow> 't selected_transport \<Rightarrow> stream_request \<Rightarrow> 'c opened" where
  "SelectedOpenStream ops select st req =
     (case select (sr_AgentID req) (sr_Protocol req) of
        Inl e \<Rightarrow> (None, Some e)
      | Inr t \<Rightarrow>
        (let req1 = pin_request req t in
         if ct_Local t then
           (case st_local st of None \<Rightarrow> (None, Some ErrNodeDisconnected)
            | Some l \<Rightarrow> open_stream ops l (req1\<lparr>sr_NodeID := [], sr_Epoch := 0\<rparr>))
         else (case st_remote st of None \<Rightarrow> (None, Some ErrNodeDisconnected)
            | Some r \<Rightarrow>
              if ct_ServerNodeID t = [] then (None, Some ErrNodeDisconnected)
              else RelayOpenStream ops r (req1\<lparr>sr_NodeID := ct_ServerNodeID t, sr_Epoch := ct_ServerNodeEpoch t\<rparr>))))"

definition SelectedOpenStreamResult ::
  "('t, 'c) node_ops \<Rightarrow> (string \<Rightarrow> string \<Rightarrow> relay_error + connection_target) \<Rightarrow> 't selected_transport \<Rightarrow> stream_request \<Rightarrow> 'c opened_result" where
  "SelectedOpenStreamResult ops select st req =
     (case select (sr_AgentID req) (sr_Protocol req) of
        Inl e \<Rightarrow> (None, openResultFailure ''relay'' ''internal_error'', Some e)
      | Inr t \<Rightarrow>
        (let req1 = pin_request req t in
         if ct_Local t then
           (case st_local st of None \<Rightarrow> (None, openResultFailure ''relay'' ''agent_offline'', Some ErrNodeDisconnected)
            | Some l \<Rightarrow> open_with_result ops l (req1\<lparr>sr_NodeID := [], sr_Epoch := 0\<rparr>))
         else (case st_remote st of None \<Rightarrow> (None, openResultFailure ''relay'' ''agent_offline'', Some ErrNodeDisconnected)
            | Some r \<Rightarrow>
              if ct_ServerNodeID t = [] then (None, openResultFailure ''relay'' ''agent_offline'', Some ErrNodeDisconnected)
              else RelayOpenStreamResult ops r (req1\<lparr>sr_NodeID := ct_ServerNodeID t, sr_Epoch := ct_ServerNodeEpoch t\<rparr>))))"

section \<open>Facts\<close>

definition node_epoch :: "'t relay_service \<Rightarrow> string \<Rightarrow> int option" where
  "node_epoch r i = map_option fst (nodes r i)"

interpretation relay_nodes: fencing node_epoch RegisterNode "\<lambda>_. True"
proof unfold_locales
  fix s s' :: "'t relay_service" and k :: string and e d :: int and p :: "'t option"
  show "node_epoch s' = (node_epoch s)(k \<mapsto> e)" if "RegisterNode s k e p = (True, s')"
    using that by (auto simp: RegisterNode_def node_epoch_def fun_eq_iff split: option.splits if_splits)
  show "d < e" if "RegisterNode s k e p = (True, s')" "node_epoch s k = Some d"
    using that by (auto simp: RegisterNode_def node_epoch_def split: option.splits if_splits)
  show "node_epoch s' = node_epoch s" if "RegisterNode s k e p = (False, s')"
    using that by (auto simp: RegisterNode_def split: option.splits if_splits)
qed simp

lemma RelayOpenStream_lookup:
  "RelayOpenStream ops r req =
     (case node_transport r req of Inl e \<Rightarrow> (None, Some e) | Inr t \<Rightarrow> open_stream ops t req)"
  by (auto simp: RelayOpenStream_def node_transport_def split: option.splits)

section \<open>Properties\<close>

text \<open>
  Fencing of peer servers: over any sequence of registrations, the epochs that are stored for a node strictly increase,
  the last one is the current one, and afterwards a stream request reaches the node's transport only if it names
  exactly that epoch; any other epoch is answered with an error and no transport is called.
\<close>

lemma relay_fencing:
  assumes "i \<noteq> []"
  shows "case fence_run RegisterNode (NewRelayService l) xs of (acc, r) \<Rightarrow>
    sorted_wrt (<) (epochs_of i acc)
    \<and> (\<forall>req t. sr_NodeID req = i \<longrightarrow> node_transport r req = Inr t \<longrightarrow>
          epochs_of i acc \<noteq> [] \<and> sr_Epoch req = last (epochs_of i acc))"
proof -
  obtain acc r where e: "fence_run RegisterNode (NewRelayService l) xs = (acc, r)"
    by (cases "fence_run RegisterNode (NewRelayService l) xs")
  have n: "node_epoch (NewRelayService l) i = None" by (simp add: node_epoch_def NewRelayService_def)
  note f = relay_nodes.epochs_increase [OF _ e, of i]
  have "epochs_of i acc \<noteq> [] \<and> sr_Epoch req = last (epochs_of i acc)"
    if "sr_NodeID req = i" "node_transport r req = Inr t" for req t
  proof -
    have "node_epoch r i = Some (sr_Epoch req)"
      using that assms by (auto simp: node_transport_def node_epoch_def split: option.splits if_splits)
    then show ?thesis using f n by (simp split: if_splits)
  qed
  moreover have "sorted_wrt (<) (epochs_of i acc)" using f n by simp
  ultimately show ?thesis unfolding e prod.case by blast
qed

text \<open>
  A selected stream request is pinned: whatever the selector answers, the transport that is finally called sees the
  connection and the connection epoch the selector chose; a local target never leaves the node, and a remote one
  reaches only the transport registered for the chosen server under the chosen server epoch.
\<close>

lemma selected_transport_pins_target:
  assumes "select (sr_AgentID req) (sr_Protocol req) = Inr t"
  shows "SelectedOpenStream ops select st req = (None, Some ErrNodeDisconnected)
    \<or> SelectedOpenStream ops select st req = (None, Some RelayErrEpoch)
    \<or> (\<exists>tr req'. SelectedOpenStream ops select st req = open_stream ops tr req'
        \<and> sr_TargetConnectionID req' = ct_ConnectionID t \<and> sr_TargetConnectionEpoch req' = ct_ConnectionEpoch t
        \<and> sr_NodeID req' = (if ct_Local t then [] else ct_ServerNodeID t)
        \<and> (if ct_Local t then st_local st = Some tr
           else (\<exists>r. st_remote st = Some r \<and> nodes r (ct_ServerNodeID t) = Some (ct_ServerNodeEpoch t, tr))))"
proof (cases "ct_Local t")
  case True
  let ?req = "(pin_request req t)\<lparr>sr_NodeID := [], sr_Epoch := 0\<rparr>"
  show ?thesis
  proof (cases "st_local st")
    case None
    then show ?thesis using True assms by (simp add: SelectedOpenStream_def Let_def)
  next
    case (Some l)
    then have "SelectedOpenStream ops select st req = open_stream ops l ?req"
      using True assms by (simp add: SelectedOpenStream_def Let_def)
    then show ?thesis using True Some by (intro disjI2) (rule exI [of _ l], rule exI [of _ ?req], simp add: pin_request_def Let_def)
  qed
next
  case False
  let ?req = "(pin_request req t)\<lparr>sr_NodeID := ct_ServerNodeID t, sr_Epoch := ct_ServerNodeEpoch t\<rparr>"
  show ?thesis
  proof (cases "\<exists>r. st_remote st = Some r \<and> ct_ServerNodeID t \<noteq> []")
    case True
    then obtain r where r: "st_remote st = Some r" "ct_ServerNodeID t \<noteq> []" by blast
    then have o: "SelectedOpenStream ops select st req = RelayOpenStream ops r ?req"
      using False assms by (simp add: SelectedOpenStream_def Let_def)
    show ?thesis
    proof (cases "node_transport r ?req")
      case (Inl e)
      then have "e = ErrNodeDisconnected \<or> e = RelayErrEpoch" by (auto simp: node_transport_def split: if_splits option.splits)
      then show ?thesis using o Inl by (auto simp: RelayOpenStream_lookup)
    next
      case (Inr tr)
      then have "nodes r (ct_ServerNodeID t) = Some (ct_ServerNodeEpoch t, tr)"
        using r(2) by (auto simp: node_transport_def split: if_splits option.splits)
      moreover have "SelectedOpenStream ops select st req = open_stream ops tr ?req"
        using o Inr by (simp add: RelayOpenStream_lookup)
      ultimately show ?thesis using False r
        by (intro disjI2) (rule exI [of _ tr], rule exI [of _ ?req], simp add: pin_request_def Let_def)
    qed
  next
    case no: False
    then show ?thesis using False assms by (auto simp: SelectedOpenStream_def Let_def split: option.splits)
  qed
qed

end
