(* ===== verification/Session_Manager.thy ===== *)
theory Session_Manager
  imports Fair_Writer Relay_Service "HOL-Library.AList"
begin

text \<open>
  \<^verbatim>\<open>internal/server/session_manager.go\<close>: the registry of live agent connections and of client connections on one server.

  A session is an object that several parties hold by pointer, so the model keeps an object store indexed by the
  session's \<^verbatim>\<open>serverGeneration\<close>, which is assigned once and never reused; the manager's maps hold generations. The
  manager's maps are association lists in one fixed iteration order; the operations that range over a Go map do not
  depend on it (\<open>mgr_inv\<close> makes the match unique). All methods of the manager run under its mutex.

  The facts: the manager implements \<^verbatim>\<open>fencing\<close> per agent connection, an agent never holds more connections than the
  configured ceiling and a replacement never counts as growth, a generation that left the registry never comes back
  and receives no frame, and the cleanup of an old connection leaves its replacement alone.
\<close>

section \<open>Sessions\<close>

datatype server_error =
    ErrEpoch | ErrBackpressure | ErrSessionClosed | ErrAuthentication | ErrCapability | ErrServerGeneration
  | ErrServerGenerationExhausted | ErrAmbiguousAgentID | ErrAgentConnectionCapacity | ErrOther string

record agent_registration =
  ar_AgentID :: string
  ar_NodeID :: string
  ar_TokenID :: string
  ar_Epoch :: int
  ar_InstanceID :: string
  ar_ConnectionID :: string
  ar_ConnectionEpoch :: int
  ar_Capabilities :: "string list"

record agent_session =
  as_AgentID :: string
  as_NodeID :: string
  as_Epoch :: int
  as_InstanceID :: string
  as_InstanceIDExplicit :: bool
  as_ConnectionID :: string
  as_ConnectionEpoch :: int
  as_Capabilities :: "string list"
  as_closed :: bool
  as_closing :: bool
  as_lastHeartbeat :: int
  as_registration :: agent_registration
  as_metadataRevision :: uint64
  as_metadataDigest :: string
  as_writer :: fair_writer
  as_transport_closed :: bool

definition Supports :: "agent_session \<Rightarrow> string \<Rightarrow> bool" where
  "Supports s capability \<longleftrightarrow> capability \<in> set (as_Capabilities s)"

definition Healthy :: "agent_session \<Rightarrow> bool" where
  "Healthy s \<longleftrightarrow> \<not> as_closed s \<and> \<not> as_closing s"

definition CloseSession :: "agent_session \<Rightarrow> agent_session" where
  "CloseSession s =
     (if as_closed s \<or> as_closing s then s
      else s\<lparr>as_closed := True, as_writer := CloseWriter (as_writer s), as_transport_closed := True\<rparr>)"

definition failSession :: "agent_session \<Rightarrow> agent_session" where
  "failSession s =
     (let s1 = (if \<not> as_closed s then s\<lparr>as_closed := True, as_closing := True\<rparr> else s) in
      s1\<lparr>as_writer := CloseWriter (as_writer s), as_transport_closed := True\<rparr>)"

definition enqueueSession :: "int \<Rightarrow> agent_session \<Rightarrow> frame \<Rightarrow> server_error option \<times> agent_session" where
  "enqueueSession now s f =
     (let (err, w) = (if FType f = FrameData \<and> StreamID f \<noteq> 0 then EnqueueData now (as_writer s) (StreamID f) f
                      else EnqueueControl now (as_writer s) f) in
      (case err of None \<Rightarrow> None | Some _ \<Rightarrow> Some ErrBackpressure, s\<lparr>as_writer := w\<rparr>))"

text \<open>
  Going away has two locked parts with a wait for the writer to drain between them; the second sends the terminal
  frame directly on the transport.
\<close>

definition goAway_begin :: "agent_session \<Rightarrow> server_error option \<times> agent_session" where
  "goAway_begin s = (if as_closed s then (Some ErrSessionClosed, s) else (None, s\<lparr>as_closing := True\<rparr>))"

definition goAway_finish :: "agent_session \<Rightarrow> agent_session" where
  "goAway_finish s = s\<lparr>as_closed := True, as_writer := CloseWriter (as_writer s), as_transport_closed := True\<rparr>"

section \<open>The agent session manager\<close>

record session_manager =
  sm_sessions :: "(string \<times> (string \<times> uint64) list) list"
  sm_connectionOrder :: "string \<Rightarrow> string list"
  sm_nextServerGeneration :: uint64
  sm_retiredEpochs :: "(string \<times> string \<times> int) set"
  sm_retiredGenerations :: "uint64 set"
  sm_objects :: "uint64 \<rightharpoonup> agent_session"
  sm_SupportedCapabilities :: "string list"
  sm_QueueSize :: int
  sm_MaxConnectionsPerAgent :: nat

abbreviation (input) DefaultAgentMaxConnectionsPerAgent :: nat where "DefaultAgentMaxConnectionsPerAgent \<equiv> 64"

definition NewAgentSessionManager :: "string list \<Rightarrow> int \<Rightarrow> int \<Rightarrow> session_manager" where
  "NewAgentSessionManager supported queueSize maxConnections =
     \<lparr>sm_sessions = [], sm_connectionOrder = (\<lambda>_. []), sm_nextServerGeneration = 0, sm_retiredEpochs = {},
      sm_retiredGenerations = {}, sm_objects = Map.empty, sm_SupportedCapabilities = supported,
      sm_QueueSize = (if queueSize \<le> 0 then 64 else queueSize),
      sm_MaxConnectionsPerAgent = (if maxConnections \<le> 0 then DefaultAgentMaxConnectionsPerAgent else nat maxConnections)\<rparr>"

definition conns :: "session_manager \<Rightarrow> string \<Rightarrow> (string \<times> uint64) list" where
  "conns m i = (case map_of (sm_sessions m) i of None \<Rightarrow> [] | Some cs \<Rightarrow> cs)"

definition update_object :: "session_manager \<Rightarrow> uint64 \<Rightarrow> (agent_session \<Rightarrow> agent_session) \<Rightarrow> session_manager" where
  "update_object m g h = m\<lparr>sm_objects := (sm_objects m)(g := map_option h (sm_objects m g))\<rparr>"

text \<open>
  The part of \<^verbatim>\<open>Register\<close> that holds the manager's lock, with the closing of the replaced session after it. A refused
  session is closed by its caller and never enters the store.
\<close>

definition register_locked :: "session_manager \<Rightarrow> agent_session \<Rightarrow> (server_error + uint64) \<times> session_manager" where
  "register_locked m s =
     (let i = as_AgentID s; c = as_ConnectionID s;
          cs = conns m i;
          m1 = (if map_of (sm_sessions m) i = None then m\<lparr>sm_sessions := AList.update i [] (sm_sessions m)\<rparr> else m);
          old = map_of cs c in
      if (case old of None \<Rightarrow> False
          | Some g \<Rightarrow> (case sm_objects m g of None \<Rightarrow> False | Some o' \<Rightarrow> as_ConnectionEpoch o' \<ge> as_ConnectionEpoch s))
      then (Inl ErrEpoch, m1)
      else if old = None \<and> length cs \<ge> sm_MaxConnectionsPerAgent m then (Inl ErrAgentConnectionCapacity, m1)
      else if sm_nextServerGeneration m = - 1 then (Inl ErrServerGenerationExhausted, m1)
      else (let g = sm_nextServerGeneration m + 1;
                order = sm_connectionOrder m i;
                m2 = m1\<lparr>sm_nextServerGeneration := g,
                        sm_sessions := AList.update i (AList.update c g cs) (sm_sessions m1),
                        sm_objects := (sm_objects m)(g \<mapsto> s),
                        sm_connectionOrder := (if c \<in> set order then sm_connectionOrder m
                                               else (sm_connectionOrder m)(i := order @ [c]))\<rparr> in
            (Inr g, case old of None \<Rightarrow> m2 | Some o' \<Rightarrow> update_object m2 o' CloseSession)))"

definition negotiated :: "session_manager \<Rightarrow> string list \<Rightarrow> string list" where
  "negotiated m wanted =
     (if sm_SupportedCapabilities m \<noteq> [] then filter (\<lambda>c. c \<in> set (sm_SupportedCapabilities m)) wanted else wanted)"

definition new_session :: "session_manager \<Rightarrow> int \<Rightarrow> agent_registration \<Rightarrow> agent_session" where
  "new_session m now req =
     (let connectionID = (let c = TrimSpace (ar_ConnectionID req) in if c = [] then ''legacy'' else c);
          given = TrimSpace (ar_InstanceID req);
          instanceID = (if given = [] then ar_NodeID req else given);
          connectionEpoch = (if ar_ConnectionEpoch req = 0 then ar_Epoch req else ar_ConnectionEpoch req) in
      \<lparr>as_AgentID = ar_AgentID req, as_NodeID = ar_NodeID req, as_Epoch = ar_Epoch req, as_InstanceID = instanceID,
       as_InstanceIDExplicit = (given \<noteq> []), as_ConnectionID = connectionID, as_ConnectionEpoch = connectionEpoch,
       as_Capabilities = negotiated m (ar_Capabilities req), as_closed = False, as_closing = False,
       as_lastHeartbeat = now, as_registration = req\<lparr>ar_InstanceID := instanceID\<rparr>, as_metadataRevision = 0,
       as_metadataDigest = [], as_writer = NewFairFrameWriter (sm_QueueSize m) 262144 32768,
       as_transport_closed = False\<rparr>)"

definition Register ::
  "(agent_registration \<Rightarrow> server_error option) \<Rightarrow> session_manager \<Rightarrow> int \<Rightarrow> agent_registration \<Rightarrow>
    (server_error + uint64) \<times> session_manager" where
  "Register authenticate m now req =
     (if TrimSpace (ar_AgentID req) = [] \<or> TrimSpace (ar_NodeID req) = [] \<or> ar_Epoch req \<le> 0 then (Inl ErrAuthentication, m)
      else (case authenticate req of Some e \<Rightarrow> (Inl e, m)
            | None \<Rightarrow> register_locked m (new_session m now req)))"

definition ListSessions :: "session_manager \<Rightarrow> string \<Rightarrow> uint64 list" where
  "ListSessions m i = List.map_filter (\<lambda>c. map_of (conns m i) c) (sm_connectionOrder m i)"

definition GetSession :: "session_manager \<Rightarrow> string \<Rightarrow> uint64 option" where
  "GetSession m i = (case ListSessions m i of [] \<Rightarrow> None | g # _ \<Rightarrow> Some g)"

definition GetConnection :: "session_manager \<Rightarrow> string \<Rightarrow> string \<Rightarrow> uint64 option" where
  "GetConnection m i c = (if c = [] then None else map_of (conns m i) c)"

definition HasConnection :: "session_manager \<Rightarrow> string \<Rightarrow> string \<Rightarrow> bool" where
  "HasConnection m i c \<longleftrightarrow> i \<noteq> [] \<and> c \<noteq> [] \<and> map_of (conns m i) c \<noteq> None"

text \<open>\<open>Inr None\<close> is the return of a nil session without an error, possible for an agent with no connection left.\<close>

definition GetCaseInsensitive ::
  "(string \<Rightarrow> string \<Rightarrow> bool) \<Rightarrow> session_manager \<Rightarrow> string \<Rightarrow> server_error + uint64 option" where
  "GetCaseInsensitive uf m i =
     (if TrimSpace i = [] then Inl ErrSessionClosed
      else (case filter (\<lambda>k. EqualFold uf k i) (map fst (sm_sessions m)) of
          [] \<Rightarrow> Inl ErrSessionClosed
        | [k] \<Rightarrow> Inr (GetSession m k)
        | _ \<Rightarrow> Inl ErrAmbiguousAgentID))"

definition session_epoch :: "session_manager \<Rightarrow> uint64 \<Rightarrow> int option" where
  "session_epoch m g = map_option as_Epoch (sm_objects m g)"

definition getEpoch :: "session_manager \<Rightarrow> string \<Rightarrow> int \<Rightarrow> uint64 option" where
  "getEpoch m i epoch =
     (case filter (\<lambda>g. session_epoch m g = Some epoch) (ListSessions m i) of [g] \<Rightarrow> Some g | _ \<Rightarrow> None)"

definition Heartbeat :: "session_manager \<Rightarrow> int \<Rightarrow> string \<Rightarrow> int \<Rightarrow> server_error option \<times> session_manager" where
  "Heartbeat m now i epoch =
     (case getEpoch m i epoch of
        None \<Rightarrow> (Some (if ListSessions m i \<noteq> [] then ErrEpoch else ErrSessionClosed), m)
      | Some g \<Rightarrow>
        (case sm_objects m g of None \<Rightarrow> (Some ErrSessionClosed, m)
         | Some s \<Rightarrow>
           if as_closed s \<or> as_closing s then (Some ErrSessionClosed, m)
           else if as_Epoch s \<noteq> epoch then (Some ErrEpoch, m)
           else (None, update_object m g (\<lambda>s. s\<lparr>as_lastHeartbeat := now\<rparr>))))"

definition heartbeatSession :: "session_manager \<Rightarrow> int \<Rightarrow> uint64 \<Rightarrow> server_error option \<times> session_manager" where
  "heartbeatSession m now g =
     (case sm_objects m g of None \<Rightarrow> (Some ErrSessionClosed, m)
      | Some s \<Rightarrow>
        if GetConnection m (as_AgentID s) (as_ConnectionID s) \<noteq> Some g then (Some ErrSessionClosed, m)
        else if as_closed s \<or> as_closing s then (Some ErrSessionClosed, m)
        else (None, update_object m g (\<lambda>s. s\<lparr>as_lastHeartbeat := now\<rparr>)))"

definition getServerGeneration :: "session_manager \<Rightarrow> uint64 \<Rightarrow> uint64 option" where
  "getServerGeneration m g = find (\<lambda>h. h = g) (concat (map (map snd \<circ> snd) (sm_sessions m)))"

definition sendServerGeneration ::
  "session_manager \<Rightarrow> int \<Rightarrow> string \<Rightarrow> uint64 \<Rightarrow> frame \<Rightarrow> server_error option \<times> session_manager" where
  "sendServerGeneration m now i g f =
     (case find (\<lambda>h. h = g) (map snd (conns m i)) of
        None \<Rightarrow> (Some (if g \<in> sm_retiredGenerations m then ErrServerGeneration else ErrSessionClosed), m)
      | Some _ \<Rightarrow>
        (case sm_objects m g of None \<Rightarrow> (Some ErrSessionClosed, m)
         | Some s \<Rightarrow>
           if as_closed s \<or> as_closing s then (Some ErrSessionClosed, m)
           else (let (err, s') = enqueueSession now s f in (err, m\<lparr>sm_objects := (sm_objects m)(g \<mapsto> s')\<rparr>))))"

definition resolveServerGeneration :: "session_manager \<Rightarrow> string \<Rightarrow> int \<Rightarrow> server_error + uint64" where
  "resolveServerGeneration m i epoch =
     (case find (\<lambda>g. session_epoch m g = Some epoch) (ListSessions m i) of
        None \<Rightarrow> Inl ErrSessionClosed
      | Some g \<Rightarrow>
        (case sm_objects m g of None \<Rightarrow> Inl ErrSessionClosed
         | Some s \<Rightarrow> if (i, as_ConnectionID s, as_ConnectionEpoch s) \<in> sm_retiredEpochs m then Inl ErrServerGeneration
                     else Inr g))"

definition SendGeneration ::
  "session_manager \<Rightarrow> int \<Rightarrow> string \<Rightarrow> int \<Rightarrow> frame \<Rightarrow> server_error option \<times> session_manager" where
  "SendGeneration m now i epoch f =
     (case resolveServerGeneration m i epoch of Inl e \<Rightarrow> (Some e, m) | Inr g \<Rightarrow> sendServerGeneration m now i g f)"

definition CloseConnection_begin ::
  "session_manager \<Rightarrow> string \<Rightarrow> string \<Rightarrow> int \<Rightarrow> server_error option \<times> session_manager" where
  "CloseConnection_begin m i c epoch =
     (case GetConnection m i c of None \<Rightarrow> (Some ErrSessionClosed, m)
      | Some g \<Rightarrow>
        (case sm_objects m g of None \<Rightarrow> (Some ErrSessionClosed, m)
         | Some s \<Rightarrow>
           if as_ConnectionEpoch s \<noteq> epoch then (Some ErrEpoch, m)
           else (let (err, s') = goAway_begin s in (err, m\<lparr>sm_objects := (sm_objects m)(g \<mapsto> s')\<rparr>))))"

text \<open>
  The cleanup calls of the metadata service: the whole agent or one instance, with the epoch.
\<close>

datatype stale_mark = StaleAgent string int | StaleInstance string string int

definition markMetadataStale :: "agent_session \<Rightarrow> stale_mark" where
  "markMetadataStale s =
     (if as_InstanceIDExplicit s then StaleInstance (as_AgentID s) (as_InstanceID s) (as_Epoch s)
      else StaleAgent (as_AgentID s) (as_Epoch s))"

definition retire :: "session_manager \<Rightarrow> string \<Rightarrow> uint64 \<Rightarrow> session_manager" where
  "retire m i g =
     (case sm_objects m g of None \<Rightarrow> m
      | Some s \<Rightarrow>
        m\<lparr>sm_retiredEpochs := insert (i, as_ConnectionID s, as_ConnectionEpoch s) (sm_retiredEpochs m),
          sm_retiredGenerations := insert g (sm_retiredGenerations m)\<rparr>)"

definition RemoveAgent :: "session_manager \<Rightarrow> string \<Rightarrow> session_manager \<times> stale_mark list" where
  "RemoveAgent m i =
     (let gs = map snd (conns m i);
          m1 = foldl (\<lambda>m g. retire (update_object m g CloseSession) i g) m gs in
      (m1\<lparr>sm_sessions := AList.delete i (sm_sessions m1), sm_connectionOrder := (sm_connectionOrder m1)(i := [])\<rparr>,
       List.map_filter (\<lambda>g. map_option markMetadataStale (sm_objects m g)) gs))"

definition RemoveSession :: "session_manager \<Rightarrow> string \<Rightarrow> uint64 \<Rightarrow> session_manager \<times> stale_mark list" where
  "RemoveSession m i g =
     (case sm_objects m g of None \<Rightarrow> (m, [])
      | Some s \<Rightarrow>
        (let c = as_ConnectionID s; cs = conns m i in
         if map_of cs c \<noteq> Some g then (m, [])
         else (let other = (\<exists>h\<in>set (map snd cs). h \<noteq> g \<and>
                         (case sm_objects m h of None \<Rightarrow> False | Some t \<Rightarrow> as_InstanceID t = as_InstanceID s));
                   marks = (if other then [] else [markMetadataStale s]);
                   m1 = update_object m g CloseSession;
                   cs' = AList.delete c cs;
                   m2 = (if cs' = []
                     then m1\<lparr>sm_sessions := AList.delete i (sm_sessions m1),
                             sm_connectionOrder := (sm_connectionOrder m1)(i := [])\<rparr>
                     else m1\<lparr>sm_sessions := AList.update i cs' (sm_sessions m1),
                             sm_connectionOrder := (sm_connectionOrder m1)(i := filter (\<lambda>d. d \<noteq> c) (sm_connectionOrder m1 i))\<rparr>) in
               (retire m2 i g, marks))))"

section \<open>Invariant\<close>

definition mgr_inv :: "session_manager \<Rightarrow> bool" where
  "mgr_inv m \<longleftrightarrow> distinct (map fst (sm_sessions m)) \<and> 0 < sm_MaxConnectionsPerAgent m
     \<and> (\<forall>i. distinct (map fst (conns m i)) \<and> distinct (sm_connectionOrder m i)
           \<and> set (sm_connectionOrder m i) = set (map fst (conns m i)) \<and> length (conns m i) \<le> sm_MaxConnectionsPerAgent m)
     \<and> (\<forall>i c g. map_of (conns m i) c = Some g \<longrightarrow>
           (\<exists>s. sm_objects m g = Some s \<and> as_AgentID s = i \<and> as_ConnectionID s = c) \<and> g \<notin> sm_retiredGenerations m)
     \<and> (\<forall>g. sm_objects m g \<noteq> None \<or> g \<in> sm_retiredGenerations m \<longrightarrow> g \<le> sm_nextServerGeneration m)"

lemma mgr_invD:
  assumes "mgr_inv m"
  shows "distinct (map fst (sm_sessions m))" "0 < sm_MaxConnectionsPerAgent m" "distinct (map fst (conns m i))"
    "distinct (sm_connectionOrder m i)" "set (sm_connectionOrder m i) = set (map fst (conns m i))"
    "length (conns m i) \<le> sm_MaxConnectionsPerAgent m"
    "map_of (conns m i) c = Some g \<Longrightarrow> \<exists>s. sm_objects m g = Some s \<and> as_AgentID s = i \<and> as_ConnectionID s = c"
    "map_of (conns m i) c = Some g \<Longrightarrow> g \<notin> sm_retiredGenerations m"
    "sm_objects m g \<noteq> None \<Longrightarrow> g \<le> sm_nextServerGeneration m"
    "g \<in> sm_retiredGenerations m \<Longrightarrow> g \<le> sm_nextServerGeneration m"
  using assms unfolding mgr_inv_def by blast+

lemma mgr_invI:
  assumes "distinct (map fst (sm_sessions m))" "0 < sm_MaxConnectionsPerAgent m"
    "\<And>i. distinct (map fst (conns m i))" "\<And>i. distinct (sm_connectionOrder m i)"
    "\<And>i. set (sm_connectionOrder m i) = set (map fst (conns m i))"
    "\<And>i. length (conns m i) \<le> sm_MaxConnectionsPerAgent m"
    "\<And>i c g. map_of (conns m i) c = Some g \<Longrightarrow> \<exists>s. sm_objects m g = Some s \<and> as_AgentID s = i \<and> as_ConnectionID s = c"
    "\<And>i c g. map_of (conns m i) c = Some g \<Longrightarrow> g \<notin> sm_retiredGenerations m"
    "\<And>g. sm_objects m g \<noteq> None \<Longrightarrow> g \<le> sm_nextServerGeneration m"
    "\<And>g. g \<in> sm_retiredGenerations m \<Longrightarrow> g \<le> sm_nextServerGeneration m"
  shows "mgr_inv m"
  using assms unfolding mgr_inv_def by blast

lemma update_object_simps [simp]:
  "sm_sessions (update_object m g h) = sm_sessions m" "sm_connectionOrder (update_object m g h) = sm_connectionOrder m"
  "sm_nextServerGeneration (update_object m g h) = sm_nextServerGeneration m"
  "sm_retiredEpochs (update_object m g h) = sm_retiredEpochs m"
  "sm_retiredGenerations (update_object m g h) = sm_retiredGenerations m"
  "sm_MaxConnectionsPerAgent (update_object m g h) = sm_MaxConnectionsPerAgent m"
  "sm_objects (update_object m g h) = (sm_objects m)(g := map_option h (sm_objects m g))"
  by (simp_all add: update_object_def)

lemma mgr_inv_New: "mgr_inv (NewAgentSessionManager caps q n)"
  by (simp add: mgr_inv_def NewAgentSessionManager_def conns_def)

text \<open>A generation identifies its agent and its connection.\<close>

lemma generation_unique:
  assumes "mgr_inv m" "map_of (conns m i) c = Some g" "map_of (conns m j) d = Some g"
  shows "i = j \<and> c = d"
  using mgr_invD(7) [OF assms(1,2)] mgr_invD(7) [OF assms(1,3)] by auto

lemma conns_update [simp]:
  "conns (m\<lparr>sm_sessions := AList.update i cs ss\<rparr>) j = (if j = i then cs else conns (m\<lparr>sm_sessions := ss\<rparr>) j)"
  by (simp add: conns_def AList.update_conv')

lemma conns_delete [simp]:
  "conns (m\<lparr>sm_sessions := AList.delete i ss\<rparr>) j = (if j = i then [] else conns (m\<lparr>sm_sessions := ss\<rparr>) j)"
  by (simp add: conns_def AList.delete_conv')

lemma conns_cong: "sm_sessions m = sm_sessions m' \<Longrightarrow> conns m = conns m'"
  by (simp add: conns_def fun_eq_iff)

lemma conns_same [simp]:
  "conns (m\<lparr>sm_objects := x\<rparr>) = conns m" "conns (m\<lparr>sm_connectionOrder := y\<rparr>) = conns m"
  "conns (m\<lparr>sm_nextServerGeneration := z\<rparr>) = conns m" "conns (m\<lparr>sm_retiredEpochs := v\<rparr>) = conns m"
  "conns (m\<lparr>sm_retiredGenerations := w\<rparr>) = conns m" "conns (m\<lparr>sm_sessions := sm_sessions m\<rparr>) = conns m"
  "conns (update_object m g h) = conns m" "conns (update_object m g h\<lparr>sm_sessions := ss\<rparr>) = conns (m\<lparr>sm_sessions := ss\<rparr>)"
  by (simp_all add: conns_def fun_eq_iff update_object_def)

lemma length_AList_update: "length (AList.update k v xs) = (if k \<in> fst ` set xs then length xs else Suc (length xs))"
  by (induction xs) auto

lemma next_generation: "n \<noteq> - 1 \<Longrightarrow> n < (n + 1 :: uint64)"
proof -
  assume "n \<noteq> - 1"
  then have "unat n \<noteq> 2 ^ 64 - 1" by (simp add: word_unat_eq_iff unsigned_minus_1_eq_mask mask_eq_exp_minus_1)
  moreover have "unat n < 2 ^ 64" using unsigned_less [of n] by simp
  ultimately show ?thesis by (simp add: word_less_nat_alt unat_word_ariths)
qed

text \<open>Changing sessions in place, without touching their identity, keeps the invariant.\<close>

definition keeps_identity :: "(agent_session \<Rightarrow> agent_session) \<Rightarrow> bool" where
  "keeps_identity h \<longleftrightarrow> (\<forall>s. as_AgentID (h s) = as_AgentID s \<and> as_ConnectionID (h s) = as_ConnectionID s)"

lemma mgr_inv_update_object: "mgr_inv m \<Longrightarrow> keeps_identity h \<Longrightarrow> mgr_inv (update_object m g h)"
proof -
  assume m: "mgr_inv m" and h: "keeps_identity h"
  show ?thesis
  proof (rule mgr_invI)
    fix i c k
    assume c: "map_of (conns (update_object m g h) i) c = Some k"
    then show "\<exists>s. sm_objects (update_object m g h) k = Some s \<and> as_AgentID s = i \<and> as_ConnectionID s = c"
      using mgr_invD(7) [OF m, of i c k] h by (auto simp: keeps_identity_def)
    show "k \<notin> sm_retiredGenerations (update_object m g h)" using mgr_invD(8) [OF m, of i c k] c by simp
  qed (use mgr_invD [OF m] in \<open>auto split: if_splits\<close>)
qed

lemma keeps_identity_ops: "keeps_identity CloseSession" "keeps_identity (\<lambda>s. s\<lparr>as_lastHeartbeat := t\<rparr>)"
  "keeps_identity (\<lambda>s. s\<lparr>as_writer := w\<rparr>)" "keeps_identity failSession" "keeps_identity goAway_finish"
  by (auto simp: keeps_identity_def CloseSession_def failSession_def goAway_finish_def)

lemma register_locked_cases:
  assumes "register_locked m s = (r, m')"
  obtains (refused) e where "r = Inl e" "conns m' = conns m" "sm_objects m' = sm_objects m"
      "sm_connectionOrder m' = sm_connectionOrder m" "sm_nextServerGeneration m' = sm_nextServerGeneration m"
      "sm_retiredGenerations m' = sm_retiredGenerations m" "sm_MaxConnectionsPerAgent m' = sm_MaxConnectionsPerAgent m"
      "distinct (map fst (sm_sessions m)) \<longrightarrow> distinct (map fst (sm_sessions m'))"
      "sm_retiredEpochs m' = sm_retiredEpochs m"
  | (admitted) g where "r = Inr g" "g = sm_nextServerGeneration m + 1" "sm_nextServerGeneration m \<noteq> - 1"
      "conns m' = (conns m)(as_AgentID s := AList.update (as_ConnectionID s) g (conns m (as_AgentID s)))"
      "map_of (conns m (as_AgentID s)) (as_ConnectionID s) = None \<longrightarrow>
         length (conns m (as_AgentID s)) < sm_MaxConnectionsPerAgent m"
      "\<And>h t. map_of (conns m (as_AgentID s)) (as_ConnectionID s) = Some h \<Longrightarrow> sm_objects m h = Some t \<Longrightarrow>
         as_ConnectionEpoch t < as_ConnectionEpoch s"
      "sm_objects m' = (case map_of (conns m (as_AgentID s)) (as_ConnectionID s) of
          None \<Rightarrow> (sm_objects m)(g \<mapsto> s)
        | Some h \<Rightarrow> ((sm_objects m)(g \<mapsto> s))(h := map_option CloseSession (((sm_objects m)(g \<mapsto> s)) h)))"
      "sm_connectionOrder m' = (if as_ConnectionID s \<in> set (sm_connectionOrder m (as_AgentID s)) then sm_connectionOrder m
         else (sm_connectionOrder m)(as_AgentID s := sm_connectionOrder m (as_AgentID s) @ [as_ConnectionID s]))"
      "sm_nextServerGeneration m' = g" "sm_retiredGenerations m' = sm_retiredGenerations m"
      "sm_MaxConnectionsPerAgent m' = sm_MaxConnectionsPerAgent m"
      "distinct (map fst (sm_sessions m)) \<longrightarrow> distinct (map fst (sm_sessions m'))"
      "sm_retiredEpochs m' = sm_retiredEpochs m"
proof -
  let ?i = "as_AgentID s" and ?c = "as_ConnectionID s"
  define m1 where "m1 = (if map_of (sm_sessions m) ?i = None then m\<lparr>sm_sessions := AList.update ?i [] (sm_sessions m)\<rparr> else m)"
  define old where "old = map_of (conns m ?i) ?c"
  define stale where "stale = (case old of None \<Rightarrow> False
     | Some g \<Rightarrow> (case sm_objects m g of None \<Rightarrow> False | Some o' \<Rightarrow> as_ConnectionEpoch o' \<ge> as_ConnectionEpoch s))"
  have c1: "conns m1 = conns m"
    by (rule ext) (auto simp: m1_def conns_def AList.update_conv')
  have s1: "sm_objects m1 = sm_objects m" "sm_connectionOrder m1 = sm_connectionOrder m"
    "sm_nextServerGeneration m1 = sm_nextServerGeneration m" "sm_retiredGenerations m1 = sm_retiredGenerations m"
    "sm_MaxConnectionsPerAgent m1 = sm_MaxConnectionsPerAgent m" "sm_retiredEpochs m1 = sm_retiredEpochs m"
    "distinct (map fst (sm_sessions m)) \<longrightarrow> distinct (map fst (sm_sessions m1))"
    by (simp_all add: m1_def distinct_update)
  show thesis
  proof (cases "stale \<or> old = None \<and> length (conns m ?i) \<ge> sm_MaxConnectionsPerAgent m \<or> sm_nextServerGeneration m = - 1")
    case True
    then have "m' = m1" "\<exists>e. r = Inl e"
      using assms unfolding register_locked_def Let_def m1_def [symmetric] old_def [symmetric] stale_def [symmetric]
      by (auto split: if_splits)
    then show thesis using refused c1 s1 by metis
  next
    case False
    define g where "g = sm_nextServerGeneration m + 1"
    define m2 where "m2 = m1\<lparr>sm_nextServerGeneration := g,
        sm_sessions := AList.update ?i (AList.update ?c g (conns m ?i)) (sm_sessions m1),
        sm_objects := (sm_objects m)(g \<mapsto> s),
        sm_connectionOrder := (if ?c \<in> set (sm_connectionOrder m ?i) then sm_connectionOrder m
                               else (sm_connectionOrder m)(?i := sm_connectionOrder m ?i @ [?c]))\<rparr>"
    have f: "\<not> stale" "\<not> (old = None \<and> sm_MaxConnectionsPerAgent m \<le> length (conns m ?i))" "sm_nextServerGeneration m \<noteq> - 1"
      using False by blast+
    have r: "r = Inr g" "m' = (case old of None \<Rightarrow> m2 | Some h \<Rightarrow> update_object m2 h CloseSession)"
      using assms unfolding register_locked_def Let_def m1_def [symmetric] old_def [symmetric] stale_def [symmetric]
      by (auto simp: f m2_def g_def split: option.splits)
    have c2: "conns m2 = (conns m)(?i := AList.update ?c g (conns m ?i))"
      by (rule ext) (simp add: m2_def conns_def AList.update_conv' c1 [unfolded conns_def fun_eq_iff])
    show thesis
    proof (rule admitted)
      show "conns m' = (conns m)(?i := AList.update ?c g (conns m ?i))" using r(2) c2 by (simp split: option.splits)
      show "sm_objects m' = (case map_of (conns m ?i) ?c of
          None \<Rightarrow> (sm_objects m)(g \<mapsto> s)
        | Some h \<Rightarrow> ((sm_objects m)(g \<mapsto> s))(h := map_option CloseSession (((sm_objects m)(g \<mapsto> s)) h)))"
        unfolding r(2) old_def by (simp add: m2_def update_object_def split: option.splits)
      show "as_ConnectionEpoch t < as_ConnectionEpoch s" if "map_of (conns m ?i) ?c = Some h" "sm_objects m h = Some t" for h t
        using False that by (simp add: stale_def old_def)
    qed (use r False s1 in \<open>auto simp: m2_def update_object_def g_def old_def distinct_update split: option.splits\<close>)
  qed
qed

section \<open>Registration keeps the invariant\<close>

lemma fresh_generation:
  assumes "mgr_inv m" "sm_nextServerGeneration m \<noteq> - 1"
  shows "sm_objects m (sm_nextServerGeneration m + 1) = None" "sm_nextServerGeneration m + 1 \<notin> sm_retiredGenerations m"
    "map_of (conns m i) c \<noteq> Some (sm_nextServerGeneration m + 1)" "sm_nextServerGeneration m < sm_nextServerGeneration m + 1"
proof -
  note n = next_generation [OF assms(2)]
  show o: "sm_objects m (sm_nextServerGeneration m + 1) = None"
    using mgr_invD(9) [OF assms(1), of "sm_nextServerGeneration m + 1"] n by (metis leD)
  show "sm_nextServerGeneration m + 1 \<notin> sm_retiredGenerations m"
    using mgr_invD(10) [OF assms(1), of "sm_nextServerGeneration m + 1"] n by (metis leD)
  show "map_of (conns m i) c \<noteq> Some (sm_nextServerGeneration m + 1)"
    using mgr_invD(7) [OF assms(1), of i c "sm_nextServerGeneration m + 1"] o by auto
  show "sm_nextServerGeneration m < sm_nextServerGeneration m + 1" by (rule n)
qed

lemma mgr_inv_register_locked:
  assumes m: "mgr_inv m" and r: "register_locked m s = (r, m')"
  shows "mgr_inv m'"
  using r
proof (cases rule: register_locked_cases)
  case (refused e)
  then show ?thesis using m by (simp add: mgr_inv_def)
next
  case (admitted g)
  let ?i = "as_AgentID s" and ?c = "as_ConnectionID s"
  note fresh = fresh_generation [OF m admitted(3), folded admitted(2)]
  have oi: "set (sm_connectionOrder m ?i) = fst ` set (conns m ?i)" using mgr_invD(5) [OF m, of ?i] by simp
  show ?thesis
  proof (rule mgr_invI)
    show "distinct (map fst (sm_sessions m'))" using admitted mgr_invD(1) [OF m] by blast
    show "0 < sm_MaxConnectionsPerAgent m'" using admitted mgr_invD(2) [OF m] by simp
  next
    fix i
    show "distinct (map fst (conns m' i))" using mgr_invD(3) [OF m] admitted(4) by (simp add: distinct_update)
    show "distinct (sm_connectionOrder m' i)" using mgr_invD(4) [OF m] admitted(8) by simp
    show "set (sm_connectionOrder m' i) = set (map fst (conns m' i))"
      using mgr_invD(5) [OF m, of i] oi admitted(4,8) by (auto simp: AList.dom_update)
    show "length (conns m' i) \<le> sm_MaxConnectionsPerAgent m'"
    proof (cases "i = ?i")
      case True
      have "?c \<notin> fst ` set (conns m ?i) \<longrightarrow> length (conns m ?i) < sm_MaxConnectionsPerAgent m"
        using admitted(5) by (metis map_of_eq_None_iff)
      then show ?thesis using True admitted mgr_invD(6) [OF m, of ?i] by (auto simp: length_AList_update)
    next
      case False
      then show ?thesis using admitted mgr_invD(6) [OF m, of i] by simp
    qed
  next
    fix i c k
    assume k: "map_of (conns m' i) c = Some k"
    have cases: "(i = ?i \<and> c = ?c \<and> k = g) \<or> (map_of (conns m i) c = Some k \<and> (i, c) \<noteq> (?i, ?c))"
      using k admitted(4) by (auto simp: AList.update_conv' split: if_splits)
    have obj: "sm_objects m' j = (if j = g then Some s
        else if map_of (conns m ?i) ?c = Some j then map_option CloseSession (sm_objects m j) else sm_objects m j)" for j
      using admitted(7) fresh(3) [of ?i ?c] by (auto split: option.splits)
    show "\<exists>t. sm_objects m' k = Some t \<and> as_AgentID t = i \<and> as_ConnectionID t = c"
      using cases mgr_invD(7) [OF m, of i c k] fresh(3) [of i c] keeps_identity_ops(1)
      by (auto simp: obj keeps_identity_def)
    show "k \<notin> sm_retiredGenerations m'"
      using cases mgr_invD(8) [OF m, of i c k] fresh(2) admitted(10) by auto
  next
    fix k
    have le: "k \<le> g" if "k \<le> sm_nextServerGeneration m" using that fresh(4) by simp
    show "k \<le> sm_nextServerGeneration m'" if "sm_objects m' k \<noteq> None"
    proof (cases "k = g")
      case False
      then have "sm_objects m k \<noteq> None" using that admitted(7) by (auto split: option.splits if_splits)
      then show ?thesis using mgr_invD(9) [OF m] le admitted(9) by simp
    qed (simp add: admitted(9))
    show "k \<le> sm_nextServerGeneration m'" if "k \<in> sm_retiredGenerations m'"
      using that mgr_invD(10) [OF m, of k] le admitted(9,10) by simp
  qed
qed

text \<open>The epoch under which a connection is registered, and registration seen as a fenced operation.\<close>

definition connection_epoch :: "session_manager \<Rightarrow> string \<times> string \<Rightarrow> int option" where
  "connection_epoch m k =
     (case map_of (conns m (fst k)) (snd k) of None \<Rightarrow> None | Some g \<Rightarrow> map_option as_ConnectionEpoch (sm_objects m g))"

definition register_key :: "session_manager \<Rightarrow> string \<times> string \<Rightarrow> int \<Rightarrow> agent_session \<Rightarrow> bool \<times> session_manager" where
  "register_key m k e s =
     (case register_locked m (s\<lparr>as_AgentID := fst k, as_ConnectionID := snd k, as_ConnectionEpoch := e\<rparr>) of
        (Inl _, m') \<Rightarrow> (False, m') | (Inr _, m') \<Rightarrow> (True, m'))"

lemma CloseSession_epoch [simp]: "as_ConnectionEpoch (CloseSession s) = as_ConnectionEpoch s"
  by (simp add: CloseSession_def)

interpretation agent_connections: fencing connection_epoch register_key mgr_inv
proof unfold_locales
  fix m m' :: session_manager and k :: "string \<times> string" and e d :: int and s :: agent_session and ok :: bool
  assume m: "mgr_inv m"
  let ?s = "s\<lparr>as_AgentID := fst k, as_ConnectionID := snd k, as_ConnectionEpoch := e\<rparr>"
  show "mgr_inv m'" if "register_key m k e s = (ok, m')"
    using that mgr_inv_register_locked [OF m, of ?s] by (auto simp: register_key_def split: prod.splits sum.splits)
  show "connection_epoch m' = (connection_epoch m)(k \<mapsto> e)" if a: "register_key m k e s = (True, m')"
  proof -
    obtain g where r: "register_locked m ?s = (Inr g, m')"
      using a by (auto simp: register_key_def split: prod.splits sum.splits)
    from r show ?thesis
    proof (cases rule: register_locked_cases)
      case (admitted g')
      note fresh = fresh_generation [OF m admitted(3), folded admitted(2)]
      show ?thesis
      proof (rule ext)
        fix j
        show "connection_epoch m' j = ((connection_epoch m)(k \<mapsto> e)) j"
        proof (cases "j = k")
          case True
          then show ?thesis using admitted(4,7) fresh(3) [of "fst k" "snd k"]
            by (auto simp: connection_epoch_def AList.update_conv' split: option.splits)
        next
          case False
          have c: "map_of (conns m' (fst j)) (snd j) = map_of (conns m (fst j)) (snd j)"
            using False admitted(4) by (auto simp: AList.update_conv' prod_eq_iff)
          have "map_option as_ConnectionEpoch (sm_objects m' h) = map_option as_ConnectionEpoch (sm_objects m h)" if "h \<noteq> g'" for h
            using that admitted(7) by (auto simp: option.map_comp comp_def split: option.splits)
          then show ?thesis using c False fresh(3) [of "fst j" "snd j"] by (auto simp: connection_epoch_def split: option.splits)
        qed
      qed
    qed simp
  qed
  show "d < e" if a: "register_key m k e s = (True, m')" and b: "connection_epoch m k = Some d"
  proof -
    obtain g where r: "register_locked m ?s = (Inr g, m')"
      using a by (auto simp: register_key_def split: prod.splits sum.splits)
    from r show ?thesis
      by (cases rule: register_locked_cases) (use b in \<open>auto simp: connection_epoch_def split: option.splits\<close>)
  qed
  show "connection_epoch m' = connection_epoch m" if a: "register_key m k e s = (False, m')"
  proof -
    obtain x where r: "register_locked m ?s = (Inl x, m')"
      using a by (auto simp: register_key_def split: prod.splits sum.splits)
    from r show ?thesis by (cases rule: register_locked_cases) (simp_all add: connection_epoch_def fun_eq_iff split: option.splits)
  qed
qed

definition same_identities :: "session_manager \<Rightarrow> session_manager \<Rightarrow> bool" where
  "same_identities m m' \<longleftrightarrow> (\<forall>g s. sm_objects m g = Some s \<longrightarrow>
     (\<exists>s'. sm_objects m' g = Some s' \<and> as_AgentID s' = as_AgentID s \<and> as_ConnectionID s' = as_ConnectionID s))"

lemma same_identities_refl: "sm_objects m' = sm_objects m \<Longrightarrow> same_identities m m'"
  by (simp add: same_identities_def)

lemma same_identities_trans: "same_identities m m' \<Longrightarrow> same_identities m' m'' \<Longrightarrow> same_identities m m''"
  unfolding same_identities_def by fastforce

lemma same_identities_map:
  "(\<And>g. sm_objects m' g = map_option (h g) (sm_objects m g)) \<Longrightarrow> (\<And>g. keeps_identity (h g)) \<Longrightarrow> same_identities m m'"
  by (simp add: same_identities_def keeps_identity_def)

lemma keeps_identity_id: "keeps_identity (\<lambda>s. s)"
  by (simp add: keeps_identity_def)

lemma same_identities_close:
  "(\<And>g. sm_objects m' g = (if g \<in> A then map_option CloseSession (sm_objects m g) else sm_objects m g)) \<Longrightarrow> same_identities m m'"
  by (rule same_identities_map [where h = "\<lambda>g. if g \<in> A then CloseSession else (\<lambda>s. s)"])
    (simp_all add: keeps_identity_ops keeps_identity_id option.map_ident)

section \<open>Removal\<close>

lemma retire_simps [simp]:
  "sm_sessions (retire m i g) = sm_sessions m" "sm_connectionOrder (retire m i g) = sm_connectionOrder m"
  "sm_nextServerGeneration (retire m i g) = sm_nextServerGeneration m" "sm_objects (retire m i g) = sm_objects m"
  "sm_MaxConnectionsPerAgent (retire m i g) = sm_MaxConnectionsPerAgent m" "conns (retire m i g) = conns m"
  "sm_retiredGenerations (retire m i g) = (if sm_objects m g = None then sm_retiredGenerations m else insert g (sm_retiredGenerations m))"
  by (auto simp: retire_def conns_def fun_eq_iff split: option.splits)

text \<open>
  Both removals take some connections of one agent out of the registry and retire exactly their generations.
\<close>

lemma mgr_inv_remove:
  assumes m: "mgr_inv m" and keep: "set ks = set (map fst cs')" "distinct ks" "distinct (map fst cs')"
    "\<And>c g. map_of cs' c = Some g \<Longrightarrow> map_of (conns m i) c = Some g" "length cs' \<le> length (conns m i)"
    and m': "conns m' = (conns m)(i := cs')" "sm_connectionOrder m' = (sm_connectionOrder m)(i := ks)"
    "distinct (map fst (sm_sessions m'))" "sm_nextServerGeneration m' = sm_nextServerGeneration m"
    "sm_MaxConnectionsPerAgent m' = sm_MaxConnectionsPerAgent m"
    "\<And>g. map_option as_AgentID (sm_objects m' g) = map_option as_AgentID (sm_objects m g)"
    "\<And>g. map_option as_ConnectionID (sm_objects m' g) = map_option as_ConnectionID (sm_objects m g)"
    "sm_retiredGenerations m' \<subseteq> sm_retiredGenerations m \<union> dom (sm_objects m)"
    "\<And>j c g. map_of (conns m' j) c = Some g \<Longrightarrow> g \<notin> sm_retiredGenerations m'"
  shows "mgr_inv m'"
proof (rule mgr_invI)
  fix j c g
  assume "map_of (conns m' j) c = Some g"
  then have "map_of (conns m j) c = Some g" using m'(1) keep(4) by (auto split: if_splits)
  then obtain s where s: "sm_objects m g = Some s" "as_AgentID s = j" "as_ConnectionID s = c"
    using mgr_invD(7) [OF m] by blast
  obtain s' where "sm_objects m' g = Some s'" using m'(6) [of g] s(1) by (cases "sm_objects m' g") auto
  then show "\<exists>s. sm_objects m' g = Some s \<and> as_AgentID s = j \<and> as_ConnectionID s = c"
    using m'(6,7) [of g] s by simp
next
  fix g
  show "g \<le> sm_nextServerGeneration m'" if "sm_objects m' g \<noteq> None"
    using that m'(6) [of g] mgr_invD(9) [OF m, of g] m'(4) by (cases "sm_objects m g") auto
  show "g \<le> sm_nextServerGeneration m'" if "g \<in> sm_retiredGenerations m'"
    using that m'(8) mgr_invD(9,10) [OF m, of g] m'(4) by auto
qed (use assms mgr_invD [OF m] in \<open>auto intro: le_trans\<close>)

lemma RemoveSession_spec:
  assumes m: "mgr_inv m" and r: "RemoveSession m i g = (m', marks)"
  shows "mgr_inv m' \<and> sm_nextServerGeneration m' = sm_nextServerGeneration m
    \<and> (if map_of (conns m i) (case sm_objects m g of None \<Rightarrow> [] | Some s \<Rightarrow> as_ConnectionID s) = Some g \<and> sm_objects m g \<noteq> None
       then (\<exists>s. sm_objects m g = Some s \<and> conns m' = (conns m)(i := AList.delete (as_ConnectionID s) (conns m i))
              \<and> sm_retiredGenerations m' = insert g (sm_retiredGenerations m)
              \<and> sm_MaxConnectionsPerAgent m' = sm_MaxConnectionsPerAgent m \<and> same_identities m m')
       else m' = m \<and> marks = [])"
proof (cases "sm_objects m g")
  case None
  then show ?thesis using r m by (simp add: RemoveSession_def)
next
  case (Some s)
  let ?c = "as_ConnectionID s"
  show ?thesis
  proof (cases "map_of (conns m i) ?c = Some g")
    case False
    then show ?thesis using r m Some by (auto simp: RemoveSession_def Let_def)
  next
    case True
    define cs' where "cs' = AList.delete ?c (conns m i)"
    define ks where "ks = filter (\<lambda>d. d \<noteq> ?c) (sm_connectionOrder m i)"
    have keys: "set (map fst cs') = set (map fst (conns m i)) - {?c}" by (auto simp del: set_map simp add: cs'_def AList.delete_keys)
    have ks: "set ks = set (map fst cs')" using mgr_invD(5) [OF m, of i] keys by (auto simp: ks_def)
    have m': "conns m' = (conns m)(i := cs')" "sm_connectionOrder m' = (sm_connectionOrder m)(i := ks)"
      "distinct (map fst (sm_sessions m'))" "sm_nextServerGeneration m' = sm_nextServerGeneration m"
      "sm_MaxConnectionsPerAgent m' = sm_MaxConnectionsPerAgent m"
      "sm_objects m' = (sm_objects m)(g := map_option CloseSession (sm_objects m g))"
      "sm_retiredGenerations m' = insert g (sm_retiredGenerations m)"
      using r Some True mgr_invD(1) [OF m] ks
      by (auto simp: RemoveSession_def Let_def cs'_def [symmetric] ks_def [symmetric] fun_eq_iff distinct_update distinct_delete
          split: if_splits)
    have "mgr_inv m'"
    proof (rule mgr_inv_remove [OF m ks _ _ _ _ m'(1-5)])
      show "distinct ks" using mgr_invD(4) [OF m, of i] by (simp add: ks_def)
      show "distinct (map fst cs')" using mgr_invD(3) [OF m, of i] by (simp add: cs'_def distinct_delete)
      show "map_of (conns m i) c = Some h" if "map_of cs' c = Some h" for c h
        using that by (simp add: cs'_def AList.delete_conv' split: if_splits)
      show "length cs' \<le> length (conns m i)" by (simp add: cs'_def AList.length_delete_le)
      show "map_option as_AgentID (sm_objects m' h) = map_option as_AgentID (sm_objects m h)"
        "map_option as_ConnectionID (sm_objects m' h) = map_option as_ConnectionID (sm_objects m h)" for h
        using keeps_identity_ops(1) by (auto simp: m'(6) option.map_comp comp_def keeps_identity_def)
      show "sm_retiredGenerations m' \<subseteq> sm_retiredGenerations m \<union> dom (sm_objects m)" using Some by (auto simp: m'(7))
      show "h \<notin> sm_retiredGenerations m'" if "map_of (conns m' j) c = Some h" for j c h
      proof -
        have c: "map_of (conns m j) c = Some h" "(j, c) \<noteq> (i, ?c)"
          using that m'(1) by (auto simp: cs'_def AList.delete_conv' split: if_splits)
        then have "h \<noteq> g" using generation_unique [OF m c(1), of i ?c] True by auto
        then show ?thesis using mgr_invD(8) [OF m c(1)] by (simp add: m'(7))
      qed
    qed
    moreover have "same_identities m m'" by (rule same_identities_close [where A = "{g}"]) (simp add: m'(6))
    ultimately show ?thesis using True Some m' by (auto simp: cs'_def)
  qed
qed

lemma retire_all_simps:
  defines "step \<equiv> \<lambda>i m g. retire (update_object m g CloseSession) i g"
  shows "sm_sessions (foldl (step i) m gs) = sm_sessions m" "sm_connectionOrder (foldl (step i) m gs) = sm_connectionOrder m"
    "sm_nextServerGeneration (foldl (step i) m gs) = sm_nextServerGeneration m"
    "sm_MaxConnectionsPerAgent (foldl (step i) m gs) = sm_MaxConnectionsPerAgent m"
    "sm_objects (foldl (step i) m gs) h = (if h \<in> set gs then map_option CloseSession (sm_objects m h) else sm_objects m h)"
    "sm_retiredGenerations (foldl (step i) m gs) = sm_retiredGenerations m \<union> {h \<in> set gs. sm_objects m h \<noteq> None}"
proof -
  have twice: "CloseSession (CloseSession s) = CloseSession s" for s by (simp add: CloseSession_def)
  show "sm_sessions (foldl (step i) m gs) = sm_sessions m" "sm_connectionOrder (foldl (step i) m gs) = sm_connectionOrder m"
    "sm_nextServerGeneration (foldl (step i) m gs) = sm_nextServerGeneration m"
    "sm_MaxConnectionsPerAgent (foldl (step i) m gs) = sm_MaxConnectionsPerAgent m"
    by (induction gs arbitrary: m) (simp_all add: step_def)
  show "sm_objects (foldl (step i) m gs) h = (if h \<in> set gs then map_option CloseSession (sm_objects m h) else sm_objects m h)"
    by (induction gs arbitrary: m) (auto simp: step_def option.map_comp comp_def twice)
  show "sm_retiredGenerations (foldl (step i) m gs) = sm_retiredGenerations m \<union> {h \<in> set gs. sm_objects m h \<noteq> None}"
    by (induction gs arbitrary: m) (auto simp: step_def)
qed

lemma RemoveAgent_spec:
  assumes m: "mgr_inv m" and r: "RemoveAgent m i = (m', marks)"
  shows "mgr_inv m' \<and> sm_nextServerGeneration m' = sm_nextServerGeneration m \<and> conns m' = (conns m)(i := [])
    \<and> sm_retiredGenerations m' = sm_retiredGenerations m \<union> snd ` set (conns m i)
    \<and> sm_MaxConnectionsPerAgent m' = sm_MaxConnectionsPerAgent m \<and> same_identities m m'"
proof -
  let ?gs = "map snd (conns m i)"
  note fold = retire_all_simps [of i m ?gs]
  have registered: "\<exists>c. map_of (conns m i) c = Some g" if "g \<in> set ?gs" for g
    using that mgr_invD(3) [OF m, of i] by (auto intro: map_of_is_SomeI)
  then have live: "sm_objects m g \<noteq> None" if "g \<in> set ?gs" for g using that mgr_invD(7) [OF m, of i _ g] by fastforce
  have r': "m' = (let m1 = foldl (\<lambda>m g. retire (update_object m g CloseSession) i g) m ?gs in
      m1\<lparr>sm_sessions := AList.delete i (sm_sessions m1), sm_connectionOrder := (sm_connectionOrder m1)(i := [])\<rparr>)"
    using r by (simp add: RemoveAgent_def Let_def)
  have c: "conns m' = (conns m)(i := [])" using r' fold(1) by (simp add: Let_def conns_def fun_eq_iff AList.delete_conv')
  have ret: "sm_retiredGenerations m' = sm_retiredGenerations m \<union> set ?gs" 
  proof -
    have "{h \<in> set ?gs. sm_objects m h \<noteq> None} = set ?gs" using live by blast
    then show ?thesis using r' fold(6) by (simp only: Let_def) simp
  qed
  have "mgr_inv m'"
  proof (rule mgr_inv_remove [OF m, of "[]" "[]" i])
    show "map_option as_AgentID (sm_objects m' h) = map_option as_AgentID (sm_objects m h)"
      "map_option as_ConnectionID (sm_objects m' h) = map_option as_ConnectionID (sm_objects m h)" for h
      using r' fold(5) [of h] keeps_identity_ops(1) by (auto simp: Let_def option.map_comp comp_def keeps_identity_def)
    show "sm_retiredGenerations m' \<subseteq> sm_retiredGenerations m \<union> dom (sm_objects m)" using ret live by auto
    show "h \<notin> sm_retiredGenerations m'" if "map_of (conns m' j) d = Some h" for j d h
    proof -
      have j: "j \<noteq> i" "map_of (conns m j) d = Some h" using that c by (auto split: if_splits)
      then have "h \<notin> set ?gs" using registered generation_unique [OF m j(2), of i] by blast
      then show ?thesis using mgr_invD(8) [OF m j(2)] ret by simp
    qed
  qed (use r' fold(1-4) c mgr_invD(1) [OF m] in \<open>simp_all add: Let_def distinct_delete\<close>)
  moreover have "same_identities m m'" by (rule same_identities_close [where A = "set ?gs"]) (use r' fold(5) in \<open>simp add: Let_def\<close>)
  ultimately show ?thesis using c ret r' fold(3,4) by (simp add: Let_def)
qed

section \<open>Runs\<close>

text \<open>
  What happens to a manager: calls of its methods, and the steps of one session that its own goroutines take.
\<close>

datatype mgr_event =
    MRegister int agent_registration
  | MRemoveAgent string
  | MRemoveSession string uint64
  | MHeartbeat int string int
  | MHeartbeatSession int uint64
  | MSend int string int frame
  | MSendGeneration int string uint64 frame
  | MCloseConnection string string int
  | MGoAwayFinish uint64
  | MFail uint64
  | MClose uint64

fun mgr_step :: "(agent_registration \<Rightarrow> server_error option) \<Rightarrow> session_manager \<Rightarrow> mgr_event \<Rightarrow> session_manager" where
  "mgr_step auth m (MRegister now req) = snd (Register auth m now req)"
| "mgr_step auth m (MRemoveAgent i) = fst (RemoveAgent m i)"
| "mgr_step auth m (MRemoveSession i g) = fst (RemoveSession m i g)"
| "mgr_step auth m (MHeartbeat now i e) = snd (Heartbeat m now i e)"
| "mgr_step auth m (MHeartbeatSession now g) = snd (heartbeatSession m now g)"
| "mgr_step auth m (MSend now i e f) = snd (SendGeneration m now i e f)"
| "mgr_step auth m (MSendGeneration now i g f) = snd (sendServerGeneration m now i g f)"
| "mgr_step auth m (MCloseConnection i c e) = snd (CloseConnection_begin m i c e)"
| "mgr_step auth m (MGoAwayFinish g) = update_object m g goAway_finish"
| "mgr_step auth m (MFail g) = update_object m g failSession"
| "mgr_step auth m (MClose g) = update_object m g CloseSession"

definition mgr_run ::
  "(agent_registration \<Rightarrow> server_error option) \<Rightarrow> mgr_event list \<Rightarrow> session_manager \<Rightarrow> session_manager" where
  "mgr_run auth evs m = foldl (mgr_step auth) m evs"

text \<open>Steps that only change sessions in place.\<close>

definition in_place :: "session_manager \<Rightarrow> session_manager \<Rightarrow> bool" where
  "in_place m m' \<longleftrightarrow> m' = m \<or> (\<exists>g h. keeps_identity h \<and> m' = update_object m g h)"

lemma in_place_same [simp, intro]: "in_place m m"
  by (simp add: in_place_def)

lemma in_place_update: "keeps_identity h \<Longrightarrow> in_place m (update_object m g h)"
  by (auto simp: in_place_def)

lemma in_place_set:
  assumes "sm_objects m g = Some s" "as_AgentID s' = as_AgentID s" "as_ConnectionID s' = as_ConnectionID s"
  shows "in_place m (m\<lparr>sm_objects := (sm_objects m)(g \<mapsto> s')\<rparr>)"
proof -
  let ?h = "\<lambda>t. if t = s then s' else t"
  have "keeps_identity ?h" "m\<lparr>sm_objects := (sm_objects m)(g \<mapsto> s')\<rparr> = update_object m g ?h"
    using assms by (simp_all add: keeps_identity_def update_object_def)
  then show ?thesis by (auto simp: in_place_def)
qed

lemma in_place_facts:
  assumes "in_place m m'"
  shows "mgr_inv m \<Longrightarrow> mgr_inv m'" "conns m' = conns m" "sm_nextServerGeneration m' = sm_nextServerGeneration m"
    "sm_retiredGenerations m' = sm_retiredGenerations m" "sm_MaxConnectionsPerAgent m' = sm_MaxConnectionsPerAgent m"
  using assms by (auto simp: in_place_def intro: mgr_inv_update_object)

lemma in_place_sendServerGeneration: "in_place m (snd (sendServerGeneration m now i g f))"
  by (auto simp: sendServerGeneration_def enqueueSession_def Let_def intro!: in_place_set split: option.splits prod.splits)

lemma in_place_steps:
  "in_place m (snd (Heartbeat m now i e))" "in_place m (snd (heartbeatSession m now g))"
  "in_place m (snd (SendGeneration m now i e f))" "in_place m (snd (CloseConnection_begin m i c e))"
  by (auto simp: Heartbeat_def heartbeatSession_def SendGeneration_def CloseConnection_begin_def goAway_begin_def Let_def
      intro: in_place_sendServerGeneration intro!: in_place_update in_place_set keeps_identity_ops
      split: option.splits sum.splits)

lemma mgr_step_cases:
  obtains (registers) now req where "ev = MRegister now req"
  | (removes) i g where "ev = MRemoveAgent i \<or> ev = MRemoveSession i g"
  | (quiet) "in_place m (mgr_step auth m ev)"
  by (cases ev) (auto intro: in_place_steps in_place_sendServerGeneration in_place_update keeps_identity_ops)

text \<open>A generation is dead once it was handed out and is not registered.\<close>

definition registered :: "session_manager \<Rightarrow> uint64 \<Rightarrow> bool" where
  "registered m g \<longleftrightarrow> (\<exists>i c. map_of (conns m i) c = Some g)"

lemma Register_cases:
  obtains (early) e where "Register auth m now req = (Inl e, m)"
  | (locked) "Register auth m now req = register_locked m (new_session m now req)"
  using that unfolding Register_def by (metis (no_types) option.exhaust option.simps(4) option.simps(5))

text \<open>How a manager may change: sessions keep their identity and nothing dead comes back.\<close>

definition evolves :: "session_manager \<Rightarrow> session_manager \<Rightarrow> bool" where
  "evolves m m' \<longleftrightarrow> mgr_inv m' \<and> same_identities m m' \<and> sm_nextServerGeneration m \<le> sm_nextServerGeneration m'
     \<and> (\<forall>g. g \<le> sm_nextServerGeneration m \<longrightarrow> registered m' g \<longrightarrow> registered m g)
     \<and> sm_retiredGenerations m \<subseteq> sm_retiredGenerations m' \<and> sm_MaxConnectionsPerAgent m' = sm_MaxConnectionsPerAgent m"

lemma evolves_refl: "mgr_inv m \<Longrightarrow> evolves m m"
  by (simp add: evolves_def same_identities_refl)

lemma evolves_trans: "evolves m m' \<Longrightarrow> evolves m' m'' \<Longrightarrow> evolves m m''"
  unfolding evolves_def
  by (elim conjE, intro conjI) (auto intro: same_identities_trans dest: order_trans)

lemma same_identities_in_place: "in_place m m' \<Longrightarrow> same_identities m m'"
  by (auto simp: in_place_def same_identities_def keeps_identity_def)

lemma evolves_in_place: "mgr_inv m \<Longrightarrow> in_place m m' \<Longrightarrow> evolves m m'"
  using in_place_facts [of m m'] by (simp add: evolves_def registered_def same_identities_in_place)

lemma evolves_register_locked:
  assumes m: "mgr_inv m" and r: "register_locked m s = (r, m')"
  shows "evolves m m'"
  using r
proof (cases rule: register_locked_cases)
  case (refused e)
  then show ?thesis using mgr_inv_register_locked [OF m r] by (simp add: evolves_def registered_def same_identities_refl)
next
  case (admitted g)
  note lt = next_generation [OF admitted(3), folded admitted(2)]
  have "registered m h" if "h \<le> sm_nextServerGeneration m" "registered m' h" for h
    using that lt admitted(4) by (auto simp: registered_def AList.update_conv' split: if_splits)
  moreover have "same_identities m m'"
    using admitted(7) fresh_generation(1) [OF m admitted(3)] keeps_identity_ops(1) admitted(2)
    by (auto simp: same_identities_def keeps_identity_def split: option.splits)
  ultimately show ?thesis using mgr_inv_register_locked [OF m r] admitted lt by (simp add: evolves_def)
qed

lemma evolves_removes:
  assumes m: "mgr_inv m"
  shows "evolves m (fst (RemoveAgent m i))" "evolves m (fst (RemoveSession m i g))"
proof -
  obtain m' marks where "RemoveAgent m i = (m', marks)" by (cases "RemoveAgent m i")
  with RemoveAgent_spec [OF m this] show "evolves m (fst (RemoveAgent m i))"
    by (auto simp: evolves_def registered_def split: if_splits)
  obtain m' marks where r: "RemoveSession m i g = (m', marks)" by (cases "RemoveSession m i g")
  show "evolves m (fst (RemoveSession m i g))"
    using RemoveSession_spec [OF m r] m r evolves_refl [OF m]
    by (auto simp: evolves_def registered_def AList.delete_conv' split: if_splits)
qed

lemma evolves_step:
  assumes m: "mgr_inv m"
  shows "evolves m (mgr_step auth m ev)"
proof (cases rule: mgr_step_cases [where ev = ev and m = m and auth = auth])
  case (registers now req)
  show ?thesis
  proof (cases rule: Register_cases [where auth = auth and m = m and now = now and req = req])
    case (early e)
    then show ?thesis using m registers by (simp add: evolves_refl)
  next
    case locked
    then show ?thesis using evolves_register_locked [OF m, of "new_session m now req"] registers by (metis mgr_step.simps(1) surjective_pairing)
  qed
next
  case (removes i g)
  then show ?thesis using evolves_removes [OF m] by auto
qed (rule evolves_in_place [OF m])

lemma evolves_run: "mgr_inv m \<Longrightarrow> evolves m (mgr_run auth evs m)"
proof (induction evs arbitrary: m)
  case (Cons ev evs)
  note e = evolves_step [OF Cons.prems, of auth ev]
  then show ?case using Cons.IH [of "mgr_step auth m ev"] evolves_trans [OF e] by (simp add: evolves_def mgr_run_def)
qed (simp add: mgr_run_def evolves_refl)

section \<open>Properties\<close>

lemma mgr_inv_run: "mgr_inv m \<Longrightarrow> mgr_inv (mgr_run auth evs m)"
  using evolves_run by (simp add: evolves_def)

lemma ListSessions_length: "length (ListSessions m i) \<le> length (sm_connectionOrder m i)"
  by (simp add: ListSessions_def map_filter_def)

lemma set_ListSessions:
  assumes "mgr_inv m"
  shows "g \<in> set (ListSessions m i) \<longleftrightarrow> (\<exists>c. map_of (conns m i) c = Some g)"
proof -
  have "c \<in> set (sm_connectionOrder m i)" if "map_of (conns m i) c = Some g" for c
    using mgr_invD(5) [OF assms, of i] map_of_SomeD [OF that] by force
  then show ?thesis by (force simp: ListSessions_def map_filter_def)
qed

text \<open>
  C11. The connection ceiling: whatever happens to a manager, no agent ever holds more live connections than the configured
  maximum (64 when none is given); the listing names every live connection exactly once.
\<close>

theorem agent_connection_ceiling:
  "let m = mgr_run auth evs (NewAgentSessionManager caps q n) in
   length (ListSessions m i) \<le> (if n \<le> 0 then 64 else nat n) \<and> distinct (ListSessions m i)
   \<and> (g \<in> set (ListSessions m i) \<longleftrightarrow> (\<exists>c. map_of (conns m i) c = Some g))"
proof -
  define m where "m = mgr_run auth evs (NewAgentSessionManager caps q n)"
  have e: "evolves (NewAgentSessionManager caps q n) m" unfolding m_def by (rule evolves_run [OF mgr_inv_New])
  then have inv: "mgr_inv m" by (simp add: evolves_def)
  have "length (sm_connectionOrder m i) = length (conns m i)"
    using mgr_invD(3,4,5) [OF inv, of i] by (metis distinct_card length_map)
  moreover have "length (conns m i) \<le> (if n \<le> 0 then 64 else nat n)"
    using mgr_invD(6) [OF inv, of i] e by (simp add: evolves_def NewAgentSessionManager_def split: if_splits)
  moreover have "distinct (ListSessions m i)"
    unfolding ListSessions_def map_filter_def comp_def
    by (auto simp: distinct_map inj_on_def intro!: distinct_filter mgr_invD(4) [OF inv] dest: generation_unique [OF inv])
  ultimately show ?thesis using ListSessions_length [of m i] set_ListSessions [OF inv] m_def by simp
qed


lemma getServerGeneration_iff:
  assumes "mgr_inv m"
  shows "getServerGeneration m g \<noteq> None \<longleftrightarrow> registered m g"
proof -
  have "getServerGeneration m g \<noteq> None \<longleftrightarrow> (\<exists>i cs c. (i, cs) \<in> set (sm_sessions m) \<and> (c, g) \<in> set cs)"
    by (force simp: getServerGeneration_def find_None_iff)
  also have "\<dots> \<longleftrightarrow> (\<exists>i c. (c, g) \<in> set (conns m i))"
    using mgr_invD(1) [OF assms] by (fastforce simp: conns_def dest: map_of_SomeD map_of_is_SomeI split: option.splits)
  also have "\<dots> \<longleftrightarrow> registered m g"
    unfolding registered_def using mgr_invD(3) [OF assms] by (metis map_of_SomeD map_of_is_SomeI)
  finally show ?thesis .
qed

text \<open>
  C24. Dead generations stay dead: a server generation that was once handed out and is no longer registered (its connection
  was replaced or removed) is never registered again, whatever happens next, and a frame addressed to it is refused
  without any session changing; if it was removed, the answer says so.
\<close>

theorem dead_generation_stays_dead:
  assumes "m = mgr_run auth evs (NewAgentSessionManager caps q n)"
    and "g \<le> sm_nextServerGeneration m" and "getServerGeneration m g = None"
  shows "let m' = mgr_run auth evs' m in
     getServerGeneration m' g = None
     \<and> sendServerGeneration m' now i g f
         = (Some (if g \<in> sm_retiredGenerations m' then ErrServerGeneration else ErrSessionClosed), m')
     \<and> (g \<in> sm_retiredGenerations m \<longrightarrow> fst (sendServerGeneration m' now i g f) = Some ErrServerGeneration)"
proof -
  define m' where "m' = mgr_run auth evs' m"
  have m: "mgr_inv m" unfolding assms(1) by (rule mgr_inv_run [OF mgr_inv_New])
  have e: "evolves m m'" unfolding m'_def by (rule evolves_run [OF m])
  then have m': "mgr_inv m'" by (simp add: evolves_def)
  have dead: "\<not> registered m' g"
    using e assms(2,3) getServerGeneration_iff [OF m, of g] by (auto simp: evolves_def)
  then have "g \<notin> snd ` set (conns m' i)"
    using mgr_invD(3) [OF m', of i] by (auto simp: registered_def dest: map_of_is_SomeI)
  then have "find (\<lambda>h. h = g) (map snd (conns m' i)) = None" by (auto simp: find_None_iff)
  then show ?thesis using dead getServerGeneration_iff [OF m', of g] e
    by (auto simp: Let_def m'_def [symmetric] sendServerGeneration_def evolves_def)
qed

definition sample_registration :: "int \<Rightarrow> agent_registration" where
  "sample_registration e =
     \<lparr>ar_AgentID = ''a'', ar_NodeID = ''n'', ar_TokenID = ''t'', ar_Epoch = e, ar_InstanceID = [], ar_ConnectionID = ''c'',
      ar_ConnectionEpoch = 0, ar_Capabilities = []\<rparr>"

definition sample_manager :: "mgr_event list \<Rightarrow> session_manager" where
  "sample_manager evs = mgr_run (\<lambda>_. None) evs (NewAgentSessionManager [] 4 1)"

lemmas sample_evals =
  sample_manager_def sample_registration_def mgr_run_def NewAgentSessionManager_def Register_def new_session_def
  negotiated_def register_locked_def conns_def RemoveAgent_def retire_def update_object_def Let_def
  TrimSpace_graphic graphic_def

theorem dead_generation_stays_dead_witness:
  "let m = sample_manager [MRegister 0 (sample_registration 1), MRemoveAgent ''a''];
       m' = mgr_run (\<lambda>_. None) [MRegister 5 (sample_registration 2)] m in
     getServerGeneration m' 1 = None
     \<and> sendServerGeneration m' 7 ''a'' 1 (sample_data 3 [1])
         = (Some (if 1 \<in> sm_retiredGenerations m' then ErrServerGeneration else ErrSessionClosed), m')
     \<and> (1 \<in> sm_retiredGenerations m \<longrightarrow> fst (sendServerGeneration m' 7 ''a'' 1 (sample_data 3 [1])) = Some ErrServerGeneration)"
  unfolding Let_def sample_manager_def
  by (rule dead_generation_stays_dead [OF refl, unfolded Let_def])
    (simp_all add: sample_evals getServerGeneration_def)

text \<open>
  Replacement: an authenticated registration with a newer connection epoch takes over a connection id even when the
  agent is at its ceiling; the old session is closed, the id resolves to the new one, and the late cleanup of the
  old session changes nothing.
\<close>

lemma replacement_takes_over:
  assumes "m = mgr_run auth evs (NewAgentSessionManager caps q n)"
    and "TrimSpace (ar_AgentID req) \<noteq> []" "TrimSpace (ar_NodeID req) \<noteq> []" "0 < ar_Epoch req" "auth req = None"
    and "s = new_session m now req"
    and "map_of (conns m (as_AgentID s)) (as_ConnectionID s) = Some old" "sm_objects m old = Some t"
    and "as_ConnectionEpoch t < as_ConnectionEpoch s" "sm_nextServerGeneration m \<noteq> - 1"
  shows "case Register auth m now req of (r, m') \<Rightarrow>
     (\<exists>g. r = Inr g \<and> g \<noteq> old \<and> map_of (conns m' (as_AgentID s)) (as_ConnectionID s) = Some g \<and> sm_objects m' g = Some s)
     \<and> sm_objects m' old = Some (CloseSession t) \<and> \<not> Healthy (CloseSession t)
     \<and> RemoveSession m' (as_AgentID s) old = (m', [])"
proof -
  have m: "mgr_inv m" unfolding assms(1) by (rule mgr_inv_run [OF mgr_inv_New])
  obtain r m' where r: "register_locked m s = (r, m')" by (cases "register_locked m s")
  have reg: "Register auth m now req = (r, m')" using assms(2-6) r by (simp add: Register_def)
  have "r \<noteq> Inl e" for e using r assms(7-10) by (auto simp: register_locked_def Let_def)
  then have "\<exists>g. r = Inr g" by (cases r) auto
  with r show ?thesis
  proof (cases rule: register_locked_cases)
    case (admitted g)
    note fresh = fresh_generation [OF m admitted(3), folded admitted(2)]
    have "g \<noteq> old" using fresh(3) assms(7) by metis
    moreover have "\<not> Healthy (CloseSession t)" by (simp add: Healthy_def CloseSession_def)
    moreover have "as_ConnectionID (CloseSession t) = as_ConnectionID s"
      using mgr_invD(7) [OF m assms(7)] assms(8) by (simp add: CloseSession_def)
    ultimately show ?thesis using admitted(1,4,7) assms(7,8) reg
      by (simp add: RemoveSession_def AList.update_conv')
  qed simp
qed

end
