(* ===== verification/Agent_Metadata.thy ===== *)
theory Agent_Metadata
  imports Session_Manager
begin

text \<open>
  The metadata half of \<^verbatim>\<open>internal/server/session_manager.go\<close> (\<^verbatim>\<open>HandleMetadata\<close>, \<^verbatim>\<open>persistMetadata\<close>, \<^verbatim>\<open>HandleMetadataFrame\<close>)
  and its client session manager.

  \<^verbatim>\<open>HandleMetadata\<close> checks a snapshot under the session's metadata lock, releases the lock for the policy callback and the
  store, and takes it again to commit, so several calls can overlap. The model has one definition per locked part and
  runs that interleave them; the JSON encoder, the callback and the store are arguments.
\<close>

section \<open>Agent metadata\<close>

definition metadataDigest :: "(agent_metadata_payload \<Rightarrow> string) \<Rightarrow> agent_metadata_payload \<Rightarrow> string" where
  "metadataDigest marshal p = marshal (p\<lparr>amp_ReportedAt := 0\<rparr>)"

definition isTerminal :: "agent_session \<Rightarrow> bool" where
  "isTerminal s \<longleftrightarrow> as_closed s \<or> as_closing s"

definition metadata_ack :: "int \<Rightarrow> string \<Rightarrow> agent_session \<Rightarrow> agent_metadata_payload \<Rightarrow> agent_metadata_ack_payload" where
  "metadata_ack maxConnections version s p =
     \<lparr>ama_AgentID = as_AgentID s, ama_Epoch = as_Epoch s, ama_Revision = amp_Revision p, ama_Accepted = False,
      ama_Idempotent = False, ama_ConnectionPoolSupported = True, ama_MaxConnectionsPerAgent = maxConnections,
      ama_Errors = [], ama_Capabilities = as_Capabilities s, ama_ServerVersion = version\<rparr>"

definition refuse :: "string \<Rightarrow> string \<Rightarrow> string \<Rightarrow> agent_metadata_ack_payload \<Rightarrow> agent_metadata_ack_payload" where
  "refuse name code message ack =
     ack\<lparr>ama_Errors := ama_Errors ack @ [\<lparr>me_Name = name, me_Code = code, me_Message = message\<rparr>]\<rparr>"

type_synonym meta_reply = "server_error option \<times> agent_metadata_ack_payload"

text \<open>The first locked part; \<open>None\<close> means the call goes on to the callback and the store.\<close>

definition metadata_check ::
  "(agent_metadata_payload \<Rightarrow> string) \<Rightarrow> int \<Rightarrow> string \<Rightarrow> agent_session \<Rightarrow> agent_metadata_payload \<Rightarrow> meta_reply option" where
  "metadata_check marshal maxConnections version s p =
     (let ack = metadata_ack maxConnections version s p in
      if isTerminal s then Some (Some ErrSessionClosed, ack)
      else if amp_Revision p = 0 then
        Some (None, refuse ''revision'' ''invalid_revision'' ''metadata revision must be positive'' ack)
      else if amp_AgentID p \<noteq> as_AgentID s then
        Some (None, refuse ''agent_id'' ''identity_mismatch'' ''agent identity does not match authenticated session'' ack)
      else if amp_NodeID p \<noteq> [] \<and> amp_NodeID p \<noteq> as_NodeID s then
        Some (None, refuse ''node_id'' ''identity_mismatch'' ''node identity does not match authenticated session'' ack)
      else if amp_InstanceID p \<noteq> [] \<and> amp_InstanceID p \<noteq> as_InstanceID s then
        Some (None, refuse ''instance_id'' ''identity_mismatch'' ''agent instance identity does not match authenticated session'' ack)
      else if amp_Epoch p \<noteq> as_Epoch s then
        Some (None, refuse ''epoch'' ''stale_epoch'' ''metadata epoch does not match authenticated session'' ack)
      else if amp_Revision p < as_metadataRevision s then
        Some (None, refuse ''revision'' ''stale_revision'' ''metadata revision is older than the accepted revision'' ack)
      else if amp_Revision p = as_metadataRevision s then
        (if metadataDigest marshal p \<noteq> as_metadataDigest s then
           Some (None, refuse ''revision'' ''revision_conflict'' ''metadata revision already contains a different snapshot'' ack)
         else Some (None, ack\<lparr>ama_Accepted := True, ama_Idempotent := True\<rparr>))
      else None)"

text \<open>The store call between the locked parts; \<open>upsert\<close> answers with an error text or \<open>None\<close>.\<close>

record agent_metadata_input =
  ami_AgentID :: string
  ami_InstanceID :: string
  ami_NodeID :: string
  ami_Epoch :: int
  ami_Revision :: int
  ami_ReportedAt :: int
  ami_ExpiresAt :: int
  ami_Items :: "agent_metadata_item list"

definition persistMetadata ::
  "(agent_metadata_input \<Rightarrow> string option) option \<Rightarrow> int \<Rightarrow> int \<Rightarrow> agent_session \<Rightarrow> agent_metadata_payload \<Rightarrow> metadata_error list" where
  "persistMetadata service now ttl s p =
     (case service of None \<Rightarrow> []
      | Some upsert \<Rightarrow>
        if 2 ^ 63 - 1 < uint (amp_Revision p) then
          [\<lparr>me_Name = ''revision'', me_Code = ''invalid_revision'', me_Message = ''metadata revision exceeds storage range''\<rparr>]
        else
          (case upsert \<lparr>ami_AgentID = as_AgentID s, ami_InstanceID = as_InstanceID s,
                   ami_NodeID = (if amp_NodeID p = [] then as_NodeID s else amp_NodeID p), ami_Epoch = as_Epoch s,
                   ami_Revision = uint (amp_Revision p), ami_ReportedAt = amp_ReportedAt p, ami_ExpiresAt = now + ttl,
                   ami_Items = amp_Items p\<rparr> of
             None \<Rightarrow> []
           | Some err \<Rightarrow>
             [\<lparr>me_Name = ''metadata'', me_Code = ''invalid_metadata'', me_Message = ''metadata rejected: '' @ err\<rparr>]))"

definition metadata_errors ::
  "(agent_registration \<Rightarrow> agent_metadata_payload \<Rightarrow> metadata_error list) option \<Rightarrow>
    (agent_metadata_input \<Rightarrow> string option) option \<Rightarrow> int \<Rightarrow> int \<Rightarrow> agent_session \<Rightarrow> agent_metadata_payload \<Rightarrow> metadata_error list" where
  "metadata_errors callback service now ttl s p =
     (let errs = (case callback of None \<Rightarrow> [] | Some cb \<Rightarrow> cb (as_registration s) p) in
      if errs = [] then persistMetadata service now ttl s p else errs)"

text \<open>The second locked part.\<close>

definition metadata_commit ::
  "(agent_metadata_payload \<Rightarrow> string) \<Rightarrow> int \<Rightarrow> string \<Rightarrow> agent_session \<Rightarrow> agent_metadata_payload \<Rightarrow> metadata_error list \<Rightarrow>
    meta_reply \<times> agent_session" where
  "metadata_commit marshal maxConnections version s p errs =
     (let ack = metadata_ack maxConnections version s p; digest = metadataDigest marshal p in
      if isTerminal s then ((Some ErrSessionClosed, ack), s)
      else if amp_Revision p \<le> as_metadataRevision s then
        (if amp_Revision p = as_metadataRevision s \<and> digest = as_metadataDigest s
         then ((None, ack\<lparr>ama_Accepted := True, ama_Idempotent := True\<rparr>), s)
         else ((None, refuse ''revision'' ''stale_revision'' ''metadata revision was superseded'' ack), s))
      else if errs \<noteq> [] then ((None, ack\<lparr>ama_Errors := ama_Errors ack @ errs\<rparr>), s)
      else ((None, ack\<lparr>ama_Accepted := True\<rparr>),
            s\<lparr>as_metadataRevision := amp_Revision p, as_metadataDigest := digest\<rparr>))"

text \<open>A call that is not interleaved with another.\<close>

definition HandleMetadata ::
  "(agent_metadata_payload \<Rightarrow> string) \<Rightarrow> int \<Rightarrow> string \<Rightarrow> (agent_session \<Rightarrow> agent_metadata_payload \<Rightarrow> metadata_error list) \<Rightarrow>
    agent_session \<Rightarrow> agent_metadata_payload \<Rightarrow> meta_reply \<times> agent_session" where
  "HandleMetadata marshal maxConnections version errors s p =
     (case metadata_check marshal maxConnections version s p of
        Some r \<Rightarrow> (r, s)
      | None \<Rightarrow> metadata_commit marshal maxConnections version s p (errors s p))"

datatype metadata_frame_error = FrameError protocol_error | SessionError server_error

definition HandleMetadataFrame ::
  "(bytes \<Rightarrow> agent_metadata_payload option) \<Rightarrow> (agent_metadata_ack_payload \<Rightarrow> bytes option) \<Rightarrow>
    (agent_metadata_payload \<Rightarrow> string) \<Rightarrow> int \<Rightarrow> string \<Rightarrow> (agent_session \<Rightarrow> agent_metadata_payload \<Rightarrow> metadata_error list) \<Rightarrow>
    agent_session \<Rightarrow> frame \<Rightarrow> (metadata_frame_error + frame) \<times> agent_session" where
  "HandleMetadataFrame unjson json marshal maxConnections version errors s f =
     (if FType f \<noteq> FrameAgentHello \<and> FType f \<noteq> FrameAgentMetadataUpdate then (Inl (FrameError ErrInvalidFrame), s)
      else (case DecodeAgentMetadataPayload unjson (Payload f) of
          Inl e \<Rightarrow> (Inl (FrameError e), s)
        | Inr p \<Rightarrow>
          (case HandleMetadata marshal maxConnections version errors s p of
             ((Some e, _), s') \<Rightarrow> (Inl (SessionError e), s')
           | ((None, ack), s') \<Rightarrow>
             (case EncodeAgentMetadataAckPayload json ack of
                Inl e \<Rightarrow> (Inl (FrameError e), s')
              | Inr b \<Rightarrow> (Inr \<lparr>Version = CurrentVersion, FType = FrameAgentMetadataAck, Flags = 0, StreamID = 0, Window = 0, Payload = b\<rparr>, s')))))"

section \<open>Client sessions\<close>

text \<open>
  The client registry keeps the newest transport per connection id and closes the one it displaces. A transport is a
  value of \<open>'t\<close>; the second component of an operation is the transport that is closed. Stream counters are 64-bit.
\<close>

record client_session =
  cs_ConnectionID :: string
  cs_ClientInstanceID :: string
  cs_TokenID :: string
  cs_OwnerUserID :: string
  cs_ServerNodeID :: string
  cs_ConnectionEpoch :: int
  cs_StartedAt :: int
  cs_LastHeartbeatAt :: int
  cs_ActiveStreams :: "64 word"
  cs_MetadataEnabled :: bool

type_synonym 't client_manager = "string \<rightharpoonup> client_session \<times> 't"

definition client_Register ::
  "'t client_manager \<Rightarrow> int \<Rightarrow> client_session \<Rightarrow> 't option \<Rightarrow> 't client_manager \<times> 't option" where
  "client_Register m now rec tr =
     (case tr of None \<Rightarrow> (m, None)
      | Some t \<Rightarrow>
        if cs_ConnectionID rec = [] \<or> cs_ConnectionEpoch rec \<le> 0 then (m, None)
        else (m(cs_ConnectionID rec \<mapsto> (rec\<lparr>cs_StartedAt := (if cs_StartedAt rec = 0 then now else cs_StartedAt rec)\<rparr>, t)),
              map_option snd (m (cs_ConnectionID rec))))"

definition client_Remove :: "'t client_manager \<Rightarrow> string \<Rightarrow> 't client_manager \<times> 't option" where
  "client_Remove m i = (m(i := None), map_option snd (m i))"

definition client_Get :: "'t client_manager \<Rightarrow> string \<Rightarrow> client_session option" where
  "client_Get m i = map_option fst (m i)"

definition client_update :: "'t client_manager \<Rightarrow> string \<Rightarrow> (client_session \<Rightarrow> client_session) \<Rightarrow> 't client_manager" where
  "client_update m i h = m(i := map_option (\<lambda>(r, t). (h r, t)) (m i))"

definition SetClientInstanceID :: "'t client_manager \<Rightarrow> string \<Rightarrow> string \<Rightarrow> 't client_manager" where
  "SetClientInstanceID m i c = client_update m i (\<lambda>r. r\<lparr>cs_ClientInstanceID := c\<rparr>)"

definition ObserveHeartbeat :: "'t client_manager \<Rightarrow> int \<Rightarrow> string \<Rightarrow> 't client_manager" where
  "ObserveHeartbeat m now i = client_update m i (\<lambda>r. r\<lparr>cs_LastHeartbeatAt := now\<rparr>)"

definition ObserveStreamOpened :: "'t client_manager \<Rightarrow> string \<Rightarrow> 't client_manager" where
  "ObserveStreamOpened m i =
     client_update m i (\<lambda>r. if 0 \<le> sint (cs_ActiveStreams r) then r\<lparr>cs_ActiveStreams := cs_ActiveStreams r + 1\<rparr> else r)"

definition ObserveStreamClosed :: "'t client_manager \<Rightarrow> string \<Rightarrow> 't client_manager" where
  "ObserveStreamClosed m i =
     client_update m i (\<lambda>r. if 0 < sint (cs_ActiveStreams r) then r\<lparr>cs_ActiveStreams := cs_ActiveStreams r - 1\<rparr> else r)"

definition ActiveStreams :: "'t client_manager \<Rightarrow> string \<Rightarrow> int" where
  "ActiveStreams m i =
     (case m i of None \<Rightarrow> 0 | Some (r, _) \<Rightarrow> if sint (cs_ActiveStreams r) < 0 then 0 else sint (cs_ActiveStreams r))"

definition client_CloseConnection :: "'t client_manager \<Rightarrow> string \<Rightarrow> int \<Rightarrow> server_error + 't" where
  "client_CloseConnection m i epoch =
     (if i = [] then Inl ErrSessionClosed
      else (case m i of None \<Rightarrow> Inl ErrSessionClosed
            | Some (r, t) \<Rightarrow> if cs_ConnectionEpoch r \<noteq> epoch then Inl ErrEpoch else Inr t))"

text \<open>\<open>OpenStream\<close> answers with an error or with the frame handed to the connection's transport.\<close>

definition client_OpenStream ::
  "(stream_open_payload \<Rightarrow> bytes option) \<Rightarrow> 't client_manager \<Rightarrow> string \<Rightarrow> server_error option \<Rightarrow>
    uint32 \<Rightarrow> string \<Rightarrow> string \<Rightarrow> int \<Rightarrow> bytes \<Rightarrow> (server_error + protocol_error) + ('t \<times> frame)" where
  "client_OpenStream json m i ctxErr sid protocol host port metadata =
     (case m i of None \<Rightarrow> Inl (Inl ErrSessionClosed)
      | Some (_, t) \<Rightarrow>
        if sid = 0 \<or> port < 1 \<or> port > 65535 then Inl (Inl ErrCapability)
        else (case ctxErr of Some e \<Rightarrow> Inl (Inl e)
          | None \<Rightarrow>
            (case EncodeStreamOpenPayload json
                   \<lparr>so_AgentID = [], so_Protocol = protocol, so_TargetHost = host, so_TargetPort = port, so_TargetScheme = [],
                    so_HostHeader = [], so_TLSServerName = [], so_Metadata = metadata\<rparr> of
               Inl e \<Rightarrow> Inl (Inr e)
             | Inr b \<Rightarrow> Inr (t, \<lparr>Version = CurrentVersion, FType = FrameOpenStream, Flags = 0, StreamID = sid, Window = 0, Payload = b\<rparr>))))"

datatype 't client_event =
    CRegister int client_session 't | CRemove string | CInstance string string | CHeartbeat int string
  | COpened string | CClosed string

text \<open>The registry with the transports it has admitted and those it has closed.\<close>

fun client_step :: "'t client_manager \<times> 't list \<times> 't list \<Rightarrow> 't client_event \<Rightarrow> 't client_manager \<times> 't list \<times> 't list" where
  "client_step (m, adm, cl) (CRegister now rec t) =
     (let (m', old) = client_Register m now rec (Some t) in
      (m', if cs_ConnectionID rec = [] \<or> cs_ConnectionEpoch rec \<le> 0 then adm else adm @ [t], cl @ (case old of None \<Rightarrow> [] | Some o' \<Rightarrow> [o'])))"
| "client_step (m, adm, cl) (CRemove i) =
     (let (m', old) = client_Remove m i in (m', adm, cl @ (case old of None \<Rightarrow> [] | Some o' \<Rightarrow> [o'])))"
| "client_step (m, adm, cl) (CInstance i c) = (SetClientInstanceID m i c, adm, cl)"
| "client_step (m, adm, cl) (CHeartbeat now i) = (ObserveHeartbeat m now i, adm, cl)"
| "client_step (m, adm, cl) (COpened i) = (ObserveStreamOpened m i, adm, cl)"
| "client_step (m, adm, cl) (CClosed i) = (ObserveStreamClosed m i, adm, cl)"

definition live_transports :: "'t client_manager \<Rightarrow> 't set" where
  "live_transports m = {t. \<exists>i r. m i = Some (r, t)}"

section \<open>Overlapping calls\<close>

text \<open>
  Calls in flight between their two locked parts are pending. \<open>MetaBegin\<close> starts a call, \<open>MetaEnd n errs\<close> finishes the
  \<open>n\<close>-th pending one with the errors the callback and the store answered, \<open>MetaTerminal\<close> is any step that ends the
  session. The log holds the answered calls.
\<close>

datatype meta_event = MetaBegin agent_metadata_payload | MetaEnd nat "metadata_error list" | MetaTerminal

record meta_state =
  ms_session :: agent_session
  ms_pending :: "agent_metadata_payload list"
  ms_log :: "(agent_metadata_payload \<times> meta_reply) list"

fun meta_step :: "(agent_metadata_payload \<Rightarrow> string) \<Rightarrow> int \<Rightarrow> string \<Rightarrow> meta_state \<Rightarrow> meta_event \<Rightarrow> meta_state" where
  "meta_step j mc v st (MetaBegin p) =
     (case metadata_check j mc v (ms_session st) p of
        None \<Rightarrow> st\<lparr>ms_pending := ms_pending st @ [p]\<rparr>
      | Some r \<Rightarrow> st\<lparr>ms_log := ms_log st @ [(p, r)]\<rparr>)"
| "meta_step j mc v st (MetaEnd n errs) =
     (if n < length (ms_pending st)
      then (let p = ms_pending st ! n; (r, s') = metadata_commit j mc v (ms_session st) p errs in
            st\<lparr>ms_session := s', ms_pending := take n (ms_pending st) @ drop (Suc n) (ms_pending st),
               ms_log := ms_log st @ [(p, r)]\<rparr>)
      else st)"
| "meta_step j mc v st MetaTerminal = st\<lparr>ms_session := CloseSession (ms_session st)\<rparr>"

definition accepted_log :: "meta_state \<Rightarrow> (agent_metadata_payload \<times> bool) list" where
  "accepted_log st = List.map_filter
     (\<lambda>(p, _, ack). if ama_Accepted ack then Some (p, ama_Idempotent ack) else None) (ms_log st)"

definition belongs :: "agent_session \<Rightarrow> agent_metadata_payload \<Rightarrow> bool" where
  "belongs s p \<longleftrightarrow> amp_AgentID p = as_AgentID s \<and> amp_Epoch p = as_Epoch s \<and> 0 < amp_Revision p
     \<and> (amp_NodeID p = [] \<or> amp_NodeID p = as_NodeID s) \<and> (amp_InstanceID p = [] \<or> amp_InstanceID p = as_InstanceID s)"

definition fresh_revisions :: "meta_state \<Rightarrow> uint64 list" where
  "fresh_revisions st = map (amp_Revision \<circ> fst) (filter (\<lambda>x. \<not> snd x) (accepted_log st))"

text \<open>One snapshot per revision; kept folded, since as an equation it would rewrite digests in circles.\<close>

definition one_snapshot :: "(agent_metadata_payload \<Rightarrow> string) \<Rightarrow> (agent_metadata_payload \<times> bool) list \<Rightarrow> bool" where
  "one_snapshot j L \<longleftrightarrow> (\<forall>x\<in>set L. \<forall>y\<in>set L.
     amp_Revision (fst x) = amp_Revision (fst y) \<longrightarrow> metadataDigest j (fst x) = metadataDigest j (fst y))"

lemma one_snapshot_snoc:
  assumes "one_snapshot j L"
    and "\<And>x. x \<in> set L \<Longrightarrow> amp_Revision (fst x) = amp_Revision p \<Longrightarrow> metadataDigest j (fst x) = metadataDigest j p"
  shows "one_snapshot j (L @ [(p, b)])"
  unfolding one_snapshot_def
proof (intro ballI impI)
  fix x y
  assume xy: "x \<in> set (L @ [(p, b)])" "y \<in> set (L @ [(p, b)])" "amp_Revision (fst x) = amp_Revision (fst y)"
  show "metadataDigest j (fst x) = metadataDigest j (fst y)"
  proof (cases "x \<in> set L \<and> y \<in> set L")
    case True
    then show ?thesis using xy(3) assms(1) unfolding one_snapshot_def by blast
  next
    case False
    then show ?thesis using xy assms(2) [of x] assms(2) [of y] by auto
  qed
qed

text \<open>The accepted snapshots agree with the session's revision and digest.\<close>

definition meta_inv :: "(agent_metadata_payload \<Rightarrow> string) \<Rightarrow> agent_session \<Rightarrow> meta_state \<Rightarrow> bool" where
  "meta_inv j s0 st \<longleftrightarrow>
     belongs (ms_session st) = belongs s0 \<and> list_all (belongs s0) (ms_pending st)
     \<and> list_all (\<lambda>(p, _). belongs s0 p \<and> amp_Revision p \<le> as_metadataRevision (ms_session st)
           \<and> (amp_Revision p = as_metadataRevision (ms_session st) \<longrightarrow> metadataDigest j p = as_metadataDigest (ms_session st)))
         (accepted_log st)
     \<and> sorted_wrt (<) (fresh_revisions st) \<and> one_snapshot j (accepted_log st)"

lemma belongs_CloseSession [simp]: "belongs (CloseSession s) = belongs s"
  "as_metadataRevision (CloseSession s) = as_metadataRevision s" "as_metadataDigest (CloseSession s) = as_metadataDigest s"
  by (auto simp: belongs_def CloseSession_def fun_eq_iff)

lemma accepted_log_append:
  "ms_log st' = ms_log st @ [(p, r)] \<Longrightarrow>
   accepted_log st' = accepted_log st @ (if ama_Accepted (snd r) then [(p, ama_Idempotent (snd r))] else [])"
  by (cases r) (simp add: accepted_log_def map_filter_def)

lemma metadata_check_outcome:
  "metadata_check j mc v s p = None \<Longrightarrow> belongs s p"
  "metadata_check j mc v s p = Some r \<Longrightarrow> ama_Accepted (snd r) \<Longrightarrow>
     belongs s p \<and> ama_Idempotent (snd r) \<and> amp_Revision p = as_metadataRevision s \<and> metadataDigest j p = as_metadataDigest s"
  by (auto simp: metadata_check_def belongs_def Let_def refuse_def metadata_ack_def word_neq_0_conv split: if_splits)

lemma metadata_commit_outcome:
  assumes "metadata_commit j mc v s p errs = (r, s')"
  shows "(s' = s \<and> \<not> ama_Accepted (snd r))
    \<or> (s' = s \<and> ama_Idempotent (snd r) \<and> amp_Revision p = as_metadataRevision s \<and> metadataDigest j p = as_metadataDigest s)
    \<or> (ama_Accepted (snd r) \<and> \<not> ama_Idempotent (snd r) \<and> as_metadataRevision s < amp_Revision p
        \<and> s' = s\<lparr>as_metadataRevision := amp_Revision p, as_metadataDigest := metadataDigest j p\<rparr>)"
proof (cases "isTerminal s \<or> amp_Revision p \<le> as_metadataRevision s \<or> errs \<noteq> []")
  case True
  then have "s' = s" using assms by (auto simp: metadata_commit_def Let_def split: if_splits)
  moreover have "\<not> ama_Accepted (snd r) \<or> ama_Idempotent (snd r) \<and> amp_Revision p = as_metadataRevision s
      \<and> metadataDigest j p = as_metadataDigest s"
    using True arg_cong [OF assms, of fst] by (auto simp: metadata_commit_def Let_def refuse_def metadata_ack_def split: if_splits)
  ultimately show ?thesis by blast
next
  case False
  then have "s' = s\<lparr>as_metadataRevision := amp_Revision p, as_metadataDigest := metadataDigest j p\<rparr>"
    "r = (None, (metadata_ack mc v s p)\<lparr>ama_Accepted := True\<rparr>)"
    using assms by (simp_all add: metadata_commit_def Let_def)
  then show ?thesis using False by (simp add: metadata_ack_def not_le)
qed

text \<open>Logging an accepted snapshot that repeats the current one, or that moves the session forward.\<close>

lemma meta_inv_repeat:
  assumes "meta_inv j s0 st" "ms_session st' = ms_session st" "list_all (belongs s0) (ms_pending st')"
    "accepted_log st' = accepted_log st @ (if a then [(p, True)] else [])"
    "a \<Longrightarrow> belongs s0 p \<and> amp_Revision p = as_metadataRevision (ms_session st) \<and> metadataDigest j p = as_metadataDigest (ms_session st)"
  shows "meta_inv j s0 st'"
proof (cases a)
  case True
  have "one_snapshot j (accepted_log st @ [(p, True)])"
    by (rule one_snapshot_snoc) (use assms(1,5) True in \<open>auto simp: meta_inv_def list_all_iff\<close>)
  then show ?thesis using assms True by (auto simp: meta_inv_def fresh_revisions_def)
next
  case False
  with assms show ?thesis by (simp add: meta_inv_def fresh_revisions_def)
qed

lemma meta_inv_forward:
  assumes "meta_inv j s0 st" "list_all (belongs s0) (ms_pending st')" "belongs s0 p"
    "ms_session st' = (ms_session st)\<lparr>as_metadataRevision := amp_Revision p, as_metadataDigest := metadataDigest j p\<rparr>"
    "as_metadataRevision (ms_session st) < amp_Revision p" "accepted_log st' = accepted_log st @ [(p, False)]"
  shows "meta_inv j s0 st'"
proof -
  have below: "amp_Revision (fst x) < amp_Revision p" if "x \<in> set (accepted_log st)" for x
    using that assms(1,5) by (fastforce simp: meta_inv_def list_all_iff)
  have "sorted_wrt (<) (fresh_revisions st')"
    using assms(1,6) below by (auto simp: meta_inv_def fresh_revisions_def sorted_wrt_append)
  moreover have "belongs (ms_session st') = belongs s0" using assms(1,4) by (simp add: meta_inv_def belongs_def fun_eq_iff)
  moreover have "one_snapshot j (accepted_log st @ [(p, False)])"
    by (rule one_snapshot_snoc) (use assms(1) below in \<open>force simp: meta_inv_def\<close>)+
  moreover have "belongs s0 (fst x)" if "x \<in> set (accepted_log st)" for x
    using that assms(1) by (auto simp: meta_inv_def list_all_iff)
  ultimately show ?thesis using assms(2-4,6) below by (fastforce simp: meta_inv_def list_all_iff less_imp_le)
qed

lemma meta_inv_step:
  assumes inv: "meta_inv j s0 st"
  shows "meta_inv j s0 (meta_step j mc v st ev)"
proof (cases ev)
  case (MetaBegin p)
  show ?thesis
  proof (cases "metadata_check j mc v (ms_session st) p")
    case None
    then show ?thesis using inv metadata_check_outcome(1) [OF None] MetaBegin
      by (auto simp: meta_inv_def accepted_log_def fresh_revisions_def)
  next
    case (Some r)
    let ?st = "st\<lparr>ms_log := ms_log st @ [(p, r)]\<rparr>"
    note o = metadata_check_outcome(2) [OF Some]
    show ?thesis unfolding MetaBegin meta_step.simps Some option.case
      by (rule meta_inv_repeat [OF inv, where a = "ama_Accepted (snd r)" and p = p])
        (use inv o accepted_log_append [of ?st st p r] in \<open>auto simp: meta_inv_def\<close>)
  qed
next
  case (MetaEnd n errs)
  show ?thesis
  proof (cases "n < length (ms_pending st)")
    case True
    define p where "p = ms_pending st ! n"
    obtain r s' where c: "metadata_commit j mc v (ms_session st) p errs = (r, s')" by fastforce
    let ?st = "st\<lparr>ms_session := s', ms_pending := take n (ms_pending st) @ drop (Suc n) (ms_pending st), ms_log := ms_log st @ [(p, r)]\<rparr>"
    have st: "meta_step j mc v st ev = ?st" using True c by (simp add: MetaEnd p_def [symmetric])
    have pend: "list_all (belongs s0) (ms_pending ?st)" "belongs s0 p"
      using inv True by (auto simp: meta_inv_def list_all_iff p_def dest: in_set_takeD in_set_dropD)
    note log = accepted_log_append [of ?st st p r, simplified]
    from metadata_commit_outcome [OF c] show ?thesis unfolding st
    proof (elim disjE)
      assume "s' = ms_session st \<and> \<not> ama_Accepted (snd r)"
      then show "meta_inv j s0 ?st" using meta_inv_repeat [OF inv _ pend(1), of False p] log by simp
    next
      assume "s' = ms_session st \<and> ama_Idempotent (snd r) \<and> amp_Revision p = as_metadataRevision (ms_session st)
        \<and> metadataDigest j p = as_metadataDigest (ms_session st)"
      then show "meta_inv j s0 ?st" using meta_inv_repeat [OF inv _ pend(1), of "ama_Accepted (snd r)" p] log pend(2) by simp
    next
      assume "ama_Accepted (snd r) \<and> \<not> ama_Idempotent (snd r) \<and> as_metadataRevision (ms_session st) < amp_Revision p
        \<and> s' = (ms_session st)\<lparr>as_metadataRevision := amp_Revision p, as_metadataDigest := metadataDigest j p\<rparr>"
      then show "meta_inv j s0 ?st" using meta_inv_forward [OF inv pend] log by simp
    qed
  qed (use inv MetaEnd in simp)
next
  case MetaTerminal
  then show ?thesis using inv by (simp add: meta_inv_def accepted_log_def fresh_revisions_def)
qed

text \<open>
  Metadata fencing under overlapping calls: whatever calls overlap on a session, however the callback and the store
  answer, every accepted snapshot carries the session's identity and epoch and a positive revision, the revisions that
  were newly accepted strictly increase, and two accepted calls with the same revision carried the same snapshot.
\<close>

lemma metadata_fencing:
  "let st = foldl (meta_step j mc v) \<lparr>ms_session = s, ms_pending = [], ms_log = []\<rparr> evs in
   sorted_wrt (<) (fresh_revisions st) \<and> list_all (belongs s \<circ> fst) (accepted_log st) \<and> one_snapshot j (accepted_log st)"
proof -
  define st0 where "st0 = \<lparr>ms_session = s, ms_pending = [], ms_log = []\<rparr>"
  have "meta_inv j s st0" by (simp add: meta_inv_def st0_def accepted_log_def fresh_revisions_def map_filter_def one_snapshot_def)
  then have "meta_inv j s (foldl (meta_step j mc v) st0 evs)"
    by (induction evs arbitrary: st0) (simp_all add: meta_inv_step)
  then have inv: "meta_inv j s (foldl (meta_step j mc v) st0 evs)" .
  have "list_all (belongs s \<circ> fst) (accepted_log (foldl (meta_step j mc v) st0 evs))"
    using inv unfolding meta_inv_def by (auto simp: list_all_iff)
  with inv show ?thesis unfolding Let_def meta_inv_def st0_def by blast
qed

section \<open>Client transports\<close>

lemma live_client_update [simp]: "map_option snd (client_update m i h k) = map_option snd (m k)"
  by (cases "m i") (auto simp: client_update_def)

text \<open>The transports by connection id, with what was admitted and closed.\<close>

definition client_inv :: "('k \<Rightarrow> 't option) \<Rightarrow> 't list \<Rightarrow> 't list \<Rightarrow> bool" where
  "client_inv tr adm cl \<longleftrightarrow>
     set adm = ran tr \<union> set cl \<and> (distinct adm \<longrightarrow> inj_on tr (dom tr) \<and> ran tr \<inter> set cl = {} \<and> distinct cl)"

lemma client_inv_add:
  assumes "client_inv tr adm cl" "tr i = None"
  shows "client_inv (tr(i \<mapsto> t)) (adm @ [t]) cl"
proof -
  have ran: "ran (tr(i \<mapsto> t)) = insert t (ran tr)" using assms(2) by simp
  have "inj_on (tr(i \<mapsto> t)) (dom (tr(i \<mapsto> t)))" if "inj_on tr (dom tr)" "t \<notin> ran tr"
    using that by (auto simp: inj_on_def ran_def dom_def)
  then show ?thesis using assms(1) by (auto simp: client_inv_def ran)
qed

lemma client_inv_drop:
  assumes "client_inv tr adm cl"
  shows "client_inv (tr(i := None)) adm (cl @ (case tr i of None \<Rightarrow> [] | Some o' \<Rightarrow> [o']))"
proof (cases "tr i")
  case None
  then have "tr(i := None) = tr" by auto
  then show ?thesis using assms None by simp
next
  case (Some t)
  have ran: "ran tr = insert t (ran (tr(i := None)))" using Some by (force simp: ran_def)
  have "inj_on (tr(i := None)) (dom (tr(i := None)))" "t \<notin> ran (tr(i := None))" if "inj_on tr (dom tr)"
    using that Some by (auto simp: inj_on_def ran_def dom_def split: if_splits)
  then show ?thesis using assms Some by (auto simp: client_inv_def ran)
qed

lemma client_inv_put:
  assumes "client_inv tr adm cl"
  shows "client_inv (tr(i \<mapsto> t)) (adm @ [t]) (cl @ (case tr i of None \<Rightarrow> [] | Some o' \<Rightarrow> [o']))"
  using client_inv_add [OF client_inv_drop [OF assms, of i], of i t] by simp

lemma client_inv_step:
  assumes "client_inv (\<lambda>k. map_option snd (m k)) adm cl" "client_step (m, adm, cl) ev = (m', adm', cl')"
  shows "client_inv (\<lambda>k. map_option snd (m' k)) adm' cl'"
proof (cases ev)
  case (CRegister now rec t)
  have "(\<lambda>k. map_option snd ((m(i \<mapsto> (r, t))) k)) = (\<lambda>k. map_option snd (m k))(i \<mapsto> t)" for i r by auto
  then show ?thesis using assms client_inv_put [OF assms(1), of "cs_ConnectionID rec" t]
    by (auto simp: CRegister client_Register_def split: if_splits)
next
  case (CRemove i)
  have "(\<lambda>k. map_option snd ((m(i := None)) k)) = (\<lambda>k. map_option snd (m k))(i := None)" by auto
  then show ?thesis using assms client_inv_drop [OF assms(1), of i] by (auto simp: CRemove client_Remove_def)
qed (use assms in \<open>auto simp: SetClientInstanceID_def ObserveHeartbeat_def ObserveStreamOpened_def ObserveStreamClosed_def\<close>)

text \<open>
  No client transport is lost or closed twice: over any run of the client registry in which distinct transports are
  registered, every admitted transport is either the live transport of exactly one connection id or has been closed
  exactly once, never both.
\<close>

lemma client_transports_conserved:
  assumes "distinct (fst (snd (foldl client_step (Map.empty, [], []) evs)))"
  shows "case foldl client_step (Map.empty, [], []) evs of (m, admitted, closed) \<Rightarrow>
    live_transports m \<union> set closed = set admitted \<and> live_transports m \<inter> set closed = {} \<and> distinct closed
    \<and> (\<forall>i k r s t. m i = Some (r, t) \<longrightarrow> m k = Some (s, t) \<longrightarrow> i = k)"
proof -
  have inv: "case foldl client_step (m, a, c) evs of (m', a', c') \<Rightarrow> client_inv (\<lambda>k. map_option snd (m' k)) a' c'"
    if "client_inv (\<lambda>k. map_option snd (m k)) a c" for m :: "'a client_manager" and a c
    using that
  proof (induction evs arbitrary: m a c)
    case (Cons ev evs)
    obtain m' a' c' where "client_step (m, a, c) ev = (m', a', c')" by (cases "client_step (m, a, c) ev")
    then show ?case using Cons.IH [OF client_inv_step [OF Cons.prems]] by simp
  qed simp
  obtain m a c where r: "foldl client_step (Map.empty, [], []) evs = (m, a, c)"
    by (cases "foldl client_step (Map.empty, [], []) evs")
  have i: "client_inv (\<lambda>k. map_option snd (m k)) a c"
    using inv [of Map.empty "[]" "[]"] r by (simp add: client_inv_def)
  have live: "live_transports m = ran (\<lambda>k. map_option snd (m k))" by (force simp: live_transports_def ran_def)
  have "i = k" if "inj_on (\<lambda>k. map_option snd (m k)) (dom (\<lambda>k. map_option snd (m k)))" "m i = Some (x, t)" "m k = Some (y, t)" for i k x y t
    using that by (auto simp: inj_on_def dom_def)
  then show ?thesis using i assms unfolding r prod.case live client_inv_def by auto
qed

end
