(* ===== verification/Flow_Control.thy ===== *)
theory Flow_Control
  imports Stream_State
begin

text \<open>
  Credit-based flow control of one direction of a stream, between a sender that spends the send window of its
  \<^verbatim>\<open>StreamState\<close> and a receiver that buffers bytes and returns credit. Both directions of a relayed stream work this
  way, with different receivers: the server's \<^verbatim>\<open>agentRelayStream\<close> and the agent's \<^verbatim>\<open>streamEntry\<close>. What they have in common is
  the interface \<^verbatim>\<open>credit_receiver\<close>; the facts proved once inside it are the comment in \<^verbatim>\<open>internal/protocol/window.go\<close>: a
  sender that honours its credit never overflows the receiver, no byte is lost or reordered, and the stream cannot
  stall with less credit than one frame.
\<close>

section \<open>One direction of a stream\<close>

text \<open>
  \<open>lk_wire\<close> are the data frames on their way, \<open>lk_credits\<close> the window updates on their way back; \<open>lk_sent\<close> and \<open>lk_read\<close> record
  what the sender has sent and the consumer has read.
\<close>

record 'r link =
  lk_sender :: stream_state
  lk_wire :: "bytes list"
  lk_recv :: 'r
  lk_credits :: "uint32 list"
  lk_sent :: bytes
  lk_read :: bytes
  lk_failed :: bool

datatype link_event = LSend bytes | LDeliver | LTake nat | LRelease | LCredit

text \<open>
  \<open>LSend\<close> sends a frame if the window has credit for it and otherwise leaves the sender waiting; \<open>LTake\<close> hands bytes to the
  consumer, \<open>LRelease\<close> accounts for them and may emit a window update.
\<close>

fun link_step ::
  "('r \<Rightarrow> bytes \<Rightarrow> 'r option) \<Rightarrow> ('r \<Rightarrow> nat \<Rightarrow> bytes \<times> 'r) \<Rightarrow> ('r \<Rightarrow> uint32 \<times> 'r) \<Rightarrow> 'r link \<Rightarrow> link_event \<Rightarrow> 'r link" where
  "link_step admit take_bytes release l (LSend p) =
     (if p = [] \<or> length p > MaxPayload then l
      else (case ConsumeSend (lk_sender l) (of_nat (length p)) of
          (None, s) \<Rightarrow> l\<lparr>lk_sender := s, lk_wire := lk_wire l @ [p], lk_sent := lk_sent l @ p\<rparr>
        | (Some _, _) \<Rightarrow> l))"
| "link_step admit take_bytes release l LDeliver =
     (case lk_wire l of [] \<Rightarrow> l
      | p # ps \<Rightarrow> (case admit (lk_recv l) p of
            None \<Rightarrow> l\<lparr>lk_wire := ps, lk_failed := True\<rparr>
          | Some r \<Rightarrow> l\<lparr>lk_wire := ps, lk_recv := r\<rparr>))"
| "link_step admit take_bytes release l (LTake k) =
     (let (b, r) = take_bytes (lk_recv l) k in l\<lparr>lk_recv := r, lk_read := lk_read l @ b\<rparr>)"
| "link_step admit take_bytes release l LRelease =
     (let (c, r) = release (lk_recv l) in
      l\<lparr>lk_recv := r, lk_credits := (if c = 0 then lk_credits l else lk_credits l @ [c])\<rparr>)"
| "link_step admit take_bytes release l LCredit =
     (case lk_credits l of [] \<Rightarrow> l
      | c # cs \<Rightarrow> (case AddSendWindow (lk_sender l) c of
            (None, s) \<Rightarrow> l\<lparr>lk_sender := s, lk_credits := cs\<rparr>
          | (Some _, _) \<Rightarrow> l\<lparr>lk_credits := cs, lk_failed := True\<rparr>))"

definition link_run where
  "link_run admit take_bytes release l evs = foldl (link_step admit take_bytes release) l evs"

definition start_link :: "stream_state \<Rightarrow> 'r \<Rightarrow> 'r link" where
  "start_link s r =
     \<lparr>lk_sender = s, lk_wire = [], lk_recv = r, lk_credits = [], lk_sent = [], lk_read = [], lk_failed = False\<rparr>"

definition receiver_side :: "link_event \<Rightarrow> bool" where
  "receiver_side e \<longleftrightarrow> (case e of LSend _ \<Rightarrow> False | _ \<Rightarrow> True)"

definition may_send :: "stream_state \<Rightarrow> bool" where
  "may_send s \<longleftrightarrow> ss_status s \<noteq> StreamReset \<and> ss_status s \<noteq> StreamClosed \<and> ss_status s \<noteq> StreamHalfClosedLocal"

section \<open>Interface: a receiver that returns credit\<close>

locale credit_receiver =
  fixes admit :: "'r \<Rightarrow> bytes \<Rightarrow> 'r option"
    and take_bytes :: "'r \<Rightarrow> nat \<Rightarrow> bytes \<times> 'r"
    and release :: "'r \<Rightarrow> uint32 \<times> 'r"
    and pending :: "'r \<Rightarrow> bytes"
    and owed :: "'r \<Rightarrow> nat"
    and unacked :: "'r \<Rightarrow> nat"
    and window :: "'r \<Rightarrow> nat"
    and rinv :: "'r \<Rightarrow> bool"
  assumes admit_fits: "rinv r \<Longrightarrow> p \<noteq> [] \<Longrightarrow> length p \<le> MaxPayload \<Longrightarrow>
      length (pending r) + owed r + unacked r + length p \<le> window r \<Longrightarrow>
      \<exists>r'. admit r p = Some r' \<and> rinv r' \<and> pending r' = pending r @ p \<and> owed r' = owed r \<and> unacked r' = unacked r
         \<and> window r' = window r"
    and take_conserves: "rinv r \<Longrightarrow> take_bytes r k = (b, r') \<Longrightarrow>
      rinv r' \<and> pending r = b @ pending r' \<and> owed r' = owed r + length b \<and> unacked r' = unacked r \<and> window r' = window r"
    and take_progress: "rinv r \<Longrightarrow> owed r = 0 \<Longrightarrow> pending r \<noteq> [] \<Longrightarrow> 0 < k \<Longrightarrow> fst (take_bytes r k) \<noteq> []"
    and release_conserves: "rinv r \<Longrightarrow> length (pending r) + owed r + unacked r \<le> window r \<Longrightarrow> release r = (c, r') \<Longrightarrow>
      rinv r' \<and> pending r' = pending r \<and> owed r' = 0 \<and> unacked r' + unat c = unacked r + owed r \<and> window r' = window r"
    and residue_small: "rinv r \<Longrightarrow> unacked r + MaxStreamFrame \<le> window r"
    and window_fits: "rinv r \<Longrightarrow> window r < 2 ^ 32"
begin

definition in_flight :: "'r link \<Rightarrow> nat" where
  "in_flight l = length (concat (lk_wire l)) + length (pending (lk_recv l)) + owed (lk_recv l) + unacked (lk_recv l)
     + sum_list (map unat (lk_credits l))"

text \<open>Credit is neither created nor lost, and the bytes sent are those read, buffered and on the wire, in this order.\<close>

definition link_inv :: "nat \<Rightarrow> 'r link \<Rightarrow> bool" where
  "link_inv w l \<longleftrightarrow> rinv (lk_recv l) \<and> window (lk_recv l) = w \<and> unat (sendWindow (lk_sender l)) + in_flight l = w
     \<and> may_send (lk_sender l) \<and> \<not> lk_failed l \<and> list_all (\<lambda>p. p \<noteq> [] \<and> length p \<le> MaxPayload) (lk_wire l)
     \<and> list_all (\<lambda>c. c \<noteq> 0) (lk_credits l)
     \<and> lk_sent l = lk_read l @ pending (lk_recv l) @ concat (lk_wire l)"

lemma link_inv_start:
  "rinv r \<Longrightarrow> pending r = [] \<Longrightarrow> owed r = 0 \<Longrightarrow> unacked r = 0 \<Longrightarrow> may_send s \<Longrightarrow> unat (sendWindow s) = window r \<Longrightarrow>
   link_inv (window r) (start_link s r)"
  by (simp add: link_inv_def start_link_def in_flight_def)

lemma link_inv_send:
  assumes l: "link_inv w l"
  shows "link_inv w (link_step admit take_bytes release l (LSend p))"
proof (cases "p = [] \<or> length p > MaxPayload \<or> fst (ConsumeSend (lk_sender l) (of_nat (length p))) \<noteq> None")
  case True
  then have "link_step admit take_bytes release l (LSend p) = l" by (auto split: prod.splits option.splits)
  then show ?thesis using l by simp
next
  case False
  define n :: uint32 where "n = of_nat (length p)"
  have n: "unat n = length p" using False by (simp add: n_def unat_of_nat MaxPayload_def)
  have s: "may_send (lk_sender l)" using l by (simp add: link_inv_def)
  have le: "n \<le> sendWindow (lk_sender l)" using False s by (auto simp: ConsumeSend_def may_send_def n_def split: if_splits)
  have "ConsumeSend (lk_sender l) n = (None, (lk_sender l)\<lparr>sendWindow := sendWindow (lk_sender l) - n\<rparr>)"
    using s le by (simp add: ConsumeSend_def may_send_def not_less)
  then show ?thesis using l False n unat_diff_fits [OF le]
    by (simp add: link_inv_def in_flight_def may_send_def n_def [symmetric])
qed

lemma link_inv_deliver:
  assumes l: "link_inv w l"
  shows "link_inv w (link_step admit take_bytes release l LDeliver)"
proof (cases "lk_wire l")
  case Nil
  then show ?thesis using l by simp
next
  case (Cons p ps)
  have "p \<noteq> []" "length p \<le> MaxPayload"
    "length (pending (lk_recv l)) + owed (lk_recv l) + unacked (lk_recv l) + length p \<le> window (lk_recv l)"
    using l Cons by (auto simp: link_inv_def in_flight_def)
  then obtain r where "admit (lk_recv l) p = Some r" "rinv r" "pending r = pending (lk_recv l) @ p"
    "owed r = owed (lk_recv l)" "unacked r = unacked (lk_recv l)" "window r = window (lk_recv l)"
    using admit_fits [of "lk_recv l" p] l by (auto simp: link_inv_def)
  then show ?thesis using l Cons by (simp add: link_inv_def in_flight_def)
qed

lemma link_inv_credit:
  assumes l: "link_inv w l"
  shows "link_inv w (link_step admit take_bytes release l LCredit)"
proof (cases "lk_credits l")
  case Nil
  then show ?thesis using l by simp
next
  case (Cons c cs)
  have "unat (sendWindow (lk_sender l)) + unat c \<le> w" "w < 2 ^ 32"
    using l Cons window_fits [of "lk_recv l"] by (auto simp: link_inv_def in_flight_def)
  then have fits: "\<not> exceeds_uint32 (sendWindow (lk_sender l)) c" by (simp add: exceeds_uint32_def)
  have "AddSendWindow (lk_sender l) c = (None, (lk_sender l)\<lparr>sendWindow := sendWindow (lk_sender l) + c\<rparr>)"
    using l fits by (simp add: AddSendWindow_def link_inv_def may_send_def)
  then show ?thesis using l Cons unat_add_fits [OF fits] by (simp add: link_inv_def in_flight_def may_send_def)
qed

lemma link_inv_receiver:
  assumes l: "link_inv w l"
  shows "link_inv w (link_step admit take_bytes release l (LTake k))" "link_inv w (link_step admit take_bytes release l LRelease)"
proof -
  obtain b r where t: "take_bytes (lk_recv l) k = (b, r)" by fastforce
  show "link_inv w (link_step admit take_bytes release l (LTake k))"
    using l take_conserves [OF _ t] t by (simp add: link_inv_def in_flight_def)
  obtain c r where t: "release (lk_recv l) = (c, r)" by fastforce
  have "length (pending (lk_recv l)) + owed (lk_recv l) + unacked (lk_recv l) \<le> window (lk_recv l)"
    using l by (auto simp: link_inv_def in_flight_def)
  then show "link_inv w (link_step admit take_bytes release l LRelease)"
    using l release_conserves [OF _ _ t] t by (cases "c = 0") (simp_all add: link_inv_def in_flight_def)
qed

lemma link_inv_step: "link_inv w l \<Longrightarrow> link_inv w (link_step admit take_bytes release l ev)"
  by (cases ev) (simp_all only: link_inv_send link_inv_deliver link_inv_credit link_inv_receiver)

lemma link_inv_run: "link_inv w l \<Longrightarrow> link_inv w (link_run admit take_bytes release l evs)"
  unfolding link_run_def by (induction evs arbitrary: l) (simp_all del: link_step.simps add: link_inv_step)

text \<open>The consequences: no overflow, no loss, no reordering.\<close>

lemma run_integrity:
  assumes "rinv r" "pending r = []" "owed r = 0" "unacked r = 0" "may_send s" "unat (sendWindow s) = window r"
  shows "let l = link_run admit take_bytes release (start_link s r) evs in
    \<not> lk_failed l \<and> lk_sent l = lk_read l @ pending (lk_recv l) @ concat (lk_wire l)
    \<and> length (pending (lk_recv l)) + length (concat (lk_wire l)) \<le> window r"
  using link_inv_run [OF link_inv_start [OF assms], of evs] by (auto simp: Let_def link_inv_def in_flight_def)

text \<open>Once the receiver has handed over, accounted for and acknowledged everything, the sender has credit for a frame.\<close>

definition quiescent :: "'r link \<Rightarrow> bool" where
  "quiescent l \<longleftrightarrow> lk_wire l = [] \<and> pending (lk_recv l) = [] \<and> owed (lk_recv l) = 0 \<and> lk_credits l = []"

lemma quiescent_credit: "link_inv w l \<Longrightarrow> quiescent l \<Longrightarrow> MaxStreamFrame \<le> unat (sendWindow (lk_sender l))"
  using residue_small [of "lk_recv l"] by (auto simp: link_inv_def in_flight_def quiescent_def)

definition backlog :: "'r link \<Rightarrow> nat" where
  "backlog l = 4 * length (concat (lk_wire l)) + 3 * length (pending (lk_recv l)) + 2 * owed (lk_recv l) + unacked (lk_recv l)
     + sum_list (map unat (lk_credits l))"

lemma backlog_shrinks:
  assumes l: "link_inv w l" and busy: "\<not> quiescent l"
  shows "\<exists>e. receiver_side e \<and> backlog (link_step admit take_bytes release l e) < backlog l"
proof -
  have inv: "rinv (lk_recv l)" and room: "length (pending (lk_recv l)) + owed (lk_recv l) + unacked (lk_recv l) \<le> window (lk_recv l)"
    using l by (auto simp: link_inv_def in_flight_def)
  consider (wire) p ps where "lk_wire l = p # ps" | (owed) "owed (lk_recv l) \<noteq> 0"
    | (buffered) "pending (lk_recv l) \<noteq> []" "owed (lk_recv l) = 0" | (credit) c cs where "lk_credits l = c # cs"
    using busy by (cases "lk_wire l"; cases "lk_credits l") (auto simp: quiescent_def)
  then show ?thesis
  proof cases
    case wire
    then have p: "p \<noteq> []" "length p \<le> MaxPayload" "length (pending (lk_recv l)) + owed (lk_recv l) + unacked (lk_recv l) + length p \<le> window (lk_recv l)"
      using l by (auto simp: link_inv_def in_flight_def)
    then have "backlog (link_step admit take_bytes release l LDeliver) < backlog l"
      using admit_fits [OF inv p] wire by (auto simp: backlog_def)
    then show ?thesis by (intro exI [of _ LDeliver]) (simp add: receiver_side_def)
  next
    case owed
    obtain c r where "release (lk_recv l) = (c, r)" by fastforce
    then have "backlog (link_step admit take_bytes release l LRelease) < backlog l"
      using release_conserves [OF inv room] owed by (cases "c = 0") (auto simp: backlog_def)
    then show ?thesis by (intro exI [of _ LRelease]) (simp add: receiver_side_def)
  next
    case buffered
    obtain b r where t: "take_bytes (lk_recv l) 1 = (b, r)" by fastforce
    have "b \<noteq> []" using take_progress [OF inv buffered(2,1), of 1] t by simp
    moreover have "length (pending (lk_recv l)) = length b + length (pending r)" using take_conserves [OF inv t] by simp
    ultimately have "backlog (link_step admit take_bytes release l (LTake 1)) < backlog l"
      using take_conserves [OF inv t] t by (simp add: backlog_def)
    then show ?thesis by (intro exI [of _ "LTake 1"]) (simp add: receiver_side_def)
  next
    case credit
    have fits: "\<not> exceeds_uint32 (sendWindow (lk_sender l)) c"
      using l credit window_fits [OF inv] by (auto simp: link_inv_def in_flight_def exceeds_uint32_def)
    have "c \<noteq> 0" "may_send (lk_sender l)" using l credit by (auto simp: link_inv_def)
    then have "backlog (link_step admit take_bytes release l LCredit) < backlog l"
      using credit fits by (simp add: AddSendWindow_def may_send_def backlog_def unat_gt_0 word_neq_0_conv)
    then show ?thesis by (intro exI [of _ LCredit]) (simp add: receiver_side_def)
  qed
qed

lemma reaches_quiescence:
  "link_inv w l \<Longrightarrow> \<exists>evs. list_all receiver_side evs \<and> length evs \<le> backlog l \<and> quiescent (link_run admit take_bytes release l evs)"
proof (induction "backlog l" arbitrary: l rule: less_induct)
  case less
  show ?case
  proof (cases "quiescent l")
    case True
    then show ?thesis by (intro exI [of _ "[]"]) (simp add: link_run_def)
  next
    case False
    obtain e where e: "receiver_side e" "backlog (link_step admit take_bytes release l e) < backlog l"
      using backlog_shrinks [OF less.prems False] by blast
    from less.hyps [OF e(2) link_inv_step [OF less.prems]] obtain evs where
      "list_all receiver_side evs" "length evs \<le> backlog (link_step admit take_bytes release l e)"
      "quiescent (link_run admit take_bytes release (link_step admit take_bytes release l e) evs)" by blast
    then show ?thesis using e by (intro exI [of _ "e # evs"]) (simp add: link_run_def)
  qed
qed

text \<open>No stall: the receiving side alone always brings back credit for one more frame.\<close>

lemma run_no_stall:
  assumes "rinv r" "pending r = []" "owed r = 0" "unacked r = 0" "may_send s" "unat (sendWindow s) = window r"
    and p: "p \<noteq> []" "length p \<le> MaxStreamFrame"
  shows "let l = link_run admit take_bytes release (start_link s r) evs in
    \<exists>evs'. list_all receiver_side evs' \<and> lk_sent (link_run admit take_bytes release l (evs' @ [LSend p])) = lk_sent l @ p"
proof -
  define l where "l = link_run admit take_bytes release (start_link s r) evs"
  have inv: "link_inv (window r) l" unfolding l_def by (rule link_inv_run [OF link_inv_start [OF assms(1-6)]])
  obtain evs' where e: "list_all receiver_side evs'" "quiescent (link_run admit take_bytes release l evs')"
    using reaches_quiescence [OF inv] by blast
  define q where "q = link_run admit take_bytes release l evs'"
  have q: "link_inv (window r) q" "quiescent q" unfolding q_def using link_inv_run [OF inv] e by simp_all
  have same: "lk_sent (link_run admit take_bytes release x es) = lk_sent x" if "list_all receiver_side es" for x es
    using that unfolding link_run_def
  proof (induction es arbitrary: x)
    case (Cons e es)
    have "lk_sent (link_step admit take_bytes release x e) = lk_sent x"
      using Cons.prems by (cases e) (auto simp: receiver_side_def split: list.splits option.splits prod.splits)
    then show ?case using Cons by simp
  qed simp
  have n: "unat (of_nat (length p) :: uint32) = length p" using p(2) by (simp add: unat_of_nat)
  have "of_nat (length p) \<le> sendWindow (lk_sender q)"
    using quiescent_credit [OF q] p(2) n by (simp add: word_le_nat_alt)
  moreover have "may_send (lk_sender q)" using q(1) by (simp add: link_inv_def)
  ultimately have "lk_sent (link_step admit take_bytes release q (LSend p)) = lk_sent q @ p"
    using p by (simp add: ConsumeSend_def may_send_def not_less MaxPayload_def)
  moreover have "link_run admit take_bytes release l (evs' @ [LSend p]) = link_step admit take_bytes release q (LSend p)"
    by (simp add: link_run_def q_def)
  ultimately have "lk_sent (link_run admit take_bytes release l (evs' @ [LSend p])) = lk_sent l @ p"
    using same [OF e(1), of l] by (simp add: q_def)
  then show ?thesis using e(1) unfolding Let_def l_def [symmetric] by blast
qed

end

end
