(* ===== verification/Relay_Stream.thy ===== *)
theory Relay_Stream
  imports Flow_Control Session_Manager
begin

text \<open>
  \<^verbatim>\<open>internal/server/agent_relay_transport.go\<close>, first part: the window policy and one \<^verbatim>\<open>agentRelayStream\<close>, the server's end of
  a stream to an agent. \<^verbatim>\<open>Read\<close> and the credit it returns are separate locked sections, so they are separate operations
  here; a loop that waits is given by one pass, whose result says that it waits. Channels of capacity one used as wake
  tokens are booleans.

  The stream is interpreted as a \<^verbatim>\<open>credit_receiver\<close>: an agent that honours the advertised window never makes \<^verbatim>\<open>enqueue\<close>
  report backpressure, and the download cannot stall.
\<close>

section \<open>Window policy\<close>

record relay_window_config =
  AdvertisedWindow :: uint32
  UpdateThreshold :: uint32
  MaxActiveStreamsPerAgent :: int

definition advertisedWindow :: "relay_window_config \<Rightarrow> uint32" where
  "advertisedWindow c =
     (if AdvertisedWindow c < of_nat MinRefillableWindow \<or> AdvertisedWindow c > of_nat DefaultServerReceiveWindow
      then of_nat DefaultServerReceiveWindow else AdvertisedWindow c)"

definition windowFor :: "relay_window_config \<Rightarrow> uint32 \<Rightarrow> uint32" where
  "windowFor c requested =
     (let window = advertisedWindow c; peer = NegotiateReceiveWindow requested in
      if peer < window then peer else window)"

definition updateThreshold :: "relay_window_config \<Rightarrow> uint32 \<Rightarrow> uint32" where
  "updateThreshold c window =
     (let threshold = UpdateThreshold c in
      if threshold = 0 \<or> threshold > window \<or> window - threshold < of_nat MaxStreamFrame
      then of_nat DefaultWindowUpdateThreshold else threshold)"

lemma windowFor_range:
  "MinRefillableWindow \<le> unat (windowFor c r) \<and> unat (windowFor c r) \<le> DefaultServerReceiveWindow"
proof -
  have "MinRefillableWindow \<le> unat (advertisedWindow c) \<and> unat (advertisedWindow c) \<le> DefaultServerReceiveWindow"
    by (simp add: advertisedWindow_def word_less_nat_alt)
  then show ?thesis using NegotiateReceiveWindow_range [of r] by (simp add: windowFor_def Let_def)
qed

text \<open>Whatever is configured, the residue that is never acknowledged leaves room for one whole frame.\<close>

lemma updateThreshold_room:
  assumes "MinRefillableWindow \<le> unat w"
  shows "0 < unat (updateThreshold c w) \<and> unat (updateThreshold c w) + MaxStreamFrame \<le> unat w"
proof (cases "UpdateThreshold c = 0 \<or> UpdateThreshold c > w \<or> w - UpdateThreshold c < of_nat MaxStreamFrame")
  case True
  then have "updateThreshold c w = of_nat DefaultWindowUpdateThreshold" by (simp add: updateThreshold_def)
  then show ?thesis using assms by simp
next
  case False
  then have t: "updateThreshold c w = UpdateThreshold c" "UpdateThreshold c \<noteq> 0" "UpdateThreshold c \<le> w"
    "MaxStreamFrame \<le> unat (w - UpdateThreshold c)"
    by (simp_all add: updateThreshold_def word_less_nat_alt word_le_nat_alt)
  then show ?thesis using unat_diff_fits [OF t(3)] by (simp add: unat_gt_0)
qed

section \<open>The stream\<close>

datatype relay_stream_error =
    StreamEOF | ErrClosedPipe | StreamProtocol protocol_error | StreamBackpressure | StreamNodeDisconnected
  | StreamRelayClosed | StreamServer server_error

record relay_stream =
  rs_agentID :: string
  rs_connectionID :: string
  rs_connectionEpoch :: int
  rs_serverGeneration :: uint64
  rs_wireID :: uint32
  rs_controlCh :: "frame list"
  rs_controlSignal :: bool
  rs_dataSignal :: bool
  rs_openResult :: "open_result option"
  rs_openResultOnce :: bool
  rs_done :: bool
  rs_closeOnce :: bool
  rs_strictOpen :: bool
  rs_readBuf :: bytes
  rs_receiveBudget :: int
  rs_readPos :: nat
  rs_err :: "relay_stream_error option"
  rs_localHalf :: bool
  rs_remoteHalf :: bool
  rs_sendState :: "stream_state option"
  rs_receiveUnacked :: uint32
  rs_windowSignal :: bool

definition deliverOpenResult :: "relay_stream \<Rightarrow> open_result \<Rightarrow> bool \<times> relay_stream" where
  "deliverOpenResult s p =
     (if \<not> rs_strictOpen s \<or> rs_openResultOnce s then (False, s)
      else (True, s\<lparr>rs_openResultOnce := True, rs_openResult := Some p\<rparr>))"

datatype read_result = ReadData bytes | ReadControlPending | ReadError relay_stream_error | ReadWait

definition Read :: "relay_stream \<Rightarrow> nat \<Rightarrow> read_result \<times> relay_stream" where
  "Read s k =
     (if k = 0 then (ReadData [], s)
      else if length (rs_readBuf s) - rs_readPos s > 0 then
        (let n = min k (length (rs_readBuf s) - rs_readPos s);
             b = take n (drop (rs_readPos s) (rs_readBuf s));
             pos = rs_readPos s + n in
         (ReadData b,
          if pos = length (rs_readBuf s) then s\<lparr>rs_readBuf := [], rs_readPos := 0\<rparr> else s\<lparr>rs_readPos := pos\<rparr>))
      else if rs_controlSignal s then (ReadControlPending, s\<lparr>rs_dataSignal := False, rs_controlSignal := False\<rparr>)
      else (case rs_err s of
          Some e \<Rightarrow> (ReadError e, s\<lparr>rs_dataSignal := False\<rparr>)
        | None \<Rightarrow> (ReadWait, s\<lparr>rs_dataSignal := False\<rparr>)))"

definition enqueue :: "relay_stream \<Rightarrow> bytes \<Rightarrow> relay_stream_error option \<times> relay_stream" where
  "enqueue s p =
     (if rs_remoteHalf s then (Some (StreamProtocol ErrInvalidFrame), s)
      else (case rs_err s of Some e \<Rightarrow> (Some e, s)
        | None \<Rightarrow>
          (let budget = (if rs_receiveBudget s \<le> 0 then int DefaultServerReceiveWindow else rs_receiveBudget s);
               s1 = (if rs_readPos s > 0 then s\<lparr>rs_readBuf := drop (rs_readPos s) (rs_readBuf s), rs_readPos := 0\<rparr> else s) in
           if int (length (rs_readBuf s1) + length p) > budget then (Some StreamBackpressure, s1)
           else if p = [] then (None, s1)
           else (None, s1\<lparr>rs_readBuf := rs_readBuf s1 @ p, rs_dataSignal := True\<rparr>))))"

text \<open>The window update that is to be sent, or \<open>0\<close>.\<close>

definition releaseReceiveWindow :: "relay_window_config \<Rightarrow> relay_stream \<Rightarrow> int \<Rightarrow> uint32 \<times> relay_stream" where
  "releaseReceiveWindow c s consumed =
     (if consumed \<le> 0 \<or> rs_err s \<noteq> None then (0, s)
      else (let unacked = rs_receiveUnacked s + of_int consumed;
                buffered = int (length (rs_readBuf s) - rs_readPos s);
                free = rs_receiveBudget s - buffered;
                remaining = (if free > 0 then of_int free else 0);
                threshold = updateThreshold c (of_int (max (rs_receiveBudget s) 0)) in
            if ShouldFlushWindowUpdate remaining unacked threshold then (unacked, s\<lparr>rs_receiveUnacked := 0\<rparr>)
            else (0, s\<lparr>rs_receiveUnacked := unacked\<rparr>)))"

text \<open>One pass of \<^verbatim>\<open>consumeSendWindow\<close>; \<open>ChunkWait\<close> waits for a window signal, a timer or the end of the stream.\<close>

datatype chunk_result = Chunk nat | ChunkError relay_stream_error | ChunkWait

definition consumeSendWindow :: "relay_stream \<Rightarrow> nat \<Rightarrow> chunk_result \<times> relay_stream" where
  "consumeSendWindow s remaining =
     (if (rs_err s \<noteq> None \<and> rs_err s \<noteq> Some StreamEOF) \<or> rs_localHalf s
      then (ChunkError (case rs_err s of None \<Rightarrow> ErrClosedPipe | Some e \<Rightarrow> e), s)
      else (case rs_sendState s of None \<Rightarrow> (Chunk remaining, s)
        | Some st \<Rightarrow>
          (let want = (if of_nat remaining > (of_nat MaxStreamFrame :: uint32) then of_nat MaxStreamFrame else of_nat remaining) in
           case ConsumeSend st want of
             (None, st') \<Rightarrow> (Chunk (unat want), s\<lparr>rs_sendState := Some st'\<rparr>)
           | (Some e, _) \<Rightarrow>
             if e \<noteq> ErrWindowExhausted then (ChunkError (StreamProtocol e), s)
             else if sendWindow st > 0 then
               (let want' = (if sendWindow st < want then sendWindow st else want) in
                case ConsumeSend st want' of
                  (None, st') \<Rightarrow> (Chunk (unat want'), s\<lparr>rs_sendState := Some st'\<rparr>)
                | (Some e', _) \<Rightarrow> if e' \<noteq> ErrWindowExhausted then (ChunkError (StreamProtocol e'), s) else (ChunkWait, s))
             else (ChunkWait, s))))"

text \<open>What the wait ends with when the stream is done: the error of the stream.\<close>

definition wait_done :: "relay_stream \<Rightarrow> chunk_result" where
  "wait_done s = (if rs_done s then ChunkError (case rs_err s of None \<Rightarrow> ErrClosedPipe | Some e \<Rightarrow> e) else ChunkWait)"

definition finish :: "relay_stream \<Rightarrow> relay_stream_error \<Rightarrow> relay_stream" where
  "finish s e =
     (let s1 = (if rs_err s = None \<or> (rs_err s = Some StreamEOF \<and> e \<noteq> StreamEOF) then s\<lparr>rs_err := Some e\<rparr> else s) in
      s1\<lparr>rs_done := True\<rparr>)"

definition remoteHalfClose :: "relay_stream \<Rightarrow> bool \<times> relay_stream" where
  "remoteHalfClose s =
     (if rs_remoteHalf s then (False, s) else (rs_localHalf s, finish (s\<lparr>rs_remoteHalf := True\<rparr>) StreamEOF))"

definition ReadControl :: "relay_stream \<Rightarrow> frame option \<times> relay_stream" where
  "ReadControl s =
     (case rs_controlCh s of [] \<Rightarrow> (None, s)
      | f # fs \<Rightarrow> (Some f, s\<lparr>rs_controlCh := fs, rs_controlSignal := False\<rparr>))"

text \<open>A window update from the agent: the credit is authoritative, its mirror for the consumer is best effort.\<close>

definition handle_window_update :: "relay_stream \<Rightarrow> frame \<Rightarrow> relay_stream" where
  "handle_window_update s f =
     (let s1 = (case rs_sendState s of None \<Rightarrow> s
                | Some st \<Rightarrow> (case AddSendWindow st (Window f) of
                     (None, st') \<Rightarrow> s\<lparr>rs_sendState := Some st', rs_windowSignal := True\<rparr>
                   | (Some _, _) \<Rightarrow> s)) in
      if length (rs_controlCh s1) < 16 then s1\<lparr>rs_controlCh := rs_controlCh s1 @ [f], rs_controlSignal := True\<rparr> else s1)"

text \<open>The stream that \<^verbatim>\<open>OpenStream\<close> creates, and the send window the agent keeps for it.\<close>

definition new_relay_stream ::
  "relay_window_config \<Rightarrow> string \<Rightarrow> string \<Rightarrow> int \<Rightarrow> uint64 \<Rightarrow> uint32 \<Rightarrow> uint32 \<Rightarrow> bool \<Rightarrow> relay_stream" where
  "new_relay_stream c agentID connectionID epoch generation wireID requested strict =
     \<lparr>rs_agentID = agentID, rs_connectionID = connectionID, rs_connectionEpoch = epoch, rs_serverGeneration = generation,
      rs_wireID = wireID, rs_controlCh = [], rs_controlSignal = False, rs_dataSignal = False, rs_openResult = None,
      rs_openResultOnce = False, rs_done = False, rs_closeOnce = False, rs_strictOpen = strict, rs_readBuf = [],
      rs_receiveBudget = uint (windowFor c requested), rs_readPos = 0, rs_err = None, rs_localHalf = False, rs_remoteHalf = False,
      rs_sendState = (case NewStreamState wireID (of_nat DefaultAgentReceiveWindow) of
          Inl _ \<Rightarrow> None | Inr st \<Rightarrow> Some (snd (OpenLocal st))),
      rs_receiveUnacked = 0, rs_windowSignal = False\<rparr>"

section \<open>The stream as a receiver of credit\<close>

text \<open>The second component is the reader's local count of bytes it was handed and has not yet accounted for.\<close>

definition rs_admit :: "relay_stream \<times> nat \<Rightarrow> bytes \<Rightarrow> (relay_stream \<times> nat) option" where
  "rs_admit r p = (case enqueue (fst r) p of (None, s) \<Rightarrow> Some (s, snd r) | (Some _, _) \<Rightarrow> None)"

definition rs_take :: "relay_stream \<times> nat \<Rightarrow> nat \<Rightarrow> bytes \<times> relay_stream \<times> nat" where
  "rs_take r k =
     (if snd r \<noteq> 0 then ([], r)
      else (case Read (fst r) k of (ReadData b, s) \<Rightarrow> (b, s, length b) | (_, s) \<Rightarrow> ([], s, 0)))"

definition rs_release :: "relay_window_config \<Rightarrow> relay_stream \<times> nat \<Rightarrow> uint32 \<times> relay_stream \<times> nat" where
  "rs_release c r = (let (u, s) = releaseReceiveWindow c (fst r) (int (snd r)) in (u, s, 0))"

definition rs_pending :: "relay_stream \<times> nat \<Rightarrow> bytes" where
  "rs_pending r = drop (rs_readPos (fst r)) (rs_readBuf (fst r))"

definition rs_unacked :: "relay_stream \<times> nat \<Rightarrow> nat" where
  "rs_unacked r = unat (rs_receiveUnacked (fst r))"

definition rs_window :: "relay_stream \<times> nat \<Rightarrow> nat" where
  "rs_window r = nat (rs_receiveBudget (fst r))"

definition rs_inv :: "relay_window_config \<Rightarrow> relay_stream \<times> nat \<Rightarrow> bool" where
  "rs_inv c r \<longleftrightarrow> rs_readPos (fst r) \<le> length (rs_readBuf (fst r)) \<and> int MinRefillableWindow \<le> rs_receiveBudget (fst r)
     \<and> rs_receiveBudget (fst r) \<le> int DefaultServerReceiveWindow \<and> rs_err (fst r) = None \<and> \<not> rs_remoteHalf (fst r)
     \<and> unat (rs_receiveUnacked (fst r)) < unat (updateThreshold c (of_int (rs_receiveBudget (fst r))))"

lemmas rs_defs = rs_admit_def rs_take_def rs_release_def rs_pending_def rs_unacked_def rs_window_def rs_inv_def

lemma unat_of_int_budget: "0 \<le> b \<Longrightarrow> b \<le> int DefaultServerReceiveWindow \<Longrightarrow> unat (of_int b :: uint32) = nat b"
  by (simp add: unat_eq_nat_uint uint_word_of_int_eq take_bit_int_eq_self)

lemma rs_admit_fits:
  assumes "rs_inv c r" "p \<noteq> []" "length (rs_pending r) + snd r + rs_unacked r + length p \<le> rs_window r"
  shows "\<exists>r'. rs_admit r p = Some r' \<and> rs_inv c r' \<and> rs_pending r' = rs_pending r @ p \<and> snd r' = snd r
    \<and> rs_unacked r' = rs_unacked r \<and> rs_window r' = rs_window r"
proof -
  have "int (length (rs_readBuf (fst r)) - rs_readPos (fst r)) + int (length p) \<le> rs_receiveBudget (fst r)"
    using assms by (auto simp: rs_defs)
  then show ?thesis using assms(1,2) by (auto simp: rs_defs enqueue_def Let_def)
qed

lemma rs_take_conserves:
  assumes "rs_inv c r" "rs_take r k = (b, r')"
  shows "rs_inv c r' \<and> rs_pending r = b @ rs_pending r' \<and> snd r' = snd r + length b \<and> rs_unacked r' = rs_unacked r
    \<and> rs_window r' = rs_window r"
proof (cases "snd r = 0 \<and> k \<noteq> 0 \<and> rs_readPos (fst r) < length (rs_readBuf (fst r))")
  case True
  obtain s where s: "r = (s, 0)" using True by (cases r) auto
  define n where "n = min k (length (rs_readBuf s) - rs_readPos s)"
  define d where "d = drop (rs_readPos s) (rs_readBuf s)"
  have b: "b = take n d" and r': "r' = ((if rs_readPos s + n = length (rs_readBuf s) then s\<lparr>rs_readBuf := [], rs_readPos := 0\<rparr>
      else s\<lparr>rs_readPos := rs_readPos s + n\<rparr>), length b)"
    using assms(2) True s by (auto simp: rs_take_def Read_def Let_def n_def d_def)
  have "drop n d = rs_pending r'" using True s by (auto simp: r' rs_pending_def d_def n_def add.commute)
  then have "rs_pending r = b @ rs_pending r'" by (metis append_take_drop_id b d_def fst_conv rs_pending_def s)
  then show ?thesis using assms(1) s True by (auto simp: r' rs_defs n_def)
next
  case False
  then have "b = [] \<and> snd r' = snd r \<and> rs_readBuf (fst r') = rs_readBuf (fst r) \<and> rs_readPos (fst r') = rs_readPos (fst r)
    \<and> rs_receiveBudget (fst r') = rs_receiveBudget (fst r) \<and> rs_err (fst r') = rs_err (fst r) \<and> rs_remoteHalf (fst r') = rs_remoteHalf (fst r)
    \<and> rs_receiveUnacked (fst r') = rs_receiveUnacked (fst r)"
    using assms(2) by (auto simp: rs_take_def Read_def split: if_splits option.splits)
  then show ?thesis using assms(1) by (simp add: rs_defs)
qed

lemma rs_release_conserves:
  assumes inv: "rs_inv c r" and room: "length (rs_pending r) + snd r + rs_unacked r \<le> rs_window r"
    and r: "rs_release c r = (u, r')"
  shows "rs_inv c r' \<and> rs_pending r' = rs_pending r \<and> snd r' = 0 \<and> rs_unacked r' + unat u = rs_unacked r + snd r
    \<and> rs_window r' = rs_window r"
proof (cases "snd r = 0")
  case True
  then show ?thesis using inv r by (auto simp: rs_defs releaseReceiveWindow_def)
next
  case False
  let ?s = "fst r"
  define v where "v = rs_receiveUnacked ?s + of_nat (snd r)"
  define t where "t = updateThreshold c (of_int (rs_receiveBudget ?s))"
  have "rs_window r \<le> DefaultServerReceiveWindow" using inv by (auto simp: rs_defs nat_le_iff)
  then have v: "unat v = rs_unacked r + snd r"
    using room by (simp add: v_def rs_unacked_def unat_word_ariths unat_of_nat)
  have t0: "0 < unat t"
    using inv updateThreshold_room [of "of_int (rs_receiveBudget ?s)" c] unat_of_int_budget [of "rs_receiveBudget ?s"]
    by (simp add: t_def rs_inv_def le_nat_iff)
  have mx: "max (rs_receiveBudget ?s) 0 = rs_receiveBudget ?s" using inv by (simp add: rs_inv_def)
  have "\<exists>rem. rs_release c r = (if ShouldFlushWindowUpdate rem v t then (v, ?s\<lparr>rs_receiveUnacked := 0\<rparr>, 0)
      else (0, ?s\<lparr>rs_receiveUnacked := v\<rparr>, 0))"
    using inv False unfolding rs_release_def releaseReceiveWindow_def mx t_def [symmetric]
    by (auto simp: rs_inv_def Let_def v_def [symmetric])
  then consider "u = v" "r' = (?s\<lparr>rs_receiveUnacked := 0\<rparr>, 0)" | "u = 0" "r' = (?s\<lparr>rs_receiveUnacked := v\<rparr>, 0)" "unat v < unat t"
    using r v False by (auto simp: ShouldFlush_iff split: if_splits)
  then show ?thesis
  proof cases
    case 1
    then show ?thesis using inv v t0 by (simp add: rs_defs t_def)
  next
    case 2
    then show ?thesis using inv v by (simp add: rs_defs t_def)
  qed
qed

interpretation server_receiver: credit_receiver rs_admit rs_take "rs_release c" rs_pending snd rs_unacked rs_window "rs_inv c"
  for c :: relay_window_config
proof unfold_locales
  fix r r' :: "relay_stream \<times> nat" and p b :: bytes and k :: nat and u :: uint32
  assume inv: "rs_inv c r"
  show "\<exists>r'. rs_admit r p = Some r' \<and> rs_inv c r' \<and> rs_pending r' = rs_pending r @ p \<and> snd r' = snd r
      \<and> rs_unacked r' = rs_unacked r \<and> rs_window r' = rs_window r"
    if "p \<noteq> []" "length (rs_pending r) + snd r + rs_unacked r + length p \<le> rs_window r"
    using rs_admit_fits [OF inv that] .
  show "rs_inv c r' \<and> rs_pending r = b @ rs_pending r' \<and> snd r' = snd r + length b \<and> rs_unacked r' = rs_unacked r
      \<and> rs_window r' = rs_window r" if "rs_take r k = (b, r')"
    using rs_take_conserves [OF inv that] .
  show "fst (rs_take r k) \<noteq> []" if "snd r = 0" "rs_pending r \<noteq> []" "0 < k"
    using that by (auto simp: rs_take_def rs_pending_def Read_def Let_def)
  show "rs_inv c r' \<and> rs_pending r' = rs_pending r \<and> snd r' = 0 \<and> rs_unacked r' + unat u = rs_unacked r + snd r
      \<and> rs_window r' = rs_window r"
    if "length (rs_pending r) + snd r + rs_unacked r \<le> rs_window r" "rs_release c r = (u, r')"
    using rs_release_conserves [OF inv that] .
  have w: "unat (of_int (rs_receiveBudget (fst r)) :: uint32) = rs_window r"
    using inv unat_of_int_budget [of "rs_receiveBudget (fst r)"] by (simp add: rs_inv_def rs_window_def)
  have "MinRefillableWindow \<le> rs_window r" using inv by (simp add: rs_inv_def rs_window_def le_nat_iff)
  then have "unat (updateThreshold c (of_int (rs_receiveBudget (fst r)))) + MaxStreamFrame \<le> rs_window r"
    using updateThreshold_room [of "of_int (rs_receiveBudget (fst r))" c] w by simp
  moreover have "rs_unacked r < unat (updateThreshold c (of_int (rs_receiveBudget (fst r))))"
    using inv by (simp add: rs_inv_def rs_unacked_def)
  ultimately show "rs_unacked r + MaxStreamFrame \<le> rs_window r" by linarith
  show "rs_window r < 2 ^ 32" using inv by (simp add: rs_inv_def rs_window_def nat_less_iff)
qed

section \<open>Properties\<close>

definition agent_sender :: "uint32 \<Rightarrow> uint32 \<Rightarrow> stream_state option" where
  "agent_sender i initialWindow =
     (case NewStreamState i initialWindow of Inl _ \<Rightarrow> None | Inr st \<Rightarrow> Some (snd (OpenLocal st)))"

lemma agent_sender_start:
  assumes "agent_sender i w = Some a" "w \<noteq> 0"
  shows "may_send a \<and> sendWindow a = w"
  using assms by (auto simp: agent_sender_def NewStreamState_def OpenLocal_def may_send_def Let_def split: if_splits)

lemma new_relay_stream_start:
  assumes r_def: "r = (new_relay_stream c ag co e g i q b, 0)"
  shows "rs_inv c r" "rs_pending r = []" "rs_unacked r = 0" "rs_window r = unat (windowFor c q)"
proof -
  have w: "int MinRefillableWindow \<le> uint (windowFor c q)" "uint (windowFor c q) \<le> int DefaultServerReceiveWindow"
    using windowFor_range [of c q] unfolding uint_nat [of "windowFor c q"] of_nat_le_iff by blast+
  show "rs_inv c r"
    using w updateThreshold_room [of "windowFor c q" c] windowFor_range [of c q]
    by (simp add: r_def rs_inv_def new_relay_stream_def)
  show "rs_pending r = []" "rs_unacked r = 0" "rs_window r = unat (windowFor c q)"
    by (simp_all add: r_def rs_defs new_relay_stream_def)
qed

text \<open>
  C8. Download integrity: for any configuration and any requested window, an agent that starts from the window announced
  in the open frame and spends its credit never makes the server's stream report backpressure, in any interleaving of
  sending, delivery, reading, acknowledging and crediting; the bytes sent are those read, then those buffered, then
  those on the wire, and no more than the window is buffered.
\<close>

theorem download_integrity:
  assumes "agent_sender i (windowFor c q) = Some a"
  shows "let l = link_run rs_admit rs_take (rs_release c) (start_link a (new_relay_stream c ag co e g i q b, 0)) evs in
    \<not> lk_failed l \<and> lk_sent l = lk_read l @ rs_pending (lk_recv l) @ concat (lk_wire l)
    \<and> length (rs_pending (lk_recv l)) + length (concat (lk_wire l)) \<le> unat (windowFor c q)"
proof -
  have "windowFor c q \<noteq> 0" using windowFor_range [of c q] by auto
  note a = agent_sender_start [OF assms this] and r = new_relay_stream_start [OF refl, of c ag co e g i q b]
  show ?thesis
    using server_receiver.run_integrity [OF r(1,2) _ r(3), of a evs] a unfolding r(4) by simp
qed

text \<open>
  C25. A download cannot stall: from every state of such a stream there are finitely many steps of the receiving side
  alone after which the agent may send any further frame of up to 32 KiB.
\<close>

theorem download_never_stalls:
  assumes "agent_sender i (windowFor c q) = Some a" and "p \<noteq> []" "length p \<le> MaxStreamFrame"
  shows "let l = link_run rs_admit rs_take (rs_release c) (start_link a (new_relay_stream c ag co e g i q b, 0)) evs in
    \<exists>evs'. list_all receiver_side evs'
      \<and> lk_sent (link_run rs_admit rs_take (rs_release c) l (evs' @ [LSend p])) = lk_sent l @ p"
proof -
  have "windowFor c q \<noteq> 0" using windowFor_range [of c q] by auto
  note a = agent_sender_start [OF assms(1) this] and r = new_relay_stream_start [OF refl, of c ag co e g i q b]
  show ?thesis
    by (rule server_receiver.run_no_stall [OF r(1,2) _ r(3) _ _ assms(2,3)]) (simp_all add: a r(4))
qed

definition sample_windows :: relay_window_config where
  "sample_windows = \<lparr>AdvertisedWindow = 0, UpdateThreshold = 0, MaxActiveStreamsPerAgent = 0\<rparr>"

definition sample_sender :: stream_state where
  "sample_sender = \<lparr>ss_id = 7, ss_status = StreamOpen, sendWindow = 524288, receiveWindow = 524288\<rparr>"

lemma sample_sender: "agent_sender 7 (windowFor sample_windows 0) = Some sample_sender"
  by (simp add: agent_sender_def NewStreamState_def OpenLocal_def sample_sender_def windowFor_def advertisedWindow_def
      NegotiateReceiveWindow_def sample_windows_def)

theorem download_integrity_witness:
  "let l = link_run rs_admit rs_take (rs_release sample_windows)
             (start_link sample_sender (new_relay_stream sample_windows ''a'' ''c'' 1 1 7 0 False, 0)) [LSend [1, 2], LDeliver, LTake 1] in
    \<not> lk_failed l \<and> lk_sent l = lk_read l @ rs_pending (lk_recv l) @ concat (lk_wire l)
    \<and> length (rs_pending (lk_recv l)) + length (concat (lk_wire l)) \<le> unat (windowFor sample_windows 0)"
  by (rule download_integrity [OF sample_sender])

theorem download_never_stalls_witness:
  "let l = link_run rs_admit rs_take (rs_release sample_windows)
             (start_link sample_sender (new_relay_stream sample_windows ''a'' ''c'' 1 1 7 0 False, 0)) [LSend [1, 2]] in
    \<exists>evs'. list_all receiver_side evs'
      \<and> lk_sent (link_run rs_admit rs_take (rs_release sample_windows) l (evs' @ [LSend [3]])) = lk_sent l @ [3]"
  by (rule download_never_stalls [OF sample_sender]) simp_all

text \<open>
  Half-close and the upload: a write for which the window has no credit waits; once the agent has closed its own
  sending half, the same wait ends with the end of file of the other direction, because it watches the same done
  signal, although a write with credit is still admitted then.
\<close>

lemma remote_half_close_ends_waiting_write:
  assumes "rs_err s = None" "\<not> rs_remoteHalf s" "\<not> rs_localHalf s" "\<not> rs_done s" "rs_sendState s = Some st" "may_send st"
  shows "case remoteHalfClose s of (complete, s') \<Rightarrow>
    (if sendWindow st = 0
     then consumeSendWindow s 1 = (ChunkWait, s) \<and> wait_done s = ChunkWait
        \<and> consumeSendWindow s' 1 = (ChunkWait, s') \<and> wait_done s' = ChunkError StreamEOF
     else fst (consumeSendWindow s' 1) = Chunk 1)"
proof -
  define s' where "s' = s\<lparr>rs_remoteHalf := True, rs_err := Some StreamEOF, rs_done := True\<rparr>"
  have r: "remoteHalfClose s = (False, s')" using assms by (simp add: remoteHalfClose_def finish_def s'_def)
  have open_st: "ConsumeSend st 1 = (if sendWindow st = 0 then (Some ErrWindowExhausted, st)
      else (None, st\<lparr>sendWindow := sendWindow st - 1\<rparr>))"
    using assms(6) by (auto simp: ConsumeSend_def may_send_def word_less_nat_alt unat_eq_0 Suc_le_eq not_less)
  have "consumeSendWindow t 1 = (if sendWindow st = 0 then (ChunkWait, t)
      else (Chunk 1, t\<lparr>rs_sendState := Some (st\<lparr>sendWindow := sendWindow st - 1\<rparr>)\<rparr>))"
    if "rs_err t = None \<or> rs_err t = Some StreamEOF" "\<not> rs_localHalf t" "rs_sendState t = Some st" for t
    using that by (auto simp: consumeSendWindow_def open_st Let_def word_less_nat_alt)
  from this [of s] this [of s'] show ?thesis using assms r by (simp add: s'_def wait_done_def)
qed

end
