(* ===== verification/Relay_Transport.thy ===== *)
theory Relay_Transport
  imports Relay_Stream
begin

text \<open>
  \<^verbatim>\<open>internal/server/agent_relay_transport.go\<close>, second part: the table that multiplexes relay streams over agent connections,
  with its wire id allocators. Streams stay reachable for their readers after they left the table, so the model keeps
  them in an object store by key and the table as the list of live keys. The operations call the session manager, whose
  state is passed along; resolving the session and entering the table are one step here.

  The facts: wire ids are never reused within one agent connection, the ceiling of live streams per agent holds, and a
  frame reaches only the stream of the connection that received it.
\<close>

section \<open>State\<close>

type_synonym relay_generation = "string \<times> string \<times> int \<times> uint64"
type_synonym relay_key = "relay_generation \<times> uint32"

record relay_transport =
  rt_windows :: relay_window_config
  rt_streams :: "relay_key list"
  rt_objects :: "relay_key \<rightharpoonup> relay_stream"
  rt_allocators :: "relay_generation \<rightharpoonup> nat"
  rt_closed :: bool

definition NewAgentRelayTransport :: "relay_window_config \<Rightarrow> relay_transport" where
  "NewAgentRelayTransport c =
     \<lparr>rt_windows = c, rt_streams = [], rt_objects = Map.empty, rt_allocators = Map.empty, rt_closed = False\<rparr>"

definition stream_key :: "relay_stream \<Rightarrow> relay_key" where
  "stream_key s = ((rs_agentID s, rs_connectionID s, rs_connectionEpoch s, rs_serverGeneration s), rs_wireID s)"

abbreviation (input) key_agent :: "relay_key \<Rightarrow> string" where "key_agent k \<equiv> fst (fst k)"
abbreviation (input) key_generation :: "relay_key \<Rightarrow> uint64" where "key_generation k \<equiv> snd (snd (snd (fst k)))"

definition agentStreamCountLocked :: "relay_transport \<Rightarrow> string \<Rightarrow> nat" where
  "agentStreamCountLocked t agentID = length (filter (\<lambda>k. key_agent k = agentID) (rt_streams t))"

definition ActiveStreamsForConnection :: "relay_transport \<Rightarrow> string \<Rightarrow> string \<Rightarrow> nat" where
  "ActiveStreamsForConnection t agentID connectionID =
     length (filter (\<lambda>k. key_agent k = agentID \<and> fst (snd (fst k)) = connectionID) (rt_streams t))"

definition detach :: "relay_transport \<Rightarrow> relay_key \<Rightarrow> relay_transport" where
  "detach t k = t\<lparr>rt_streams := filter (\<lambda>j. j \<noteq> k) (rt_streams t)\<rparr>"

definition update_stream :: "relay_transport \<Rightarrow> relay_key \<Rightarrow> (relay_stream \<Rightarrow> relay_stream) \<Rightarrow> relay_transport" where
  "update_stream t k h = t\<lparr>rt_objects := (rt_objects t)(k := map_option h (rt_objects t k))\<rparr>"

section \<open>Opening\<close>

datatype relay_open_error =
    OpenNodeDisconnected | OpenEpoch | OpenServer server_error | OpenProtocol protocol_error | OpenContext string | OpenPanic
  | errAgentRelayClosed | errAgentRelayWireIDsExhausted | ErrAgentRelayStreamCapacity

text \<open>
  The session that is to carry the stream: the agent id and the generation. \<open>OpenPanic\<close> is the dereference of a nil session
  when the case-insensitive lookup finds an agent without connections.
\<close>

definition resolve_session ::
  "(string \<Rightarrow> string \<Rightarrow> bool) \<Rightarrow> session_manager \<Rightarrow> stream_request \<Rightarrow> relay_open_error + string \<times> uint64" where
  "resolve_session uf m req =
     (let first = (if sr_CaseInsensitiveAgentID req
                   then (case GetCaseInsensitive uf m (sr_AgentID req) of
                       Inl e \<Rightarrow> Inl (OpenServer e)
                     | Inr None \<Rightarrow> Inl OpenPanic
                     | Inr (Some g) \<Rightarrow>
                       (case sm_objects m g of None \<Rightarrow> Inl OpenNodeDisconnected | Some s \<Rightarrow> Inr (as_AgentID s, g)))
                   else (case GetSession m (sr_AgentID req) of None \<Rightarrow> Inl OpenNodeDisconnected | Some g \<Rightarrow> Inr (sr_AgentID req, g))) in
      case first of Inl e \<Rightarrow> Inl e
      | Inr (agentID, g) \<Rightarrow>
        if sr_TargetConnectionID req = [] then Inr (agentID, g)
        else (case GetConnection m agentID (sr_TargetConnectionID req) of
            None \<Rightarrow> Inl OpenNodeDisconnected
          | Some h \<Rightarrow>
            (case sm_objects m h of None \<Rightarrow> Inl OpenNodeDisconnected
             | Some s \<Rightarrow>
               if sr_TargetConnectionEpoch req \<noteq> 0 \<and> as_ConnectionEpoch s \<noteq> sr_TargetConnectionEpoch req then Inl OpenEpoch
               else Inr (agentID, h))))"

text \<open>The part that holds the transport's lock: the wire id and the new stream.\<close>

definition open_locked ::
  "relay_transport \<Rightarrow> string \<Rightarrow> agent_session \<Rightarrow> uint64 \<Rightarrow> stream_request \<Rightarrow> (relay_open_error + relay_key) \<times> relay_transport" where
  "open_locked t agentID s g req =
     (if rt_closed t then (Inl errAgentRelayClosed, t)
      else (let gen = (agentID, as_ConnectionID s, as_ConnectionEpoch s, g);
                next_id = (case rt_allocators t gen of None \<Rightarrow> 0 | Some n \<Rightarrow> n);
                t1 = t\<lparr>rt_allocators := (rt_allocators t)(gen \<mapsto> next_id)\<rparr> in
            if next_id \<ge> 2 ^ 32 - 1 then (Inl errAgentRelayWireIDsExhausted, t1)
            else (let t2 = t1\<lparr>rt_allocators := (rt_allocators t1)(gen \<mapsto> next_id + 1)\<rparr> in
                  if MaxActiveStreamsPerAgent (rt_windows t) > 0
                     \<and> int (agentStreamCountLocked t agentID) \<ge> MaxActiveStreamsPerAgent (rt_windows t)
                  then (Inl ErrAgentRelayStreamCapacity, t2)
                  else (let w = of_nat (next_id + 1);
                            st = new_relay_stream (rt_windows t) agentID (as_ConnectionID s) (as_ConnectionEpoch s) g w
                                   (sr_InitialWindow req) (sr_StrictOpen req);
                            k = (gen, w) in
                        (Inr k, t2\<lparr>rt_objects := (rt_objects t2)(k \<mapsto> st), rt_streams := rt_streams t2 @ [k]\<rparr>)))))"

text \<open>Entering the table and sending the open frame; a failed send takes the stream out again.\<close>

definition open_on ::
  "int \<Rightarrow> relay_transport \<Rightarrow> session_manager \<Rightarrow> string \<Rightarrow> agent_session \<Rightarrow> uint64 \<Rightarrow> stream_request \<Rightarrow> bytes \<Rightarrow>
    (relay_open_error + relay_key) \<times> relay_transport \<times> session_manager" where
  "open_on now t m agentID s g req payload =
     (case open_locked t agentID s g req of
        (Inl e, t') \<Rightarrow> (Inl e, t', m)
      | (Inr k, t') \<Rightarrow>
        (case sendServerGeneration m now agentID g
                \<lparr>Version = CurrentVersion, FType = FrameOpenStream,
                 Flags = (if sr_StrictOpen req then FlagStrictOpen else 0), StreamID = snd k,
                 Window = windowFor (rt_windows t) (sr_InitialWindow req), Payload = payload\<rparr> of
           (Some e, m') \<Rightarrow> (Inl (OpenServer e), update_stream (detach t' k) k (\<lambda>st. finish st (StreamServer e)), m')
         | (None, m') \<Rightarrow> (Inr k, t', m')))"

definition OpenStream ::
  "(string \<Rightarrow> string \<Rightarrow> bool) \<Rightarrow> (stream_open_payload \<Rightarrow> bytes option) \<Rightarrow> string option \<Rightarrow> int \<Rightarrow>
    relay_transport \<Rightarrow> session_manager \<Rightarrow> stream_request \<Rightarrow> (relay_open_error + relay_key) \<times> relay_transport \<times> session_manager" where
  "OpenStream uf json ctxErr now t m req =
     (if sr_AgentID req = [] then (Inl OpenNodeDisconnected, t, m)
      else if \<not> EqualFold uf (sr_Protocol req) ''exec'' \<and>
              (sr_TargetHost req = [] \<or> sr_TargetPort req < 1 \<or> sr_TargetPort req > 65535)
      then (Inl OpenNodeDisconnected, t, m)
      else (case ctxErr of Some e \<Rightarrow> (Inl (OpenContext e), t, m)
        | None \<Rightarrow>
          (case resolve_session uf m req of Inl e \<Rightarrow> (Inl e, t, m)
           | Inr (agentID, g) \<Rightarrow>
             (case sm_objects m g of None \<Rightarrow> (Inl OpenNodeDisconnected, t, m)
              | Some s \<Rightarrow>
                if sr_StrictOpen req \<and> \<not> Supports s ''stream_open_result.v1'' then (Inl (OpenServer ErrCapability), t, m)
                else (case EncodeStreamOpenPayload json
                        \<lparr>so_AgentID = agentID, so_Protocol = sr_Protocol req, so_TargetHost = sr_TargetHost req,
                         so_TargetPort = sr_TargetPort req, so_TargetScheme = sr_TargetScheme req, so_HostHeader = sr_HostHeader req,
                         so_TLSServerName = sr_TLSServerName req, so_Metadata = sr_Metadata req\<rparr> of
                    Inl e \<Rightarrow> (Inl (OpenProtocol e), t, m)
                  | Inr payload \<Rightarrow> open_on now t m agentID s g req payload)))))"

section \<open>Inbound frames and teardown\<close>

text \<open>The effect of one frame on its stream: the new stream, whether it stays in the table, whether a reset is answered.\<close>

definition dispatch_frame ::
  "(bytes \<Rightarrow> open_result option) \<Rightarrow> relay_stream \<Rightarrow> frame \<Rightarrow> relay_stream \<times> bool \<times> bool" where
  "dispatch_frame unjson s f =
     (if FType f = FrameOpenResult then
        (case DecodeOpenResultPayload unjson (Payload f) of
           Inl _ \<Rightarrow> (finish s (StreamProtocol ErrInvalidFrame), False, True)
         | Inr p \<Rightarrow> (case deliverOpenResult s p of
               (True, s') \<Rightarrow> (s', True, False)
             | (False, s') \<Rightarrow> (finish s' (StreamProtocol ErrInvalidFrame), False, True)))
      else if FType f = FrameData then
        (case enqueue s (Payload f) of (None, s') \<Rightarrow> (s', True, False) | (Some e, s') \<Rightarrow> (finish s' e, False, True))
      else if FType f = FrameHalfClose then
        (let (complete, s') = remoteHalfClose s in (s', \<not> complete, False))
      else if FType f = FrameWindowUpdate then (handle_window_update s f, True, False)
      else if FType f = FrameReset then (finish s (StreamProtocol ErrStreamReset), False, False)
      else (s, True, False))"

definition handleAgentFrameGeneration ::
  "(bytes \<Rightarrow> open_result option) \<Rightarrow> int \<Rightarrow> relay_transport \<Rightarrow> session_manager \<Rightarrow> string \<Rightarrow> uint64 \<Rightarrow> frame \<Rightarrow>
    protocol_error option \<times> relay_transport \<times> session_manager" where
  "handleAgentFrameGeneration unjson now t m agentID g f =
     (case Validate f of Some e \<Rightarrow> (Some e, t, m)
      | None \<Rightarrow>
        (case getServerGeneration m g of None \<Rightarrow> (None, t, m)
         | Some _ \<Rightarrow>
           (case sm_objects m g of None \<Rightarrow> (None, t, m)
            | Some s \<Rightarrow>
              if as_closed s \<or> as_closing s then (None, t, m)
              else (let k = ((agentID, as_ConnectionID s, as_ConnectionEpoch s, g), StreamID f) in
                    if k \<notin> set (rt_streams t) then (None, t, m)
                    else (case rt_objects t k of None \<Rightarrow> (None, t, m)
                      | Some st \<Rightarrow>
                        (let (st', keep, reset) = dispatch_frame unjson st f;
                             t1 = update_stream t k (\<lambda>_. st');
                             t2 = (if keep then t1 else detach t1 k) in
                         if reset then (None, t2, snd (sendServerGeneration m now agentID g
                             \<lparr>Version = CurrentVersion, FType = FrameReset, Flags = 0, StreamID = StreamID f, Window = 0, Payload = []\<rparr>))
                         else (None, t2, m)))))))"

definition failAgentGeneration :: "relay_transport \<Rightarrow> string \<Rightarrow> uint64 \<Rightarrow> relay_transport" where
  "failAgentGeneration t agentID g =
     (let failed = filter (\<lambda>k. key_agent k = agentID \<and> key_generation k = g) (rt_streams t);
          t1 = t\<lparr>rt_streams := filter (\<lambda>k. \<not> (key_agent k = agentID \<and> key_generation k = g)) (rt_streams t)\<rparr>;
          t2 = (if failed = [] then t1 else t1\<lparr>rt_allocators := (rt_allocators t1)(fst (last failed) := None)\<rparr>) in
      foldl (\<lambda>u k. update_stream u k (\<lambda>s. finish s StreamNodeDisconnected)) t2 failed)"

definition CloseTransport :: "relay_transport \<Rightarrow> relay_transport" where
  "CloseTransport t =
     (if rt_closed t then t
      else foldl (\<lambda>u k. update_stream u k (\<lambda>s. finish s StreamRelayClosed))
             (t\<lparr>rt_closed := True, rt_streams := [], rt_allocators := Map.empty\<rparr>) (rt_streams t))"

section \<open>Runs of transport and manager\<close>

text \<open>
  \<open>REnd\<close> is what the server does when an agent connection ends: the session leaves the manager, then its streams fail.
  \<open>RLeave\<close> is a stream leaving the table at its own end (close, failed write), \<open>RStream\<close> any step of its reader or writer.
  The third component of a state logs the keys of the streams that were opened.
\<close>

datatype relay_event =
    ROpen "string option" int stream_request | RFrame int string uint64 frame | REnd string uint64
  | RLeave relay_key | RStream relay_key "relay_stream \<Rightarrow> relay_stream" | RManager mgr_event | RClose

type_synonym relay_system = "relay_transport \<times> session_manager \<times> relay_key list"

fun relay_step ::
  "(string \<Rightarrow> string \<Rightarrow> bool) \<Rightarrow> (stream_open_payload \<Rightarrow> bytes option) \<Rightarrow> (bytes \<Rightarrow> open_result option) \<Rightarrow>
    (agent_registration \<Rightarrow> server_error option) \<Rightarrow> relay_system \<Rightarrow> relay_event \<Rightarrow> relay_system" where
  "relay_step uf json unjson auth (t, m, log) (ROpen ctx now req) =
     (let (r, t', m') = OpenStream uf json ctx now t m req in
      (t', m', case r of Inl _ \<Rightarrow> log | Inr k \<Rightarrow> log @ [k]))"
| "relay_step uf json unjson auth (t, m, log) (RFrame now i g f) =
     (let (_, t', m') = handleAgentFrameGeneration unjson now t m i g f in (t', m', log))"
| "relay_step uf json unjson auth (t, m, log) (REnd i g) = (failAgentGeneration t i g, fst (RemoveSession m i g), log)"
| "relay_step uf json unjson auth (t, m, log) (RLeave k) = (detach t k, m, log)"
| "relay_step uf json unjson auth (t, m, log) (RStream k h) = (update_stream t k h, m, log)"
| "relay_step uf json unjson auth (t, m, log) (RManager ev) = (t, mgr_step auth m ev, log)"
| "relay_step uf json unjson auth (t, m, log) RClose = (CloseTransport t, m, log)"

definition relay_run where
  "relay_run uf json unjson auth st evs = foldl (relay_step uf json unjson auth) st evs"

definition dead :: "session_manager \<Rightarrow> uint64 \<Rightarrow> bool" where
  "dead m g \<longleftrightarrow> g \<le> sm_nextServerGeneration m \<and> \<not> registered m g"

definition key_owned :: "session_manager \<Rightarrow> relay_key \<Rightarrow> bool" where
  "key_owned m k \<longleftrightarrow> (\<exists>s. sm_objects m (key_generation k) = Some s \<and> as_AgentID s = key_agent k)"

text \<open>
  A key that was handed out is covered by its allocator, or its agent connection is gone, or the transport is closed.
\<close>

definition covered :: "relay_transport \<Rightarrow> session_manager \<Rightarrow> relay_key \<Rightarrow> bool" where
  "covered t m k \<longleftrightarrow> (\<exists>n. rt_allocators t (fst k) = Some n \<and> unat (snd k) \<le> n) \<or> dead m (key_generation k) \<or> rt_closed t"

definition relay_inv :: "relay_system \<Rightarrow> bool" where
  "relay_inv st \<longleftrightarrow> (case st of (t, m, log) \<Rightarrow>
     mgr_inv m \<and> distinct log \<and> (\<forall>k\<in>set log. covered t m k \<and> key_owned m k)
     \<and> distinct (rt_streams t) \<and> set (rt_streams t) \<subseteq> set log \<and> (rt_closed t \<longrightarrow> rt_streams t = []))"

lemma update_stream_simps [simp]:
  "rt_streams (update_stream t k h) = rt_streams t" "rt_allocators (update_stream t k h) = rt_allocators t"
  "rt_closed (update_stream t k h) = rt_closed t" "rt_windows (update_stream t k h) = rt_windows t"
  by (simp_all add: update_stream_def)

lemma detach_simps [simp]:
  "rt_streams (detach t k) = filter (\<lambda>j. j \<noteq> k) (rt_streams t)" "rt_allocators (detach t k) = rt_allocators t"
  "rt_closed (detach t k) = rt_closed t" "rt_windows (detach t k) = rt_windows t"
  by (simp_all add: detach_def)

lemma fold_update_stream [simp]:
  "rt_streams (foldl (\<lambda>u k. update_stream u k h) t ks) = rt_streams t"
  "rt_allocators (foldl (\<lambda>u k. update_stream u k h) t ks) = rt_allocators t"
  "rt_closed (foldl (\<lambda>u k. update_stream u k h) t ks) = rt_closed t"
  "rt_windows (foldl (\<lambda>u k. update_stream u k h) t ks) = rt_windows t"
  by (induction ks arbitrary: t) simp_all

text \<open>Keys stay covered and owned as the manager evolves.\<close>

lemma dead_evolves: "evolves m m' \<Longrightarrow> dead m g \<Longrightarrow> dead m' g"
  by (auto simp: evolves_def dead_def)

lemma key_owned_evolves: "evolves m m' \<Longrightarrow> key_owned m k \<Longrightarrow> key_owned m' k"
  unfolding evolves_def same_identities_def key_owned_def by fastforce

lemma covered_evolves: "evolves m m' \<Longrightarrow> covered t m k \<Longrightarrow> covered t m' k"
  unfolding covered_def using dead_evolves by blast

lemma relay_inv_evolves: "relay_inv (t, m, log) \<Longrightarrow> evolves m m' \<Longrightarrow> relay_inv (t, m', log)"
  using covered_evolves key_owned_evolves by (auto simp: relay_inv_def evolves_def)

text \<open>A step of the transport that only takes streams out of the table or changes them in place.\<close>

lemma relay_inv_shrinks:
  assumes "relay_inv (t, m, log)" "set (rt_streams t') \<subseteq> set (rt_streams t)" "distinct (rt_streams t')"
    "rt_allocators t' = rt_allocators t" "rt_closed t' = rt_closed t"
  shows "relay_inv (t', m, log)"
  using assms by (auto simp: relay_inv_def covered_def)

lemma sendServerGeneration_evolves: "mgr_inv m \<Longrightarrow> evolves m (snd (sendServerGeneration m now i g f))"
  by (rule evolves_in_place [OF _ in_place_sendServerGeneration])

subsection \<open>Opening\<close>

lemma GetSession_registered:
  assumes m: "mgr_inv m" and g: "GetSession m i = Some g"
  shows "registered m g \<and> (\<exists>s. sm_objects m g = Some s \<and> as_AgentID s = i)"
proof -
  have "g \<in> set (ListSessions m i)" using g by (auto simp: GetSession_def split: list.splits)
  then obtain c where "map_of (conns m i) c = Some g" using set_ListSessions [OF m] by blast
  then show ?thesis using mgr_invD(7) [OF m, of i c g] by (auto simp: registered_def)
qed

lemma resolve_session_owned:
  assumes m: "mgr_inv m" and r: "resolve_session uf m req = Inr (a, g)"
  shows "registered m g \<and> (\<exists>s. sm_objects m g = Some s \<and> as_AgentID s = a)"
proof -
  have fold: "registered m h" if "GetCaseInsensitive uf m i = Inr (Some h)" for i h
    using that GetSession_registered [OF m, of _ h] by (auto simp: GetCaseInsensitive_def split: if_splits list.splits)
  have conn: "registered m h \<and> (\<exists>s. sm_objects m h = Some s \<and> as_AgentID s = i)" if "GetConnection m i c = Some h" for i c h
    using that mgr_invD(7) [OF m, of i c h] by (auto simp: GetConnection_def registered_def split: if_splits)
  show ?thesis
  proof (cases "sr_TargetConnectionID req = []")
    case True
    then show ?thesis using r fold GetSession_registered [OF m, of "sr_AgentID req" g]
      by (auto simp: resolve_session_def split: if_splits sum.splits option.splits)
  next
    case False
    then have "GetConnection m a (sr_TargetConnectionID req) = Some g"
      using r by (auto simp: resolve_session_def split: if_splits sum.splits option.splits)
    then show ?thesis by (rule conn)
  qed
qed

lemma open_locked_cases:
  assumes "open_locked t a s g req = (r, t')"
  obtains (refused) e where "r = Inl e" "rt_streams t' = rt_streams t" "rt_closed t' = rt_closed t" "rt_windows t' = rt_windows t"
      "\<And>gen n. rt_allocators t gen = Some n \<Longrightarrow> \<exists>n'\<ge>n. rt_allocators t' gen = Some n'"
  | (opened) k n where "r = Inr k" "k = ((a, as_ConnectionID s, as_ConnectionEpoch s, g), of_nat (Suc n))" "\<not> rt_closed t"
      "n = (case rt_allocators t (fst k) of None \<Rightarrow> 0 | Some n \<Rightarrow> n)" "Suc n < 2 ^ 32"
      "rt_streams t' = rt_streams t @ [k]" "rt_allocators t' = (rt_allocators t)(fst k \<mapsto> Suc n)" "rt_closed t' = rt_closed t"
      "rt_windows t' = rt_windows t"
      "MaxActiveStreamsPerAgent (rt_windows t) > 0 \<longrightarrow>
         int (agentStreamCountLocked t a) < MaxActiveStreamsPerAgent (rt_windows t)"
proof -
  let ?gen = "(a, as_ConnectionID s, as_ConnectionEpoch s, g)"
  define n where "n = (case rt_allocators t ?gen of None \<Rightarrow> 0 | Some n \<Rightarrow> n)"
  define full where "full \<longleftrightarrow> MaxActiveStreamsPerAgent (rt_windows t) > 0
      \<and> int (agentStreamCountLocked t a) \<ge> MaxActiveStreamsPerAgent (rt_windows t)"
  show thesis
  proof (cases "rt_closed t \<or> n \<ge> 2 ^ 32 - 1 \<or> full")
    case True
    then have "(\<exists>e. r = Inl e) \<and> rt_streams t' = rt_streams t \<and> rt_closed t' = rt_closed t \<and> rt_windows t' = rt_windows t
        \<and> (rt_allocators t' = rt_allocators t \<or> rt_allocators t' = (rt_allocators t)(?gen \<mapsto> n)
           \<or> rt_allocators t' = (rt_allocators t)(?gen \<mapsto> n + 1))"
      using assms unfolding open_locked_def Let_def n_def [symmetric] full_def [symmetric] by (auto split: if_splits)
    then obtain e where "r = Inl e" "rt_streams t' = rt_streams t" "rt_closed t' = rt_closed t" "rt_windows t' = rt_windows t"
        "rt_allocators t' = rt_allocators t \<or> rt_allocators t' = (rt_allocators t)(?gen \<mapsto> n)
           \<or> rt_allocators t' = (rt_allocators t)(?gen \<mapsto> n + 1)" by blast
    then show thesis by (intro refused) (auto simp: n_def)
  next
    case False
    then show thesis
      using assms unfolding open_locked_def Let_def n_def [symmetric] full_def [symmetric]
      by (intro opened [of "(?gen, of_nat (Suc n))" n]) (auto simp: n_def full_def split: if_splits)
  qed
qed

lemma relay_inv_open_locked:
  assumes inv: "relay_inv (t, m, log)" and own: "registered m g" "sm_objects m g = Some s" "as_AgentID s = a"
    and r: "open_locked t a s g req = (r, t')"
  shows "case r of Inl _ \<Rightarrow> relay_inv (t', m, log) | Inr k \<Rightarrow> relay_inv (t', m, log @ [k])"
  using r
proof (cases rule: open_locked_cases)
  case (refused e)
  have "covered t' m k" if "covered t m k" for k
    using that refused(3,5) by (fastforce simp: covered_def)
  then show ?thesis using inv refused by (auto simp: relay_inv_def)
next
  case (opened k n)
  have w: "unat (snd k) = Suc n" using opened(2,5) by (simp add: unat_of_nat del: of_nat_Suc)
  have live: "\<not> dead m g" "\<not> rt_closed t" using own(1) opened(3) by (simp_all add: dead_def)
  have fresh: "k \<notin> set log"
  proof
    assume "k \<in> set log"
    then have "covered t m k" using inv by (simp add: relay_inv_def)
    moreover have "key_generation k = g" using opened(2) by simp
    ultimately obtain n' where "rt_allocators t (fst k) = Some n'" "unat (snd k) \<le> n'" using live unfolding covered_def by metis
    then show False using opened(4) w by simp
  qed
  have grows: "\<exists>n2\<ge>n1. rt_allocators t' gen = Some n2" if "rt_allocators t gen = Some n1" for gen n1
    using that opened(4,7) by (cases "gen = fst k") simp_all
  have "covered t' m j" if "covered t m j" for j
    using that grows opened(8) unfolding covered_def by (meson le_trans)
  moreover have "covered t' m k" using opened(7) w by (simp add: covered_def)
  moreover have "key_owned m k" using own opened(2) by (simp add: key_owned_def)
  ultimately show ?thesis using inv fresh opened(1,3,6,8) by (auto simp: relay_inv_def)
qed

lemma relay_inv_unlog: "relay_inv (t, m, log @ [k]) \<Longrightarrow> relay_inv (update_stream (detach t k) k h, m, log)"
  by (auto simp: relay_inv_def covered_def)

lemma relay_inv_open_on:
  assumes inv: "relay_inv (t, m, log)" and own: "registered m g" "sm_objects m g = Some s" "as_AgentID s = a"
    and r: "open_on now t m a s g req payload = (r, t', m')"
  shows "relay_inv (t', m', case r of Inl _ \<Rightarrow> log | Inr k \<Rightarrow> log @ [k])"
proof -
  have m: "mgr_inv m" using inv by (simp add: relay_inv_def)
  obtain q t1 where o: "open_locked t a s g req = (q, t1)" by fastforce
  note l = relay_inv_open_locked [OF inv own o]
  show ?thesis
  proof (cases q)
    case (Inl e)
    then show ?thesis using r l o by (auto simp: open_on_def)
  next
    case (Inr k)
    then have i: "relay_inv (t1, m, log @ [k])" using l by simp
    define f where "f = \<lparr>Version = CurrentVersion, FType = FrameOpenStream,
      Flags = (if sr_StrictOpen req then FlagStrictOpen else 0), StreamID = snd k,
      Window = windowFor (rt_windows t) (sr_InitialWindow req), Payload = payload\<rparr>"
    obtain e m1 where snd: "sendServerGeneration m now a g f = (e, m1)" by fastforce
    have "evolves m m1" using sendServerGeneration_evolves [OF m, of now a g f] snd by simp
    note i' = relay_inv_evolves [OF i this]
    show ?thesis
      using r o Inr snd i' relay_inv_unlog [OF i'] by (cases e) (auto simp: open_on_def f_def)
  qed
qed

lemma OpenStream_cases:
  assumes "OpenStream uf json ctx now t m req = (r, t', m')"
  obtains (refused) e where "r = Inl e" "t' = t" "m' = m"
  | (attempted) a g s payload where "resolve_session uf m req = Inr (a, g)" "sm_objects m g = Some s"
      "open_on now t m a s g req payload = (r, t', m')"
  using assms unfolding OpenStream_def by (auto split: if_splits option.splits sum.splits)

lemma relay_inv_open:
  assumes inv: "relay_inv (t, m, log)" and r: "OpenStream uf json ctx now t m req = (r, t', m')"
  shows "relay_inv (t', m', case r of Inl _ \<Rightarrow> log | Inr k \<Rightarrow> log @ [k])"
  using r
proof (cases rule: OpenStream_cases)
  case (refused e)
  then show ?thesis using inv by simp
next
  case (attempted a g s payload)
  have "mgr_inv m" using inv by (simp add: relay_inv_def)
  then have "registered m g" "as_AgentID s = a" using resolve_session_owned [OF _ attempted(1)] attempted(2) by auto
  then show ?thesis using relay_inv_open_on [OF inv _ attempted(2) _ attempted(3)] by blast
qed

subsection \<open>Frames and teardown\<close>

lemma handle_frame_cases:
  assumes "handleAgentFrameGeneration unjson now t m i g f = (e, t', m')"
  obtains (ignored) "t' = t" "m' = m"
  | (handled) s k st st' keep reset where "getServerGeneration m g \<noteq> None" "sm_objects m g = Some s" "\<not> as_closed s" "\<not> as_closing s"
      "k = ((i, as_ConnectionID s, as_ConnectionEpoch s, g), StreamID f)" "k \<in> set (rt_streams t)" "rt_objects t k = Some st"
      "dispatch_frame unjson st f = (st', keep, reset)"
      "t' = (if keep then update_stream t k (\<lambda>_. st') else detach (update_stream t k (\<lambda>_. st')) k)"
      "m' = m \<or> (\<exists>h. m' = snd (sendServerGeneration m now i g h))"
proof (cases "\<exists>s st. Validate f = None \<and> getServerGeneration m g \<noteq> None \<and> sm_objects m g = Some s \<and> \<not> as_closed s \<and> \<not> as_closing s
    \<and> ((i, as_ConnectionID s, as_ConnectionEpoch s, g), StreamID f) \<in> set (rt_streams t)
    \<and> rt_objects t ((i, as_ConnectionID s, as_ConnectionEpoch s, g), StreamID f) = Some st")
  case False
  then have "t' = t \<and> m' = m"
    using assms unfolding handleAgentFrameGeneration_def Let_def by (auto split: option.splits if_splits)
  then show thesis using ignored by blast
next
  case True
  then obtain s st where c: "Validate f = None" "getServerGeneration m g \<noteq> None" "sm_objects m g = Some s" "\<not> as_closed s" "\<not> as_closing s"
    "((i, as_ConnectionID s, as_ConnectionEpoch s, g), StreamID f) \<in> set (rt_streams t)"
    "rt_objects t ((i, as_ConnectionID s, as_ConnectionEpoch s, g), StreamID f) = Some st" by blast
  obtain st' keep reset where d: "dispatch_frame unjson st f = (st', keep, reset)" by (cases "dispatch_frame unjson st f")
  from assms c d show thesis
    by (intro handled [OF c(2-5) refl c(6,7) d])
      (auto simp: handleAgentFrameGeneration_def Let_def split: if_splits option.splits)
qed

lemma relay_inv_frame:
  assumes inv: "relay_inv (t, m, log)" and r: "handleAgentFrameGeneration unjson now t m i g f = (e, t', m')"
  shows "relay_inv (t', m', log)"
  using r
proof (cases rule: handle_frame_cases)
  case ignored
  then show ?thesis using inv by simp
next
  case (handled s k st st' keep reset)
  have m: "mgr_inv m" using inv by (simp add: relay_inv_def)
  have "relay_inv (t', m, log)"
    by (rule relay_inv_shrinks [OF inv]) (use inv handled(9) in \<open>auto simp: relay_inv_def\<close>)
  moreover have "evolves m m'" using handled(10) sendServerGeneration_evolves [OF m] evolves_refl [OF m] by auto
  ultimately show ?thesis by (rule relay_inv_evolves)
qed

text \<open>When an agent connection ends its generation is dead before its allocator goes.\<close>

lemma relay_inv_end:
  assumes inv: "relay_inv (t, m, log)"
  shows "relay_inv (failAgentGeneration t i g, fst (RemoveSession m i g), log)"
proof -
  define m' where "m' = fst (RemoveSession m i g)"
  define t' where "t' = failAgentGeneration t i g"
  have m: "mgr_inv m" using inv by (simp add: relay_inv_def)
  have ev: "evolves m m'" unfolding m'_def by (rule evolves_removes(2) [OF m])
  have inv': "relay_inv (t, m', log)" by (rule relay_inv_evolves [OF inv ev])
  have gone: "dead m' g" if own: "sm_objects m g = Some s" "as_AgentID s = i" for s
  proof -
    have le: "g \<le> sm_nextServerGeneration m'" using mgr_invD(9) [OF m] own ev by (fastforce simp: evolves_def)
    have here: "map_of (conns m i) (as_ConnectionID s) = Some g" if "registered m g"
      using that mgr_invD(7) [OF m, of _ _ g] own by (fastforce simp: registered_def)
    obtain marks where r: "RemoveSession m i g = (m', marks)" using m'_def by (cases "RemoveSession m i g") simp
    have "\<not> registered m' g"
    proof
      assume reg: "registered m' g"
      then have "registered m g" using ev mgr_invD(9) [OF m, of g] own by (auto simp: evolves_def)
      note h = here [OF this]
      then have c: "conns m' = (conns m)(i := AList.delete (as_ConnectionID s) (conns m i))"
        using RemoveSession_spec [OF m r] own by auto
      from reg obtain j c' where j: "map_of (conns m' j) c' = Some g" by (auto simp: registered_def)
      then have "map_of (conns m j) c' = Some g" "(j, c') \<noteq> (i, as_ConnectionID s)"
        using c by (auto simp: AList.delete_conv' split: if_splits)
      then show False using generation_unique [OF m _ h] by blast
    qed
    then show ?thesis using le by (simp add: dead_def)
  qed
  have t': "rt_streams t' = filter (\<lambda>k. \<not> (key_agent k = i \<and> key_generation k = g)) (rt_streams t)" "rt_closed t' = rt_closed t"
    and alloc: "rt_allocators t' gen = rt_allocators t gen
      \<or> (\<exists>k\<in>set (rt_streams t). gen = fst k \<and> key_agent k = i \<and> key_generation k = g)" for gen
  proof -
    show "rt_streams t' = filter (\<lambda>k. \<not> (key_agent k = i \<and> key_generation k = g)) (rt_streams t)" "rt_closed t' = rt_closed t"
      by (simp_all add: t'_def failAgentGeneration_def Let_def)
    show "rt_allocators t' gen = rt_allocators t gen
      \<or> (\<exists>k\<in>set (rt_streams t). gen = fst k \<and> key_agent k = i \<and> key_generation k = g)"
      using last_in_set [of "filter (\<lambda>k. key_agent k = i \<and> key_generation k = g) (rt_streams t)"]
      by (auto simp: t'_def failAgentGeneration_def Let_def split: if_splits)
  qed
  have "covered t' m' k" if k: "k \<in> set log" for k
  proof (cases "rt_allocators t' (fst k) = rt_allocators t (fst k)")
    case True
    have "covered t m' k" using inv' k by (simp add: relay_inv_def)
    then show ?thesis using t'(2) True by (simp add: covered_def)
  next
    case False
    then have a: "key_agent k = i" "key_generation k = g" using alloc [of "fst k"] by auto
    have "key_owned m k" using inv k by (simp add: relay_inv_def)
    then show ?thesis using gone a by (auto simp: key_owned_def covered_def)
  qed
  then show ?thesis using inv' t' unfolding m'_def [symmetric] t'_def [symmetric] by (auto simp: relay_inv_def)
qed

lemma relay_inv_close: "relay_inv (t, m, log) \<Longrightarrow> relay_inv (CloseTransport t, m, log)"
  by (auto simp: relay_inv_def CloseTransport_def covered_def)

lemma relay_inv_in_table:
  assumes "relay_inv (t, m, log)"
  shows "relay_inv (detach t k, m, log)" "relay_inv (update_stream t k h, m, log)"
  by (rule relay_inv_shrinks [OF assms]; use assms in \<open>auto simp: relay_inv_def\<close>)+

lemma relay_inv_step: "relay_inv st \<Longrightarrow> relay_inv (relay_step uf json unjson auth st ev)"
proof -
  assume inv: "relay_inv st"
  obtain t m log where st: "st = (t, m, log)" by (cases st)
  note inv' = inv [unfolded st]
  show ?thesis unfolding st
  proof (cases ev)
    case (ROpen ctx now req)
    obtain r t' m' where "OpenStream uf json ctx now t m req = (r, t', m')" by (cases "OpenStream uf json ctx now t m req")
    then show "relay_inv (relay_step uf json unjson auth (t, m, log) ev)" using relay_inv_open [OF inv'] ROpen by simp
  next
    case (RFrame now i g f)
    obtain e t' m' where "handleAgentFrameGeneration unjson now t m i g f = (e, t', m')"
      by (cases "handleAgentFrameGeneration unjson now t m i g f")
    then show "relay_inv (relay_step uf json unjson auth (t, m, log) ev)" using relay_inv_frame [OF inv'] RFrame by simp
  next
    case (RManager e)
    have "mgr_inv m" using inv' by (simp add: relay_inv_def)
    then show "relay_inv (relay_step uf json unjson auth (t, m, log) ev)" using relay_inv_evolves [OF inv' evolves_step] RManager by simp
  qed (simp_all add: relay_inv_end [OF inv'] relay_inv_close [OF inv'] relay_inv_in_table [OF inv'])
qed

lemma relay_inv_start: "relay_inv (NewAgentRelayTransport c, NewAgentSessionManager caps q n, [])"
  by (simp add: relay_inv_def NewAgentRelayTransport_def mgr_inv_New)

lemma relay_inv_run: "relay_inv st \<Longrightarrow> relay_inv (relay_run uf json unjson auth st evs)"
  unfolding relay_run_def by (induction evs arbitrary: st) (simp_all only: foldl_Nil foldl_Cons relay_inv_step)

section \<open>Properties\<close>

text \<open>
  C18. Wire ids are never reused: in any run of the transport and the session manager, with agents connecting,
  reconnecting and leaving and streams opening and ending in any order, no two streams are ever opened under the same
  agent connection and wire id; every live stream is one that was opened, and it is listed once.
\<close>

theorem wire_ids_never_reused:
  "case relay_run uf json unjson auth (NewAgentRelayTransport c, NewAgentSessionManager caps q n, []) evs of (t, m, keys) \<Rightarrow>
     distinct keys \<and> set (rt_streams t) \<subseteq> set keys \<and> distinct (rt_streams t)"
  using relay_inv_run [OF relay_inv_start, of uf json unjson auth c caps q n evs] by (auto simp: relay_inv_def split: prod.splits)

text \<open>The number of live streams of an agent.\<close>

definition within_ceiling :: "relay_transport \<Rightarrow> bool" where
  "within_ceiling t \<longleftrightarrow> MaxActiveStreamsPerAgent (rt_windows t) > 0 \<longrightarrow>
     (\<forall>a. int (agentStreamCountLocked t a) \<le> MaxActiveStreamsPerAgent (rt_windows t))"

lemma count_filter_le: "length (filter P (filter Q xs)) \<le> length (filter P xs)"
  by (induction xs) auto

lemma within_ceiling_shrinks:
  assumes "within_ceiling t" "rt_windows t' = rt_windows t" "rt_streams t' = rt_streams t \<or> (\<exists>P. rt_streams t' = filter P (rt_streams t))"
  shows "within_ceiling t'"
proof -
  have "agentStreamCountLocked t' a \<le> agentStreamCountLocked t a" for a
    using assms(3) count_filter_le [of "\<lambda>k. key_agent k = a" _ "rt_streams t"] by (auto simp: agentStreamCountLocked_def)
  then show ?thesis using assms(1,2) unfolding within_ceiling_def by (metis (no_types) of_nat_le_iff order_trans)
qed

lemma within_ceiling_in_table: "within_ceiling t \<Longrightarrow> within_ceiling (detach t k)" "within_ceiling t \<Longrightarrow> within_ceiling (update_stream t k h)"
  by (rule within_ceiling_shrinks; force)+

lemma within_ceiling_open_locked:
  assumes "within_ceiling t" "open_locked t a s g req = (r, t')"
  shows "within_ceiling t' \<and> rt_windows t' = rt_windows t"
  using assms(2)
proof (cases rule: open_locked_cases)
  case (refused e)
  then show ?thesis using within_ceiling_shrinks [OF assms(1)] by simp
next
  case (opened k n)
  have "agentStreamCountLocked t' b = agentStreamCountLocked t b + (if b = a then 1 else 0)" for b
    using opened(2,6) by (simp add: agentStreamCountLocked_def)
  then show ?thesis using assms(1) opened(9,10) by (auto simp: within_ceiling_def)
qed

lemma within_ceiling_step:
  assumes c: "within_ceiling t" and r: "relay_step uf json unjson auth (t, m, log) ev = (t', m', log')"
  shows "within_ceiling t' \<and> rt_windows t' = rt_windows t"
proof (cases ev)
  case (ROpen ctx now req)
  obtain q where "OpenStream uf json ctx now t m req = (q, t', m')"
    using r ROpen by (auto split: prod.splits)
  then show ?thesis
  proof (cases rule: OpenStream_cases)
    case (attempted a g s payload)
    obtain u t1 where o: "open_locked t a s g req = (u, t1)" by fastforce
    have "rt_windows t' = rt_windows t1 \<and> (rt_streams t' = rt_streams t1 \<or> (\<exists>P. rt_streams t' = filter P (rt_streams t1)))"
      using attempted(3) o by (auto simp: open_on_def split: sum.splits prod.splits option.splits)
    then show ?thesis using within_ceiling_open_locked [OF c o] within_ceiling_shrinks [of t1 t'] by auto
  qed (use c in simp)
next
  case (RFrame now i g f)
  obtain e where "handleAgentFrameGeneration unjson now t m i g f = (e, t', m')" using r RFrame by (auto split: prod.splits)
  then show ?thesis
  proof (cases rule: handle_frame_cases)
    case (handled s k st st' keep reset)
    then show ?thesis using c by (simp add: within_ceiling_in_table)
  qed (use c in simp)
next
  case (REnd i g)
  have "\<exists>P. rt_streams t' = filter P (rt_streams t)" "rt_windows t' = rt_windows t"
    using r REnd by (auto simp: failAgentGeneration_def Let_def)
  then show ?thesis using within_ceiling_shrinks [OF c] by blast
next
  case RClose
  have "rt_streams t' = rt_streams t \<or> rt_streams t' = filter (\<lambda>_. False) (rt_streams t)" "rt_windows t' = rt_windows t"
    using r RClose by (auto simp: CloseTransport_def)
  then show ?thesis using within_ceiling_shrinks [OF c] by blast
qed (use r c in \<open>auto simp: within_ceiling_in_table\<close>)

text \<open>
  The stream ceiling: with a positive limit configured, no agent ever has more live streams on the node than the
  limit, across all its connections and in any run.
\<close>

lemma stream_ceiling:
  assumes "MaxActiveStreamsPerAgent c > 0"
  shows "case relay_run uf json unjson auth (NewAgentRelayTransport c, NewAgentSessionManager caps q n, []) evs of (t, m, keys) \<Rightarrow>
     int (agentStreamCountLocked t a) \<le> MaxActiveStreamsPerAgent c"
proof -
  have run: "case relay_run uf json unjson auth (t, m, log) evs of (t', _) \<Rightarrow> within_ceiling t' \<and> rt_windows t' = rt_windows t"
    if "within_ceiling t" for t m log
    using that unfolding relay_run_def
  proof (induction evs arbitrary: t m log)
    case (Cons ev evs)
    obtain t' m' log' where s: "relay_step uf json unjson auth (t, m, log) ev = (t', m', log')"
      by (cases "relay_step uf json unjson auth (t, m, log) ev")
    show ?case using Cons.IH [of t' m' log'] within_ceiling_step [OF Cons.prems s] s by (auto split: prod.splits)
  qed simp
  have "within_ceiling (NewAgentRelayTransport c)"
    by (simp add: within_ceiling_def NewAgentRelayTransport_def agentStreamCountLocked_def)
  from run [OF this, of "NewAgentSessionManager caps q n" "[]"] assms show ?thesis
    by (auto simp: within_ceiling_def NewAgentRelayTransport_def split: prod.splits)
qed

definition untouched :: "relay_transport \<Rightarrow> relay_transport \<Rightarrow> relay_key \<Rightarrow> bool" where
  "untouched t t' k \<longleftrightarrow> rt_objects t' k = rt_objects t k \<and> (k \<in> set (rt_streams t') \<longleftrightarrow> k \<in> set (rt_streams t))"

text \<open>
  C28. A frame reaches only its own stream: handling a frame that arrived on a connection leaves every stream of another
  connection, and every stream with another wire id, exactly as it was; a frame from a connection that is no longer
  registered changes nothing at all.
\<close>

theorem frame_reaches_only_its_stream:
  "case handleAgentFrameGeneration unjson now t m i g f of (e, t', m') \<Rightarrow>
     (untouched t t' k \<or> (key_generation k = g \<and> key_agent k = i \<and> snd k = StreamID f))
     \<and> (getServerGeneration m g = None \<longrightarrow> t' = t \<and> m' = m)"
proof -
  obtain e t' m' where r: "handleAgentFrameGeneration unjson now t m i g f = (e, t', m')"
    by (cases "handleAgentFrameGeneration unjson now t m i g f")
  then show ?thesis
  proof (cases rule: handle_frame_cases)
    case ignored
    then show ?thesis using r by (simp add: untouched_def)
  next
    case (handled s key st st' keep reset)
    have "untouched t t' k" if "k \<noteq> key" using that handled(9) by (simp add: untouched_def update_stream_def detach_def)
    then show ?thesis using r handled(1,5) by (cases "k = key") auto
  qed
qed

theorem frame_reaches_only_its_stream_witness:
  "case handleAgentFrameGeneration (\<lambda>_. None) 0 (NewAgentRelayTransport sample_windows) (NewAgentSessionManager [] 4 1) ''a'' 1 (sample_data 3 [1]) of
     (e, t', m') \<Rightarrow> t' = NewAgentRelayTransport sample_windows \<and> m' = NewAgentSessionManager [] 4 1"
  using frame_reaches_only_its_stream [where unjson = "\<lambda>_. None" and now = 0 and t = "NewAgentRelayTransport sample_windows"
      and m = "NewAgentSessionManager [] 4 1" and i = "''a''" and g = 1 and f = "sample_data 3 [1]"]
  by (auto simp: getServerGeneration_def NewAgentSessionManager_def split: prod.splits)

end
