(* ===== verification/Agent_Stream.thy ===== *)
theory Agent_Stream
  imports Flow_Control Bounded_Queue
begin

text \<open>
  \<^verbatim>\<open>internal/agent/session.go\<close>, first part: one stream of the agent's dispatcher, its \<^verbatim>\<open>streamEntry\<close>. Data from the server is
  counted against the receive window and queued (\<^verbatim>\<open>admitInbound\<close>); a pump writes one frame at a time to the target
  connection and returns credit (\<^verbatim>\<open>pumpTarget\<close>, \<^verbatim>\<open>releaseReceiveWindow\<close>); the other direction waits for send credit before it
  sends a frame (\<^verbatim>\<open>waitForSendWindow\<close>).

  The entry is interpreted as a \<^verbatim>\<open>credit_receiver\<close> for inbound buffers that hold the advertised window; for smaller ones,
  which the configuration accepts, the guarantee fails.
\<close>

section \<open>Entry\<close>

record stream_entry =
  se_protocol :: string
  se_generation :: "64 word"
  se_localHalf :: bool
  se_remoteHalf :: bool
  se_sendState :: "stream_state option"
  se_receiveState :: "stream_state option"
  se_receiveUnacked :: uint32
  se_inbound :: bounded_queue
  se_windowSignal :: bool
  se_connClosed :: bool

datatype agent_stream_error = errInboundQueueFull | AgentProtocol protocol_error

definition data_frame :: "uint32 \<Rightarrow> bytes \<Rightarrow> frame" where
  "data_frame i p = \<lparr>Version = CurrentVersion, FType = FrameData, Flags = 0, StreamID = i, Window = 0, Payload = p\<rparr>"

definition half_close_frame :: "uint32 \<Rightarrow> frame" where
  "half_close_frame i = \<lparr>Version = CurrentVersion, FType = FrameHalfClose, Flags = 0, StreamID = i, Window = 0, Payload = []\<rparr>"

definition admitInbound :: "int \<Rightarrow> uint32 \<Rightarrow> stream_entry \<Rightarrow> bytes \<Rightarrow> agent_stream_error option \<times> stream_entry" where
  "admitInbound now i e p =
     (let (err, e1) = (case se_receiveState e of None \<Rightarrow> (None, e)
                       | Some st \<Rightarrow> (case Handle st (data_frame i p) of (err, st') \<Rightarrow> (err, e\<lparr>se_receiveState := Some st'\<rparr>))) in
      case err of Some x \<Rightarrow> (Some (AgentProtocol x), e1)
      | None \<Rightarrow>
        (case TryPush now (se_inbound e1) (data_frame i p) of
           None \<Rightarrow> (Some errInboundQueueFull, e1)
         | Some q \<Rightarrow> (None, e1\<lparr>se_inbound := q\<rparr>)))"

text \<open>The window update that is to be sent, or \<open>0\<close>.\<close>

definition agent_releaseReceiveWindow :: "stream_entry \<Rightarrow> int \<Rightarrow> uint32 \<times> stream_entry" where
  "agent_releaseReceiveWindow e n =
     (case se_receiveState e of None \<Rightarrow> (0, e)
      | Some st \<Rightarrow>
        if n \<le> 0 then (0, e)
        else (let unacked = se_receiveUnacked e + of_int n in
              if ShouldFlushWindowUpdate (receiveWindow st) unacked (of_nat DefaultWindowUpdateThreshold)
              then (case AddReceiveWindow st unacked of
                  (None, st') \<Rightarrow> (unacked, e\<lparr>se_receiveUnacked := 0, se_receiveState := Some st'\<rparr>)
                | (Some _, st') \<Rightarrow> (0, e\<lparr>se_receiveUnacked := 0, se_receiveState := Some st'\<rparr>))
              else (0, e\<lparr>se_receiveUnacked := unacked\<rparr>)))"

text \<open>One pass of \<^verbatim>\<open>waitForSendWindow\<close>: \<open>Inr False\<close> waits.\<close>

definition waitForSendWindow :: "stream_entry \<Rightarrow> int \<Rightarrow> (protocol_error + bool) \<times> stream_entry" where
  "waitForSendWindow e n =
     (case se_sendState e of None \<Rightarrow> (Inr True, e)
      | Some st \<Rightarrow>
        (case ConsumeSend st (of_int n) of
           (None, st') \<Rightarrow> (Inr True, e\<lparr>se_sendState := Some st'\<rparr>)
         | (Some err, _) \<Rightarrow> if err \<noteq> ErrWindowExhausted then (Inl err, e) else (Inr False, e)))"

definition stopInbound :: "stream_entry \<Rightarrow> stream_entry" where
  "stopInbound e = e\<lparr>se_inbound := CloseQueue (se_inbound e)\<rparr>"

definition finishInbound :: "stream_entry \<Rightarrow> stream_entry" where
  "finishInbound e = e\<lparr>se_inbound := CloseAfterDrain (se_inbound e)\<rparr>"

text \<open>The entry that a successful dial creates.\<close>

definition opened_state :: "uint32 \<Rightarrow> uint32 \<Rightarrow> stream_state option" where
  "opened_state i w = (case NewStreamState i w of Inl _ \<Rightarrow> None | Inr st \<Rightarrow> Some (snd (OpenLocal st)))"

definition new_entry :: "uint32 \<Rightarrow> string \<Rightarrow> 64 word \<Rightarrow> int \<Rightarrow> uint32 \<Rightarrow> stream_entry" where
  "new_entry i protocol generation inboundBytes initialWindow =
     \<lparr>se_protocol = protocol, se_generation = generation, se_localHalf = False, se_remoteHalf = False,
      se_sendState = (if initialWindow > 0 then opened_state i initialWindow else None),
      se_receiveState = (if initialWindow > 0 then opened_state i (of_nat DefaultAgentReceiveWindow) else None),
      se_receiveUnacked = 0, se_inbound = NewBoundedFrameQueue inboundBytes, se_windowSignal = False, se_connClosed = False\<rparr>"

section \<open>The entry as a receiver of credit\<close>

text \<open>The second component is the pump's local count of bytes written to the target and not yet accounted for.\<close>

definition ag_admit :: "int \<Rightarrow> uint32 \<Rightarrow> stream_entry \<times> nat \<Rightarrow> bytes \<Rightarrow> (stream_entry \<times> nat) option" where
  "ag_admit now i r p = (case admitInbound now i (fst r) p of (None, e) \<Rightarrow> Some (e, snd r) | (Some _, _) \<Rightarrow> None)"

definition ag_take :: "int \<Rightarrow> stream_entry \<times> nat \<Rightarrow> nat \<Rightarrow> bytes \<times> stream_entry \<times> nat" where
  "ag_take now r k =
     (if snd r \<noteq> 0 then ([], r)
      else (case Pop now (se_inbound (fst r)) of
          Popped f q \<Rightarrow> (Payload f, (fst r)\<lparr>se_inbound := q\<rparr>, length (Payload f))
        | _ \<Rightarrow> ([], r)))"

definition ag_release :: "stream_entry \<times> nat \<Rightarrow> uint32 \<times> stream_entry \<times> nat" where
  "ag_release r = (let (u, e) = agent_releaseReceiveWindow (fst r) (int (snd r)) in (u, e, 0))"

definition ag_pending :: "stream_entry \<times> nat \<Rightarrow> bytes" where
  "ag_pending r = concat (map Payload (frames (se_inbound (fst r))))"

definition ag_unacked :: "stream_entry \<times> nat \<Rightarrow> nat" where
  "ag_unacked r = unat (se_receiveUnacked (fst r))"

definition ag_window :: "stream_entry \<times> nat \<Rightarrow> nat" where
  "ag_window r = DefaultAgentReceiveWindow"

definition ag_inv :: "uint32 \<Rightarrow> stream_entry \<times> nat \<Rightarrow> bool" where
  "ag_inv i r \<longleftrightarrow> i \<noteq> 0 \<and> queue_inv (se_inbound (fst r)) \<and> int DefaultAgentReceiveWindow \<le> maxBytes (se_inbound (fst r))
     \<and> \<not> qclosed (se_inbound (fst r)) \<and> list_all (\<lambda>f. Payload f \<noteq> []) (frames (se_inbound (fst r)))
     \<and> unat (se_receiveUnacked (fst r)) < DefaultWindowUpdateThreshold
     \<and> (\<exists>st. se_receiveState (fst r) = Some st \<and> ss_id st = i \<and> (ss_status st = StreamOpen \<or> ss_status st = StreamHalfClosedLocal)
          \<and> unat (receiveWindow st) + length (ag_pending r) + snd r + ag_unacked r = DefaultAgentReceiveWindow)"

lemmas ag_defs = ag_admit_def ag_take_def ag_release_def ag_unacked_def ag_window_def ag_inv_def

lemma int_ag_pending: "payload_bytes (frames (se_inbound (fst r))) = int (length (ag_pending r))"
proof -
  have "payload_bytes fs = int (length (concat (map Payload fs)))" for fs by (induction fs) simp_all
  then show ?thesis by (simp add: ag_pending_def)
qed

lemma frame_count_le_bytes: "list_all (\<lambda>f. Payload f \<noteq> []) fs \<Longrightarrow> int (length fs) \<le> payload_bytes fs"
proof (induction fs)
  case (Cons f fs)
  then have "1 \<le> int (length (Payload f))" by (cases "Payload f") simp_all
  then show ?case using Cons by simp
qed simp

lemma Handle_data:
  assumes "i \<noteq> 0" "ss_id st = i" "ss_status st = StreamOpen \<or> ss_status st = StreamHalfClosedLocal" "length p \<le> MaxPayload"
    "length p \<le> unat (receiveWindow st)"
  shows "\<exists>st'. Handle st (data_frame i p) = (None, st') \<and> ss_id st' = ss_id st \<and> ss_status st' = ss_status st
    \<and> unat (receiveWindow st') + length p = unat (receiveWindow st)"
proof -
  have v: "Validate (data_frame i p) = None"
    using assms(1,4) by (simp add: Validate_None_iff data_frame_def isMetadataFrame_def isTraceFrame_def knownFrameType_def)
  have n: "unat (of_nat (length p) :: uint32) = length p" using assms(4) by (simp add: unat_of_nat MaxPayload_def)
  have le: "of_nat (length p) \<le> receiveWindow st" using assms(5) n by (simp add: word_le_nat_alt)
  have "Handle st (data_frame i p) = (None, st\<lparr>receiveWindow := receiveWindow st - of_nat (length p)\<rparr>)"
    using assms(2,3) v le by (auto simp: Handle_def data_frame_def consumeReceive_def not_less)
  then show ?thesis using unat_diff_fits [OF le] n by simp
qed

lemma ag_admit_fits:
  assumes inv: "ag_inv i r" and p: "p \<noteq> []" "length p \<le> MaxPayload"
    and room: "length (ag_pending r) + snd r + ag_unacked r + length p \<le> ag_window r"
  shows "\<exists>r'. ag_admit now i r p = Some r' \<and> ag_inv i r' \<and> ag_pending r' = ag_pending r @ p \<and> snd r' = snd r
    \<and> ag_unacked r' = ag_unacked r \<and> ag_window r' = ag_window r"
proof -
  let ?e = "fst r" and ?q = "se_inbound (fst r)"
  obtain st where st: "se_receiveState ?e = Some st" "ss_id st = i" "ss_status st = StreamOpen \<or> ss_status st = StreamHalfClosedLocal"
    "unat (receiveWindow st) + length (ag_pending r) + snd r + ag_unacked r = DefaultAgentReceiveWindow"
    using inv by (auto simp: ag_inv_def)
  have "length p \<le> unat (receiveWindow st)" using st(4) room by (simp add: ag_window_def)
  then obtain st' where h: "Handle st (data_frame i p) = (None, st')" "ss_id st' = ss_id st" "ss_status st' = ss_status st"
    "unat (receiveWindow st') + length p = unat (receiveWindow st)"
    using Handle_data [of i st p] inv st p by (auto simp: ag_inv_def)
  have bytes: "payload_bytes (frames ?q) + int (length p) \<le> maxBytes ?q" "int (length (frames ?q)) < maxBytes ?q"
  proof -
    have "int (length (ag_pending r)) + int (length p) \<le> int DefaultAgentReceiveWindow" using room by (simp add: ag_window_def)
    then show b: "payload_bytes (frames ?q) + int (length p) \<le> maxBytes ?q" using inv by (simp add: int_ag_pending ag_inv_def)
    have "int (length (frames ?q)) \<le> payload_bytes (frames ?q)" using inv frame_count_le_bytes by (simp add: ag_inv_def)
    then show "int (length (frames ?q)) < maxBytes ?q" using b p(1) by (cases p) simp_all
  qed
  have "queue_inv ?q" "\<not> qclosed ?q" using inv by (auto simp: ag_inv_def)
  then obtain q where q: "TryPush now ?q (data_frame i p) = Some q"
    using TryPush_total [of ?q "data_frame i p" now] bytes by (auto simp: data_frame_def)
  have q': "frames q = frames ?q @ [data_frame i p]" "maxBytes q = maxBytes ?q" "qclosed q = qclosed ?q" "queue_inv q"
    using q queue_inv_push [OF \<open>queue_inv ?q\<close> q] by (auto simp: TryPush_Some)
  define r' where "r' = (?e\<lparr>se_receiveState := Some st', se_inbound := q\<rparr>, snd r)"
  have a: "ag_admit now i r p = Some r'" using st(1) h(1) q by (simp add: ag_admit_def admitInbound_def r'_def)
  have pend: "ag_pending r' = ag_pending r @ p" using q'(1) by (simp add: r'_def ag_pending_def data_frame_def)
  moreover have "ag_inv i r'"
    using inv q' st h p pend by (auto simp: ag_inv_def r'_def ag_unacked_def data_frame_def)
  ultimately show ?thesis using a by (simp add: r'_def ag_unacked_def ag_window_def)
qed

lemma ag_take_conserves:
  assumes inv: "ag_inv i r" and t: "ag_take now r k = (b, r')"
  shows "ag_inv i r' \<and> ag_pending r = b @ ag_pending r' \<and> snd r' = snd r + length b \<and> ag_unacked r' = ag_unacked r
    \<and> ag_window r' = ag_window r"
proof (cases "snd r = 0 \<and> frames (se_inbound (fst r)) \<noteq> []")
  case True
  then obtain f q where q: "popLocked now (se_inbound (fst r)) = Some (f, q)"
    using popLocked_None [of now "se_inbound (fst r)"] by fastforce
  note f = popLocked_Some [OF q]
  have r': "b = Payload f" "r' = ((fst r)\<lparr>se_inbound := q\<rparr>, length (Payload f))"
    using t True q by (auto simp: ag_take_def Pop_def)
  have "ag_pending r = b @ ag_pending r'" using f by (simp add: ag_pending_def r')
  moreover have "ag_inv i r'"
    using inv f True queue_inv_pop [OF _ q] calculation by (auto simp: ag_inv_def r' ag_unacked_def)
  ultimately show ?thesis using True by (simp add: r' ag_unacked_def ag_window_def)
next
  case False
  then have "b = []" "r' = r"
    using t by (auto simp: ag_take_def Pop_def popLocked_def split: if_splits)
  then show ?thesis using inv by simp
qed

lemma ag_release_conserves:
  assumes inv: "ag_inv i r" and t: "ag_release r = (u, r')"
  shows "ag_inv i r' \<and> ag_pending r' = ag_pending r \<and> snd r' = 0 \<and> ag_unacked r' + unat u = ag_unacked r + snd r
    \<and> ag_window r' = ag_window r"
proof (cases "snd r = 0")
  case True
  then have "u = 0" "r' = r" using t by (cases r; auto simp: ag_release_def agent_releaseReceiveWindow_def split: option.splits)+
  then show ?thesis using inv True by simp
next
  case False
  let ?e = "fst r"
  obtain st where st: "se_receiveState ?e = Some st" "ss_id st = i" "ss_status st = StreamOpen \<or> ss_status st = StreamHalfClosedLocal"
    "unat (receiveWindow st) + length (ag_pending r) + snd r + ag_unacked r = DefaultAgentReceiveWindow"
    using inv by (auto simp: ag_inv_def)
  define v where "v = se_receiveUnacked ?e + of_nat (snd r)"
  have v: "unat v = ag_unacked r + snd r"
    using st(4) by (simp add: v_def ag_unacked_def unat_word_ariths unat_of_nat)
  have fits: "\<not> exceeds_uint32 (receiveWindow st) v" using st(4) v by (simp add: exceeds_uint32_def)
  define st' where "st' = st\<lparr>receiveWindow := receiveWindow st + v\<rparr>"
  have add: "AddReceiveWindow st v = (None, st')" using st(3) fits by (auto simp: AddReceiveWindow_def st'_def)
  have "ag_release r = (if ShouldFlushWindowUpdate (receiveWindow st) v (of_nat DefaultWindowUpdateThreshold)
      then (v, ?e\<lparr>se_receiveUnacked := 0, se_receiveState := Some st'\<rparr>, 0) else (0, ?e\<lparr>se_receiveUnacked := v\<rparr>, 0))"
    using st(1) False add by (simp add: ag_release_def agent_releaseReceiveWindow_def Let_def v_def [symmetric])
  then consider "u = v" "r' = (?e\<lparr>se_receiveUnacked := 0, se_receiveState := Some st'\<rparr>, 0)"
    | "u = 0" "r' = (?e\<lparr>se_receiveUnacked := v\<rparr>, 0)" "unat v < DefaultWindowUpdateThreshold"
    using t v False by (auto simp: ShouldFlush_iff split: if_splits)
  then show ?thesis
  proof cases
    case 1
    then show ?thesis using inv st v unat_add_fits [OF fits]
      by (auto simp: ag_inv_def ag_unacked_def ag_window_def ag_pending_def st'_def)
  next
    case 2
    then show ?thesis using inv st v by (auto simp: ag_inv_def ag_unacked_def ag_window_def ag_pending_def)
  qed
qed

interpretation agent_receiver: credit_receiver "ag_admit now i" "ag_take now" ag_release ag_pending snd ag_unacked ag_window "ag_inv i"
  for now :: int and i :: uint32
proof unfold_locales
  fix r r' :: "stream_entry \<times> nat" and p b :: bytes and k :: nat and u :: uint32
  assume inv: "ag_inv i r"
  show "\<exists>r'. ag_admit now i r p = Some r' \<and> ag_inv i r' \<and> ag_pending r' = ag_pending r @ p \<and> snd r' = snd r
      \<and> ag_unacked r' = ag_unacked r \<and> ag_window r' = ag_window r"
    if "p \<noteq> []" "length p \<le> MaxPayload" "length (ag_pending r) + snd r + ag_unacked r + length p \<le> ag_window r"
    using ag_admit_fits [OF inv that] .
  show "ag_inv i r' \<and> ag_pending r = b @ ag_pending r' \<and> snd r' = snd r + length b \<and> ag_unacked r' = ag_unacked r
      \<and> ag_window r' = ag_window r" if "ag_take now r k = (b, r')"
    using ag_take_conserves [OF inv that] .
  show "fst (ag_take now r k) \<noteq> []" if "snd r = 0" "ag_pending r \<noteq> []" "0 < k"
  proof -
    have ne: "frames (se_inbound (fst r)) \<noteq> []" using that by (auto simp: ag_pending_def)
    then obtain f q where q: "popLocked now (se_inbound (fst r)) = Some (f, q)"
      using popLocked_None [of now "se_inbound (fst r)"] by fastforce
    have "Payload f \<noteq> []" using popLocked_Some [OF q] inv by (auto simp: ag_inv_def)
    then show ?thesis using q that by (simp add: ag_take_def Pop_def)
  qed
  show "ag_inv i r' \<and> ag_pending r' = ag_pending r \<and> snd r' = 0 \<and> ag_unacked r' + unat u = ag_unacked r + snd r
      \<and> ag_window r' = ag_window r" if "ag_release r = (u, r')"
    using ag_release_conserves [OF inv that] .
  show "ag_unacked r + MaxStreamFrame \<le> ag_window r" using inv by (simp add: ag_inv_def ag_unacked_def ag_window_def)
  show "ag_window r < 2 ^ 32" by (simp add: ag_window_def)
qed

section \<open>Properties\<close>

lemma new_entry_start:
  assumes "i \<noteq> 0" "0 < w" "int DefaultAgentReceiveWindow \<le> buf" and r: "r = (new_entry i pr g buf w, 0)"
  shows "ag_inv i r" "ag_pending r = []" "ag_unacked r = 0"
proof -
  have q: "frames (NewBoundedFrameQueue buf) = []" "maxBytes (NewBoundedFrameQueue buf) = buf" "\<not> qclosed (NewBoundedFrameQueue buf)"
    using assms(3) by (simp_all add: NewBoundedFrameQueue_def)
  show "ag_inv i r" using assms q
    by (simp add: ag_inv_def new_entry_def opened_state_def NewStreamState_def OpenLocal_def ag_pending_def ag_unacked_def Let_def)
  show "ag_pending r = []" "ag_unacked r = 0" using r q by (simp_all add: ag_pending_def ag_unacked_def new_entry_def)
qed

lemma opened_state_start:
  assumes "opened_state i w = Some a" "w \<noteq> 0"
  shows "may_send a \<and> sendWindow a = w"
  using assms by (auto simp: opened_state_def NewStreamState_def OpenLocal_def may_send_def Let_def split: if_splits)


definition sample_upload :: stream_state where
  "sample_upload = \<lparr>ss_id = 7, ss_status = StreamOpen, sendWindow = 262144, receiveWindow = 262144\<rparr>"

lemma sample_upload: "opened_state 7 (of_nat DefaultAgentReceiveWindow) = Some sample_upload"
  by (simp add: opened_state_def NewStreamState_def OpenLocal_def sample_upload_def)


section \<open>Buffers smaller than the window\<close>

text \<open>The setter of the buffer size; \<open>None\<close> is \<^verbatim>\<open>ErrInboundBufferTooSmall\<close>.\<close>

definition SetInboundBufferBytes :: "int \<Rightarrow> int option" where
  "SetInboundBufferBytes bytes = (if bytes < 2 * int MaxStreamFrame then None else Some bytes)"

definition full_frame :: bytes where
  "full_frame = replicate MaxStreamFrame 0"

definition overflow_rounds :: "nat \<Rightarrow> link_event list" where
  "overflow_rounds n = concat (replicate n [LSend full_frame, LDeliver])"

text \<open>After \<open>k\<close> whole frames the stream has failed, or the queue holds them all.\<close>

definition holding :: "int \<Rightarrow> nat \<Rightarrow> (stream_entry \<times> nat) link \<Rightarrow> bool" where
  "holding buf k l \<longleftrightarrow> lk_failed l \<or>
     (lk_wire l = [] \<and> may_send (lk_sender l) \<and> unat (sendWindow (lk_sender l)) + k * MaxStreamFrame = DefaultAgentReceiveWindow
      \<and> queue_inv (se_inbound (fst (lk_recv l))) \<and> maxBytes (se_inbound (fst (lk_recv l))) = buf
      \<and> qbytes (se_inbound (fst (lk_recv l))) = int (k * MaxStreamFrame))"

lemma admit_queue:
  assumes "ag_admit now i r p = Some r'" "queue_inv (se_inbound (fst r))"
  shows "queue_inv (se_inbound (fst r')) \<and> maxBytes (se_inbound (fst r')) = maxBytes (se_inbound (fst r))
    \<and> qbytes (se_inbound (fst r')) = qbytes (se_inbound (fst r)) + int (length p)"
proof -
  obtain e where a: "admitInbound now i (fst r) p = (None, e)" "r' = (e, snd r)"
    using assms(1) by (auto simp: ag_admit_def split: prod.splits option.splits)
  obtain st q where "TryPush now (se_inbound (fst r)) (data_frame i p) = Some q" "se_inbound e = q"
    using a(1) by (auto simp: admitInbound_def split: prod.splits option.splits)
  then show ?thesis using queue_inv_push [OF assms(2), of now "data_frame i p"] a(2) by (auto simp: TryPush_Some data_frame_def)
qed

lemma failed_step: "lk_failed l \<Longrightarrow> lk_failed (link_step ad ta re l ev)"
  by (cases ev) (auto split: list.splits option.splits prod.splits)

lemma holding_round:
  assumes h: "holding buf k l" and k: "Suc k * MaxStreamFrame \<le> DefaultAgentReceiveWindow"
  shows "holding buf (Suc k) (link_run (ag_admit now i) (ag_take now) ag_release l [LSend full_frame, LDeliver])"
proof (cases "lk_failed l")
  case True
  then show ?thesis by (simp add: holding_def link_run_def failed_step del: link_step.simps)
next
  case False
  let ?step = "link_step (ag_admit now i) (ag_take now) ag_release"
  define n :: uint32 where "n = of_nat (length full_frame)"
  have n: "unat n = MaxStreamFrame" "length full_frame = MaxStreamFrame" "full_frame \<noteq> []"
    by (simp_all add: n_def full_frame_def)
  have s: "may_send (lk_sender l)" "n \<le> sendWindow (lk_sender l)"
    using h False k n by (auto simp: holding_def word_le_nat_alt)
  define snd' where "snd' = (lk_sender l)\<lparr>sendWindow := sendWindow (lk_sender l) - n\<rparr>"
  have "ConsumeSend (lk_sender l) n = (None, snd')" using s by (auto simp: ConsumeSend_def may_send_def snd'_def not_less)
  then have one: "?step l (LSend full_frame) = l\<lparr>lk_sender := snd', lk_wire := [full_frame], lk_sent := lk_sent l @ full_frame\<rparr>"
    using h False n by (simp add: holding_def n_def MaxPayload_def)
  have w: "unat (sendWindow snd') + MaxStreamFrame = unat (sendWindow (lk_sender l))" "may_send snd'"
    using unat_diff_fits [OF s(2)] n s(1) by (simp_all add: snd'_def may_send_def)
  show ?thesis
  proof (cases "ag_admit now i (lk_recv l) full_frame")
    case None
    then show ?thesis using one by (simp add: link_run_def holding_def)
  next
    case (Some r)
    then show ?thesis using one h False w n admit_queue [OF Some] by (simp add: link_run_def holding_def)
  qed
qed

lemma holding_rounds:
  "k * MaxStreamFrame \<le> DefaultAgentReceiveWindow \<Longrightarrow> holding buf 0 l \<Longrightarrow>
   holding buf k (link_run (ag_admit now i) (ag_take now) ag_release l (overflow_rounds k))"
proof (induction k)
  case (Suc k)
  have "overflow_rounds (Suc k) = overflow_rounds k @ [LSend full_frame, LDeliver]"
    unfolding overflow_rounds_def replicate_Suc replicate_append_same [symmetric] by simp
  then show ?case using holding_round [OF Suc.IH Suc.prems(1)] Suc.prems by (simp add: link_run_def del: link_step.simps)
qed (simp add: overflow_rounds_def link_run_def)

text \<open>
  A buffer the setter accepts can be too small: for every inbound buffer of at least two frames but less than the
  advertised window, a server that sends whole frames within its credit makes the agent refuse one of them as a queue
  overflow, which resets the stream.
\<close>

lemma accepted_buffer_overflows:
  assumes "opened_state i (of_nat DefaultAgentReceiveWindow) = Some a" and "0 < w"
    and "SetInboundBufferBytes bytes = Some buf" and "buf < int DefaultAgentReceiveWindow"
  shows "lk_failed (link_run (ag_admit now i) (ag_take now) ag_release (start_link a (new_entry i pr g buf w, 0))
    (overflow_rounds (nat buf div MaxStreamFrame + 1)))"
proof -
  define k where "k = nat buf div MaxStreamFrame + 1"
  have b: "2 * int MaxStreamFrame \<le> buf" using assms(3) by (auto simp: SetInboundBufferBytes_def split: if_splits)
  have "nat buf < DefaultAgentReceiveWindow" using assms(4) by (simp add: nat_less_iff)
  then have k: "k * MaxStreamFrame \<le> DefaultAgentReceiveWindow" "nat buf < k * MaxStreamFrame"
    unfolding k_def by (simp_all add: div_less_iff_less_mult less_mult_imp_div_less)
  note a = opened_state_start [OF assms(1)]
  have "queue_inv (NewBoundedFrameQueue buf)" by simp
  then have "holding buf 0 (start_link a (new_entry i pr g buf w, 0))"
    using a b by (auto simp: holding_def start_link_def new_entry_def NewBoundedFrameQueue_def)
  from holding_rounds [OF k(1) this, of now i] show ?thesis
    unfolding k_def [symmetric] using k(2) b by (auto simp: holding_def queue_inv_def nat_less_iff)
qed

end
