(* ===== verification/Relay_Conn.thy ===== *)
theory Relay_Conn
  imports Relay_Transport
begin

text \<open>
  \<^verbatim>\<open>internal/server/agent_relay_transport.go\<close>, last part: what the holder of a stream calls. \<^verbatim>\<open>Write\<close> splits its payload into
  frames as credit allows, \<^verbatim>\<open>WriteControl\<close>, \<^verbatim>\<open>CloseWrite\<close> and \<^verbatim>\<open>Close\<close> send one control frame, and \<^verbatim>\<open>OpenStreamResult\<close>
  waits for the agent's answer to a strict open.

  A call that waits is a sequence of passes; between two passes the rest of the server takes any steps.
\<close>

section \<open>Sending\<close>

text \<open>Send a frame on the stream's connection; a failure takes the stream out of the table and ends it.\<close>

definition stream_send ::
  "int \<Rightarrow> relay_transport \<Rightarrow> session_manager \<Rightarrow> relay_key \<Rightarrow> relay_stream \<Rightarrow> frame \<Rightarrow>
    server_error option \<times> relay_transport \<times> session_manager" where
  "stream_send now t m k s f =
     (case sendServerGeneration m now (rs_agentID s) (rs_serverGeneration s) f of
        (Some e, m') \<Rightarrow> (Some e, update_stream (detach t k) k (\<lambda>st. finish st (StreamServer e)), m')
      | (None, m') \<Rightarrow> (None, t, m'))"

definition control_frame :: "8 word \<Rightarrow> uint32 \<Rightarrow> frame" where
  "control_frame ty i = \<lparr>Version = CurrentVersion, FType = ty, Flags = 0, StreamID = i, Window = 0, Payload = []\<rparr>"

definition WriteControl ::
  "int \<Rightarrow> relay_transport \<Rightarrow> session_manager \<Rightarrow> relay_key \<Rightarrow> frame \<Rightarrow> relay_stream_error option \<times> relay_transport \<times> session_manager" where
  "WriteControl now t m k f =
     (case rt_objects t k of None \<Rightarrow> (None, t, m)
      | Some s \<Rightarrow>
        if FType f \<noteq> FrameWindowUpdate then (Some (StreamProtocol ErrInvalidFrame), t, m)
        else (case stream_send now t m k s (f\<lparr>Version := CurrentVersion, StreamID := rs_wireID s\<rparr>) of
            (e, t', m') \<Rightarrow> (map_option StreamServer e, t', m')))"

text \<open>A whole read: the bytes, and the window update they release.\<close>

definition ReadRelease ::
  "int \<Rightarrow> relay_transport \<Rightarrow> session_manager \<Rightarrow> relay_key \<Rightarrow> nat \<Rightarrow> read_result \<times> relay_transport \<times> session_manager" where
  "ReadRelease now t m k n =
     (case rt_objects t k of None \<Rightarrow> (ReadWait, t, m)
      | Some s \<Rightarrow>
        (case Read s n of
           (ReadData b, s1) \<Rightarrow>
             (let (u, s2) = releaseReceiveWindow (rt_windows t) s1 (int (length b));
                  t1 = update_stream t k (\<lambda>_. s2) in
              if u = 0 then (ReadData b, t1, m)
              else (ReadData b, snd (WriteControl now t1 m k ((control_frame FrameWindowUpdate 0)\<lparr>Window := u\<rparr>))))
         | (r, s1) \<Rightarrow> (r, update_stream t k (\<lambda>_. s1), m)))"

text \<open>One turn of the loop in \<^verbatim>\<open>Write\<close>: the frame that was sent, if any.\<close>

datatype write_result = WriteMore nat | parked: WriteWaits nat | returned: WriteEnds nat "relay_stream_error option"

fun written :: "write_result \<Rightarrow> nat" where
  "written (WriteMore n) = n"
| "written (WriteWaits n) = n"
| "written (WriteEnds n _) = n"

definition write_pass ::
  "int \<Rightarrow> relay_transport \<Rightarrow> session_manager \<Rightarrow> relay_key \<Rightarrow> relay_stream \<Rightarrow> bytes \<Rightarrow> nat \<Rightarrow>
    write_result \<times> frame list \<times> relay_transport \<times> session_manager" where
  "write_pass now t m k s payload sent =
     (if \<not> sent < length payload then (WriteEnds sent None, [], t, m)
      else (case consumeSendWindow s (length payload - sent) of
          (ChunkError e, s') \<Rightarrow> (WriteEnds sent (Some e), [], update_stream t k (\<lambda>_. s'), m)
        | (ChunkWait, s') \<Rightarrow> (WriteWaits sent, [], update_stream t k (\<lambda>_. s'), m)
        | (Chunk n, s') \<Rightarrow>
          (let f = (control_frame FrameData (rs_wireID s'))\<lparr>Payload := take n (drop sent payload)\<rparr> in
           case stream_send now (update_stream t k (\<lambda>_. s')) m k s' f of
             (Some e, t', m') \<Rightarrow> (WriteEnds sent (Some (StreamServer e)), [], t', m')
           | (None, t', m') \<Rightarrow> (WriteMore (sent + n), [f], t', m'))))"

text \<open>
  The loop. Each pass is given what the rest of the server did before it, and whether a waiting pass is woken by the end
  of the stream. Running out of passes is a call that has not returned.
\<close>

type_synonym pass_in = "int \<times> (relay_transport \<times> session_manager \<Rightarrow> relay_transport \<times> session_manager) \<times> bool"

fun write_loop ::
  "pass_in list \<Rightarrow> bool \<Rightarrow> relay_transport \<times> session_manager \<Rightarrow> relay_key \<Rightarrow> bytes \<Rightarrow> nat \<Rightarrow>
    write_result \<times> frame list \<times> relay_transport \<times> session_manager" where
  "write_loop [] blocked (t, m) k payload sent = (if blocked then WriteWaits sent else WriteMore sent, [], t, m)"
| "write_loop ((now, env, byDone) # passes) blocked (t, m) k payload sent =
     (let (t1, m1) = env (t, m) in
      case rt_objects t1 k of None \<Rightarrow> (WriteWaits sent, [], t1, m1)
      | Some s \<Rightarrow>
        (case (if blocked \<and> byDone then wait_done s else ChunkWait) of
           ChunkError e \<Rightarrow> (WriteEnds sent (Some e), [], t1, m1)
         | _ \<Rightarrow>
           (let (r, fs, t2, m2) = write_pass now t1 m1 k s payload sent in
            if returned r then (r, fs, t2, m2)
            else (let (r', gs, st) = write_loop passes (parked r) (t2, m2) k payload (written r) in (r', fs @ gs, st)))))"

definition Write ::
  "pass_in list \<Rightarrow> relay_transport \<times> session_manager \<Rightarrow> relay_key \<Rightarrow> bytes \<Rightarrow>
    write_result \<times> frame list \<times> relay_transport \<times> session_manager" where
  "Write passes st k payload =
     (if payload = [] then (WriteEnds 0 None, [], st)
      else if length payload > MaxPayload then (WriteEnds 0 (Some (StreamProtocol ErrPayloadTooLarge)), [], st)
      else write_loop passes False st k payload 0)"

section \<open>Closing\<close>

definition CloseWrite ::
  "int \<Rightarrow> relay_transport \<Rightarrow> session_manager \<Rightarrow> relay_key \<Rightarrow> relay_stream_error option \<times> relay_transport \<times> session_manager" where
  "CloseWrite now t m k =
     (case rt_objects t k of None \<Rightarrow> (None, t, m)
      | Some s \<Rightarrow>
        if rs_err s \<noteq> None \<and> rs_err s \<noteq> Some StreamEOF then (rs_err s, t, m)
        else if rs_localHalf s then (None, t, m)
        else (let t1 = update_stream t k (\<lambda>st. st\<lparr>rs_localHalf := True\<rparr>) in
              case stream_send now t1 m k s (control_frame FrameHalfClose (rs_wireID s)) of
                (Some e, t2, m2) \<Rightarrow> (Some (StreamServer e), t2, m2)
              | (None, t2, m2) \<Rightarrow> (None, if rs_remoteHalf s then detach t2 k else t2, m2)))"

definition CloseStream :: "int \<Rightarrow> relay_transport \<Rightarrow> session_manager \<Rightarrow> relay_key \<Rightarrow> frame list \<times> relay_transport \<times> session_manager" where
  "CloseStream now t m k =
     (case rt_objects t k of None \<Rightarrow> ([], t, m)
      | Some s \<Rightarrow>
        if rs_closeOnce s then ([], t, m)
        else (let complete = rs_localHalf s \<and> rs_remoteHalf s;
                  terminal = rs_err s \<noteq> None \<and> rs_err s \<noteq> Some StreamEOF;
                  f = control_frame FrameReset (rs_wireID s);
                  t1 = update_stream (detach t k) k (\<lambda>st. finish (st\<lparr>rs_closeOnce := True\<rparr>) ErrClosedPipe) in
              if \<not> complete \<and> \<not> terminal
              then ([f], t1, snd (sendServerGeneration m now (rs_agentID s) (rs_serverGeneration s) f))
              else ([], t1, m)))"

section \<open>Strict opens\<close>

definition failureResult :: "string \<Rightarrow> string \<Rightarrow> open_result" where
  "failureResult stage code =
     \<lparr>Accepted = False, Stage = stage, Code = code, Retryable = (code = ''queue_full'' \<or> code = ''timeout''), RetryAfterMS = 0\<rparr>"

type_synonym open_outcome = "relay_key option \<times> open_result \<times> relay_open_error option"

definition open_begin :: "(relay_open_error + relay_key) \<Rightarrow> bool \<Rightarrow> open_outcome option" where
  "open_begin r strict =
     (case r of
        Inl e \<Rightarrow>
          (if e = OpenServer ErrCapability then Some (None, failureResult ''relay'' ''unsupported_capability'', None)
           else Some (None, failureResult ''relay'' ''internal_error'', Some e))
      | Inr k \<Rightarrow>
          if \<not> strict
          then Some (Some k, \<lparr>Accepted = True, Stage = ''connect'', Code = ''ok'', Retryable = False, RetryAfterMS = 0\<rparr>, None)
          else None)"

text \<open>
  One look at the three channels a strict open waits on. A delivered answer is taken before the others are looked at; when
  the stream is done and the context is over, either may be chosen (\<open>ctxFirst\<close>).
\<close>

definition open_wait ::
  "int \<Rightarrow> string option \<Rightarrow> bool \<Rightarrow> relay_transport \<Rightarrow> session_manager \<Rightarrow> relay_key \<Rightarrow> open_outcome option \<times> relay_transport \<times> session_manager" where
  "open_wait now ctxErr ctxFirst t m k =
     (case rt_objects t k of None \<Rightarrow> (None, t, m)
      | Some s \<Rightarrow>
        (case rs_openResult s of
           Some p \<Rightarrow>
             (let t1 = update_stream t k (\<lambda>st. st\<lparr>rs_openResult := None\<rparr>) in
              if Accepted p then (Some (Some k, p, None), t1, m)
              else (Some (None, p, None), update_stream (detach t1 k) k (\<lambda>st. finish st (StreamProtocol ErrStreamReset)), m))
         | None \<Rightarrow>
           if rs_done s \<and> \<not> (ctxFirst \<and> ctxErr \<noteq> None)
           then (Some (None, failureResult ''relay'' ''internal_error'', None), t, m)
           else (case ctxErr of
               Some e \<Rightarrow> (Some (None, failureResult ''relay'' ''timeout'', Some (OpenContext e)), snd (CloseStream now t m k))
             | None \<Rightarrow> (None, t, m))))"

section \<open>The calls are steps of the transport\<close>

text \<open>Every call is a sequence of the transport's events, so what holds in all its runs holds with these calls in them.\<close>

definition reaches where
  "reaches uf json unjson auth st st' \<longleftrightarrow> (\<exists>evs. relay_run uf json unjson auth st evs = st')"

lemma reaches_refl [simp]: "reaches uf json unjson auth st st"
  unfolding reaches_def by (rule exI [of _ "[]"]) (simp add: relay_run_def)

lemma reaches_trans:
  "reaches uf json unjson auth st st' \<Longrightarrow> reaches uf json unjson auth st' st'' \<Longrightarrow> reaches uf json unjson auth st st''"
  unfolding reaches_def relay_run_def by (metis foldl_append)

lemma reaches_step: "reaches uf json unjson auth st (relay_step uf json unjson auth st ev)"
  unfolding reaches_def by (rule exI [of _ "[ev]"]) (simp add: relay_run_def)

lemma reaches_primitive:
  "reaches uf json unjson auth (t, m, log) (update_stream t k h, m, log)"
  "reaches uf json unjson auth (t, m, log) (detach t k, m, log)"
  "reaches uf json unjson auth (t, m, log) (t, snd (sendServerGeneration m now a g f), log)"
  using reaches_step [of uf json unjson auth "(t, m, log)" "RStream k h"] reaches_step [of uf json unjson auth "(t, m, log)" "RLeave k"]
    reaches_step [of uf json unjson auth "(t, m, log)" "RManager (MSendGeneration now a g f)"] by simp_all

lemma reaches_stream_send:
  "reaches uf json unjson auth (t, m, log) (case stream_send now t m k s f of (e, t', m') \<Rightarrow> (t', m', log))"
proof -
  obtain e m' where s: "sendServerGeneration m now (rs_agentID s) (rs_serverGeneration s) f = (e, m')" by fastforce
  have r: "reaches uf json unjson auth (t, m, log) (t, m', log)"
    using reaches_primitive(3) [where uf = uf and json = json and unjson = unjson and auth = auth and m = m and now = now
        and a = "rs_agentID s" and g = "rs_serverGeneration s" and f = f] s by simp
  show ?thesis
  proof (cases e)
    case None
    then show ?thesis using r s by (simp add: stream_send_def)
  next
    case (Some x)
    then show ?thesis using s reaches_trans [OF r reaches_trans [OF reaches_primitive(2) reaches_primitive(1)]]
      by (simp add: stream_send_def)
  qed
qed

lemma reaches_CloseStream:
  "reaches uf json unjson auth (t, m, log) (case CloseStream now t m k of (fs, t', m') \<Rightarrow> (t', m', log))"
proof -
  have "reaches uf json unjson auth (t, m, log) (update_stream (detach t k) k h, m, log)" for h
    by (rule reaches_trans [OF reaches_primitive(2) reaches_primitive(1)])
  then show ?thesis
    by (auto simp: CloseStream_def Let_def intro: reaches_trans [OF _ reaches_primitive(3)] split: option.splits)
qed

lemma reaches_CloseWrite:
  "reaches uf json unjson auth (t, m, log) (case CloseWrite now t m k of (e, t', m') \<Rightarrow> (t', m', log))"
proof (cases "rt_objects t k")
  case (Some s)
  define t1 where "t1 = update_stream t k (\<lambda>st. st\<lparr>rs_localHalf := True\<rparr>)"
  obtain e t2 m2 where s: "stream_send now t1 m k s (control_frame FrameHalfClose (rs_wireID s)) = (e, t2, m2)"
    by (cases "stream_send now t1 m k s (control_frame FrameHalfClose (rs_wireID s))")
  have "reaches uf json unjson auth (t, m, log) (t1, m, log)" unfolding t1_def by (rule reaches_primitive)
  then have r: "reaches uf json unjson auth (t, m, log) (t2, m2, log)"
    using reaches_trans [OF _ reaches_stream_send [where s = s and now = now and k = k and f = "control_frame FrameHalfClose (rs_wireID s)"]] s
    by fastforce
  then have "reaches uf json unjson auth (t, m, log) (detach t2 k, m2, log)" using reaches_trans [OF _ reaches_primitive(2)] by blast
  with r Some s show ?thesis unfolding CloseWrite_def t1_def [symmetric] Let_def by (cases e) auto
qed (simp add: CloseWrite_def)

lemma reaches_write_pass:
  "reaches uf json unjson auth (t, m, log) (case write_pass now t m k s p sent of (r, fs, t', m') \<Rightarrow> (t', m', log))"
proof -
  obtain c s' where c: "consumeSendWindow s (length p - sent) = (c, s')" by fastforce
  define t1 where "t1 = update_stream t k (\<lambda>_. s')"
  have r: "reaches uf json unjson auth (t, m, log) (t1, m, log)" unfolding t1_def by (rule reaches_primitive)
  show ?thesis
  proof (cases c)
    case (Chunk n)
    define f where "f = (control_frame FrameData (rs_wireID s'))\<lparr>Payload := take n (drop sent p)\<rparr>"
    obtain e t2 m2 where x: "stream_send now t1 m k s' f = (e, t2, m2)" by (cases "stream_send now t1 m k s' f")
    then have "reaches uf json unjson auth (t, m, log) (t2, m2, log)"
      using reaches_trans [OF r reaches_stream_send [where s = s' and now = now and k = k and f = f]] by simp
    with x c Chunk show ?thesis
      unfolding write_pass_def by (cases e) (simp_all add: Let_def f_def [symmetric] t1_def [symmetric])
  qed (use c r in \<open>simp_all add: write_pass_def t1_def\<close>)
qed

section \<open>What a write sends\<close>

lemma consumeSendWindow_chunk:
  assumes "consumeSendWindow s rem = (Chunk n, s')" "0 < rem" "rem \<le> MaxPayload"
  shows "0 < n \<and> n \<le> rem \<and> (rs_sendState s \<noteq> None \<longrightarrow> n \<le> MaxStreamFrame)"
proof -
  have u: "unat (of_nat rem :: uint32) = rem" using assms(3) by (simp add: unat_of_nat MaxPayload_def)
  define want where "want = (if of_nat rem > (of_nat MaxStreamFrame :: uint32) then of_nat MaxStreamFrame else of_nat rem :: uint32)"
  have w: "0 < unat want" "unat want \<le> rem" "unat want \<le> MaxStreamFrame" using assms(2) u by (auto simp: want_def word_less_nat_alt)
  show ?thesis
  proof (cases "rs_sendState s")
    case None
    then show ?thesis using assms by (auto simp: consumeSendWindow_def split: if_splits)
  next
    case (Some st)
    define part where "part = (if sendWindow st < want then sendWindow st else want)"
    obtain e1 st1 where c1: "ConsumeSend st want = (e1, st1)" by fastforce
    obtain e2 st2 where c2: "ConsumeSend st part = (e2, st2)" by fastforce
    have "n = unat want \<or> sendWindow st > 0 \<and> n = unat part"
      using assms(1) Some c1 c2 unfolding consumeSendWindow_def Let_def want_def [symmetric] part_def
      by (simp split: if_splits option.splits)
    then show ?thesis using w by (auto simp: part_def word_less_nat_alt)
  qed
qed

lemma write_pass_prefix:
  assumes "write_pass now t m k s p sent = (r, fs, st)" "sent \<le> length p" "length p \<le> MaxPayload"
  shows "sent \<le> written r \<and> written r \<le> length p \<and> concat (map Payload fs) = take (written r - sent) (drop sent p)
    \<and> (r = WriteEnds n None \<longrightarrow> n = length p)"
proof (cases "sent < length p")
  case True
  obtain c s' where c: "consumeSendWindow s (length p - sent) = (c, s')" by fastforce
  show ?thesis
  proof (cases c)
    case (Chunk n)
    then have n: "n \<le> length p - sent" using consumeSendWindow_chunk [of s "length p - sent" n s'] c assms(3) True by auto
    define f where "f = (control_frame FrameData (rs_wireID s'))\<lparr>Payload := take n (drop sent p)\<rparr>"
    obtain e q where q: "stream_send now (update_stream t k (\<lambda>_. s')) m k s' f = (e, q)" by (rule prod.exhaust)
    have "r = (case e of None \<Rightarrow> WriteMore (sent + n) | Some x \<Rightarrow> WriteEnds sent (Some (StreamServer x)))"
      "fs = (case e of None \<Rightarrow> [f] | Some x \<Rightarrow> [])"
      using assms(1) True c Chunk q by (simp_all add: write_pass_def f_def [symmetric] split: option.splits prod.splits)
    then show ?thesis using n True by (auto simp: f_def split: option.splits)
  qed (use assms(1) True c in \<open>auto simp: write_pass_def\<close>)
qed (use assms in \<open>auto simp: write_pass_def\<close>)

lemma write_loop_prefix:
  assumes "length p \<le> MaxPayload"
  shows "write_loop passes w (t, m) k p sent = (r, fs, st) \<Longrightarrow> sent \<le> length p \<Longrightarrow>
   sent \<le> written r \<and> written r \<le> length p \<and> concat (map Payload fs) = take (written r - sent) (drop sent p)
    \<and> (r = WriteEnds n None \<longrightarrow> n = length p)"
proof (induction passes arbitrary: w t m sent r fs)
  case (Cons pass_in passes)
  obtain now env byDone where pass_in: "pass_in = (now, env, byDone)" by (cases pass_in)
  obtain t1 m1 where e: "env (t, m) = (t1, m1)" by fastforce
  show ?case
  proof (cases "rt_objects t1 k")
    case None
    then show ?thesis using Cons.prems pass_in e by auto
  next
    case (Some s)
    obtain r1 fs1 t2 m2 where q: "write_pass now t1 m1 k s p sent = (r1, fs1, t2, m2)" by (cases "write_pass now t1 m1 k s p sent")
    note pass = write_pass_prefix [OF q Cons.prems(2) assms]
    consider x where "r = WriteEnds sent (Some x)" "fs = []" | "returned r1" "r = r1" "fs = fs1"
      | gs where "write_loop passes (parked r1) (t2, m2) k p (written r1) = (r, gs, st)" "fs = fs1 @ gs"
      using Cons.prems(1) pass_in e Some q by (auto simp: Let_def split: if_splits prod.splits chunk_result.splits)
    then show ?thesis
    proof cases
      case 3
      note ih = Cons.IH [OF 3(1)] and p = pass [of n]
      have "take (written r - sent) (drop sent p)
          = take (written r1 - sent) (drop sent p) @ take (written r - written r1) (drop (written r1) p)"
        using ih p take_add [of "written r1 - sent" "written r - written r1" "drop sent p"] by simp
      then show ?thesis using ih p 3(2) by (metis concat_append le_trans map_append)
    qed (use pass Cons.prems(2) in auto)
  qed
qed auto

text \<open>
  A write sends a prefix of its payload: whatever the rest of the server does between the passes of the loop, the data
  frames that were handed to the connection, put together, are the first bytes of the payload, as many as the call
  reports, and a call that returns without an error has sent all of it.
\<close>

lemma write_sends_prefix:
  assumes "Write passes st k payload = (r, fs, st')"
  shows "concat (map Payload fs) = take (written r) payload \<and> (r = WriteEnds n None \<longrightarrow> n = length payload)"
proof (cases "payload = [] \<or> length payload > MaxPayload")
  case False
  obtain t m where st: "st = (t, m)" by fastforce
  have "write_loop passes False (t, m) k payload 0 = (r, fs, st')" using assms False st by (auto simp: Write_def)
  from write_loop_prefix [OF _ this, of n] False show ?thesis by simp
qed (use assms in \<open>auto simp: Write_def split: if_splits\<close>)

end
