(* ===== verification/Agent_Dispatcher.thy ===== *)
theory Agent_Dispatcher
  imports Agent_Stream Payloads Go_Strings "HOL-Library.AList"
begin

text \<open>
  \<^verbatim>\<open>internal/agent/session.go\<close>, the rest of the \<^verbatim>\<open>StreamDispatcher\<close>, and \<^verbatim>\<open>internal/agent/dial_executor.go\<close>. The dispatcher keeps
  a table of open streams and a table of opens whose target is still being dialled; one goroutine reads frames
  (\<^verbatim>\<open>Handle\<close>), dial workers report results (\<^verbatim>\<open>completeDial\<close>), and each stream has a writer and a reader goroutine
  (\<^verbatim>\<open>pumpTarget\<close>, \<^verbatim>\<open>readBack\<close>).

  Stream entries live in a store keyed by their generation; the table maps stream ids to generations, and comparing
  generations is comparing pointers. Handling a DATA frame and completing a dial take the lock more than once, so each is
  split where another goroutine can run in between. The sender is a parameter that may fail; what the target connection
  does is an argument of the step.
\<close>

section \<open>The dial executor\<close>

datatype dial_error = ErrDialQueueFull | ErrDialExecutorClosed | ErrInvalidDialRequest | ErrDuplicateDial

record dial_executor =
  de_MaxConcurrent :: nat
  de_MaxPending :: nat
  de_queue :: "(uint32 \<times> string) list"
  de_running :: "(uint32 \<times> string) list"
  de_finishing :: "uint32 list"
  de_cancels :: "uint32 list"
  de_cancelled :: "uint32 list"
  de_closed :: bool

text \<open>The limits after \<^verbatim>\<open>normalize\<close>; timeouts are left out.\<close>

definition normalize_limit :: "int \<Rightarrow> nat" where
  "normalize_limit n = (if n \<le> 0 then 1 else nat n)"

definition NewDialExecutor :: "int \<Rightarrow> int \<Rightarrow> dial_executor" where
  "NewDialExecutor maxConcurrent maxPending =
     \<lparr>de_MaxConcurrent = normalize_limit maxConcurrent, de_MaxPending = normalize_limit maxPending, de_queue = [], de_running = [],
      de_finishing = [], de_cancels = [], de_cancelled = [], de_closed = False\<rparr>"

definition removeCancel :: "dial_executor \<Rightarrow> uint32 \<Rightarrow> dial_executor" where
  "removeCancel e i = e\<lparr>de_cancels := filter (\<lambda>j. j \<noteq> i) (de_cancels e), de_cancelled := filter (\<lambda>j. j \<noteq> i) (de_cancelled e)\<rparr>"

definition Submit :: "dial_executor \<Rightarrow> uint32 \<Rightarrow> string \<Rightarrow> dial_error option \<times> dial_executor" where
  "Submit e i proto =
     (if i = 0 then (Some ErrInvalidDialRequest, e)
      else if de_closed e then (Some ErrDialExecutorClosed, e)
      else if i \<in> set (de_cancels e) then (Some ErrDuplicateDial, e)
      else (let e1 = e\<lparr>de_cancels := i # de_cancels e\<rparr> in
            if length (de_queue e1) < de_MaxPending e1 then (None, e1\<lparr>de_queue := de_queue e1 @ [(i, proto)]\<rparr>)
            else (Some ErrDialQueueFull, removeCancel e1 i)))"

definition CancelDial :: "dial_executor \<Rightarrow> uint32 \<Rightarrow> dial_executor" where
  "CancelDial e i = (if i \<in> set (de_cancels e) then e\<lparr>de_cancelled := i # de_cancelled e\<rparr> else e)"

definition PendingDials :: "dial_executor \<Rightarrow> nat" where
  "PendingDials e = length (de_queue e)"

definition CloseExecutor :: "dial_executor \<Rightarrow> dial_executor" where
  "CloseExecutor e = e\<lparr>de_closed := True\<rparr>"

text \<open>
  A worker takes a job, dials, reports the result and forgets the cancel function. The dial itself is external: the
  error it reports is classified by \<^verbatim>\<open>newDialResult\<close>.
\<close>

definition worker_take :: "dial_executor \<Rightarrow> dial_executor" where
  "worker_take e =
     (case de_queue e of [] \<Rightarrow> e
      | j # js \<Rightarrow>
        if length (de_running e) + length (de_finishing e) < de_MaxConcurrent e
        then e\<lparr>de_queue := js, de_running := de_running e @ [j]\<rparr> else e)"

definition worker_report :: "dial_executor \<Rightarrow> uint32 \<Rightarrow> dial_executor" where
  "worker_report e i =
     e\<lparr>de_running := filter (\<lambda>j. fst j \<noteq> i) (de_running e), de_finishing := i # de_finishing e\<rparr>"

definition worker_done :: "dial_executor \<Rightarrow> uint32 \<Rightarrow> dial_executor" where
  "worker_done e i = removeCancel (e\<lparr>de_finishing := remove1 i (de_finishing e)\<rparr>) i"

record dial_result =
  dr_Conn :: bool
  dr_Stage :: string
  dr_Code :: string
  dr_Retryable :: bool
  dr_RetryAfterMS :: int

datatype dial_outcome = Connected | DialCanceled | DialNetTimeout | DialDNS | DialOther string

definition contains :: "string \<Rightarrow> string \<Rightarrow> bool" where
  "contains s sub \<longleftrightarrow> (\<exists>i \<in> {..length s - length sub}. take (length sub) (drop i s) = sub)"

definition newDialResult :: "(string \<Rightarrow> string) \<Rightarrow> dial_outcome \<Rightarrow> dial_result" where
  "newDialResult ul o' =
     (let failed = (\<lambda>stage code retry. \<lparr>dr_Conn = False, dr_Stage = stage, dr_Code = code, dr_Retryable = retry, dr_RetryAfterMS = 0\<rparr>) in
      case o' of
        Connected \<Rightarrow> \<lparr>dr_Conn = True, dr_Stage = ''connect'', dr_Code = ''ok'', dr_Retryable = False, dr_RetryAfterMS = 0\<rparr>
      | DialCanceled \<Rightarrow> failed ''connect'' ''timeout'' False
      | DialNetTimeout \<Rightarrow> failed ''connect'' ''timeout'' True
      | DialDNS \<Rightarrow> failed ''dns'' ''host_unreachable'' False
      | DialOther err \<Rightarrow>
        (let message = ToLower ul err in
         if contains message ''connection refused'' then failed ''connect'' ''connection_refused'' False
         else if contains message ''network is unreachable'' then failed ''connect'' ''network_unreachable'' True
         else if contains message ''no route to host'' then failed ''connect'' ''host_unreachable'' True
         else if contains message ''timeout'' \<or> contains message ''deadline exceeded'' then failed ''connect'' ''timeout'' True
         else failed ''connect'' ''internal_error'' False))"

definition AgentStreamCapabilities :: "bool \<Rightarrow> bool \<Rightarrow> string list" where
  "AgentStreamCapabilities ICMPEnabled icmpReady =
     ''stream_open_result.v1'' # (if ICMPEnabled \<and> icmpReady then [''stream_icmp_echo.v1''] else [])"

section \<open>The dispatcher\<close>

record pending_stream =
  ps_data :: "bytes list"
  ps_pendingBytes :: int
  ps_halfClosed :: bool
  ps_strict :: bool
  ps_initialWindow :: uint32

record dispatcher =
  sd_streams :: "(uint32 \<times> uint64) list"
  sd_entries :: "uint64 \<rightharpoonup> stream_entry"
  sd_generation :: uint64
  sd_closed :: bool
  sd_pending :: "(uint32 \<times> pending_stream) list"
  sd_executor :: dial_executor
  sd_openResult :: bool
  sd_icmpEcho :: bool
  sd_inboundBytes :: int
  sd_maxActive :: int

datatype dispatch_error = ErrStreamNotFound | ErrInvalidTarget | DispatchProtocol protocol_error | DispatchStream agent_stream_error | SendFailed string

definition NewStreamDispatcherWithConfig :: "int \<Rightarrow> int \<Rightarrow> dispatcher" where
  "NewStreamDispatcherWithConfig maxConcurrent maxPending =
     \<lparr>sd_streams = [], sd_entries = Map.empty, sd_generation = 0, sd_closed = False, sd_pending = [],
      sd_executor = NewDialExecutor maxConcurrent maxPending, sd_openResult = False, sd_icmpEcho = False, sd_inboundBytes = 0,
      sd_maxActive = 0\<rparr>"

definition SetMaxActiveStreams :: "dispatcher \<Rightarrow> int \<Rightarrow> dispatcher" where
  "SetMaxActiveStreams d n = d\<lparr>sd_maxActive := max n 0\<rparr>"

definition SetOpenResultEnabled :: "dispatcher \<Rightarrow> bool \<Rightarrow> dispatcher" where
  "SetOpenResultEnabled d b = d\<lparr>sd_openResult := b\<rparr>"

definition SetICMPEchoEnabled :: "dispatcher \<Rightarrow> bool \<Rightarrow> dispatcher" where
  "SetICMPEchoEnabled d b = d\<lparr>sd_icmpEcho := b\<rparr>"

definition dispatcher_ActiveStreams :: "dispatcher \<Rightarrow> nat" where
  "dispatcher_ActiveStreams d = length (sd_streams d)"

definition inboundBufferBytesLocked :: "dispatcher \<Rightarrow> int" where
  "inboundBufferBytesLocked d = (if sd_inboundBytes d > 0 then sd_inboundBytes d else int DefaultAgentReceiveWindow)"

definition validStreamTargetPort :: "(string \<Rightarrow> string \<Rightarrow> bool) \<Rightarrow> string \<Rightarrow> int \<Rightarrow> bool" where
  "validStreamTargetPort uf proto port =
     (if port < 0 \<or> port > 65535 then False
      else if EqualFold uf proto ''icmp-echo'' then True
      else if EqualFold uf proto ''exec'' then port = 0
      else port \<ge> 1)"

subsection \<open>Sending and retiring\<close>

text \<open>
  The environment of the dispatcher: Unicode folding, JSON, and the sender, which returns an error or accepts the frame.
  Every operation returns the frames it gave to the sender.
\<close>

record dispatch_env =
  env_fold :: "string \<Rightarrow> string \<Rightarrow> bool"
  env_open :: "bytes \<Rightarrow> stream_open_payload option"
  env_result :: "open_result \<Rightarrow> bytes option"
  env_send :: "frame \<Rightarrow> string option"

definition agentStreamResetMessage :: bytes where
  "agentStreamResetMessage = map of_char ''stream rejected''"

definition send_frame :: "dispatch_env \<Rightarrow> frame \<Rightarrow> dispatch_error option \<times> frame list" where
  "send_frame env f = (map_option SendFailed (env_send env f), [f])"

definition sendReset :: "dispatch_env \<Rightarrow> uint32 \<Rightarrow> dispatch_error option \<times> frame list" where
  "sendReset env i =
     send_frame env \<lparr>Version = CurrentVersion, FType = FrameReset, Flags = 0, StreamID = i, Window = 0, Payload = agentStreamResetMessage\<rparr>"

definition sendOpenResult :: "dispatch_env \<Rightarrow> uint32 \<Rightarrow> open_result \<Rightarrow> dispatch_error option \<times> frame list" where
  "sendOpenResult env i r =
     (case EncodeOpenResultPayload (env_result env) r of
        Inl e \<Rightarrow> (Some (DispatchProtocol e), [])
      | Inr payload \<Rightarrow>
        send_frame env \<lparr>Version = CurrentVersion, FType = FrameOpenResult, Flags = 0, StreamID = i, Window = 0, Payload = payload\<rparr>)"

definition rejectStreamMode :: "dispatch_env \<Rightarrow> uint32 \<Rightarrow> dial_result \<Rightarrow> bool \<Rightarrow> frame list" where
  "rejectStreamMode env i r strict =
     (let stage = (if dr_Stage r = [] then ''connect'' else dr_Stage r);
          code = (if dr_Code r = [] then ''internal_error'' else dr_Code r) in
      if strict
      then snd (sendOpenResult env i \<lparr>Accepted = False, Stage = stage, Code = code, Retryable = dr_Retryable r,
                  RetryAfterMS = max (dr_RetryAfterMS r) 0\<rparr>)
      else snd (sendReset env i))"

definition failure :: "string \<Rightarrow> string \<Rightarrow> bool \<Rightarrow> dial_result" where
  "failure code stage retryable = \<lparr>dr_Conn = False, dr_Stage = stage, dr_Code = code, dr_Retryable = retryable, dr_RetryAfterMS = 0\<rparr>"

definition update_entry :: "dispatcher \<Rightarrow> uint64 \<Rightarrow> (stream_entry \<Rightarrow> stream_entry) \<Rightarrow> dispatcher" where
  "update_entry d g h = d\<lparr>sd_entries := (sd_entries d)(g := map_option h (sd_entries d g))\<rparr>"

definition forget_stream :: "dispatcher \<Rightarrow> uint32 \<Rightarrow> uint64 \<Rightarrow> dispatcher" where
  "forget_stream d i g = (if map_of (sd_streams d) i = Some g then d\<lparr>sd_streams := AList.delete i (sd_streams d)\<rparr> else d)"

definition removeAndClose :: "dispatcher \<Rightarrow> uint32 \<Rightarrow> uint64 \<Rightarrow> dispatcher" where
  "removeAndClose d i g = update_entry (forget_stream d i g) g (\<lambda>e. (stopInbound e)\<lparr>se_connClosed := True\<rparr>)"

definition rejectAndClose ::
  "dispatch_env \<Rightarrow> dispatcher \<Rightarrow> uint32 \<Rightarrow> uint64 \<Rightarrow> dispatch_error option \<times> frame list \<times> dispatcher" where
  "rejectAndClose env d i g = (let (e, fs) = sendReset env i in (e, fs, removeAndClose d i g))"

definition removePending :: "dispatcher \<Rightarrow> uint32 \<Rightarrow> dispatcher" where
  "removePending d i = d\<lparr>sd_pending := AList.delete i (sd_pending d)\<rparr>"

definition cancelPending :: "dispatcher \<Rightarrow> uint32 \<Rightarrow> dispatcher" where
  "cancelPending d i = (removePending d i)\<lparr>sd_executor := CancelDial (sd_executor d) i\<rparr>"

subsection \<open>Frames from the server\<close>

text \<open>Enter the pending open and submit its dial; a dial that cannot be queued is refused.\<close>

definition start_dial ::
  "dispatch_env \<Rightarrow> dispatcher \<Rightarrow> uint32 \<Rightarrow> stream_open_payload \<Rightarrow> bool \<Rightarrow> uint32 \<Rightarrow> dispatch_error option \<times> frame list \<times> dispatcher" where
  "start_dial env d i p strict window =
     (let d1 = d\<lparr>sd_pending := AList.update i
                   \<lparr>ps_data = [], ps_pendingBytes = 0, ps_halfClosed = False, ps_strict = strict, ps_initialWindow = window\<rparr>
                   (sd_pending d), sd_generation := sd_generation d + 1\<rparr>;
          (err, ex) = Submit (sd_executor d1) i (so_Protocol p);
          d2 = d1\<lparr>sd_executor := ex\<rparr> in
      case err of None \<Rightarrow> (None, [], d2)
      | Some e \<Rightarrow>
        (let code = (if e = ErrDialQueueFull then ''queue_full'' else ''internal_error'') in
         (None, rejectStreamMode env i (failure code ''queue'' (code = ''queue_full'')) strict, removePending d2 i)))"

definition handle_open :: "dispatch_env \<Rightarrow> dispatcher \<Rightarrow> frame \<Rightarrow> dispatch_error option \<times> frame list \<times> dispatcher" where
  "handle_open env d f =
     (case DecodeStreamOpenPayload (env_open env) (Payload f) of
        Inl e \<Rightarrow> (Some (DispatchProtocol e), [], d)
      | Inr p \<Rightarrow>
        (let i = StreamID f; strict = sd_openResult d \<and> and (Flags f) FlagStrictOpen \<noteq> 0 in
         if i = 0 \<or> (\<not> EqualFold (env_fold env) (so_Protocol p) ''exec'' \<and> so_TargetHost p = [])
            \<or> \<not> validStreamTargetPort (env_fold env) (so_Protocol p) (so_TargetPort p)
         then (Some ErrInvalidTarget, [], d)
         else if sd_closed d then (Some ErrStreamNotFound, [], d)
         else if EqualFold (env_fold env) (so_Protocol p) ''icmp-echo'' \<and> \<not> sd_icmpEcho d
         then (None, rejectStreamMode env i (failure ''unsupported_capability'' ''protocol'' False) strict, d)
         else if map_of (sd_streams d) i \<noteq> None \<or> map_of (sd_pending d) i \<noteq> None
         then (None, rejectStreamMode env i (failure ''internal_error'' ''protocol'' False) strict, d)
         else if sd_maxActive d > 0 \<and> int (length (sd_streams d) + length (sd_pending d)) \<ge> sd_maxActive d
         then (None, rejectStreamMode env i (failure ''queue_full'' ''queue'' True) strict, d)
         else start_dial env d i p strict (Window f)))"

text \<open>A DATA frame: what the first look at the tables decides, and what is done about it after the lock was released.\<close>

datatype data_plan = PlanAdmit uint64 | PlanReject uint64 | PlanCancel | PlanBuffer | PlanUnknown

definition data_look :: "dispatcher \<Rightarrow> uint32 \<Rightarrow> data_plan" where
  "data_look d i =
     (case map_of (sd_streams d) i of
        Some g \<Rightarrow> (case sd_entries d g of None \<Rightarrow> PlanUnknown | Some e \<Rightarrow> if se_localHalf e then PlanReject g else PlanAdmit g)
      | None \<Rightarrow>
        (case map_of (sd_pending d) i of None \<Rightarrow> PlanUnknown
         | Some p \<Rightarrow> if ps_strict p then PlanCancel else PlanBuffer))"

definition admit_or_reject ::
  "dispatch_env \<Rightarrow> int \<Rightarrow> dispatcher \<Rightarrow> uint32 \<Rightarrow> uint64 \<Rightarrow> bytes \<Rightarrow> bool \<times> dispatch_error option \<times> frame list \<times> dispatcher" where
  "admit_or_reject env now d i g payload =
     (case sd_entries d g of None \<Rightarrow> (True, None, [], d)
      | Some e \<Rightarrow>
        (case admitInbound now i e payload of
           (None, e') \<Rightarrow> (True, None, [], update_entry d g (\<lambda>_. e'))
         | (Some _, e') \<Rightarrow> (False, rejectAndClose env (update_entry d g (\<lambda>_. e')) i g)))"

definition data_act ::
  "dispatch_env \<Rightarrow> int \<Rightarrow> dispatcher \<Rightarrow> uint32 \<Rightarrow> bytes \<Rightarrow> data_plan \<Rightarrow> dispatch_error option \<times> frame list \<times> dispatcher" where
  "data_act env now d i payload plan =
     (case plan of
        PlanAdmit g \<Rightarrow> snd (admit_or_reject env now d i g payload)
      | PlanReject g \<Rightarrow> rejectAndClose env d i g
      | PlanUnknown \<Rightarrow> (None, snd (sendReset env i), d)
      | PlanCancel \<Rightarrow> (None, snd (sendReset env i), cancelPending d i)
      | PlanBuffer \<Rightarrow>
        (case map_of (sd_pending d) i of None \<Rightarrow> (None, [], d)
         | Some p \<Rightarrow>
           if ps_pendingBytes p + int (length payload) > inboundBufferBytesLocked d
           then (None, snd (sendReset env i), cancelPending d i)
           else (None, [], d\<lparr>sd_pending := AList.update i
                   (p\<lparr>ps_data := ps_data p @ [payload], ps_pendingBytes := ps_pendingBytes p + int (length payload)\<rparr>)
                   (sd_pending d)\<rparr>)))"

text \<open>The half-close is queued behind the data; when the queue takes no more it is dropped.\<close>

definition handleHalfClose :: "int \<Rightarrow> dispatcher \<Rightarrow> uint32 \<Rightarrow> uint64 \<Rightarrow> dispatcher" where
  "handleHalfClose now d i g =
     (if map_of (sd_streams d) i \<noteq> Some g then d
      else (case sd_entries d g of None \<Rightarrow> d
        | Some e \<Rightarrow>
          if se_localHalf e then d
          else update_entry d g (\<lambda>_. let e1 = e\<lparr>se_localHalf := True\<rparr> in
                 case TryPush now (se_inbound e1) (half_close_frame i) of None \<Rightarrow> e1 | Some q \<Rightarrow> e1\<lparr>se_inbound := q\<rparr>)))"

definition handle_half_close :: "int \<Rightarrow> dispatcher \<Rightarrow> uint32 \<Rightarrow> dispatcher" where
  "handle_half_close now d i =
     (case map_of (sd_streams d) i of
        Some g \<Rightarrow> handleHalfClose now d i g
      | None \<Rightarrow>
        (case map_of (sd_pending d) i of None \<Rightarrow> d
         | Some p \<Rightarrow> d\<lparr>sd_pending := AList.update i (p\<lparr>ps_halfClosed := True\<rparr>) (sd_pending d)\<rparr>))"

definition handle_reset :: "dispatcher \<Rightarrow> uint32 \<Rightarrow> dispatcher" where
  "handle_reset d i =
     (let entry = map_of (sd_streams d) i; pending = map_of (sd_pending d) i;
          d1 = d\<lparr>sd_streams := AList.delete i (sd_streams d), sd_pending := AList.delete i (sd_pending d)\<rparr> in
      if entry = None \<and> pending = None then d
      else (let d2 = d1\<lparr>sd_executor := CancelDial (sd_executor d1) i\<rparr> in
            case entry of None \<Rightarrow> d2
            | Some g \<Rightarrow> update_entry d2 g (\<lambda>e. (stopInbound e)\<lparr>se_connClosed := True\<rparr>)))"

definition handle_update :: "dispatch_env \<Rightarrow> dispatcher \<Rightarrow> frame \<Rightarrow> dispatch_error option \<times> frame list \<times> dispatcher" where
  "handle_update env d f =
     (case map_of (sd_streams d) (StreamID f) of None \<Rightarrow> (None, [], d)
      | Some g \<Rightarrow>
        (case sd_entries d g of None \<Rightarrow> (None, [], d)
         | Some e \<Rightarrow>
           (case se_sendState e of None \<Rightarrow> (None, [], d)
            | Some st \<Rightarrow>
              (case AddSendWindow st (Window f) of
                 (None, st') \<Rightarrow> (None, [], update_entry d g (\<lambda>e. e\<lparr>se_sendState := Some st', se_windowSignal := True\<rparr>))
               | (Some _, st') \<Rightarrow> rejectAndClose env (update_entry d g (\<lambda>e. e\<lparr>se_sendState := Some st'\<rparr>)) (StreamID f) g))))"

definition DispatcherHandle :: "dispatch_env \<Rightarrow> int \<Rightarrow> dispatcher \<Rightarrow> frame \<Rightarrow> dispatch_error option \<times> frame list \<times> dispatcher" where
  "DispatcherHandle env now d f =
     (if FType f = FrameOpenStream then handle_open env d f
      else if FType f = FrameData then data_act env now d (StreamID f) (Payload f) (data_look d (StreamID f))
      else if FType f = FrameHalfClose then (None, [], handle_half_close now d (StreamID f))
      else if FType f = FrameReset then (None, [], handle_reset d (StreamID f))
      else if FType f = FrameWindowUpdate then handle_update env d f
      else (None, [], d))"

subsection \<open>Completing a dial\<close>

text \<open>
  The first locked part decides what becomes of the result and enters the stream; the rest answers, admits the data that
  came in the meantime and starts the reader.
\<close>

datatype dial_plan =
    DialRefused dial_result bool | DialDiscarded | DialDuplicate | DialInstalled uint64 "bytes list" bool bool

definition dial_register :: "dispatcher \<Rightarrow> uint32 \<Rightarrow> string \<Rightarrow> dial_result \<Rightarrow> dial_plan \<times> dispatcher" where
  "dial_register d i proto result =
     (let pending = map_of (sd_pending d) i;
          d1 = d\<lparr>sd_pending := AList.delete i (sd_pending d)\<rparr>;
          early = (case pending of None \<Rightarrow> [] | Some p \<Rightarrow> ps_data p);
          half = (case pending of None \<Rightarrow> False | Some p \<Rightarrow> ps_halfClosed p);
          strict = (case pending of None \<Rightarrow> False | Some p \<Rightarrow> ps_strict p);
          window = (case pending of None \<Rightarrow> 0 | Some p \<Rightarrow> ps_initialWindow p) in
      if dr_Code result \<noteq> ''ok'' \<or> \<not> dr_Conn result
      then (DialRefused (if dr_Code result = ''ok'' then result\<lparr>dr_Code := ''internal_error'', dr_Stage := ''connect''\<rparr> else result) strict, d1)
      else if sd_closed d1 then (DialDiscarded, d1)
      else if map_of (sd_streams d1) i \<noteq> None then (DialDuplicate, d1)
      else (let g = sd_generation d1 + 1 in
            (DialInstalled g early half strict,
             d1\<lparr>sd_generation := g, sd_entries := (sd_entries d1)(g \<mapsto> new_entry i proto g (inboundBufferBytesLocked d1) window),
                sd_streams := AList.update i g (sd_streams d1)\<rparr>)))"

text \<open>The early payloads in order, up to the first that is refused.\<close>

fun admit_all :: "dispatch_env \<Rightarrow> int \<Rightarrow> dispatcher \<Rightarrow> uint32 \<Rightarrow> uint64 \<Rightarrow> bytes list \<Rightarrow> bool \<times> frame list \<times> dispatcher" where
  "admit_all env now d i g [] = (True, [], d)"
| "admit_all env now d i g (p # ps) =
     (case admit_or_reject env now d i g p of
        (True, _, fs, d') \<Rightarrow> (case admit_all env now d' i g ps of (ok, gs, d'') \<Rightarrow> (ok, fs @ gs, d''))
      | (False, _, fs, d') \<Rightarrow> (False, fs, d'))"

text \<open>The result says whether the reader of the target was started.\<close>

definition dial_finish :: "dispatch_env \<Rightarrow> int \<Rightarrow> dispatcher \<Rightarrow> uint32 \<Rightarrow> dial_plan \<Rightarrow> bool \<times> frame list \<times> dispatcher" where
  "dial_finish env now d i plan =
     (case plan of
        DialRefused result strict \<Rightarrow> (False, rejectStreamMode env i result strict, d)
      | DialDiscarded \<Rightarrow> (False, [], d)
      | DialDuplicate \<Rightarrow> (False, rejectStreamMode env i (failure ''internal_error'' ''protocol'' False) (sd_openResult d), d)
      | DialInstalled g early half strict \<Rightarrow>
        (let (openErr, fs) = (if strict
               then sendOpenResult env i \<lparr>Accepted = True, Stage = ''connect'', Code = ''ok'', Retryable = False, RetryAfterMS = 0\<rparr>
               else (None, []));
             (admitted, gs, d1) = admit_all env now d i g early in
         if \<not> admitted then (False, fs @ gs, d1)
         else (let d2 = (if half then handleHalfClose now d1 i g else d1) in
               if openErr \<noteq> None then (case rejectAndClose env d2 i g of (_, hs, d3) \<Rightarrow> (False, fs @ gs @ hs, d3))
               else (True, fs @ gs, d2))))"

definition completeDial :: "dispatch_env \<Rightarrow> int \<Rightarrow> dispatcher \<Rightarrow> uint32 \<Rightarrow> string \<Rightarrow> dial_result \<Rightarrow> bool \<times> frame list \<times> dispatcher" where
  "completeDial env now d i proto result = (let (plan, d1) = dial_register d i proto result in dial_finish env now d1 i plan)"

subsection \<open>The goroutines of a stream\<close>

text \<open>
  What the target connection does is an argument: the bytes a write took and whether it failed (\<open>wrote\<close>), whether closing
  its write half and closing it succeed (\<open>closes\<close>), and what a read returned.
\<close>

datatype pump_state = PumpWaits | PumpStopped | PumpGoesOn

definition closeTargetWrite :: "bool \<times> bool \<Rightarrow> dispatcher \<Rightarrow> uint32 \<Rightarrow> uint64 \<Rightarrow> bool \<times> dispatcher" where
  "closeTargetWrite closes d i g =
     (case sd_entries d g of None \<Rightarrow> (True, d)
      | Some e \<Rightarrow>
        if \<not> fst closes then (False, d)
        else if se_remoteHalf e
        then (snd closes, update_entry (forget_stream d i g) g (\<lambda>e. (stopInbound e)\<lparr>se_connClosed := True\<rparr>))
        else (True, d))"

definition pumpTarget ::
  "dispatch_env \<Rightarrow> int \<Rightarrow> int \<times> bool \<Rightarrow> bool \<times> bool \<Rightarrow> dispatcher \<Rightarrow> uint32 \<Rightarrow> uint64 \<Rightarrow> pump_state \<times> frame list \<times> dispatcher" where
  "pumpTarget env now wrote closes d i g =
     (case sd_entries d g of None \<Rightarrow> (PumpStopped, [], d)
      | Some e \<Rightarrow>
        (case Pop now (se_inbound e) of
           PopWait \<Rightarrow> (PumpWaits, [], d)
         | PopClosed \<Rightarrow> (PumpStopped, [], d)
         | Popped f q \<Rightarrow>
           (let d1 = update_entry d g (\<lambda>e. e\<lparr>se_inbound := q\<rparr>) in
            if FType f = FrameHalfClose then
              (case closeTargetWrite closes d1 i g of
                 (True, d2) \<Rightarrow> (PumpGoesOn, [], d2)
               | (False, d2) \<Rightarrow> (case rejectAndClose env d2 i g of (_, fs, d3) \<Rightarrow> (PumpStopped, fs, d3)))
            else if snd wrote \<or> fst wrote \<noteq> int (length (Payload f)) then
              (case rejectAndClose env d1 i g of (_, fs, d2) \<Rightarrow> (PumpStopped, fs, d2))
            else (let (u, e2) = agent_releaseReceiveWindow (e\<lparr>se_inbound := q\<rparr>) (fst wrote);
                      update = \<lparr>Version = CurrentVersion, FType = FrameWindowUpdate, Flags = 0, StreamID = i, Window = u, Payload = []\<rparr> in
                  (PumpGoesOn, if u = 0 then [] else [update], update_entry d1 g (\<lambda>_. e2))))))"

datatype target_read = TargetData bytes | TargetEOF | TargetFailed

text \<open>
  One turn of \<^verbatim>\<open>readBack\<close>. The Boolean of the result says whether the reader goes on; \<open>None\<close> waits for send credit with
  the bytes in hand.
\<close>

definition readBack ::
  "dispatch_env \<Rightarrow> target_read \<Rightarrow> dispatcher \<Rightarrow> uint32 \<Rightarrow> uint64 \<Rightarrow> (bool \<times> frame list \<times> dispatcher) option" where
  "readBack env r d i g =
     (case sd_entries d g of None \<Rightarrow> Some (False, [], d)
      | Some e \<Rightarrow>
        if sd_closed d then Some (False, [], d)
        else (case r of
          TargetData b \<Rightarrow>
            (let send = (\<lambda>d'. case env_send env (data_frame i b) of
                   None \<Rightarrow> Some (True, [data_frame i b], d')
                 | Some _ \<Rightarrow> Some (False, data_frame i b # snd (sendReset env i), removeAndClose d' i g)) in
             case waitForSendWindow e (int (length b)) of
               (Inl _, _) \<Rightarrow> Some (False, [], removeAndClose d i g)
             | (Inr False, _) \<Rightarrow> if map_of (sd_streams d) i = Some g then None else send d
             | (Inr True, e') \<Rightarrow> send (update_entry d g (\<lambda>_. e')))
        | TargetFailed \<Rightarrow> Some (False, snd (sendReset env i), removeAndClose d i g)
        | TargetEOF \<Rightarrow>
            (if map_of (sd_streams d) i \<noteq> Some g then Some (False, [], d)
             else (let d1 = update_entry d g (\<lambda>e. e\<lparr>se_remoteHalf := True\<rparr>);
                       complete = se_localHalf e;
                       d2 = (if complete then forget_stream d1 i g else d1) in
                   case env_send env (half_close_frame i) of
                     Some _ \<Rightarrow> Some (False, half_close_frame i # snd (sendReset env i), removeAndClose d2 i g)
                   | None \<Rightarrow>
                     Some (False, [half_close_frame i],
                       if complete then update_entry d2 g (\<lambda>e. (finishInbound e)\<lparr>se_connClosed := True\<rparr>) else d2)))))"

definition CloseDispatcher :: "dispatcher \<Rightarrow> dispatcher" where
  "CloseDispatcher d =
     (let d1 = d\<lparr>sd_executor := CloseExecutor (sd_executor d)\<rparr> in
      if sd_closed d1 then d1
      else foldl (\<lambda>d' g. update_entry d' g (\<lambda>e. (stopInbound e)\<lparr>se_connClosed := True\<rparr>))
             (d1\<lparr>sd_closed := True, sd_streams := []\<rparr>) (map snd (sd_streams d1)))"

section \<open>Runs\<close>

text \<open>
  The dispatcher with its goroutines. The frame reader may be between its look at the tables and its action on a DATA frame;
  a dial worker may be between entering a stream and finishing the dial.
\<close>

record dispatch_system =
  sy_d :: dispatcher
  sy_reader :: "(frame \<times> data_plan) option"
  sy_dials :: "(uint32 \<times> dial_plan) list"
  sy_sent :: "frame list"

datatype dispatch_event =
    SHandle int frame | SDataLook frame | SDataAct int
  | SWorkerTake | SDialRegister uint32 dial_result | SDialFinish int uint32 | SWorkerDone uint32
  | SPump int "int \<times> bool" "bool \<times> bool" uint32 uint64 | SReadBack target_read uint32 uint64 | SCloseAll

fun dispatch_step :: "dispatch_env \<Rightarrow> dispatch_system \<Rightarrow> dispatch_event \<Rightarrow> dispatch_system" where
  "dispatch_step env s (SHandle now f) =
     (if sy_reader s \<noteq> None then s
      else (case DispatcherHandle env now (sy_d s) f of (_, fs, d) \<Rightarrow> s\<lparr>sy_d := d, sy_sent := sy_sent s @ fs\<rparr>))"
| "dispatch_step env s (SDataLook f) =
     (if sy_reader s \<noteq> None \<or> FType f \<noteq> FrameData then s else s\<lparr>sy_reader := Some (f, data_look (sy_d s) (StreamID f))\<rparr>)"
| "dispatch_step env s (SDataAct now) =
     (case sy_reader s of None \<Rightarrow> s
      | Some (f, plan) \<Rightarrow>
        (case data_act env now (sy_d s) (StreamID f) (Payload f) plan of
           (_, fs, d) \<Rightarrow> s\<lparr>sy_d := d, sy_reader := None, sy_sent := sy_sent s @ fs\<rparr>))"
| "dispatch_step env s SWorkerTake = s\<lparr>sy_d := (sy_d s)\<lparr>sd_executor := worker_take (sd_executor (sy_d s))\<rparr>\<rparr>"
| "dispatch_step env s (SDialRegister i result) =
     (case map_of (de_running (sd_executor (sy_d s))) i of None \<Rightarrow> s
      | Some proto \<Rightarrow>
        (case dial_register ((sy_d s)\<lparr>sd_executor := worker_report (sd_executor (sy_d s)) i\<rparr>) i proto result of
           (plan, d) \<Rightarrow> s\<lparr>sy_d := d, sy_dials := (i, plan) # sy_dials s\<rparr>))"
| "dispatch_step env s (SDialFinish now i) =
     (case map_of (sy_dials s) i of None \<Rightarrow> s
      | Some plan \<Rightarrow>
        (case dial_finish env now (sy_d s) i plan of
           (_, fs, d) \<Rightarrow> s\<lparr>sy_d := d, sy_dials := AList.delete i (sy_dials s), sy_sent := sy_sent s @ fs\<rparr>))"
| "dispatch_step env s (SWorkerDone i) =
     (if map_of (sy_dials s) i = None \<and> i \<in> set (de_finishing (sd_executor (sy_d s)))
      then s\<lparr>sy_d := (sy_d s)\<lparr>sd_executor := worker_done (sd_executor (sy_d s)) i\<rparr>\<rparr> else s)"
| "dispatch_step env s (SPump now wrote closes i g) =
     (case pumpTarget env now wrote closes (sy_d s) i g of (_, fs, d) \<Rightarrow> s\<lparr>sy_d := d, sy_sent := sy_sent s @ fs\<rparr>)"
| "dispatch_step env s (SReadBack r i g) =
     (case readBack env r (sy_d s) i g of None \<Rightarrow> s
      | Some (_, fs, d) \<Rightarrow> s\<lparr>sy_d := d, sy_sent := sy_sent s @ fs\<rparr>)"
| "dispatch_step env s SCloseAll = s\<lparr>sy_d := CloseDispatcher (sy_d s)\<rparr>"

definition dispatch_run :: "dispatch_env \<Rightarrow> dispatch_system \<Rightarrow> dispatch_event list \<Rightarrow> dispatch_system" where
  "dispatch_run env s evs = foldl (dispatch_step env) s evs"

definition start_dispatch :: "dispatcher \<Rightarrow> dispatch_system" where
  "start_dispatch d = \<lparr>sy_d = d, sy_reader = None, sy_dials = [], sy_sent = []\<rparr>"

section \<open>The ceiling on streams\<close>

definition jobs :: "dial_executor \<Rightarrow> uint32 list" where
  "jobs e = map fst (de_queue e) @ map fst (de_running e)"

definition executor_inv :: "dial_executor \<Rightarrow> bool" where
  "executor_inv e \<longleftrightarrow> distinct (jobs e) \<and> set (jobs e) \<union> set (de_finishing e) \<subseteq> set (de_cancels e)
     \<and> set (jobs e) \<inter> set (de_finishing e) = {} \<and> distinct (de_finishing e)
     \<and> length (de_queue e) \<le> de_MaxPending e \<and> length (de_running e) + length (de_finishing e) \<le> de_MaxConcurrent e"

definition ids_of :: "(uint32 \<times> 'v) list \<Rightarrow> uint32 set" where
  "ids_of xs = fst ` set xs"

lemma ids_of_delete [simp]: "ids_of (AList.delete k xs) = ids_of xs - {k}"
  by (auto simp: ids_of_def AList.delete_eq image_iff)

lemma ids_of_update [simp]: "ids_of (AList.update k v xs) = insert k (ids_of xs)"
  by (simp add: ids_of_def dom_update)

lemma ids_of_Nil [simp]: "ids_of [] = {}"
  by (simp add: ids_of_def)

lemma map_of_ids: "map_of xs k = Some v \<Longrightarrow> k \<in> ids_of xs" "map_of xs k = None \<Longrightarrow> k \<notin> ids_of xs"
  by (force simp: ids_of_def map_of_eq_None_iff dest: map_of_SomeD)+

text \<open>Every pending open has a dial, and a dial can outlive its pending open.\<close>

definition dispatcher_inv :: "dispatcher \<Rightarrow> bool" where
  "dispatcher_inv d \<longleftrightarrow> executor_inv (sd_executor d) \<and> distinct (map fst (sd_pending d)) \<and> distinct (map fst (sd_streams d))
     \<and> ids_of (sd_pending d) \<subseteq> set (jobs (sd_executor d))
     \<and> (sd_maxActive d > 0 \<longrightarrow>
         int (length (sd_streams d) + length (jobs (sd_executor d)))
           < sd_maxActive d + int (de_MaxConcurrent (sd_executor d) + de_MaxPending (sd_executor d)))"

text \<open>A step that starts no dial and enters no stream.\<close>

definition same_jobs :: "dial_executor \<Rightarrow> dial_executor \<Rightarrow> bool" where
  "same_jobs e e' \<longleftrightarrow> de_queue e' = de_queue e \<and> de_running e' = de_running e \<and> de_finishing e' = de_finishing e
     \<and> de_cancels e' = de_cancels e \<and> de_MaxPending e' = de_MaxPending e \<and> de_MaxConcurrent e' = de_MaxConcurrent e"

lemma executor_inv_same_jobs:
  assumes "same_jobs e e'"
  shows "executor_inv e' = executor_inv e" "jobs e' = jobs e"
  using assms by (simp_all add: same_jobs_def executor_inv_def jobs_def)

definition calmer :: "dispatcher \<Rightarrow> dispatcher \<Rightarrow> bool" where
  "calmer d d' \<longleftrightarrow> sd_maxActive d' = sd_maxActive d \<and> same_jobs (sd_executor d) (sd_executor d')
     \<and> length (sd_streams d') \<le> length (sd_streams d) \<and> (distinct (map fst (sd_streams d)) \<longrightarrow> distinct (map fst (sd_streams d')))
     \<and> ids_of (sd_pending d') \<subseteq> ids_of (sd_pending d)
     \<and> (distinct (map fst (sd_pending d)) \<longrightarrow> distinct (map fst (sd_pending d')))"

lemma calmer_refl [simp]: "calmer d d"
  by (simp add: calmer_def same_jobs_def)

lemma calmer_trans: "calmer d d' \<Longrightarrow> calmer d' d'' \<Longrightarrow> calmer d d''"
  unfolding calmer_def same_jobs_def by force

lemma dispatcher_inv_calmer:
  assumes "dispatcher_inv d" "calmer d d'"
  shows "dispatcher_inv d'"
proof -
  have j: "same_jobs (sd_executor d) (sd_executor d')" using assms(2) by (simp add: calmer_def)
  show ?thesis using assms j executor_inv_same_jobs [OF j] unfolding dispatcher_inv_def calmer_def same_jobs_def by auto
qed

lemma calmer_update_entry [simp]: "calmer d (update_entry d' g h) \<longleftrightarrow> calmer d d'"
  by (simp add: calmer_def update_entry_def)

lemma distinct_delete: "distinct (map fst xs) \<Longrightarrow> distinct (map fst (AList.delete k xs))"
  by (simp add: AList.delete_eq distinct_map_filter)

lemma calmer_forget_stream [simp]: "calmer d d' \<Longrightarrow> calmer d (forget_stream d' i g)"
  by (simp add: calmer_def forget_stream_def distinct_delete le_trans [OF length_delete_le])

lemma calmer_removePending [simp]: "calmer d d' \<Longrightarrow> calmer d (removePending d' i)"
  by (auto simp: calmer_def removePending_def distinct_delete)

lemma calmer_cancelPending [simp]: "calmer d d' \<Longrightarrow> calmer d (cancelPending d' i)"
  using calmer_removePending [of d d' i] by (auto simp: calmer_def cancelPending_def same_jobs_def CancelDial_def removePending_def)

lemma calmer_set_pending [simp]:
  "map_of (sd_pending d') i = Some p \<Longrightarrow> calmer d d' \<Longrightarrow> calmer d (d'\<lparr>sd_pending := AList.update i p' (sd_pending d')\<rparr>)"
  by (auto simp: calmer_def distinct_update dest: map_of_ids)

lemma calmer_removeAndClose [simp]: "calmer d d' \<Longrightarrow> calmer d (removeAndClose d' i g)"
  by (simp add: removeAndClose_def)

lemma calmer_rejectAndClose [simp]: "calmer d d' \<Longrightarrow> calmer d (snd (snd (rejectAndClose env d' i g)))"
  by (simp add: rejectAndClose_def split: prod.splits)

lemma calmer_admit [simp]: "calmer d d' \<Longrightarrow> calmer d (snd (snd (snd (admit_or_reject env now d' i g p))))"
  by (auto simp: admit_or_reject_def split: option.splits prod.splits)

lemma calmer_admit_all: "calmer d d' \<Longrightarrow> calmer d (snd (snd (admit_all env now d' i g ps)))"
proof (induction ps arbitrary: d')
  case (Cons p ps)
  obtain ok e fs d1 where a: "admit_or_reject env now d' i g p = (ok, e, fs, d1)" by (cases "admit_or_reject env now d' i g p")
  then have "calmer d d1" using calmer_admit [OF Cons.prems, of env now i g p] by simp
  from this Cons.IH [OF this] show ?case using a by (auto split: bool.splits prod.splits)
qed simp

lemma calmer_handleHalfClose [simp]: "calmer d d' \<Longrightarrow> calmer d (handleHalfClose now d' i g)"
  by (auto simp: handleHalfClose_def split: option.splits)

lemma calmer_data_act [simp]: "calmer d (snd (snd (data_act env now d i p plan)))"
  by (auto simp: data_act_def split: data_plan.splits option.splits)

lemma calmer_frames:
  "calmer d (handle_half_close now d i)" "calmer d (handle_reset d i)" "calmer d (snd (snd (handle_update env d f)))"
proof -
  show "calmer d (handle_half_close now d i)" by (auto simp: handle_half_close_def split: option.splits)
  have "calmer d (d\<lparr>sd_streams := AList.delete i (sd_streams d), sd_pending := AList.delete i (sd_pending d),
      sd_executor := CancelDial (sd_executor d) i\<rparr>)"
    by (auto simp: calmer_def same_jobs_def CancelDial_def distinct_delete length_delete_le)
  then show "calmer d (handle_reset d i)" by (simp add: handle_reset_def Let_def split: option.splits)
  show "calmer d (snd (snd (handle_update env d f)))" by (simp add: handle_update_def split: option.splits prod.splits)
qed

lemma calmer_pump: "calmer d (snd (snd (pumpTarget env now wrote closes d i g)))"
proof (cases "sd_entries d g")
  case (Some e)
  have "calmer d (snd (closeTargetWrite closes d' i g))" if "calmer d d'" for d'
    using that by (simp add: closeTargetWrite_def split: option.splits)
  then show ?thesis using Some by (auto simp: pumpTarget_def Let_def split: pop_result.splits prod.splits bool.splits) (metis calmer_rejectAndClose calmer_update_entry calmer_refl snd_conv)+
qed (simp add: pumpTarget_def)

lemma calmer_readBack:
  assumes "readBack env r d i g = Some (b, fs, d')"
  shows "calmer d d'"
proof (cases r)
  case (TargetData bs)
  then show ?thesis using assms
    by (auto simp: readBack_def Let_def split: option.splits if_splits prod.splits sum.splits bool.splits)
qed (use assms in \<open>auto simp: readBack_def Let_def split: option.splits if_splits\<close>)

lemma calmer_dial_finish: "calmer d (snd (snd (dial_finish env now d i plan)))"
proof (cases plan)
  case (DialInstalled g early half strict)
  obtain ok fs d1 where a: "admit_all env now d i g early = (ok, fs, d1)" by (cases "admit_all env now d i g early")
  then have c: "calmer d d1" using calmer_admit_all [of d d env now i g early] by simp
  define d2 where "d2 = (if half then handleHalfClose now d1 i g else d1)"
  have "calmer d d2" "calmer d (snd (snd (rejectAndClose env d2 i g)))" using c by (simp_all add: d2_def)
  then show ?thesis using a c DialInstalled
    unfolding dial_finish_def Let_def by (simp add: d2_def [symmetric] case_prod_unfold)
qed (simp_all add: dial_finish_def)

lemma calmer_CloseDispatcher: "calmer d (CloseDispatcher d)"
proof -
  have "calmer d (foldl (\<lambda>d' g. update_entry d' g h) d' gs)" if "calmer d d'" for d' gs h
    using that by (induction gs arbitrary: d') simp_all
  moreover have "calmer d (d\<lparr>sd_executor := CloseExecutor (sd_executor d)\<rparr>)"
    "calmer d (d\<lparr>sd_executor := CloseExecutor (sd_executor d), sd_closed := True, sd_streams := []\<rparr>)"
    by (simp_all add: calmer_def same_jobs_def CloseExecutor_def)
  ultimately show ?thesis by (simp add: CloseDispatcher_def Let_def)
qed

lemma Submit_inv:
  assumes "executor_inv e" "Submit e i proto = (err, e')"
  shows "executor_inv e' \<and> de_MaxPending e' = de_MaxPending e \<and> de_MaxConcurrent e' = de_MaxConcurrent e
    \<and> (if err = None then set (jobs e') = insert i (set (jobs e)) \<and> length (jobs e') = Suc (length (jobs e)) else jobs e' = jobs e)"
proof (cases err)
  case None
  then have e': "e' = e\<lparr>de_cancels := i # de_cancels e, de_queue := de_queue e @ [(i, proto)]\<rparr>" "i \<notin> set (de_cancels e)"
    "length (de_queue e) < de_MaxPending e"
    using assms(2) by (auto simp: Submit_def Let_def split: if_splits)
  have "i \<notin> set (jobs e)" "i \<notin> set (de_finishing e)" using assms(1) e'(2) by (auto simp: executor_inv_def)
  then show ?thesis using assms(1) e' None by (auto simp: executor_inv_def jobs_def)
next
  case (Some x)
  have "filter (\<lambda>j. j \<noteq> i) (de_cancels e) = de_cancels e" if "i \<notin> set (de_cancels e)"
    using that by (induction "de_cancels e") (auto simp: filter_id_conv)
  then have j: "same_jobs e e'"
    using assms(2) Some by (auto simp: Submit_def Let_def removeCancel_def same_jobs_def split: if_splits)
  then show ?thesis using assms(1) Some executor_inv_same_jobs [OF j] by (simp add: same_jobs_def)
qed

lemma dispatcher_inv_start_dial:
  assumes inv: "dispatcher_inv d" and i: "map_of (sd_pending d) i = None"
    and c: "sd_maxActive d > 0 \<longrightarrow> int (length (sd_streams d) + length (sd_pending d)) < sd_maxActive d"
  shows "dispatcher_inv (snd (snd (start_dial env d i p strict w)))"
proof -
  obtain err ex where s: "Submit (sd_executor d) i (so_Protocol p) = (err, ex)" by fastforce
  have e: "executor_inv (sd_executor d)" using inv by (simp add: dispatcher_inv_def)
  note s' = Submit_inv [OF e s]
  have C: "length (jobs ex) \<le> de_MaxConcurrent ex + de_MaxPending ex" using s' by (auto simp: executor_inv_def jobs_def)
  show ?thesis
  proof (cases err)
    case None
    then show ?thesis using inv s s' c C by (auto simp: start_dial_def Let_def dispatcher_inv_def distinct_update)
  next
    case (Some x)
    then show ?thesis using inv s s' map_of_ids(2) [OF i]
      by (auto simp: start_dial_def Let_def dispatcher_inv_def removePending_def distinct_update distinct_delete)
  qed
qed

lemma dispatcher_inv_open:
  assumes inv: "dispatcher_inv d"
  shows "dispatcher_inv (snd (snd (handle_open env d f)))"
proof (cases "snd (snd (handle_open env d f)) = d")
  case False
  then obtain p strict where "handle_open env d f = start_dial env d (StreamID f) p strict (Window f)"
    "map_of (sd_pending d) (StreamID f) = None"
    "sd_maxActive d > 0 \<longrightarrow> int (length (sd_streams d) + length (sd_pending d)) < sd_maxActive d"
    unfolding handle_open_def Let_def by (auto split: sum.splits if_splits)
  then show ?thesis using dispatcher_inv_start_dial [OF inv] by simp
qed (use inv in simp)

text \<open>Moving a job from the queue to a worker, and a worker's report of job \<open>i\<close>.\<close>

lemma worker_take_inv:
  assumes "executor_inv e"
  shows "executor_inv (worker_take e) \<and> set (jobs (worker_take e)) = set (jobs e) \<and> length (jobs (worker_take e)) = length (jobs e)"
proof (cases "de_queue e = [] \<or> \<not> length (de_running e) + length (de_finishing e) < de_MaxConcurrent e")
  case False
  then obtain j js where q: "de_queue e = j # js" by (auto simp: neq_Nil_conv)
  define e' where "e' = worker_take e"
  have e': "e' = e\<lparr>de_queue := js, de_running := de_running e @ [j]\<rparr>" using False q by (simp add: e'_def worker_take_def)
  have "mset (jobs e') = mset (jobs e)" by (simp add: jobs_def e' q)
  then have "set (jobs e') = set (jobs e)" "distinct (jobs e') = distinct (jobs e)" "length (jobs e') = length (jobs e)"
    by (auto dest: mset_eq_setD mset_eq_imp_distinct_iff mset_eq_length)
  then show ?thesis unfolding e'_def [symmetric] using assms False q by (auto simp: executor_inv_def e')
qed (use assms in \<open>auto simp: worker_take_def split: list.splits\<close>)

lemma worker_report_inv:
  assumes "executor_inv e" "map_of (de_running e) i = Some proto"
  shows "executor_inv (worker_report e i) \<and> set (jobs (worker_report e i)) = set (jobs e) - {i}
    \<and> Suc (length (jobs (worker_report e i))) = length (jobs e)"
proof -
  define e' where "e' = worker_report e i"
  have i: "i \<in> set (map fst (de_running e))" using map_of_SomeD [OF assms(2)] by force
  have d: "distinct (jobs e)" "i \<notin> set (map fst (de_queue e))" "i \<in> set (jobs e)"
    using assms(1) i unfolding executor_inv_def jobs_def distinct_append by auto
  have "map fst (filter (\<lambda>j. fst j \<noteq> i) xs) = removeAll i (map fst xs)" for xs :: "(uint32 \<times> string) list"
    by (induction xs) auto
  then have "jobs e' = removeAll i (jobs e)"
    using d(2) by (simp add: e'_def jobs_def worker_report_def removeAll_id)
  then have j: "jobs e' = remove1 i (jobs e)" using d(1) by (simp add: distinct_remove1_removeAll)
  have "length (de_running e') < length (de_running e)"
    using i by (auto simp: e'_def worker_report_def intro: length_filter_less)
  then have "executor_inv e'"
    using assms(1) d j by (auto simp: executor_inv_def e'_def worker_report_def)
  then show ?thesis unfolding e'_def [symmetric] j using d length_pos_if_in_set [OF d(3)] by (simp add: length_remove1)
qed

lemma worker_done_inv:
  assumes "executor_inv e" "i \<in> set (de_finishing e)"
  shows "executor_inv (worker_done e i) \<and> jobs (worker_done e i) = jobs e"
proof -
  have j: "jobs (worker_done e i) = jobs e" by (simp add: worker_done_def removeCancel_def jobs_def)
  have "length (remove1 i (de_finishing e)) \<le> length (de_finishing e)" by (simp add: length_remove1)
  then show ?thesis using assms j unfolding executor_inv_def by (auto simp: worker_done_def removeCancel_def)
qed

lemma worker_limits [simp]:
  "de_MaxPending (worker_take e) = de_MaxPending e" "de_MaxConcurrent (worker_take e) = de_MaxConcurrent e"
  "de_MaxPending (worker_report e i) = de_MaxPending e" "de_MaxConcurrent (worker_report e i) = de_MaxConcurrent e"
  "de_MaxPending (worker_done e i) = de_MaxPending e" "de_MaxConcurrent (worker_done e i) = de_MaxConcurrent e"
  by (simp_all add: worker_take_def worker_report_def worker_done_def removeCancel_def split: list.splits)

lemma dispatcher_inv_register:
  assumes inv: "dispatcher_inv d" and run: "map_of (de_running (sd_executor d)) i = Some proto"
    and r: "dial_register (d\<lparr>sd_executor := worker_report (sd_executor d) i\<rparr>) i proto result = (plan, d')"
  shows "dispatcher_inv d'"
proof -
  define ex where "ex = worker_report (sd_executor d) i"
  have e: "executor_inv ex \<and> set (jobs ex) = set (jobs (sd_executor d)) - {i} \<and> Suc (length (jobs ex)) = length (jobs (sd_executor d))"
    unfolding ex_def using inv run by (intro worker_report_inv) (simp_all add: dispatcher_inv_def)
  have n: "sd_executor d' = ex" "sd_pending d' = AList.delete i (sd_pending d)" "sd_maxActive d' = sd_maxActive d"
    "sd_streams d' = sd_streams d \<or> (\<exists>g. sd_streams d' = AList.update i g (sd_streams d))"
    using r by (auto simp: dial_register_def Let_def ex_def split: if_splits)
  have l: "length (AList.update i g xs) \<le> Suc (length xs)" for g and xs :: "(uint32 \<times> uint64) list"
    by (induction xs) auto
  have "length (sd_streams d') \<le> Suc (length (sd_streams d)) \<and> (distinct (map fst (sd_streams d)) \<longrightarrow> distinct (map fst (sd_streams d')))"
    using n(4) l by (auto simp: distinct_update)
  then show ?thesis using inv e n(1-3) by (auto simp: dispatcher_inv_def distinct_delete ex_def)
qed

lemma dispatcher_inv_step: "dispatcher_inv (sy_d s) \<Longrightarrow> dispatcher_inv (sy_d (dispatch_step env s ev))"
proof (cases ev)
  case (SHandle now f)
  assume inv: "dispatcher_inv (sy_d s)"
  have "dispatcher_inv (snd (snd (DispatcherHandle env now (sy_d s) f)))"
    unfolding DispatcherHandle_def
    using dispatcher_inv_open [OF inv] dispatcher_inv_calmer [OF inv] calmer_data_act calmer_frames inv by auto
  then show ?thesis using SHandle inv by (auto split: prod.splits)
next
  case (SDataAct now)
  assume inv: "dispatcher_inv (sy_d s)"
  then show ?thesis using SDataAct dispatcher_inv_calmer [OF inv calmer_data_act] by (auto split: option.splits prod.splits) (metis snd_conv)
next
  case (SDialRegister i result)
  assume inv: "dispatcher_inv (sy_d s)"
  then show ?thesis using SDialRegister dispatcher_inv_register [OF inv] by (auto split: option.splits prod.splits)
next
  case (SDialFinish now i)
  assume inv: "dispatcher_inv (sy_d s)"
  then show ?thesis using SDialFinish dispatcher_inv_calmer [OF inv calmer_dial_finish] by (auto split: option.splits prod.splits) (metis snd_conv)
next
  case (SPump now w c i g)
  assume inv: "dispatcher_inv (sy_d s)"
  then show ?thesis using SPump dispatcher_inv_calmer [OF inv calmer_pump [of _ env now w c i g]] by (auto split: prod.splits)
next
  case (SReadBack r i g)
  assume inv: "dispatcher_inv (sy_d s)"
  then show ?thesis using SReadBack dispatcher_inv_calmer [OF inv calmer_readBack] by (auto split: option.splits prod.splits)
next
  case SWorkerTake
  assume "dispatcher_inv (sy_d s)"
  then show ?thesis using SWorkerTake worker_take_inv [of "sd_executor (sy_d s)"] by (auto simp: dispatcher_inv_def)
next
  case (SWorkerDone i)
  assume "dispatcher_inv (sy_d s)"
  then show ?thesis using SWorkerDone worker_done_inv [of "sd_executor (sy_d s)" i] by (auto simp: dispatcher_inv_def)
qed (auto intro: dispatcher_inv_calmer calmer_CloseDispatcher)

lemma dispatcher_inv_run: "dispatcher_inv (sy_d s) \<Longrightarrow> dispatcher_inv (sy_d (dispatch_run env s evs))"
  unfolding dispatch_run_def by (induction evs arbitrary: s) (simp_all only: foldl_Nil foldl_Cons dispatcher_inv_step)

text \<open>The limits never change.\<close>

definition same_limits :: "dispatcher \<Rightarrow> dispatcher \<Rightarrow> bool" where
  "same_limits d d' \<longleftrightarrow> sd_maxActive d' = sd_maxActive d \<and> de_MaxConcurrent (sd_executor d') = de_MaxConcurrent (sd_executor d)
     \<and> de_MaxPending (sd_executor d') = de_MaxPending (sd_executor d)"

lemma same_limits_calmer: "calmer d d' \<Longrightarrow> same_limits d d'"
  by (simp add: calmer_def same_jobs_def same_limits_def)

lemma same_limits_open: "same_limits d (snd (snd (handle_open env d f)))"
proof (cases "snd (snd (handle_open env d f)) = d")
  case False
  then obtain p strict where h: "handle_open env d f = start_dial env d (StreamID f) p strict (Window f)"
    unfolding handle_open_def Let_def by (auto split: sum.splits if_splits)
  show ?thesis unfolding h
    by (auto simp: start_dial_def Submit_def removePending_def removeCancel_def same_limits_def Let_def split: option.splits if_splits)
qed (simp add: same_limits_def)

lemma same_limits_step: "same_limits (sy_d s) (sy_d (dispatch_step env s ev))"
proof (cases ev)
  case (SHandle now f)
  have "same_limits (sy_d s) (snd (snd (DispatcherHandle env now (sy_d s) f)))"
    unfolding DispatcherHandle_def
    using same_limits_open same_limits_calmer calmer_data_act calmer_frames calmer_refl by auto
  then show ?thesis using SHandle by (auto simp: same_limits_def split: prod.splits)
next
  case (SDialRegister i result)
  then show ?thesis by (auto simp: dial_register_def same_limits_def Let_def split: option.splits)
next
  case (SDataAct now)
  then show ?thesis using same_limits_calmer [OF calmer_data_act]
    by (auto simp: same_limits_def split: option.splits prod.splits) (metis snd_conv)+
next
  case (SDialFinish now i)
  then show ?thesis using same_limits_calmer [OF calmer_dial_finish]
    by (auto simp: same_limits_def split: option.splits prod.splits) (metis snd_conv)+
next
  case (SPump now w c i g)
  then show ?thesis using same_limits_calmer [OF calmer_pump [of _ env now w c i g]] by (auto split: prod.splits) (metis snd_conv)
next
  case (SReadBack r i g)
  then show ?thesis using same_limits_calmer [OF calmer_readBack] by (auto simp: same_limits_def split: option.splits prod.splits)
next
  case SCloseAll
  then show ?thesis using same_limits_calmer [OF calmer_CloseDispatcher] by simp
qed (simp_all add: same_limits_def)

lemma same_limits_run: "same_limits (sy_d s) (sy_d (dispatch_run env s evs))"
  unfolding dispatch_run_def
proof (induction evs arbitrary: s)
  case (Cons ev evs)
  show ?case using Cons.IH [of "dispatch_step env s ev"] same_limits_step [of s env ev] by (simp add: same_limits_def)
qed (simp add: same_limits_def)

definition limited :: "int \<Rightarrow> int \<Rightarrow> int \<Rightarrow> dispatch_system" where
  "limited maxConcurrent maxPending n = start_dispatch (SetMaxActiveStreams (NewStreamDispatcherWithConfig maxConcurrent maxPending) n)"


definition sample_open :: stream_open_payload where
  "sample_open =
     \<lparr>so_AgentID = ''a'', so_Protocol = ''tcp'', so_TargetHost = ''h'', so_TargetPort = 80, so_TargetScheme = [], so_HostHeader = [],
      so_TLSServerName = [], so_Metadata = []\<rparr>"

definition sample_env :: dispatch_env where
  "sample_env = \<lparr>env_fold = (=), env_open = (\<lambda>_. Some sample_open), env_result = (\<lambda>_. Some []), env_send = (\<lambda>_. None)\<rparr>"

definition open_frame :: "uint32 \<Rightarrow> frame" where
  "open_frame i = \<lparr>Version = CurrentVersion, FType = FrameOpenStream, Flags = 0, StreamID = i, Window = 262144, Payload = []\<rparr>"

definition reset_frame :: "uint32 \<Rightarrow> frame" where
  "reset_frame i = \<lparr>Version = CurrentVersion, FType = FrameReset, Flags = 0, StreamID = i, Window = 0, Payload = []\<rparr>"

definition connected :: dial_result where
  "connected = \<lparr>dr_Conn = True, dr_Stage = ''connect'', dr_Code = ''ok'', dr_Retryable = False, dr_RetryAfterMS = 0\<rparr>"


lemma sample_names: "\<not> EqualFold (=) ''tcp'' ''exec''" "\<not> EqualFold (=) ''tcp'' ''icmp-echo''"
  by (simp_all add: EqualFold_def)

lemma sample_handle_open:
  assumes "i \<noteq> 0" "\<not> sd_closed d" "map_of (sd_streams d) i = None" "map_of (sd_pending d) i = None"
    "sd_maxActive d > 0 \<longrightarrow> int (length (sd_streams d) + length (sd_pending d)) < sd_maxActive d"
  shows "DispatcherHandle sample_env now d (open_frame i) = start_dial sample_env d i sample_open False 262144"
  using assms sample_names
  by (auto simp: DispatcherHandle_def handle_open_def open_frame_def sample_env_def DecodeStreamOpenPayload_def decode_bounded_def
      validStreamTargetPort_def sample_open_def)

lemma sample_handle_reset: "DispatcherHandle env now d (reset_frame i) = (None, [], handle_reset d i)"
  by (simp add: DispatcherHandle_def reset_frame_def)

lemmas dispatch_evals = dispatch_run_def limited_def start_dispatch_def SetMaxActiveStreams_def NewStreamDispatcherWithConfig_def
  NewDialExecutor_def normalize_limit_def sample_handle_open sample_handle_reset start_dial_def Submit_def sample_open_def
  worker_take_def worker_report_def worker_done_def removeCancel_def CancelDial_def handle_reset_def dial_register_def connected_def
  dial_finish_def

text \<open>
  The ceiling itself is exceeded: a stream that is reset while its target is being dialled frees its place, and when the
  dial then succeeds the stream is entered all the same, so that an agent limited to one stream has two.
\<close>

lemma reset_dial_exceeds_ceiling:
  "map fst (sd_streams (sy_d (dispatch_run sample_env (limited 1 1 1)
     [SHandle 0 (open_frame 1), SWorkerTake, SHandle 0 (reset_frame 1), SHandle 0 (open_frame 2), SDialRegister 1 connected,
      SDialFinish 0 1, SWorkerDone 1, SWorkerTake, SDialRegister 2 connected]))) = [1, 2]"
  by (simp add: dispatch_evals)

text \<open>The payloads queued for the target of a stream.\<close>

definition queued :: "dispatcher \<Rightarrow> uint32 \<Rightarrow> bytes list" where
  "queued d i =
     (case map_of (sd_streams d) i of None \<Rightarrow> []
      | Some g \<Rightarrow> (case sd_entries d g of None \<Rightarrow> [] | Some e \<Rightarrow> map Payload (frames (se_inbound e))))"

definition dialling :: "dispatch_event list" where
  "dialling = [SHandle 0 (open_frame 1), SWorkerTake]"

lemma sample_dialling:
  "dispatch_run sample_env (limited 1 1 1) dialling =
     start_dispatch \<lparr>sd_streams = [], sd_entries = Map.empty, sd_generation = 1, sd_closed = False,
       sd_pending = [(1, \<lparr>ps_data = [], ps_pendingBytes = 0, ps_halfClosed = False, ps_strict = False, ps_initialWindow = 262144\<rparr>)],
       sd_executor = \<lparr>de_MaxConcurrent = 1, de_MaxPending = 1, de_queue = [], de_running = [(1, ''tcp'')], de_finishing = [],
         de_cancels = [1], de_cancelled = [], de_closed = False\<rparr>,
       sd_openResult = False, sd_icmpEcho = False, sd_inboundBytes = 0, sd_maxActive = 1\<rparr>"
  by (simp add: dialling_def dispatch_evals)

lemma dispatch_run_append: "dispatch_run env s (xs @ ys) = dispatch_run env (dispatch_run env s xs) ys"
  by (simp add: dispatch_run_def)

lemma sample_handle_data:
  "DispatcherHandle env now d (data_frame i p) = data_act env now d i p (data_look d i)"
  by (simp add: DispatcherHandle_def data_frame_def)

lemma Handle_sample:
  assumes "ss_id st = 1" "ss_status st = StreamOpen" "receiveWindow st \<noteq> 0"
  shows "Handle st (data_frame 1 [b]) = (None, st\<lparr>receiveWindow := receiveWindow st - 1\<rparr>)"
proof -
  have "Validate (data_frame 1 [b]) = None"
    by (simp add: Validate_None_iff data_frame_def isMetadataFrame_def isTraceFrame_def knownFrameType_def MaxPayload_def)
  then show ?thesis using assms by (simp add: Handle_def data_frame_def consumeReceive_def not_less)
qed

definition sample_entry :: "uint32 \<Rightarrow> frame list \<Rightarrow> int list \<Rightarrow> stream_entry" where
  "sample_entry w fs ws = (new_entry 1 ''tcp'' 2 262144 262144)\<lparr>
     se_receiveState := Some \<lparr>ss_id = 1, ss_status = StreamOpen, sendWindow = 262144, receiveWindow = w\<rparr>, 
     se_inbound := (NewBoundedFrameQueue 262144)\<lparr>frames := fs, qbytes := int (length fs), waits := ws\<rparr>\<rparr>"

lemma sample_entry_new: "new_entry 1 ''tcp'' 2 262144 262144 = sample_entry 262144 [] []"
  by (simp add: sample_entry_def new_entry_def opened_state_def NewStreamState_def OpenLocal_def NewBoundedFrameQueue_def)

lemma sample_entry_simps:
  "se_localHalf (sample_entry w fs ws) = False" "frames (se_inbound (sample_entry w fs ws)) = fs" "Payload (data_frame i p) = p"
  "FType (data_frame i p) = FrameData" "StreamID (data_frame i p) = i"
  by (simp_all add: sample_entry_def new_entry_def data_frame_def)

lemma admit_sample:
  assumes "w \<noteq> 0" "length fs < 100"
  shows "admitInbound 0 1 (sample_entry w fs ws) [b] = (None, sample_entry (w - 1) (fs @ [data_frame 1 [b]]) (ws @ [0]))"
  using assms by (simp add: admitInbound_def sample_entry_def Handle_sample sample_entry_simps(3) TryPush_def NewBoundedFrameQueue_def)

text \<open>
  Data that arrives while the target is dialled is not always delivered in order. When completing the dial is not
  interrupted the payloads are queued as they were sent; a DATA frame handled after the stream was entered and before the
  early data is admitted overtakes it; and a DATA frame whose handler looked at the tables just before is lost.
\<close>

lemma early_data_order:
  "queued (sy_d (dispatch_run sample_env (limited 1 1 1) (dialling @
       [SHandle 0 (data_frame 1 [1]), SDialRegister 1 connected, SDialFinish 0 1, SHandle 0 (data_frame 1 [2])]))) 1 = [[1], [2]]
   \<and> queued (sy_d (dispatch_run sample_env (limited 1 1 1) (dialling @
       [SHandle 0 (data_frame 1 [1]), SDialRegister 1 connected, SHandle 0 (data_frame 1 [2]), SDialFinish 0 1]))) 1 = [[2], [1]]
   \<and> queued (sy_d (dispatch_run sample_env (limited 1 1 1) (dialling @
       [SHandle 0 (data_frame 1 [1]), SDataLook (data_frame 1 [2]), SDialRegister 1 connected, SDataAct 0, SDialFinish 0 1]))) 1 = [[1]]"
  unfolding dispatch_run_append sample_dialling
  by (simp_all add: start_dispatch_def dispatch_run_def sample_handle_data data_look_def data_act_def inboundBufferBytesLocked_def
      dial_register_def connected_def dial_finish_def admit_or_reject_def sample_entry_new sample_entry_simps admit_sample update_entry_def queued_def worker_report_def)

end
