(* ===== verification/Net_Addr.thy ===== *)
theory Net_Addr
  imports Go_Strings "HOL-Library.Char_ord" "HOL-Library.List_Lexorder"
begin

text \<open>
  What the sources use of Go's \<^verbatim>\<open>net\<close> package: addresses with a four-byte form, CIDR blocks, their text forms and the
  membership test. An address is \<open>IP4 a\<close> when \<^verbatim>\<open>To4\<close> succeeds, whether Go keeps it in four or in sixteen bytes, and \<open>IP6\<close>
  otherwise; a nil address is \<open>None\<close>. The textual form of IPv6 addresses is the parameter \<open>p6\<close>, which gives the sixteen
  bytes; IPv4 text is parsed as \<^verbatim>\<open>netip.ParseAddr\<close> does, which refuses leading zeros.
\<close>

section \<open>Addresses\<close>

datatype ip = IP4 uint32 | IP6 "128 word"

fun To4 :: "ip \<Rightarrow> uint32 option" where
  "To4 (IP4 a) = Some a"
| "To4 (IP6 _) = None"

definition octet :: "nat \<Rightarrow> uint32 \<Rightarrow> nat" where
  "octet i a = unat a div 2 ^ (24 - 8 * i) mod 256"

definition octets :: "uint32 \<Rightarrow> nat list" where
  "octets a = [octet 0 a, octet 1 a, octet 2 a, octet 3 a]"

definition ipv4 :: "nat list \<Rightarrow> uint32" where
  "ipv4 os = of_nat (foldl (\<lambda>n v. 256 * n + v) 0 os)"

text \<open>An address of sixteen bytes with the prefix of IPv4-mapped addresses has a four-byte form.\<close>

definition of16 :: "128 word \<Rightarrow> ip" where
  "of16 w = (if drop_bit 32 w = 0xFFFF then IP4 (ucast w) else IP6 w)"

definition mapped :: "uint32 \<Rightarrow> 128 word" where
  "mapped a = push_bit 32 0xFFFF + ucast a"

section \<open>Text\<close>

definition show_ip :: "uint32 \<Rightarrow> string" where
  "show_ip a = Join CHR ''.'' (map show_nat (octets a))"

definition octet_field :: "string \<Rightarrow> bool" where
  "octet_field f \<longleftrightarrow> f \<noteq> [] \<and> list_all is_digit f \<and> (length f = 1 \<or> hd f \<noteq> CHR ''0'') \<and> digits_val f \<le> 255"

definition parse_ip4 :: "string \<Rightarrow> uint32 option" where
  "parse_ip4 s =
     (let fs = Split CHR ''.'' s in
      if length fs = 4 \<and> list_all octet_field fs then Some (ipv4 (map digits_val fs)) else None)"

text \<open>The address and its width in bits; the first of the characters dot, colon and percent decides the syntax.\<close>

definition ParseAddr :: "(string \<Rightarrow> 128 word option) \<Rightarrow> string \<Rightarrow> (128 word \<times> nat) option" where
  "ParseAddr p6 s =
     (case find (\<lambda>c. c = CHR ''.'' \<or> c = CHR '':'' \<or> c = CHR ''%'') s of
        None \<Rightarrow> None
      | Some c \<Rightarrow>
          if c = CHR ''.'' then map_option (\<lambda>a. (mapped a, 32)) (parse_ip4 s)
          else if c = CHR '':'' then map_option (\<lambda>w. (w, 128)) (p6 s)
          else None)"

definition ParseIP :: "(string \<Rightarrow> 128 word option) \<Rightarrow> string \<Rightarrow> ip option" where
  "ParseIP p6 s = map_option (of16 \<circ> fst) (ParseAddr p6 s)"

section \<open>Blocks\<close>

record ipnet =
  n_ip :: ip
  n_ones :: nat
  n_bits :: nat

definition masked :: "nat \<Rightarrow> uint32 \<Rightarrow> uint32" where
  "masked ones a = and a (push_bit (32 - ones) (- 1))"

definition net4 :: "uint32 \<Rightarrow> nat \<Rightarrow> ipnet" where
  "net4 a ones = \<lparr>n_ip = IP4 (masked ones a), n_ones = ones, n_bits = 32\<rparr>"

definition dtoi :: "string \<Rightarrow> nat option" where
  "dtoi s = (case parse_digits s of None \<Rightarrow> None | Some n \<Rightarrow> if n \<ge> 0xFFFFFF then None else Some n)"

definition ParseCIDR :: "(string \<Rightarrow> 128 word option) \<Rightarrow> string \<Rightarrow> (ip \<times> ipnet) option" where
  "ParseCIDR p6 s =
     (case Cut CHR ''/'' s of
        (_, _, False) \<Rightarrow> None
      | (addr, width, True) \<Rightarrow>
          (case (ParseAddr p6 addr, dtoi width) of
             (Some (w, bits), Some n) \<Rightarrow>
               if n > bits then None
               else if bits = 32 then (case of16 w of IP4 a \<Rightarrow> Some (IP4 a, net4 a n) | IP6 _ \<Rightarrow> None)
               else Some (of16 w, \<lparr>n_ip = of16 (and w (push_bit (128 - n) (- 1))), n_ones = n, n_bits = 128\<rparr>)
           | _ \<Rightarrow> None))"

text \<open>Membership of a four-byte address and the text of an IPv4 block; the mask of an IPv4-mapped block is the last four bytes of
  its mask.\<close>

definition ones4 :: "ipnet \<Rightarrow> nat" where
  "ones4 n = (if n_bits n = 32 then n_ones n else n_ones n - 96)"

definition Contains4 :: "ipnet \<Rightarrow> uint32 \<Rightarrow> bool" where
  "Contains4 n a =
     (case n_ip n of IP6 _ \<Rightarrow> False
      | IP4 b \<Rightarrow> (let ones = ones4 n in masked ones b = masked ones a))"

definition show_net :: "ipnet \<Rightarrow> string" where
  "show_net n = (case n_ip n of IP4 a \<Rightarrow> show_ip a @ CHR ''/'' # show_nat (ones4 n) | IP6 _ \<Rightarrow> [])"

section \<open>Arithmetic\<close>

lemma octet_less [simp]: "octet i a < 256"
  by (simp add: octet_def)

lemma ipv4_octets [simp]: "ipv4 (octets a) = a"
proof -
  have w: "unat a < 4294967296" using unsigned_less [of a] by simp
  have "unat a div 2 ^ 24 < 256" using w by (simp add: div_less_iff_less_mult)
  then have "foldl (\<lambda>n v. 256 * n + v) 0 (octets a) = unat a"
    using be32_digits [OF w] by (simp add: octets_def octet_def algebra_simps)
  then show ?thesis by (simp add: ipv4_def)
qed

lemma of16_mapped [simp]: "of16 (mapped a) = IP4 a"
proof -
  have a: "unat a < 4294967296" using unsigned_less [of a] by simp
  have u: "unat (mapped a) = 0xFFFF * 4294967296 + unat a"
    using a by (simp add: mapped_def unat_word_ariths push_bit_eq_mult unsigned_ucast_eq take_bit_eq_mod)
  have "unat (drop_bit 32 (mapped a)) = 0xFFFF" using a by (simp add: drop_bit_eq_div unat_div u)
  then have d: "drop_bit 32 (mapped a) = 0xFFFF" by (simp add: word_unat_eq_iff)
  have "(0xFFFF * 4294967296 + unat a) mod 4294967296 = unat a" using a by (simp only: mod_mult_self3 mod_less)
  then have "unat (ucast (mapped a) :: uint32) = unat a" unfolding u [symmetric] by (simp add: unsigned_ucast_eq take_bit_eq_mod)
  then have "ucast (mapped a) = a" by (simp add: word_unat_eq_iff)
  then show ?thesis using d by (simp add: of16_def)
qed

lemma unat_masked: "ones \<le> 32 \<Longrightarrow> unat (masked ones a) = unat a div 2 ^ (32 - ones) * 2 ^ (32 - ones)"
proof -
  assume "ones \<le> 32"
  define k where "k = 32 - ones"
  have "masked ones a = push_bit k (drop_bit k a)"
    by (rule bit_word_eqI) (auto simp: masked_def k_def bit_and_iff bit_push_bit_iff bit_drop_bit_eq bit_not_iff bit_mask_iff)
  then have "unat (masked ones a) = unat (push_bit k (drop_bit k a))" by simp
  also have "\<dots> = push_bit k (drop_bit k (unat a))"
  proof -
    have "push_bit k (drop_bit k (unat a)) \<le> unat a" by (simp add: push_bit_eq_mult drop_bit_eq_div)
    also have "unat a < 2 ^ 32" using unsigned_less [of a] by simp
    finally have "push_bit k (drop_bit k (unat a)) < 2 ^ 32" .
    then show ?thesis by (simp add: unsigned_push_bit_eq unat_drop_bit_eq take_bit_nat_eq_self)
  qed
  finally show ?thesis by (simp add: push_bit_eq_mult drop_bit_eq_div k_def)
qed

lemma masked_masked [simp]: "masked n (masked n a) = masked n a"
  by (simp add: masked_def ac_simps)

section \<open>Round trip of the text forms\<close>

lemma show_nat_leading: "length (show_nat n) = 1 \<or> hd (show_nat n) \<noteq> CHR ''0''"
proof (induction n rule: show_nat.induct)
  case (1 n)
  show ?case
  proof (cases "n < 10")
    case False
    have "n div 10 \<noteq> 0" using False by simp
    have "hd (show_nat (n div 10)) \<noteq> CHR ''0''"
    proof (cases "n div 10 < 10")
      case True
      then have "of_char (hd (show_nat (n div 10))) = (48 + n div 10 :: nat)" by (simp add: show_nat.simps [of "n div 10"])
      then show ?thesis using \<open>n div 10 \<noteq> 0\<close> by auto
    next
      case False
      then have "length (show_nat (n div 10)) \<noteq> 1" by (subst show_nat.simps) simp
      then show ?thesis using "1.IH" \<open>\<not> n < 10\<close> by blast
    qed
    then show ?thesis using False by (subst (2) show_nat.simps) simp
  qed (simp add: show_nat.simps [of n])
qed

lemma octet_field_show_nat: "n < 256 \<Longrightarrow> octet_field (show_nat n)"
  using show_nat_leading [of n] show_nat_props [of n] by (simp add: octet_field_def)

lemma Split_octets: "Split CHR ''.'' (show_ip a) = map show_nat (octets a)"
  unfolding show_ip_def by (rule Split_Join) (auto simp: octets_def dest: show_nat_chars)

lemma parse_show_ip [simp]: "parse_ip4 (show_ip a) = Some a"
proof -
  have "map digits_val (map show_nat (octets a)) = octets a" using show_nat_props by (simp add: octets_def)
  moreover have "list_all octet_field (map show_nat (octets a))" by (simp add: octets_def octet_field_show_nat)
  moreover have "length (octets a) = 4" by (simp add: octets_def)
  ultimately show ?thesis unfolding parse_ip4_def Split_octets by (simp del: map_map)
qed

lemma show_ip_chars: "c \<in> set (show_ip a) \<Longrightarrow> is_digit c \<or> c = CHR ''.''"
  by (auto simp: show_ip_def octets_def dest: show_nat_chars)

lemma show_ip_dot: "\<exists>u v. show_ip a = u @ CHR ''.'' # v \<and> list_all is_digit u"
  by (rule exI [of _ "show_nat (octet 0 a)"], rule exI [of _ "Join CHR ''.'' (map show_nat [octet 1 a, octet 2 a, octet 3 a])"])
    (use show_nat_props in \<open>simp add: show_ip_def octets_def\<close>)

lemma ParseAddr_show_ip [simp]: "ParseAddr p6 (show_ip a) = Some (mapped a, 32)"
proof -
  obtain u v where s: "show_ip a = u @ CHR ''.'' # v" "list_all is_digit u" using show_ip_dot by blast
  have "c \<noteq> CHR ''.'' \<and> c \<noteq> CHR '':'' \<and> c \<noteq> CHR ''%''" if "is_digit c" for c
    using that by (auto simp: is_digit_range)
  then have "find (\<lambda>c. c = CHR ''.'' \<or> c = CHR '':'' \<or> c = CHR ''%'') u = None"
    using s(2) by (auto simp: find_None_iff list_all_iff)
  then have "find (\<lambda>c. c = CHR ''.'' \<or> c = CHR '':'' \<or> c = CHR ''%'') (show_ip a) = Some CHR ''.''"
    unfolding s(1) by (induction u) (auto split: if_splits)
  then show ?thesis by (simp add: ParseAddr_def)
qed

lemma ParseCIDR_show_net:
  assumes "ones \<le> 32"
  shows "ParseCIDR p6 (show_net (net4 a ones)) = Some (IP4 (masked ones a), net4 a ones)"
proof -
  have "CHR ''/'' \<notin> set (show_ip (masked ones a))" using show_ip_chars by (fastforce simp: is_digit_range)
  then have "Cut CHR ''/'' (show_net (net4 a ones)) = (show_ip (masked ones a), show_nat ones, True)"
    by (simp add: show_net_def net4_def ones4_def Cut_found)
  moreover have "dtoi (show_nat ones) = Some ones" using assms by (simp add: dtoi_def)
  ultimately show ?thesis using assms by (simp add: ParseCIDR_def net4_def)
qed

lemma show_net_inj:
  assumes "m \<le> 32" "n \<le> 32" "show_net (net4 a m) = show_net (net4 b n)"
  shows "net4 a m = net4 b n"
proof -
  have "Some (IP4 (masked m a), net4 a m) = Some (IP4 (masked n b), net4 b n)"
    unfolding ParseCIDR_show_net [OF assms(1), of "\<lambda>_. None" a, symmetric] ParseCIDR_show_net [OF assms(2), of "\<lambda>_. None" b, symmetric]
    by (simp only: assms(3))
  then show ?thesis by (simp only: option.inject prod.inject)
qed

text \<open>Membership is agreement on the leading bits.\<close>

lemma Contains4_net4: "Contains4 (net4 a ones) b \<longleftrightarrow> masked ones b = masked ones a"
  by (auto simp: Contains4_def net4_def ones4_def)

lemma Contains4_range:
  assumes "ones \<le> 32"
  shows "Contains4 (net4 a ones) b \<longleftrightarrow> unat b div 2 ^ (32 - ones) = unat a div 2 ^ (32 - ones)"
  unfolding Contains4_net4 using unat_masked [OF assms, of a] unat_masked [OF assms, of b]
  by (metis (no_types, lifting) mult_right_cancel power_not_zero word_unat_eq_iff zero_neq_numeral)

end
