(* ===== verification/Routing.thy ===== *)
theory Routing
  imports Net_Addr
begin

text \<open>
  \<^verbatim>\<open>internal/routing\<close>: the address classes and allowlists every egress decision uses (\<^verbatim>\<open>policy.go\<close>), the target that is encoded
  in a wildcard DNS name (\<^verbatim>\<open>parser.go\<close>), and the choice of a route for an HTTP request (\<^verbatim>\<open>matcher.go\<close>). \<open>ul\<close> and \<open>uf\<close> are
  Unicode lower case and case folding, \<open>p6\<close> the IPv6 parser.
\<close>

section \<open>Policy\<close>

datatype routing_error =
    ErrCIDRNotAllowed | ErrPortNotAllowed | ErrMalformedDynamicHost | ErrDangerousAddress | ErrDNSLabelTooLong | ErrRouteNotFound
  | ErrInvalidCIDR | ErrInvalidPort | ErrPortType

definition IsDangerousAddress :: "ip \<Rightarrow> bool" where
  "IsDangerousAddress i =
     (case To4 i of None \<Rightarrow> True
      | Some a \<Rightarrow>
        octet 0 a = 0 \<or> octet 0 a \<ge> 224 \<or> (octet 0 a = 169 \<and> octet 1 a = 254) \<or> a = ipv4 [169, 254, 169, 254])"

definition byte6 :: "nat \<Rightarrow> 128 word \<Rightarrow> nat" where
  "byte6 i w = unat w div 2 ^ (120 - 8 * i) mod 256"

definition IsPrivate :: "ip \<Rightarrow> bool" where
  "IsPrivate i =
     (case i of
        IP4 a \<Rightarrow> octet 0 a = 10 \<or> (octet 0 a = 172 \<and> octet 1 a div 16 = 1) \<or> (octet 0 a = 192 \<and> octet 1 a = 168)
      | IP6 w \<Rightarrow> byte6 0 w div 2 = 0x7E)"

definition IsLoopback :: "ip \<Rightarrow> bool" where
  "IsLoopback i = (case i of IP4 a \<Rightarrow> octet 0 a = 127 | IP6 w \<Rightarrow> w = 1)"

definition IsLinkLocalUnicast :: "ip \<Rightarrow> bool" where
  "IsLinkLocalUnicast i =
     (case i of IP4 a \<Rightarrow> octet 0 a = 169 \<and> octet 1 a = 254 | IP6 w \<Rightarrow> byte6 0 w = 0xFE \<and> byte6 1 w div 64 = 2)"

definition IsLinkLocalMulticast :: "ip \<Rightarrow> bool" where
  "IsLinkLocalMulticast i =
     (case i of IP4 a \<Rightarrow> octet 0 a = 224 \<and> octet 1 a = 0 \<and> octet 2 a = 0 | IP6 w \<Rightarrow> byte6 0 w = 0xFF \<and> byte6 1 w mod 16 = 2)"

definition IsUnspecified :: "ip \<Rightarrow> bool" where
  "IsUnspecified i = (case i of IP4 a \<Rightarrow> a = 0 | IP6 w \<Rightarrow> w = 0)"

definition IsPrivateTarget :: "ip option \<Rightarrow> bool" where
  "IsPrivateTarget x =
     (case x of None \<Rightarrow> False
      | Some i \<Rightarrow> IsPrivate i \<or> IsLoopback i \<or> IsLinkLocalUnicast i \<or> IsLinkLocalMulticast i \<or> IsUnspecified i)"

record route_policy =
  rp_CIDRs :: "ipnet list"
  rp_Ports :: "int list"
  rp_DenyPrivate :: bool

definition any_policy :: route_policy where
  "any_policy = \<lparr>rp_CIDRs = [], rp_Ports = [], rp_DenyPrivate = False\<rparr>"

definition Policy_Validate :: "route_policy \<Rightarrow> ip option \<Rightarrow> int \<Rightarrow> routing_error option" where
  "Policy_Validate p x port =
     (case x of None \<Rightarrow> Some ErrDangerousAddress
      | Some i \<Rightarrow>
        (case To4 i of None \<Rightarrow> Some ErrDangerousAddress
         | Some a \<Rightarrow>
           if IsDangerousAddress i then Some ErrDangerousAddress
           else if rp_CIDRs p \<noteq> [] \<and> \<not> list_ex (\<lambda>n. Contains4 n a) (rp_CIDRs p) then Some ErrCIDRNotAllowed
           else if rp_Ports p \<noteq> [] \<and> port \<notin> set (rp_Ports p) then Some ErrPortNotAllowed
           else if port < 1 \<or> port > 65535 then Some ErrPortNotAllowed
           else None))"

text \<open>One entry of a port list: a port, an inclusive range, or nothing.\<close>

definition parse_port_token :: "string \<Rightarrow> routing_error + int list" where
  "parse_port_token raw =
     (let token = TrimSpace raw in
      if token = [] then Inr []
      else if CHR ''-'' \<in> set token then
        (case Split CHR ''-'' token of
           [l, h] \<Rightarrow>
             (case (Atoi l, Atoi h) of
                (Some lo, Some hi) \<Rightarrow> if lo < 1 \<or> hi > 65535 \<or> lo > hi then Inl ErrInvalidPort else Inr [lo..hi]
              | _ \<Rightarrow> Inl ErrInvalidPort)
         | _ \<Rightarrow> Inl ErrInvalidPort)
      else (case Atoi token of None \<Rightarrow> Inl ErrInvalidPort
            | Some p \<Rightarrow> if p < 1 \<or> p > 65535 then Inl ErrInvalidPort else Inr [p]))"

fun collect :: "('a \<Rightarrow> 'e + 'b list) \<Rightarrow> 'a list \<Rightarrow> 'e + 'b list" where
  "collect f [] = Inr []"
| "collect f (x # xs) = bindR (f x) (\<lambda>ys. bindR (collect f xs) (\<lambda>zs. Inr (ys @ zs)))"

definition ParsePorts :: "string \<Rightarrow> routing_error + int list" where
  "ParsePorts raw = collect parse_port_token (Split CHR '','' raw)"

datatype port_source = PortsNil | PortInts "int list" | PortTexts "string list" | PortText string | PortsOther

definition normalizePorts :: "port_source \<Rightarrow> routing_error + int list" where
  "normalizePorts v =
     (case v of PortsNil \<Rightarrow> Inr [] | PortInts ps \<Rightarrow> Inr ps | PortTexts ts \<Rightarrow> collect ParsePorts ts
      | PortText t \<Rightarrow> ParsePorts t | PortsOther \<Rightarrow> Inl ErrPortType)"

definition NewPolicy :: "(string \<Rightarrow> 128 word option) \<Rightarrow> string list \<Rightarrow> port_source \<Rightarrow> routing_error + route_policy" where
  "NewPolicy p6 cidrs ports =
     bindR (collect (\<lambda>raw. case ParseCIDR p6 (TrimSpace raw) of None \<Rightarrow> Inl ErrInvalidCIDR | Some (_, n) \<Rightarrow> Inr [n]) cidrs)
       (\<lambda>ns. bindR (normalizePorts ports)
          (\<lambda>ps. if list_ex (\<lambda>port. port < 1 \<or> port > 65535) ps then Inl ErrInvalidPort
                else Inr \<lparr>rp_CIDRs = ns, rp_Ports = ps, rp_DenyPrivate = False\<rparr>))"

section \<open>Dynamic hosts\<close>

record dynamic_host =
  dh_AgentID :: string
  dh_IP :: uint32
  dh_Port :: int
  dh_Domain :: string

text \<open>A label is checked for its length first and then character by character.\<close>

definition label_char :: "char \<Rightarrow> bool" where
  "label_char ch \<longleftrightarrow> (CHR ''a'' \<le> ch \<and> ch \<le> CHR ''z'') \<or> (CHR ''0'' \<le> ch \<and> ch \<le> CHR ''9'') \<or> ch = CHR ''-''"

definition check_label :: "string \<Rightarrow> routing_error option" where
  "check_label label =
     (if length label > 63 then Some ErrDNSLabelTooLong
      else if label = [] then Some ErrMalformedDynamicHost
      else if \<not> list_all label_char label \<or> hd label = CHR ''-'' \<or> last label = CHR ''-'' then Some ErrMalformedDynamicHost
      else None)"

fun check_labels :: "string list \<Rightarrow> routing_error option" where
  "check_labels [] = None"
| "check_labels (l # ls) = (case check_label l of Some e \<Rightarrow> Some e | None \<Rightarrow> check_labels ls)"

definition octet_part :: "string \<Rightarrow> nat option" where
  "octet_part s = (case Atoi s of None \<Rightarrow> None | Some v \<Rightarrow> if v < 0 \<or> v > 255 then None else Some (nat v))"

text \<open>The target in the first label: the last five fields are the octets and the port, the rest is the agent id.\<close>

definition dynamic_label :: "string \<Rightarrow> routing_error + string \<times> uint32 \<times> int" where
  "dynamic_label label =
     (let parts = Split CHR ''-'' label; n = length parts in
      if n < 6 then Inl ErrMalformedDynamicHost
      else (case (those (map octet_part (take 4 (drop (n - 5) parts))), Atoi (last parts)) of
          (Some os, Some port) \<Rightarrow>
            (let agent = Join CHR ''-'' (take (n - 5) parts) in
             if port < 1 \<or> port > 65535 then Inl ErrMalformedDynamicHost
             else if agent = [] \<or> length agent > 63 \<or> hd agent = CHR ''-'' \<or> last agent = CHR ''-'' then Inl ErrMalformedDynamicHost
             else if IsDangerousAddress (IP4 (ipv4 os)) then Inl ErrDangerousAddress
             else Inr (agent, ipv4 os, port))
        | _ \<Rightarrow> Inl ErrMalformedDynamicHost))"

definition ParseDynamicHost :: "(string \<Rightarrow> string) \<Rightarrow> string \<Rightarrow> string option \<Rightarrow> routing_error + dynamic_host" where
  "ParseDynamicHost ul raw expectedSuffix =
     (let host = TrimSuffix (ToLower ul (TrimSpace raw)) ''.''; labels = Split CHR ''.'' host in
      if host = [] \<or> length host > 253 then Inl ErrMalformedDynamicHost
      else (case check_labels labels of Some e \<Rightarrow> Inl e
        | None \<Rightarrow>
          bindR (dynamic_label (hd labels)) (\<lambda>(agent, addr, port).
            let domain = Join CHR ''.'' (tl labels) in
            if (case expectedSuffix of None \<Rightarrow> False | Some x \<Rightarrow> TrimSuffix (ToLower ul (TrimSpace x)) ''.'' \<noteq> domain)
            then Inl ErrMalformedDynamicHost
            else Inr \<lparr>dh_AgentID = agent, dh_IP = addr, dh_Port = port, dh_Domain = domain\<rparr>)))"

definition DynamicHost_String :: "dynamic_host \<Rightarrow> string" where
  "DynamicHost_String d =
     dh_AgentID d @ concat (map (\<lambda>n. CHR ''-'' # show_nat n) (octets (dh_IP d))) @ CHR ''-'' # Itoa (dh_Port d)"

section \<open>Routes\<close>

record route =
  ro_ID :: string
  ro_RouteID :: string
  ro_Domain :: string
  ro_PathPrefix :: string
  ro_AgentID :: string
  ro_TargetHost :: string
  ro_TargetPort :: int
  ro_Protocol :: string
  ro_HostHeader :: string
  ro_TargetScheme :: string
  ro_TLSServerName :: string
  ro_AllowedCIDRs :: "string list"
  ro_AllowedPorts :: "int list"
  ro_Dynamic :: bool

record resolver =
  rr_routes :: "route list"
  rr_dynamicSuffix :: string
  rr_policy :: route_policy

text \<open>The environment of the resolver: Unicode case mappings and the IPv6 parser.\<close>

record text_env =
  te_lower :: "string \<Rightarrow> string"
  te_fold :: "string \<Rightarrow> string \<Rightarrow> bool"
  te_parse6 :: "string \<Rightarrow> 128 word option"

definition validateRoutePolicy :: "text_env \<Rightarrow> route \<Rightarrow> routing_error option" where
  "validateRoutePolicy env r =
     (if ro_AllowedCIDRs r = [] \<and> ro_AllowedPorts r = [] then None
      else (case ParseIP (te_parse6 env) (TrimSpace (ro_TargetHost r)) of None \<Rightarrow> None
        | Some i \<Rightarrow>
          (case NewPolicy (te_parse6 env) (ro_AllowedCIDRs r) (PortInts (ro_AllowedPorts r)) of
             Inl e \<Rightarrow> Some e
           | Inr p \<Rightarrow> Policy_Validate p (Some i) (ro_TargetPort r))))"

text \<open>\<^verbatim>\<open>net.SplitHostPort\<close>: the text before and after the last colon, brackets removed; \<open>None\<close> is an error.\<close>

definition SplitHostPort :: "string \<Rightarrow> (string \<times> string) option" where
  "SplitHostPort s =
     (if CHR '':'' \<notin> set s then None
      else (let port = rev (takeWhile (\<lambda>c. c \<noteq> CHR '':'') (rev s));
                before = take (length s - length port - 1) s in
        if hd s = CHR ''['' then
          (let inner = takeWhile (\<lambda>c. c \<noteq> CHR '']'') (tl s) in
           if before = CHR ''['' # inner @ '']'' \<and> CHR ''['' \<notin> set inner \<and> CHR ''['' \<notin> set port \<and> CHR '']'' \<notin> set port
           then Some (inner, port) else None)
        else if CHR '':'' \<in> set before \<or> CHR ''['' \<in> set s \<or> CHR '']'' \<in> set s then None
        else Some (before, port)))"

definition normalizeHost :: "text_env \<Rightarrow> string \<Rightarrow> string" where
  "normalizeHost env raw =
     (let host = TrimSpace (ToLower (te_lower env) raw) in
      case (if CHR '':'' \<in> set host then SplitHostPort host else None) of
        Some (parsed, port) \<Rightarrow>
          if port = [] then TrimSuffix host ''.''
          else (case Atoi port of None \<Rightarrow> []
                | Some p \<Rightarrow> if p < 1 \<or> p > 65535 then [] else TrimSuffix parsed ''.'')
      | None \<Rightarrow> TrimSuffix host ''.'')"

definition validDNSLabel :: "string \<Rightarrow> bool" where
  "validDNSLabel label \<longleftrightarrow> label \<noteq> [] \<and> length label \<le> 63 \<and> hd label \<noteq> CHR ''-'' \<and> last label \<noteq> CHR ''-'' \<and> list_all label_char label"

definition validDNSName :: "string \<Rightarrow> bool" where
  "validDNSName name \<longleftrightarrow> name \<noteq> [] \<and> length name \<le> 253 \<and> list_all validDNSLabel (Split CHR ''.'' name)"

definition ValidateDomainPattern :: "text_env \<Rightarrow> string \<Rightarrow> bool" where
  "ValidateDomainPattern env raw =
     (let pattern = TrimSuffix (ToLower (te_lower env) (TrimSpace raw)) ''.'' in
      if pattern = [] then True
      else if CHR ''*'' \<in> set pattern then
        HasPrefix pattern ''tm-*.'' \<and> length (filter (\<lambda>c. c = CHR ''*'') pattern) = 1 \<and> validDNSName (tl (TrimPrefix pattern ''tm-*''))
      else validDNSName pattern)"

definition domainMatch :: "text_env \<Rightarrow> string \<Rightarrow> string \<Rightarrow> bool" where
  "domainMatch env raw host =
     (let pattern = normalizeHost env raw in
      if pattern = [] then False
      else if pattern = host then True
      else if HasPrefix pattern ''tm-*.'' then
        (let base = TrimPrefix pattern ''tm-*'' in
         if \<not> HasSuffix host base then False
         else (let label = TrimSuffix (TrimSuffix host base) ''.'' in HasPrefix label ''tm-'' \<and> validDNSLabel label))
      else False)"

definition domainRank :: "text_env \<Rightarrow> string \<Rightarrow> string \<Rightarrow> nat" where
  "domainRank env raw rawHost =
     (let pattern = normalizeHost env raw; host = normalizeHost env rawHost in
      if pattern = host then 3 else if HasPrefix pattern ''tm-*.'' then 1 else 0)"

text \<open>The character after the prefix exists whenever it is looked at.\<close>

definition pathMatch :: "string \<Rightarrow> string \<Rightarrow> bool" where
  "pathMatch prefix path \<longleftrightarrow> prefix = ''/'' \<or>
     (HasPrefix path prefix \<and> (length path = length prefix \<or> HasSuffix prefix ''/'' \<or> path ! length prefix = CHR ''/''))"

definition route_less :: "text_env \<Rightarrow> string \<Rightarrow> route \<Rightarrow> route \<Rightarrow> bool" where
  "route_less env host a b =
     (let ad = domainRank env (ro_Domain a) host; bd = domainRank env (ro_Domain b) host in
      if ad \<noteq> bd then ad > bd
      else if length (ro_PathPrefix a) \<noteq> length (ro_PathPrefix b) then length (ro_PathPrefix a) > length (ro_PathPrefix b)
      else ro_ID a < ro_ID b)"

definition candidates :: "text_env \<Rightarrow> route list \<Rightarrow> string \<Rightarrow> string \<Rightarrow> route list" where
  "candidates env routes host path =
     filter (\<lambda>r. domainMatch env (ro_Domain r) host \<and> (ro_PathPrefix r = [] \<or> pathMatch (ro_PathPrefix r) path)) routes"

definition named :: "route \<Rightarrow> route" where
  "named r = (if ro_ID r = [] then r\<lparr>ro_ID := ro_RouteID r\<rparr> else r)"

definition select_explicit :: "text_env \<Rightarrow> route list \<Rightarrow> string \<Rightarrow> routing_error + route" where
  "select_explicit env cs host =
     (let selected = named (hd (SliceStable (route_less env host) cs)) in
      case validateRoutePolicy env selected of Some e \<Rightarrow> Inl e | None \<Rightarrow> Inr selected)"

definition resolve_dynamic :: "text_env \<Rightarrow> resolver \<Rightarrow> string \<Rightarrow> routing_error + route" where
  "resolve_dynamic env r host =
     (if rr_dynamicSuffix r \<noteq> [] \<and> HasSuffix host (CHR ''.'' # rr_dynamicSuffix r) then
        (case ParseDynamicHost (te_lower env) host None of
           Inl e \<Rightarrow> Inl (if e = ErrDangerousAddress then ErrDangerousAddress else ErrRouteNotFound)
         | Inr d \<Rightarrow>
           if EqualFold (te_fold env) (dh_Domain d) (rr_dynamicSuffix r) then
             (case Policy_Validate (rr_policy r) (Some (IP4 (dh_IP d))) (dh_Port d) of
                Some e \<Rightarrow> Inl e
              | None \<Rightarrow>
                Inr \<lparr>ro_ID = ''dynamic:'' @ DynamicHost_String d, ro_RouteID = ''dynamic:'' @ DynamicHost_String d, ro_Domain = host,
                     ro_PathPrefix = [], ro_AgentID = dh_AgentID d, ro_TargetHost = show_ip (dh_IP d), ro_TargetPort = dh_Port d,
                     ro_Protocol = ''http'', ro_HostHeader = [], ro_TargetScheme = [], ro_TLSServerName = [], ro_AllowedCIDRs = [],
                     ro_AllowedPorts = [], ro_Dynamic = True\<rparr>)
           else Inl ErrRouteNotFound)
      else Inl ErrRouteNotFound)"

definition resolve_by_host :: "text_env \<Rightarrow> resolver \<Rightarrow> string \<Rightarrow> string \<Rightarrow> routing_error + route" where
  "resolve_by_host env r rawHost rawPath =
     (let host = normalizeHost env rawHost; path = (if rawPath = [] then ''/'' else rawPath) in
      if host = [] then Inl ErrRouteNotFound
      else (let cs = candidates env (rr_routes r) host path in
        if cs \<noteq> [] then select_explicit env cs host else resolve_dynamic env r host))"

definition ResolveHTTP :: "text_env \<Rightarrow> resolver \<Rightarrow> string list \<Rightarrow> routing_error + route" where
  "ResolveHTTP env r args =
     (case args of
        [host, path] \<Rightarrow> resolve_by_host env r host path
      | [routeID, host, path] \<Rightarrow>
          (case (if routeID = [] then None else find (\<lambda>x. ro_ID x = routeID \<or> ro_RouteID x = routeID) (rr_routes r)) of
             None \<Rightarrow> resolve_by_host env r host path
           | Some x \<Rightarrow> (case validateRoutePolicy env x of Some e \<Rightarrow> Inl e | None \<Rightarrow> Inr (named x)))
      | _ \<Rightarrow> Inl ErrRouteNotFound)"

text \<open>
  What a resolver is built from: a slice of routes (or a table, or a pointer to one), a configuration, or anything else, which gives
  an empty resolver; the options are applied afterwards, in order.
\<close>

datatype route_source = RouteSlice "route list" | RouteResolverConfig "route list" string route_policy | OtherSource

datatype resolver_option = WithDynamicSuffix string | WithPolicy route_policy

definition suffix_form :: "text_env \<Rightarrow> string \<Rightarrow> string" where
  "suffix_form env suffix = TrimSuffix (ToLower (te_lower env) (TrimSpace suffix)) ''.''"

fun apply_option :: "text_env \<Rightarrow> resolver_option \<Rightarrow> resolver \<Rightarrow> resolver" where
  "apply_option env (WithDynamicSuffix suffix) r = r\<lparr>rr_dynamicSuffix := suffix_form env suffix\<rparr>"
| "apply_option env (WithPolicy p) r = r\<lparr>rr_policy := p\<rparr>"

definition NewRouteResolver :: "text_env \<Rightarrow> route_source \<Rightarrow> resolver_option list \<Rightarrow> resolver" where
  "NewRouteResolver env source options =
     fold (apply_option env) options
       (case source of
          RouteSlice routes \<Rightarrow> \<lparr>rr_routes = routes, rr_dynamicSuffix = ''apps.example.com'', rr_policy = any_policy\<rparr>
        | RouteResolverConfig routes suffix p \<Rightarrow>
            \<lparr>rr_routes = routes, rr_dynamicSuffix = (if suffix \<noteq> [] then suffix_form env suffix else ''apps.example.com''), rr_policy = p\<rparr>
        | OtherSource \<Rightarrow> \<lparr>rr_routes = [], rr_dynamicSuffix = ''apps.example.com'', rr_policy = any_policy\<rparr>)"

section \<open>Precedence\<close>

text \<open>The comparison of routes is a weak order, so the sorted slice starts with a route that no candidate precedes.\<close>

interpretation route_order: weak_order "route_less env host" for env host
proof
  show "\<not> route_less env host y x" if "route_less env host x y" for x y
    using that by (auto simp: route_less_def Let_def split: if_splits)
  show "route_less env host x y \<or> route_less env host y z" if "route_less env host x z" for x y z
    using that by (auto simp: route_less_def Let_def split: if_splits)
qed

lemma route_tie: "\<not> route_less env host a b \<Longrightarrow> \<not> route_less env host b a \<Longrightarrow> ro_ID a = ro_ID b"
  by (auto simp: route_less_def Let_def split: if_splits)

lemma selected_least:
  assumes "cs \<noteq> []"
  shows "hd (SliceStable (route_less env host) cs) \<in> set cs
    \<and> (\<forall>c\<in>set cs. \<not> route_less env host c (hd (SliceStable (route_less env host) cs)))"
proof -
  obtain y ys where y: "SliceStable (route_less env host) cs = y # ys"
    using assms by (cases "SliceStable (route_less env host) cs") auto
  from route_order.hd_SliceStable [OF this] obtain us vs
    where "cs = us @ y # vs" "\<forall>u\<in>set us. route_less env host y u" "\<forall>v\<in>set vs. \<not> route_less env host v y" by blast
  then show ?thesis using y route_order.asym route_order.irrefl by fastforce
qed

lemma selected_permuted:
  assumes m: "mset cs = mset cs'" and d: "distinct (map ro_ID cs)" and n: "cs \<noteq> []"
  shows "hd (SliceStable (route_less env host) cs) = hd (SliceStable (route_less env host) cs')"
proof -
  have s: "set cs = set cs'" using m by (metis set_mset_mset)
  have n': "cs' \<noteq> []" using m n by auto
  note a = selected_least [OF n, of env host] and b = selected_least [OF n', of env host]
  have "ro_ID (hd (SliceStable (route_less env host) cs)) = ro_ID (hd (SliceStable (route_less env host) cs'))"
    using a b s route_tie by blast
  moreover have "inj_on ro_ID (set cs)" using d by (simp add: distinct_map)
  ultimately show ?thesis using a b s by (simp add: inj_on_def)
qed

lemma resolve_dynamic_routes: "resolve_dynamic env (r\<lparr>rr_routes := x\<rparr>) h = resolve_dynamic env r h"
  by (cases "ParseDynamicHost (te_lower env) h None") (simp_all add: resolve_dynamic_def)


definition sample_text :: text_env where
  "sample_text = \<lparr>te_lower = id, te_fold = (=), te_parse6 = (\<lambda>_. None)\<rparr>"

definition sample_route :: "string \<Rightarrow> string \<Rightarrow> route" where
  "sample_route i prefix =
     \<lparr>ro_ID = i, ro_RouteID = [], ro_Domain = ''x.test'', ro_PathPrefix = prefix, ro_AgentID = ''a'', ro_TargetHost = ''h'',
      ro_TargetPort = 80, ro_Protocol = ''http'', ro_HostHeader = [], ro_TargetScheme = [], ro_TLSServerName = [],
      ro_AllowedCIDRs = [], ro_AllowedPorts = [], ro_Dynamic = False\<rparr>"


section \<open>Dynamic hosts round trip\<close>

definition valid_dynamic :: "dynamic_host \<Rightarrow> bool" where
  "valid_dynamic d \<longleftrightarrow> validDNSLabel (DynamicHost_String d) \<and> dh_AgentID d \<noteq> [] \<and> last (dh_AgentID d) \<noteq> CHR ''-''
     \<and> \<not> IsDangerousAddress (IP4 (dh_IP d)) \<and> 1 \<le> dh_Port d \<and> dh_Port d \<le> 65535
     \<and> validDNSName (dh_Domain d) \<and> length (DynamicHost_String d) + length (dh_Domain d) < 253"

lemma label_char_range:
  "label_char c \<Longrightarrow> (97 \<le> (of_char c :: nat) \<and> (of_char c :: nat) \<le> 122) \<or> (48 \<le> (of_char c :: nat) \<and> (of_char c :: nat) \<le> 57) \<or> c = CHR ''-''"
  by (auto simp: label_char_def less_eq_char_def)

lemma label_char_plain: "label_char c \<Longrightarrow> lower_char c = c \<and> of_char c < (128 :: nat) \<and> graphic c \<and> c \<noteq> CHR ''.''"
  by (drule label_char_range) (auto simp: lower_char_def graphic_def Let_def)

lemma check_label_valid: "check_label l = None \<longleftrightarrow> validDNSLabel l"
  by (auto simp: check_label_def validDNSLabel_def)

lemma check_labels_valid: "check_labels ls = None \<longleftrightarrow> list_all validDNSLabel ls"
  by (induction ls) (auto simp: check_label_valid [symmetric] split: option.splits)

text \<open>A lower-case DNS name passes through the normalisation of the parser unchanged.\<close>

lemma normal_name:
  assumes "name \<noteq> []" "\<forall>c\<in>set name. label_char c \<or> c = CHR ''.''" "hd name \<noteq> CHR ''.''" "last name \<noteq> CHR ''.''"
  shows "TrimSuffix (ToLower ul (TrimSpace name)) ''.'' = name"
proof -
  have "graphic (hd name)" "graphic (last name)" using assms label_char_plain by (meson hd_in_set last_in_set)+
  then have t: "TrimSpace name = name" using assms(1) by (rule TrimSpace_graphic [rotated])
  have "is_ascii name" using assms(2) label_char_plain by (fastforce simp: is_ascii_def)
  moreover have "map lower_char name = name"
    by (rule map_idI) (use assms(2) label_char_plain in \<open>fastforce simp: lower_char_def\<close>)
  ultimately have "ToLower ul name = name" by (simp add: ToLower_def)
  moreover have "\<not> HasSuffix name ''.''" using assms(4) by (auto simp: HasSuffix_iff)
  ultimately show ?thesis using t by (simp add: TrimSuffix_other)
qed

lemma Split_fields:
  assumes "\<forall>w\<in>set ws. sep \<notin> set w"
  shows "Split sep (a @ concat (map (\<lambda>w. sep # w) ws)) = Split sep a @ ws"
proof (induction a)
  case Nil
  have "Split sep (w @ concat (map (\<lambda>w. sep # w) vs)) = w # vs" if "\<forall>v\<in>set (w # vs). sep \<notin> set v" for w vs
    using that by (induction vs arbitrary: w) (auto simp: Split_word Split_append)
  then show ?case using assms by (cases ws) auto
next
  case (Cons c a)
  obtain u us where "Split sep a = u # us" by (cases "Split sep a") auto
  then show ?case using Cons by simp
qed

lemma octet_part_show [simp]: "n < 256 \<Longrightarrow> octet_part (show_nat n) = Some n"
  by (simp add: octet_part_def Atoi_show_nat)

lemma those_map_Some: "those (map Some xs) = Some xs"
  by (induction xs) simp_all

lemma DynamicHost_parts:
  assumes "1 \<le> dh_Port d"
  shows "Split CHR ''-'' (DynamicHost_String d) = Split CHR ''-'' (dh_AgentID d) @ map show_nat (octets (dh_IP d)) @ [Itoa (dh_Port d)]"
proof -
  have d: "CHR ''-'' \<notin> set (show_nat n)" for n using show_nat_chars by fastforce
  have "DynamicHost_String d = dh_AgentID d @ concat (map (\<lambda>w. CHR ''-'' # w) (map show_nat (octets (dh_IP d)) @ [Itoa (dh_Port d)]))"
    by (simp add: DynamicHost_String_def comp_def)
  moreover have "\<forall>w\<in>set (map show_nat (octets (dh_IP d)) @ [Itoa (dh_Port d)]). CHR ''-'' \<notin> set w"
    using d assms by (auto simp: Itoa_def)
  ultimately show ?thesis using Split_fields by metis
qed

lemma valid_name_chars:
  assumes "validDNSName s"
  shows "(\<forall>c\<in>set s. label_char c \<or> c = CHR ''.'') \<and> hd s \<noteq> CHR ''.'' \<and> last s \<noteq> CHR ''.''"
proof (intro conjI ballI)
  have valid: "validDNSLabel l" if "l \<in> set (Split CHR ''.'' s)" for l using assms that by (auto simp: validDNSName_def list_all_iff)
  have n: "s \<noteq> []" using assms by (simp add: validDNSName_def)
  have "set (Join CHR ''.'' ls) \<subseteq> insert CHR ''.'' (\<Union> (set ` set ls))" for ls by (induction "CHR ''.''" ls rule: Join.induct) auto
  from this [of "Split CHR ''.'' s"] show "label_char c \<or> c = CHR ''.''" if "c \<in> set s" for c
    using that valid by (fastforce simp: validDNSLabel_def list_all_iff)
  show "hd s \<noteq> CHR ''.''"
  proof
    assume "hd s = CHR ''.''"
    then have "[] \<in> set (Split CHR ''.'' s)" using n by (cases s) auto
    then show False using valid by (force simp: validDNSLabel_def)
  qed
  show "last s \<noteq> CHR ''.''"
  proof
    assume "last s = CHR ''.''"
    then obtain t where "s = t @ concat (map (\<lambda>w. CHR ''.'' # w) [[]])" using n by (cases s rule: rev_cases) auto
    then have "Split CHR ''.'' s = Split CHR ''.'' t @ [[]]" using Split_fields [of "[[]]" "CHR ''.''" t] by simp
    then show False using valid by (force simp: validDNSLabel_def)
  qed
qed

lemma dynamic_label_String:
  assumes v: "valid_dynamic d"
  shows "dynamic_label (DynamicHost_String d) = Inr (dh_AgentID d, dh_IP d, dh_Port d)"
proof -
  define as parts where "as = Split CHR ''-'' (dh_AgentID d)" and "parts = Split CHR ''-'' (DynamicHost_String d)"
  have port: "1 \<le> dh_Port d" "dh_Port d \<le> 65535" "Atoi (Itoa (dh_Port d)) = Some (dh_Port d)"
    using v Atoi_Itoa [of "dh_Port d"] by (auto simp: valid_dynamic_def)
  have parts: "parts = as @ map show_nat (octets (dh_IP d)) @ [Itoa (dh_Port d)]" "as \<noteq> []"
    unfolding parts_def as_def by (simp_all add: DynamicHost_parts [OF port(1)])
  have n: "length parts = length as + 5" by (simp add: parts octets_def)
  have os: "those (map octet_part (take 4 (drop (length parts - 5) parts))) = Some (octets (dh_IP d))"
    unfolding n by (simp add: parts(1) octets_def)
  have agent: "Join CHR ''-'' (take (length parts - 5) parts) = dh_AgentID d" unfolding n by (simp add: parts(1) as_def)
  have ag: "dh_AgentID d \<noteq> []" "length (dh_AgentID d) \<le> 63" "hd (dh_AgentID d) \<noteq> CHR ''-''" "last (dh_AgentID d) \<noteq> CHR ''-''"
    using v by (auto simp: valid_dynamic_def DynamicHost_String_def validDNSLabel_def)
  have "\<not> length parts < 6" "last parts = Itoa (dh_Port d)" using n parts by (cases as; simp)+
  then show ?thesis using port ag v
    unfolding dynamic_label_def parts_def [symmetric] Let_def os agent by (simp add: valid_dynamic_def)
qed

text \<open>
  Dynamic host names round trip: a target that is printed as a host name under a domain is parsed back exactly, agent
  ids with hyphens included, whenever the printed label is a valid DNS label and the address is not in a denied range.
\<close>

lemma dynamic_host_roundtrip:
  assumes v: "valid_dynamic d" and x: "x = None \<or> x = Some (dh_Domain d)"
  shows "ParseDynamicHost ul (DynamicHost_String d @ CHR ''.'' # dh_Domain d) x = Inr d"
proof -
  define l host where "l = DynamicHost_String d" and "host = l @ CHR ''.'' # dh_Domain d"
  have l: "validDNSLabel l" "l \<noteq> []" "list_all label_char l" using v by (auto simp: valid_dynamic_def l_def validDNSLabel_def)
  have dom: "validDNSName (dh_Domain d)" "dh_Domain d \<noteq> []" using v by (auto simp: valid_dynamic_def validDNSName_def)
  have dom': "\<forall>c\<in>set (dh_Domain d). label_char c \<or> c = CHR ''.''" "hd (dh_Domain d) \<noteq> CHR ''.''" "last (dh_Domain d) \<noteq> CHR ''.''"
    using valid_name_chars [OF dom(1)] by simp_all
  have dot: "CHR ''.'' \<notin> set l" using l(3) label_char_plain by (auto simp: list_all_iff)
  then have labels: "Split CHR ''.'' host = l # Split CHR ''.'' (dh_Domain d)" unfolding host_def by (rule Split_append)
  have "hd l \<noteq> CHR ''.''" using dot l(2) by (metis hd_in_set)
  then have norm: "TrimSuffix (ToLower ul (TrimSpace host)) ''.'' = host" "TrimSuffix (ToLower ul (TrimSpace (dh_Domain d))) ''.'' = dh_Domain d"
    using l dom(2) dom' unfolding host_def by (intro normal_name; auto simp: list_all_iff)+
  have check: "check_labels (l # Split CHR ''.'' (dh_Domain d)) = None"
    unfolding check_labels_valid using l(1) dom(1) by (simp add: validDNSName_def)
  have len: "host \<noteq> []" "\<not> length host > 253" using v by (auto simp: host_def l_def valid_dynamic_def)
  show ?thesis using x len check norm(2) dynamic_label_String [OF v]
    unfolding ParseDynamicHost_def Let_def l_def [symmetric] host_def [symmetric] norm(1) labels by auto
qed

end
