(* ===== verification/VPN_Pool.thy ===== *)
theory VPN_Pool
  imports Routing
begin

text \<open>
  \<^verbatim>\<open>internal/vpn/ippool.go\<close>: the address pool of the VPN gateway, carved into one subnet per node, and the allocation of a
  peer's address in a subnet. The error codes are those of \<^verbatim>\<open>internal/vpn/errors.go\<close>; their messages are left out, and an address of four bytes
  is a word of 32 bits.

  The lemmas show that the subnets partition the pool and that allocation returns the lowest free host address, reserving
  the network address, the broadcast address and the node's own.
\<close>

datatype vpn_error =
    ErrPeerInvalid | ErrIPPoolInvalid | ErrPeerNotFound | ErrPeerConflict | ErrAgentCapabilityMissing | ErrIPPoolExhausted
  | ErrNodeDisabled | ErrSecretUnavailable | ErrCapacityExhausted | ErrNotImplemented

definition maxNodeSubnets :: nat where "maxNodeSubnets = 4096"
definition maxNodeSubnetBits :: nat where "maxNodeSubnetBits = 30"
definition maxPoolBits :: nat where "maxPoolBits = 24"

record pool =
  pl_network :: ipnet
  pl_size :: nat
  pl_subnets :: "ipnet list"

text \<open>The address as written, the block it belongs to and its prefix length.\<close>

definition parseIPv4Network :: "(string \<Rightarrow> 128 word option) \<Rightarrow> string \<Rightarrow> vpn_error + uint32 \<times> ipnet \<times> nat" where
  "parseIPv4Network p6 cidr =
     (let trimmed = TrimSpace cidr in
      if trimmed = [] then Inl ErrIPPoolInvalid
      else (case ParseCIDR p6 trimmed of None \<Rightarrow> Inl ErrIPPoolInvalid
        | Some (literal, network) \<Rightarrow>
          (case (To4 literal, To4 (n_ip network)) of
             (Some l, Some a) \<Rightarrow>
               if n_bits network \<noteq> 32 then Inl ErrIPPoolInvalid else Inr (l, net4 a (n_ones network), n_ones network)
           | _ \<Rightarrow> Inl ErrIPPoolInvalid)))"

definition addIPv4 :: "uint32 \<Rightarrow> nat \<Rightarrow> uint32" where
  "addIPv4 base offset = base + of_nat offset"

definition net_base :: "ipnet \<Rightarrow> uint32" where
  "net_base n = (case n_ip n of IP4 a \<Rightarrow> a | IP6 _ \<Rightarrow> 0)"

definition carve :: "uint32 \<Rightarrow> nat \<Rightarrow> nat \<Rightarrow> ipnet list" where
  "carve base ones parts =
     map (\<lambda>offset. \<lparr>n_ip = IP4 (addIPv4 base (offset * 2 ^ (32 - ones))), n_ones = ones, n_bits = 32\<rparr>) [0..<parts]"

definition ParsePool :: "(string \<Rightarrow> 128 word option) \<Rightarrow> string \<Rightarrow> int \<Rightarrow> vpn_error + pool" where
  "ParsePool p6 cidr nodeSubnetSize =
     bindR (parseIPv4Network p6 cidr) (\<lambda>(_, network, ones).
       if ones > maxPoolBits then Inl ErrIPPoolInvalid
       else if nodeSubnetSize \<le> int ones then Inl ErrIPPoolInvalid
       else if nodeSubnetSize > int maxNodeSubnetBits then Inl ErrIPPoolInvalid
       else (let k = nat nodeSubnetSize; parts = 2 ^ (k - ones) in
             if parts > maxNodeSubnets then Inl ErrIPPoolInvalid
             else if IsDangerousAddress (n_ip network) then Inl ErrIPPoolInvalid
             else Inr \<lparr>pl_network = network, pl_size = k, pl_subnets = carve (net_base network) k parts\<rparr>))"

definition NodeSubnet :: "(string \<Rightarrow> 128 word option) \<Rightarrow> pool \<Rightarrow> string \<Rightarrow> vpn_error + ipnet" where
  "NodeSubnet p6 p cidr =
     bindR (parseIPv4Network p6 cidr) (\<lambda>(literal, network, ones).
       if literal \<noteq> net_base network then Inl ErrIPPoolInvalid
       else if ones \<noteq> pl_size p then Inl ErrIPPoolInvalid
       else if \<not> Contains4 (pl_network p) (net_base network) then Inl ErrIPPoolInvalid
       else Inr network)"

definition validatedSubnet :: "(string \<Rightarrow> 128 word option) \<Rightarrow> pool \<Rightarrow> ipnet option \<Rightarrow> vpn_error + ipnet" where
  "validatedSubnet p6 p subnet = (case subnet of None \<Rightarrow> Inl ErrIPPoolInvalid | Some n \<Rightarrow> NodeSubnet p6 p (show_net n))"

definition NodeAddress :: "(string \<Rightarrow> 128 word option) \<Rightarrow> pool \<Rightarrow> ipnet option \<Rightarrow> vpn_error + uint32" where
  "NodeAddress p6 p subnet = bindR (validatedSubnet p6 p subnet) (\<lambda>n. Inr (addIPv4 (net_base n) 1))"

definition AllocateAddress :: "(string \<Rightarrow> 128 word option) \<Rightarrow> pool \<Rightarrow> ipnet option \<Rightarrow> (uint32 \<Rightarrow> bool) \<Rightarrow> vpn_error + uint32" where
  "AllocateAddress p6 p subnet taken =
     bindR (validatedSubnet p6 p subnet) (\<lambda>n.
       case find (\<lambda>offset. \<not> taken (addIPv4 (net_base n) offset)) [2..<2 ^ (32 - pl_size p) - 1] of
         Some offset \<Rightarrow> Inr (addIPv4 (net_base n) offset)
       | None \<Rightarrow> Inl ErrIPPoolExhausted)"

definition Pool_Contains :: "pool \<Rightarrow> ip option \<Rightarrow> bool" where
  "Pool_Contains p x = (case x of None \<Rightarrow> False | Some i \<Rightarrow> (case To4 i of None \<Rightarrow> False | Some a \<Rightarrow> Contains4 (pl_network p) a))"

section \<open>The subnets partition the pool\<close>

text \<open>
  The shape of a parsed pool: an aligned base address \<open>b\<close>, prefix lengths \<open>m < k \<le> 30\<close>, and the subnets in order.
\<close>

lemma ParsePool_shape:
  assumes "ParsePool p6 cidr width = Inr p"
  obtains b m k where "p = \<lparr>pl_network = net4 b m, pl_size = k, pl_subnets = carve b k (2 ^ (k - m))\<rparr>"
    "m < k" "k \<le> 30" "masked m b = b"
proof -
  obtain l network ones where n: "parseIPv4Network p6 cidr = Inr (l, network, ones)" "ones < nat width" "nat width \<le> 30"
    "p = \<lparr>pl_network = network, pl_size = nat width, pl_subnets = carve (net_base network) (nat width) (2 ^ (nat width - ones))\<rparr>"
    using assms by (auto simp: ParsePool_def bindR_Inr_iff maxNodeSubnetBits_def Let_def split: if_splits)
  obtain a where a: "network = net4 a ones"
    using n(1) by (auto simp: parseIPv4Network_def Let_def split: if_splits option.splits)
  have "network = net4 (masked ones a) ones" "net_base network = masked ones a" using a by (simp_all add: net4_def net_base_def)
  then show thesis using n that [of "masked ones a" ones "nat width"] by simp
qed

lemma unat_addIPv4: "unat b + n < 2 ^ 32 \<Longrightarrow> unat (addIPv4 b n) = unat b + n"
  by (simp add: addIPv4_def unat_word_ariths unat_of_nat)

lemma block_end:
  assumes "masked m b = b" "m \<le> 32"
  shows "2 ^ (32 - m) dvd unat b" and "unat b + 2 ^ (32 - m) \<le> 2 ^ 32"
proof -
  define q where "q = unat b div 2 ^ (32 - m)"
  have q: "unat b = q * 2 ^ (32 - m)" using unat_masked [OF assms(2), of b] assms(1) by (simp add: q_def)
  then show "2 ^ (32 - m) dvd unat b" by simp
  have "(2::nat) ^ 32 = 2 ^ m * 2 ^ (32 - m)" using assms(2) by (simp add: power_add [symmetric])
  moreover have "unat b < 2 ^ 32" using unsigned_less [of b] by simp
  ultimately have "q * 2 ^ (32 - m) < 2 ^ m * 2 ^ (32 - m)" using q by simp
  then have "Suc q \<le> 2 ^ m" by simp
  then have "Suc q * 2 ^ (32 - m) \<le> 2 ^ m * 2 ^ (32 - m)" by (rule mult_le_mono1)
  then show "unat b + 2 ^ (32 - m) \<le> 2 ^ 32" using q assms(2) by (simp add: power_add [symmetric])
qed

lemma carve_nth:
  assumes "masked m b = b" "m < k" "k \<le> 30" "i < 2 ^ (k - m)"
  shows "unat (addIPv4 b (i * 2 ^ (32 - k))) = unat b + i * 2 ^ (32 - k)"
    and "masked k (addIPv4 b (i * 2 ^ (32 - k))) = addIPv4 b (i * 2 ^ (32 - k))"
proof -
  define M where "M = (2::nat) ^ (32 - k)"
  have pow: "(2::nat) ^ (32 - m) = 2 ^ (k - m) * M" using assms(2,3) by (simp add: M_def power_add [symmetric])
  have e: "2 ^ (32 - m) dvd unat b" "unat b + 2 ^ (32 - m) \<le> 2 ^ 32" using block_end [OF assms(1)] assms(2,3) by simp_all
  have "i * M < 2 ^ (32 - m)" unfolding pow using assms(4) by (simp add: M_def)
  then have lt: "unat b + i * M < 2 ^ 32" using e(2) by simp
  then show u: "unat (addIPv4 b (i * 2 ^ (32 - k))) = unat b + i * 2 ^ (32 - k)"
    unfolding M_def [symmetric] by (rule unat_addIPv4)
  have "M dvd unat b + i * M" using e(1) unfolding pow by (auto dest: dvd_mult_right)
  then have "unat (masked k (addIPv4 b (i * M))) = unat (addIPv4 b (i * M))"
    using unat_masked [of k "addIPv4 b (i * M)"] assms(3) u unfolding M_def [symmetric] by (simp only: dvd_div_mult_self)
  then show "masked k (addIPv4 b (i * 2 ^ (32 - k))) = addIPv4 b (i * 2 ^ (32 - k))" by (simp add: M_def word_unat_eq_iff)
qed

text \<open>Every subnet is the block of its base address; the addresses of the \<open>i\<close>th lie in the \<open>i\<close>th slice above the pool's base.\<close>

lemma carve_net4:
  assumes "masked m b = b" "m < k" "k \<le> 30" "i < 2 ^ (k - m)"
  shows "carve b k (2 ^ (k - m)) ! i = net4 (addIPv4 b (i * 2 ^ (32 - k))) k"
  using assms carve_nth(2) [OF assms] by (simp add: carve_def net4_def)

lemma carve_contains:
  assumes "masked m b = b" "m < k" "k \<le> 30" "i < 2 ^ (k - m)"
  shows "Contains4 (carve b k (2 ^ (k - m)) ! i) a \<longleftrightarrow> unat a div 2 ^ (32 - k) = unat b div 2 ^ (32 - k) + i"
proof -
  have "unat (addIPv4 b (i * 2 ^ (32 - k))) div 2 ^ (32 - k) = unat b div 2 ^ (32 - k) + i"
    by (simp add: carve_nth(1) [OF assms])
  then show ?thesis unfolding carve_net4 [OF assms] using assms(3) by (simp add: Contains4_range)
qed

lemma pool_slice:
  assumes "masked m b = b" "m < k" "k \<le> 30"
  shows "Contains4 (net4 b m) a \<longleftrightarrow> (\<exists>i<2 ^ (k - m). unat a div 2 ^ (32 - k) = unat b div 2 ^ (32 - k) + i)"
proof -
  define M N where "M = (2::nat) ^ (32 - k)" and "N = (2::nat) ^ (k - m)"
  have pow: "(2::nat) ^ (32 - m) = N * M" using assms(2,3) by (simp add: M_def N_def power_add [symmetric])
  define q where "q = unat b div 2 ^ (32 - m)"
  have q: "unat b = q * N * M" using unat_masked [of m b] assms by (simp add: q_def pow)
  have N: "0 < N" "0 < M" by (simp_all add: N_def M_def)
  have c: "unat b div M = q * N" "unat b div (N * M) = q" using q N by (simp_all add: mult.assoc)
  have "Contains4 (net4 b m) a \<longleftrightarrow> unat a div (N * M) = q" using assms c(2) by (simp add: Contains4_range pow)
  also have "\<dots> \<longleftrightarrow> unat a div M div N = q" by (simp add: div_mult2_eq mult.commute)
  also have "\<dots> \<longleftrightarrow> (\<exists>i<N. unat a div M = q * N + i)"
    using N(1) by (metis add.commute div_less div_mult_mod_eq div_mult_self1 mod_less_divisor add_cancel_right_left gr_implies_not0)
  finally show ?thesis unfolding M_def [symmetric] N_def [symmetric] c(1) .
qed

text \<open>A block of the right size with its base in the pool is accepted when it is read back from its text.\<close>

lemma show_net_nonempty: "show_net (net4 a n) \<noteq> []"
  by (simp add: show_net_def net4_def)

lemma show_net_trim: "TrimSpace (show_net (net4 a n)) = show_net (net4 a n)"
proof (rule TrimSpace_graphic [OF show_net_nonempty])
  have d: "show_nat k \<noteq> []" "is_digit (hd (show_nat k))" "is_digit (last (show_nat k))" for k
    using show_nat_props [of k] by (auto simp: list_all_iff)
  show "graphic (hd (show_net (net4 a n)))" "graphic (last (show_net (net4 a n)))"
    using d by (auto simp: show_net_def net4_def show_ip_def octets_def intro: digit_graphic)
qed

lemma parse_show_net:
  "n \<le> 32 \<Longrightarrow> parseIPv4Network p6 (show_net (net4 a n)) = Inr (masked n a, net4 a n, n)"
  using ParseCIDR_show_net [of n p6 a] show_net_nonempty [of a n] unfolding parseIPv4Network_def Let_def show_net_trim
  by (simp add: net4_def)

lemma NodeSubnet_show_net:
  assumes "pl_size p \<le> 32" "Contains4 (pl_network p) (masked (pl_size p) a)"
  shows "NodeSubnet p6 p (show_net (net4 a (pl_size p))) = Inr (net4 a (pl_size p))"
  using parse_show_net [OF assms(1)] assms(2) by (simp add: NodeSubnet_def net_base_def net4_def)

lemma carve_inj:
  assumes "masked m b = b" "m < k" "k \<le> 30" "i < 2 ^ (k - m)" "j < 2 ^ (k - m)"
    "carve b k (2 ^ (k - m)) ! i = carve b k (2 ^ (k - m)) ! j"
  shows "i = j"
proof -
  have "addIPv4 b (i * 2 ^ (32 - k)) = addIPv4 b (j * 2 ^ (32 - k))" using assms(4-6) by (simp add: carve_def)
  then have "unat b + i * 2 ^ (32 - k) = unat b + j * 2 ^ (32 - k)"
    using carve_nth(1) [OF assms(1-4)] carve_nth(1) [OF assms(1-3,5)] by (simp only:)
  then show ?thesis by simp
qed

text \<open>Of a parsed pool: what each subnet is, that none overlap and that together they are the pool.\<close>

lemma pool_facts:
  assumes "ParsePool p6 cidr width = Inr p"
  shows "pl_size p \<le> 30" "distinct (pl_subnets p)"
    and "Contains4 (pl_network p) a \<longleftrightarrow> (\<exists>n\<in>set (pl_subnets p). Contains4 n a)"
    and "\<lbrakk>n \<in> set (pl_subnets p); n' \<in> set (pl_subnets p); Contains4 n a; Contains4 n' a\<rbrakk> \<Longrightarrow> n = n'"
    and "n \<in> set (pl_subnets p) \<Longrightarrow> \<exists>b. n = net4 b (pl_size p) \<and> masked (pl_size p) b = b"
proof -
  obtain b m k where p: "p = \<lparr>pl_network = net4 b m, pl_size = k, pl_subnets = carve b k (2 ^ (k - m))\<rparr>"
    and k: "m < k" "k \<le> 30" "masked m b = b" using ParsePool_shape [OF assms] by metis
  then show "pl_size p \<le> 30" by simp
  define N where "N = (2::nat) ^ (k - m)"
  define sub where "sub = (\<lambda>i. carve b k N ! i)"
  have len: "length (carve b k N) = N" by (simp add: carve_def)
  have set: "set (pl_subnets p) = sub ` {..<N}" by (auto simp: p sub_def set_conv_nth len N_def [symmetric] lessThan_def)
  have sub: "Contains4 (sub i) a \<longleftrightarrow> unat a div 2 ^ (32 - k) = unat b div 2 ^ (32 - k) + i" if "i < N" for i a
    using carve_contains [OF k(3,1,2)] that by (simp add: sub_def N_def)
  show "Contains4 (pl_network p) a \<longleftrightarrow> (\<exists>n\<in>set (pl_subnets p). Contains4 n a)"
    unfolding set using pool_slice [OF k(3,1,2), of a] sub by (auto simp: p N_def)
  show "distinct (pl_subnets p)"
    using carve_inj [OF k(3,1,2)] len by (auto simp: p distinct_conv_nth N_def)
  show "n = n'" if "n \<in> set (pl_subnets p)" "n' \<in> set (pl_subnets p)" "Contains4 n a" "Contains4 n' a"
    using that sub by (auto simp: set)
  show "\<exists>b. n = net4 b (pl_size p) \<and> masked (pl_size p) b = b" if "n \<in> set (pl_subnets p)"
    using that carve_net4 [OF k(3,1,2)] carve_nth(2) [OF k(3,1,2)] unfolding set sub_def N_def by (auto simp: p)
qed

lemma pool_node_subnet:
  assumes "ParsePool p6 cidr width = Inr p" "n \<in> set (pl_subnets p)"
  shows "NodeSubnet p6 p (show_net n) = Inr n"
proof -
  obtain b where b: "n = net4 b (pl_size p)" "masked (pl_size p) b = b" using pool_facts(5) [OF assms] by blast
  have "Contains4 n b" using b by (simp add: Contains4_net4)
  then show ?thesis using NodeSubnet_show_net [of p b p6] pool_facts(1,3) [OF assms(1)] assms(2) b by auto
qed

text \<open>
  The subnets partition the pool: an address lies in the pool exactly when it lies in one and only one of the carved
  subnets; the subnets are pairwise different, and each is accepted when it is read back from its text.
\<close>

lemma pool_partition:
  assumes "ParsePool p6 cidr width = Inr p"
  shows "(Contains4 (pl_network p) a \<longleftrightarrow> (\<exists>!n. n \<in> set (pl_subnets p) \<and> Contains4 n a)) \<and> distinct (pl_subnets p)
    \<and> (\<forall>n\<in>set (pl_subnets p). NodeSubnet p6 p (show_net n) = Inr n)"
  using pool_facts(2-4) [OF assms] pool_node_subnet [OF assms] by (intro conjI) blast+

text \<open>A pool of sixty-four subnets.\<close>

definition sample_pool :: pool where
  "sample_pool = (let b = ipv4 [10, 64, 0, 0] in \<lparr>pl_network = net4 b 24, pl_size = 30, pl_subnets = carve b 30 64\<rparr>)"

lemma sample_pool_parse: "ParsePool (\<lambda>_. None) ''10.64.0.0/24'' 30 = Inr sample_pool"
proof -
  define b where "b = ipv4 [10, 64, 0, 0]"
  have b: "unat b = 171966464" "octets b = [10, 64, 0, 0]" by (simp_all add: b_def ipv4_def octets_def octet_def)
  then have m: "masked 24 b = b" by (simp add: word_unat_eq_iff unat_masked)
  have "show_nat 10 = ''10''" "show_nat 64 = ''64''" "show_nat 0 = ''0''" "show_nat 24 = ''24''"
    by (simp_all add: show_nat.simps char_of_def bit_0)
  then have "show_net (net4 b 24) = ''10.64.0.0/24''" using b m by (simp add: show_net_def net4_def ones4_def show_ip_def)
  then have "parseIPv4Network (\<lambda>_. None) ''10.64.0.0/24'' = Inr (b, net4 b 24, 24)" using parse_show_net [of 24 _ b] m by simp
  moreover have "b \<noteq> ipv4 [169, 254, 169, 254]" by (simp add: b_def ipv4_def)
  ultimately show ?thesis using b m
    by (simp add: ParsePool_def maxPoolBits_def maxNodeSubnetBits_def maxNodeSubnets_def sample_pool_def Let_def b_def [symmetric]
        net_base_def net4_def IsDangerousAddress_def octet_def)
qed

section \<open>Allocation\<close>

text \<open>The host addresses a peer may get: all of the block but its first two, the network's and the node's, and its last, the broadcast address.\<close>

definition peer_host :: "ipnet \<Rightarrow> uint32 \<Rightarrow> bool" where
  "peer_host n a \<longleftrightarrow> Contains4 n a \<and> a \<noteq> net_base n \<and> a \<noteq> addIPv4 (net_base n) 1 \<and> a \<noteq> addIPv4 (net_base n) (2 ^ (32 - n_ones n) - 1)"

lemma block_addresses:
  assumes "masked k b = b" "k \<le> 32"
  shows "Contains4 (net4 b k) a \<longleftrightarrow> (\<exists>i<2 ^ (32 - k). a = addIPv4 b i)"
    and "i < 2 ^ (32 - k) \<Longrightarrow> unat (addIPv4 b i) = unat b + i"
proof -
  define M where "M = (2::nat) ^ (32 - k)"
  define q where "q = unat b div M"
  have e: "M dvd unat b" "unat b + M \<le> 2 ^ 32" using block_end [OF assms] by (simp_all add: M_def)
  have q: "unat b = q * M" and M: "0 < M" using e(1) by (simp_all add: q_def M_def)
  have add: "unat (addIPv4 b i) = unat b + i" if "i < M" for i using that e(2) by (intro unat_addIPv4) simp
  then show "i < 2 ^ (32 - k) \<Longrightarrow> unat (addIPv4 b i) = unat b + i" by (simp add: M_def)
  have "Contains4 (net4 b k) a \<longleftrightarrow> unat a div M = q" using Contains4_range [OF assms(2)] by (simp add: q_def M_def)
  also have "\<dots> \<longleftrightarrow> (\<exists>i<M. unat a = q * M + i)"
    using M by (metis add.commute div_less div_mult_mod_eq div_mult_self1 mod_less_divisor add_cancel_right_left gr_implies_not0)
  also have "\<dots> \<longleftrightarrow> (\<exists>i<M. a = addIPv4 b i)" using add q by (metis word_unat_eq_iff)
  finally show "Contains4 (net4 b k) a \<longleftrightarrow> (\<exists>i<2 ^ (32 - k). a = addIPv4 b i)" by (simp add: M_def)
qed

lemma peer_host_offsets:
  assumes "masked k b = b" "k \<le> 30"
  shows "peer_host (net4 b k) a \<longleftrightarrow> (\<exists>i\<in>{2..<2 ^ (32 - k) - 1}. a = addIPv4 b i)"
proof -
  define M where "M = (2::nat) ^ (32 - k)"
  have "(2::nat) ^ 2 \<le> M" unfolding M_def by (rule power_increasing) (use assms(2) in auto)
  then have M: "4 \<le> M" by simp
  have k: "k \<le> 32" using assms(2) by simp
  have inj: "addIPv4 b i = addIPv4 b j \<longleftrightarrow> i = j" if "i < M" "j < M" for i j
    using block_addresses(2) [OF assms(1) k] that unfolding M_def [symmetric] by (metis add_left_cancel)
  have z: "b = addIPv4 b 0" by (simp add: addIPv4_def)
  have "peer_host (net4 b k) a \<longleftrightarrow> (\<exists>i<M. a = addIPv4 b i) \<and> a \<noteq> addIPv4 b 0 \<and> a \<noteq> addIPv4 b 1 \<and> a \<noteq> addIPv4 b (M - 1)"
    using block_addresses(1) [OF assms(1), of a] assms z by (simp add: peer_host_def net_base_def M_def) (simp add: net4_def)
  also have "\<dots> \<longleftrightarrow> (\<exists>i<M. a = addIPv4 b i \<and> i \<noteq> 0 \<and> i \<noteq> 1 \<and> i \<noteq> M - 1)"
    using M by (intro iffI) (auto simp: inj)
  also have "\<dots> \<longleftrightarrow> (\<exists>i\<in>{2..<M - 1}. a = addIPv4 b i)" using M by (intro iffI) force+
  finally show ?thesis by (simp add: M_def)
qed

lemma find_upt_Some: "find P [a..<b] = Some i \<Longrightarrow> i \<in> {a..<b} \<and> P i \<and> (\<forall>j\<in>{a..<i}. \<not> P j)"
proof -
  assume "find P [a..<b] = Some i"
  then obtain k where "k < b - a" "P (a + k)" "i = a + k" "\<forall>j<k. \<not> P (a + j)" by (auto simp: find_Some_iff)
  moreover from this have "\<not> P j" if "j \<in> {a..<i}" for j using that by (auto dest!: spec [of _ "j - a"])
  ultimately show ?thesis by auto
qed

lemma allocate_cases:
  assumes "ParsePool p6 cidr width = Inr p" "n \<in> set (pl_subnets p)"
  shows "case AllocateAddress p6 p (Some n) taken of
      Inr a \<Rightarrow> peer_host n a \<and> \<not> taken a \<and> (\<forall>c. peer_host n c \<and> c < a \<longrightarrow> taken c)
    | Inl e \<Rightarrow> e = ErrIPPoolExhausted \<and> (\<forall>c. peer_host n c \<longrightarrow> taken c)"
proof -
  define k M where "k = pl_size p" and "M = (2::nat) ^ (32 - pl_size p)"
  obtain b where b: "n = net4 b k" "masked k b = b" "k \<le> 30" using pool_facts(1,5) [OF assms(1)] assms(2) by (auto simp: k_def)
  have host: "peer_host n a \<longleftrightarrow> (\<exists>i\<in>{2..<M - 1}. a = addIPv4 b i)" for a
    using peer_host_offsets [OF b(2,3)] by (simp add: b(1) M_def k_def)
  have add: "unat (addIPv4 b i) = unat b + i" if "i \<in> {2..<M - 1}" for i
    using block_addresses(2) [OF b(2), of i] b(3) that by (auto simp: M_def k_def)
  have "net_base n = b" using b by (simp add: net_base_def net4_def)
  then have alloc: "AllocateAddress p6 p (Some n) taken =
      (case find (\<lambda>i. \<not> taken (addIPv4 b i)) [2..<M - 1] of Some i \<Rightarrow> Inr (addIPv4 b i) | None \<Rightarrow> Inl ErrIPPoolExhausted)"
    using pool_node_subnet [OF assms] by (simp add: AllocateAddress_def validatedSubnet_def M_def cong: option.case_cong)
  show ?thesis
  proof (cases "find (\<lambda>i. \<not> taken (addIPv4 b i)) [2..<M - 1]")
    case None
    then have "taken (addIPv4 b i)" if "i \<in> {2..<M - 1}" for i using that by (auto simp: find_None_iff)
    then show ?thesis using host unfolding alloc None by auto
  next
    case (Some i)
    note i = find_upt_Some [OF Some]
    have "taken c" if "peer_host n c" "c < addIPv4 b i" for c
      using that i add host by (auto simp: word_less_nat_alt)
    then show ?thesis using i host unfolding alloc Some by auto
  qed
qed

text \<open>
  C30. In a subnet of the pool, allocation gives the lowest address a peer may have that is not taken, never the network's,
  the node's or the broadcast address, and fails only when every such address is taken; peers of different nodes never get
  the same address.
\<close>

theorem allocation_lowest_free:
  assumes "ParsePool p6 cidr width = Inr p" "n \<in> set (pl_subnets p)"
  shows "case AllocateAddress p6 p (Some n) taken of
      Inr a \<Rightarrow> peer_host n a \<and> \<not> taken a \<and> NodeAddress p6 p (Some n) \<noteq> Inr a \<and> (\<forall>c. peer_host n c \<and> c < a \<longrightarrow> taken c)
        \<and> (\<forall>n'\<in>set (pl_subnets p). \<forall>taken'. n' \<noteq> n \<longrightarrow> AllocateAddress p6 p (Some n') taken' \<noteq> Inr a)
    | Inl e \<Rightarrow> e = ErrIPPoolExhausted \<and> (\<forall>c. peer_host n c \<longrightarrow> taken c)"
proof -
  have node: "NodeAddress p6 p (Some n) = Inr (addIPv4 (net_base n) 1)"
    using pool_node_subnet [OF assms] by (simp add: NodeAddress_def validatedSubnet_def)
  have other: "AllocateAddress p6 p (Some n') taken' \<noteq> Inr a"
    if "peer_host n a" "n' \<in> set (pl_subnets p)" "n' \<noteq> n" for a n' taken'
    using allocate_cases [OF assms(1) that(2), of taken'] pool_facts(4) [OF assms(1) that(2) assms(2)] that(1,3)
    by (auto simp: peer_host_def)
  show ?thesis using allocate_cases [OF assms, of taken] other node by (auto simp: peer_host_def split: sum.splits)
qed

theorem allocation_lowest_free_witness:
  "case AllocateAddress (\<lambda>_. None) sample_pool (Some (hd (pl_subnets sample_pool))) (\<lambda>_. False) of
      Inr a \<Rightarrow> peer_host (hd (pl_subnets sample_pool)) a
    | Inl e \<Rightarrow> \<not> peer_host (hd (pl_subnets sample_pool)) 0"
proof -
  have "hd (pl_subnets sample_pool) \<in> set (pl_subnets sample_pool)" by (rule hd_in_set) (simp add: sample_pool_def Let_def carve_def)
  from allocation_lowest_free [OF sample_pool_parse this, of "\<lambda>_. False"] show ?thesis by (auto split: sum.splits)
qed

end
