(* ===== verification/VPN_Keys.thy ===== *)
theory VPN_Keys
  imports VPN_Pool
begin

text \<open>
  \<^verbatim>\<open>internal/vpn/keys.go\<close> and \<^verbatim>\<open>nodekey.go\<close>: the text forms of WireGuard keys and the gateway's own identity. The standard
  library's base64 and hexadecimal codecs are written out; \<open>pub\<close> stands for X25519 multiplication of the base point, whose
  constructors refuse only a wrong length. The lemmas show that the two codecs round trip.
\<close>

section \<open>Base64 and hexadecimal text\<close>

definition b64_char :: "nat \<Rightarrow> char" where
  "b64_char n =
     (if n < 26 then char_of (65 + n) else if n < 52 then char_of (71 + n) else if n < 62 then char_of (n - 4)
      else if n = 62 then CHR ''+'' else CHR ''/'')"

definition b64_val :: "char \<Rightarrow> nat option" where
  "b64_val c =
     (let n = of_char c in
      if 65 \<le> n \<and> n \<le> 90 then Some (n - 65) else if 97 \<le> n \<and> n \<le> 122 then Some (n - 71)
      else if 48 \<le> n \<and> n \<le> 57 then Some (n + 4) else if c = CHR ''+'' then Some 62 else if c = CHR ''/'' then Some 63 else None)"

fun b64_encode :: "bytes \<Rightarrow> string" where
  "b64_encode [] = []"
| "b64_encode [x] = [b64_char (unat x div 4), b64_char (unat x mod 4 * 16), CHR ''='', CHR ''='']"
| "b64_encode [x, y] =
     [b64_char (unat x div 4), b64_char (unat x mod 4 * 16 + unat y div 16), b64_char (unat y mod 16 * 4), CHR ''='']"
| "b64_encode (x # y # z # r) =
     [b64_char (unat x div 4), b64_char (unat x mod 4 * 16 + unat y div 16), b64_char (unat y mod 16 * 4 + unat z div 64),
      b64_char (unat z mod 64)] @ b64_encode r"

text \<open>Padding ends the text; the bits of the last character that no byte uses are ignored, and so are line ends anywhere.\<close>

fun b64_quads :: "string \<Rightarrow> bytes option" where
  "b64_quads [] = Some []"
| "b64_quads (a # b # c # d # r) =
     (case (b64_val a, b64_val b) of
        (Some u, Some v) \<Rightarrow>
          if c = CHR ''='' then (if d = CHR ''='' \<and> r = [] then Some [of_nat (u * 4 + v div 16)] else None)
          else (case b64_val c of None \<Rightarrow> None
            | Some w \<Rightarrow>
              if d = CHR ''='' then (if r = [] then Some [of_nat (u * 4 + v div 16), of_nat (v mod 16 * 16 + w div 4)] else None)
              else (case (b64_val d, b64_quads r) of
                  (Some x, Some rest) \<Rightarrow>
                    Some (of_nat (u * 4 + v div 16) # of_nat (v mod 16 * 16 + w div 4) # of_nat (w mod 4 * 64 + x) # rest)
                | _ \<Rightarrow> None))
      | _ \<Rightarrow> None)"
| "b64_quads _ = None"

definition b64_decode :: "string \<Rightarrow> bytes option" where
  "b64_decode s = b64_quads (filter (\<lambda>c. c \<noteq> CHR 0x0A \<and> c \<noteq> CHR 0x0D) s)"

definition hex_char :: "nat \<Rightarrow> char" where
  "hex_char n = (if n < 10 then char_of (48 + n) else char_of (87 + n))"

definition hex_val :: "char \<Rightarrow> nat option" where
  "hex_val c =
     (let n = of_char c in
      if 48 \<le> n \<and> n \<le> 57 then Some (n - 48) else if 97 \<le> n \<and> n \<le> 102 then Some (n - 87)
      else if 65 \<le> n \<and> n \<le> 70 then Some (n - 55) else None)"

definition hex_encode :: "bytes \<Rightarrow> string" where
  "hex_encode bs = concat (map (\<lambda>b. [hex_char (unat b div 16), hex_char (unat b mod 16)]) bs)"

fun hex_decode :: "string \<Rightarrow> bytes option" where
  "hex_decode [] = Some []"
| "hex_decode (a # b # r) =
     (case (hex_val a, hex_val b, hex_decode r) of
        (Some u, Some v, Some rest) \<Rightarrow> Some (of_nat (u * 16 + v) # rest)
      | _ \<Rightarrow> None)"
| "hex_decode _ = None"

section \<open>Keys\<close>

definition keySize :: nat where "keySize = 32"

record key_pair =
  kp_PrivateKey :: string
  kp_PublicKey :: string

datatype key_error = KeyNotBase64 | KeySize | KeyImport

definition EncodeKey :: "bytes \<Rightarrow> string" where
  "EncodeKey raw = b64_encode raw"

definition decodeKey :: "string \<Rightarrow> key_error + bytes" where
  "decodeKey encoded =
     (case b64_decode encoded of None \<Rightarrow> Inl KeyNotBase64
      | Some raw \<Rightarrow> if length raw \<noteq> keySize then Inl KeySize else Inr raw)"

text \<open>The constructors of \<^verbatim>\<open>crypto/ecdh\<close>.\<close>

definition x25519_import :: "bytes \<Rightarrow> key_error + bytes" where
  "x25519_import raw = (if length raw = 32 then Inr raw else Inl KeyImport)"

definition GenerateKeyPair :: "(bytes \<Rightarrow> bytes) \<Rightarrow> bytes \<Rightarrow> key_pair" where
  "GenerateKeyPair pub scalar = \<lparr>kp_PrivateKey = EncodeKey scalar, kp_PublicKey = EncodeKey (pub scalar)\<rparr>"

definition DerivePublicKey :: "(bytes \<Rightarrow> bytes) \<Rightarrow> string \<Rightarrow> key_error + string" where
  "DerivePublicKey pub privateKey =
     bindR (decodeKey privateKey) (\<lambda>raw. bindR (x25519_import raw) (\<lambda>private. Inr (EncodeKey (pub private))))"

definition isAllZero :: "bytes \<Rightarrow> bool" where
  "isAllZero raw \<longleftrightarrow> list_all (\<lambda>b. b = 0) raw"

definition ValidatePublicKey :: "string \<Rightarrow> vpn_error option" where
  "ValidatePublicKey encoded =
     (case decodeKey encoded of Inl _ \<Rightarrow> Some ErrPeerInvalid
      | Inr raw \<Rightarrow>
        if isAllZero raw then Some ErrPeerInvalid
        else (case x25519_import raw of Inl _ \<Rightarrow> Some ErrPeerInvalid | Inr _ \<Rightarrow> None))"

definition ValidatePrivateKey :: "string \<Rightarrow> vpn_error option" where
  "ValidatePrivateKey encoded =
     (case decodeKey encoded of Inl _ \<Rightarrow> Some ErrPeerInvalid
      | Inr raw \<Rightarrow>
        if isAllZero raw then Some ErrPeerInvalid
        else (case x25519_import raw of Inl _ \<Rightarrow> Some ErrPeerInvalid | Inr _ \<Rightarrow> None))"

section \<open>The gateway's identity\<close>

datatype node_key_error = ErrNodeKeyMissing | ErrNodeKeyInvalid

record node_identity =
  ni_PrivateKey :: string
  ni_PublicKey :: string

definition NodeIdentity_String :: "node_identity \<Rightarrow> string" where
  "NodeIdentity_String n = (if ni_PublicKey n = [] then ''vpn node identity (unset)'' else ''vpn node identity '' @ ni_PublicKey n)"

definition normalizeNodePrivateKey :: "string \<Rightarrow> string option" where
  "normalizeNodePrivateKey v =
     (case (if length v = 2 * keySize then hex_decode v else None) of
        Some raw \<Rightarrow> Some (EncodeKey raw)
      | None \<Rightarrow> (case decodeKey v of Inl _ \<Rightarrow> None | Inr raw \<Rightarrow> Some (EncodeKey raw)))"

definition ParseNodeIdentity :: "(bytes \<Rightarrow> bytes) \<Rightarrow> string \<Rightarrow> node_key_error + node_identity" where
  "ParseNodeIdentity pub raw =
     (let v = TrimSpace raw in
      if v = [] then Inl ErrNodeKeyMissing
      else (case normalizeNodePrivateKey v of None \<Rightarrow> Inl ErrNodeKeyInvalid
        | Some canonical \<Rightarrow>
          (case ValidatePrivateKey canonical of Some _ \<Rightarrow> Inl ErrNodeKeyInvalid
           | None \<Rightarrow>
             (case DerivePublicKey pub canonical of Inl _ \<Rightarrow> Inl ErrNodeKeyInvalid
              | Inr publicKey \<Rightarrow> Inr \<lparr>ni_PrivateKey = canonical, ni_PublicKey = publicKey\<rparr>))))"

section \<open>Round trips\<close>

lemma b64_val_char [simp]: "n < 64 \<Longrightarrow> b64_val (b64_char n) = Some n"
  by (auto simp: b64_val_def b64_char_def Let_def split: if_splits)

lemma b64_char_plain [simp]:
  "n < 64 \<Longrightarrow> b64_char n \<noteq> CHR ''='' \<and> b64_char n \<noteq> CHR 0x0A \<and> b64_char n \<noteq> CHR 0x0D"
  using b64_val_char [of n] by (auto simp: b64_val_def)

lemma sextets:
  fixes x y z :: nat
  assumes "x < 256" "y < 256" "z < 256"
  shows "x div 4 < 64" "x mod 4 * 16 + y div 16 < 64" "y mod 16 * 4 + z div 64 < 64" "z mod 64 < 64"
    "x div 4 * 4 + (x mod 4 * 16 + y div 16) div 16 = x"
    "(x mod 4 * 16 + y div 16) mod 16 * 16 + (y mod 16 * 4 + z div 64) div 4 = y"
    "(y mod 16 * 4 + z div 64) mod 4 * 64 + z mod 64 = z"
proof -
  have y: "y div 16 < 16" and z: "z div 64 < 4" using assms by (simp_all add: div_less_iff_less_mult)
  have "(x mod 4 * 16 + y div 16) div 16 = x mod 4" "(x mod 4 * 16 + y div 16) mod 16 = y div 16" using y by simp_all
  moreover have "(y mod 16 * 4 + z div 64) div 4 = y mod 16" "(y mod 16 * 4 + z div 64) mod 4 = z div 64" using z by simp_all
  ultimately show "x div 4 * 4 + (x mod 4 * 16 + y div 16) div 16 = x"
    "(x mod 4 * 16 + y div 16) mod 16 * 16 + (y mod 16 * 4 + z div 64) div 4 = y"
    "(y mod 16 * 4 + z div 64) mod 4 * 64 + z mod 64 = z" by simp_all
  have "x mod 4 \<le> 3" "y mod 16 \<le> 15" by simp_all
  then show "x mod 4 * 16 + y div 16 < 64" "y mod 16 * 4 + z div 64 < 64" using y z by linarith+
qed (use assms in \<open>simp_all add: div_less_iff_less_mult\<close>)

lemma byte_less: "unat (b :: byte) < 256"
  using unsigned_less [of b] by simp

lemmas byte_sextets = sextets [OF byte_less byte_less byte_less] sextets [OF byte_less byte_less, of 0] sextets [OF byte_less, of 0 0]

lemma b64_encode_quads: "b64_quads (b64_encode bs) = Some bs"
  by (induction bs rule: b64_encode.induct) (simp_all add: byte_sextets byte_sextets [simplified])

lemma b64_encode_plain: "filter (\<lambda>c. c \<noteq> CHR 0x0A \<and> c \<noteq> CHR 0x0D) (b64_encode bs) = b64_encode bs"
  by (induction bs rule: b64_encode.induct) (simp_all add: byte_sextets byte_sextets [simplified])

lemma decode_EncodeKey [simp]: "length raw = 32 \<Longrightarrow> decodeKey (EncodeKey raw) = Inr raw"
  by (simp add: decodeKey_def EncodeKey_def b64_decode_def b64_encode_plain b64_encode_quads keySize_def)

lemma hex_val_char [simp]: "n < 16 \<Longrightarrow> hex_val (hex_char n) = Some n"
  by (auto simp: hex_val_def hex_char_def Let_def)

lemma hex_decode_encode [simp]: "hex_decode (hex_encode bs) = Some bs"
  using byte_less by (induction bs) (simp_all add: hex_encode_def div_less_iff_less_mult)

end
