(* ===== verification/VPN_Peer.thy ===== *)
theory VPN_Peer
  imports VPN_Keys
begin

text \<open>
  The rest of \<^verbatim>\<open>internal/vpn\<close>: a peer and the text its policy is stored as (\<^verbatim>\<open>peerspec.go\<close>), the decision on each of its packets
  (\<^verbatim>\<open>policy.go\<close>), the client's configuration file (\<^verbatim>\<open>config.go\<close>) and the blocks sent to the WireGuard device (\<^verbatim>\<open>uapi.go\<close>). A nil
  network is \<open>None\<close>; masks are canonical, as \<^verbatim>\<open>net.ParseCIDR\<close> and \<^verbatim>\<open>net.CIDRMask\<close> make them; messages of errors are left out.

  The lemmas show that a stored policy decides every packet as the original does and that no field of a rendered
  configuration can add a line to it.
\<close>

section \<open>Runes\<close>

text \<open>UTF-8 decoding as the language does it: a byte that begins no valid sequence is the replacement rune, of width one.\<close>

definition cont :: "nat \<Rightarrow> bool" where
  "cont b \<longleftrightarrow> 0x80 \<le> b \<and> b \<le> 0xBF"

definition second_byte :: "nat \<Rightarrow> nat \<Rightarrow> bool" where
  "second_byte a b \<longleftrightarrow> cont b \<and> (a = 0xE0 \<longrightarrow> 0xA0 \<le> b) \<and> (a = 0xED \<longrightarrow> b \<le> 0x9F) \<and> (a = 0xF0 \<longrightarrow> 0x90 \<le> b) \<and> (a = 0xF4 \<longrightarrow> b \<le> 0x8F)"

definition decode_rune :: "nat \<Rightarrow> nat list \<Rightarrow> nat \<times> nat" where
  "decode_rune a r =
     (case r of
        b # c # d # _ \<Rightarrow>
          if 0xF0 \<le> a \<and> a \<le> 0xF4 \<and> second_byte a b \<and> cont c \<and> cont d
          then (((a mod 8 * 64 + b mod 64) * 64 + c mod 64) * 64 + d mod 64, 4)
          else if 0xE0 \<le> a \<and> a \<le> 0xEF \<and> second_byte a b \<and> cont c then ((a mod 16 * 64 + b mod 64) * 64 + c mod 64, 3)
          else if 0xC2 \<le> a \<and> a \<le> 0xDF \<and> cont b then (a mod 32 * 64 + b mod 64, 2)
          else (if a < 0x80 then a else 0xFFFD, 1)
      | [b, c] \<Rightarrow>
          if 0xE0 \<le> a \<and> a \<le> 0xEF \<and> second_byte a b \<and> cont c then ((a mod 16 * 64 + b mod 64) * 64 + c mod 64, 3)
          else if 0xC2 \<le> a \<and> a \<le> 0xDF \<and> cont b then (a mod 32 * 64 + b mod 64, 2)
          else (if a < 0x80 then a else 0xFFFD, 1)
      | [b] \<Rightarrow>
          if 0xC2 \<le> a \<and> a \<le> 0xDF \<and> cont b then (a mod 32 * 64 + b mod 64, 2)
          else (if a < 0x80 then a else 0xFFFD, 1)
      | [] \<Rightarrow> (if a < 0x80 then a else 0xFFFD, 1))"

fun rune_list :: "nat list \<Rightarrow> nat list" where
  "rune_list [] = []"
| "rune_list (a # r) = fst (decode_rune a r) # rune_list (drop (snd (decode_rune a r) - 1) r)"

definition runes :: "string \<Rightarrow> nat list" where
  "runes s = rune_list (map of_char s)"

definition IsControl :: "nat \<Rightarrow> bool" where
  "IsControl r \<longleftrightarrow> r < 0x20 \<or> (0x7F \<le> r \<and> r < 0xA0)"

section \<open>Peers\<close>

definition MaxPeerNameLength :: nat where "MaxPeerNameLength = 255"
definition MaxPeerDescriptionLength :: nat where "MaxPeerDescriptionLength = 255"
definition policySeparator :: char where "policySeparator = CHR '',''"
definition minPort :: int where "minPort = 1"
definition maxPort :: int where "maxPort = 65535"

record peer_spec =
  ps_Name :: string
  ps_Description :: string
  ps_PublicKey :: string
  ps_VPNIP :: "ip option"
  ps_NodeID :: string
  ps_AgentID :: string
  ps_AllowedIPs :: "ipnet option list"
  ps_AllowedPorts :: "int list"
  ps_AllowPrivateTargets :: bool
  ps_ICMPEnabled :: bool
  ps_MaxConcurrentFlows :: int
  ps_PacketRateLimit :: int
  ps_ExpiresAt :: "int option"

definition validateLabel :: "string \<Rightarrow> nat \<Rightarrow> vpn_error option" where
  "validateLabel v max_runes =
     (if length (runes v) > max_runes then Some ErrPeerInvalid
      else if list_ex IsControl (runes v) then Some ErrPeerInvalid else None)"

definition ipv4_network :: "ipnet \<Rightarrow> bool" where
  "ipv4_network n \<longleftrightarrow> n_bits n = 32 \<and> To4 (n_ip n) \<noteq> None"

definition ValidateFields :: "peer_spec \<Rightarrow> vpn_error option" where
  "ValidateFields s =
     (if TrimSpace (ps_Name s) = [] then Some ErrPeerInvalid
      else if validateLabel (ps_Name s) MaxPeerNameLength \<noteq> None then validateLabel (ps_Name s) MaxPeerNameLength
      else if validateLabel (ps_Description s) MaxPeerDescriptionLength \<noteq> None
        then validateLabel (ps_Description s) MaxPeerDescriptionLength
      else if TrimSpace (ps_AgentID s) = [] then Some ErrPeerInvalid
      else if list_ex (\<lambda>x. case x of None \<Rightarrow> True | Some n \<Rightarrow> \<not> ipv4_network n \<or> n_ones n > 32) (ps_AllowedIPs s) then Some ErrPeerInvalid
      else if list_ex (\<lambda>port. port < minPort \<or> port > maxPort) (ps_AllowedPorts s) then Some ErrPeerInvalid
      else if ps_MaxConcurrentFlows s < 0 then Some ErrPeerInvalid
      else if ps_PacketRateLimit s < 0 then Some ErrPeerInvalid
      else None)"

definition ValidateRequest :: "int \<Rightarrow> peer_spec \<Rightarrow> vpn_error option" where
  "ValidateRequest now s =
     (case ValidateFields s of Some e \<Rightarrow> Some e
      | None \<Rightarrow> (case ps_ExpiresAt s of Some t \<Rightarrow> if \<not> t > now then Some ErrPeerInvalid else None | None \<Rightarrow> None))"

definition PeerSpec_Validate :: "int \<Rightarrow> peer_spec \<Rightarrow> vpn_error option" where
  "PeerSpec_Validate now s =
     (case ValidateRequest now s of Some e \<Rightarrow> Some e
      | None \<Rightarrow>
        (case ValidatePublicKey (ps_PublicKey s) of Some e \<Rightarrow> Some e
         | None \<Rightarrow>
           if Option.bind (ps_VPNIP s) To4 = None then Some ErrPeerInvalid
           else if TrimSpace (ps_NodeID s) = [] then Some ErrPeerInvalid
           else None))"

section \<open>The stored text of a policy\<close>

text \<open>The first occurrences of a list, in order.\<close>

fun fresh :: "'a list \<Rightarrow> 'a list \<Rightarrow> 'a list" where
  "fresh seen [] = []"
| "fresh seen (x # xs) = (if x \<in> set seen then fresh seen xs else x # fresh (x # seen) xs)"

definition canonical_text :: "ipnet option \<Rightarrow> string option" where
  "canonical_text x =
     (case x of None \<Rightarrow> None
      | Some n \<Rightarrow>
        (case To4 (n_ip n) of None \<Rightarrow> None
         | Some four \<Rightarrow> if n_bits n \<noteq> 32 then None else Some (show_net (net4 four (n_ones n)))))"

definition EncodeAllowedIPs :: "ipnet option list \<Rightarrow> string" where
  "EncodeAllowedIPs networks = Join policySeparator (sort (fresh [] (List.map_filter canonical_text networks)))"

definition EncodeAllowedPorts :: "int list \<Rightarrow> string" where
  "EncodeAllowedPorts ports =
     Join policySeparator (map Itoa (sort (fresh [] (filter (\<lambda>port. \<not> (port < minPort \<or> port > maxPort)) ports))))"

definition parse_network :: "(string \<Rightarrow> 128 word option) \<Rightarrow> string \<Rightarrow> vpn_error + ipnet list" where
  "parse_network p6 raw =
     (let token = TrimSpace raw in
      if token = [] then Inl ErrPeerInvalid
      else (case ParseCIDR p6 token of None \<Rightarrow> Inl ErrPeerInvalid
        | Some (_, n) \<Rightarrow>
          (case To4 (n_ip n) of None \<Rightarrow> Inl ErrPeerInvalid
           | Some four \<Rightarrow>
             if n_bits n \<noteq> 32 then Inl ErrPeerInvalid else Inr [\<lparr>n_ip = IP4 four, n_ones = n_ones n, n_bits = 32\<rparr>])))"

definition ParseAllowedIPs :: "(string \<Rightarrow> 128 word option) \<Rightarrow> string \<Rightarrow> vpn_error + ipnet list" where
  "ParseAllowedIPs p6 encoded =
     (let trimmed = TrimSpace encoded in
      if trimmed = [] then Inr [] else collect (parse_network p6) (Split policySeparator trimmed))"

definition ParseAllowedIPList :: "(string \<Rightarrow> 128 word option) \<Rightarrow> string list \<Rightarrow> vpn_error + ipnet list" where
  "ParseAllowedIPList p6 vs =
     collect (\<lambda>v. let trimmed = TrimSpace v in
                  if trimmed = [] then Inl ErrPeerInvalid
                  else if policySeparator \<in> set trimmed then Inl ErrPeerInvalid
                  else ParseAllowedIPs p6 trimmed) vs"

definition parse_port :: "string \<Rightarrow> vpn_error + int list" where
  "parse_port raw =
     (let token = TrimSpace raw in
      if token = [] then Inl ErrPeerInvalid
      else (case Atoi token of None \<Rightarrow> Inl ErrPeerInvalid
        | Some port \<Rightarrow> if port < minPort \<or> port > maxPort then Inl ErrPeerInvalid else Inr [port]))"

definition ParseAllowedPorts :: "string \<Rightarrow> vpn_error + int list" where
  "ParseAllowedPorts encoded =
     (let trimmed = TrimSpace encoded in
      if trimmed = [] then Inr [] else collect parse_port (Split policySeparator trimmed))"

section \<open>The packet policy\<close>

definition ProtocolICMP :: byte where "ProtocolICMP = 1"
definition ProtocolTCP :: byte where "ProtocolTCP = 6"
definition ProtocolUDP :: byte where "ProtocolUDP = 17"

datatype error_class =
    ClassPeerUnknown | ClassPeerRevoked | ClassPeerExpired | ClassTargetDenied | ClassMetadataDenied | ClassPortDenied
  | ClassProtocolUnsupported | ClassFragmentDropped | ClassOversizeDropped | ClassCapacityExhausted | ClassRateLimited
  | ClassEgressUnavailable | ClassEgressTimeout | ClassICMPUnsupported | ClassICMPTimeout | ClassStackError

definition AllErrorClasses :: "error_class list" where
  "AllErrorClasses =
     [ClassPeerUnknown, ClassPeerRevoked, ClassPeerExpired, ClassTargetDenied, ClassMetadataDenied, ClassPortDenied,
      ClassProtocolUnsupported, ClassFragmentDropped, ClassOversizeDropped, ClassCapacityExhausted, ClassRateLimited,
      ClassEgressUnavailable, ClassEgressTimeout, ClassICMPUnsupported, ClassICMPTimeout, ClassStackError]"

record packet =
  pk_Protocol :: byte
  pk_Source :: "ip option"
  pk_Dest :: "ip option"
  pk_Port :: int
  pk_Size :: int
  pk_Fragment :: bool

text \<open>The port map is used as a set; a list stands for it.\<close>

record packet_policy =
  pp_allowedIPs :: "ipnet option list"
  pp_ports :: "int list"
  pp_allowPrivateTargets :: bool
  pp_icmpEnabled :: bool
  pp_mtu :: int

datatype policy_error = SpecInvalid vpn_error | MTUInvalid

definition NewPacketPolicy :: "int \<Rightarrow> peer_spec \<Rightarrow> int \<Rightarrow> policy_error + packet_policy" where
  "NewPacketPolicy now spec mtu =
     (case PeerSpec_Validate now spec of Some e \<Rightarrow> Inl (SpecInvalid e)
      | None \<Rightarrow>
        if mtu < 1 then Inl MTUInvalid
        else Inr \<lparr>pp_allowedIPs = ps_AllowedIPs spec, pp_ports = ps_AllowedPorts spec,
                  pp_allowPrivateTargets = ps_AllowPrivateTargets spec, pp_icmpEnabled = ps_ICMPEnabled spec, pp_mtu = mtu\<rparr>)"

definition containsDest :: "packet_policy \<Rightarrow> ip \<Rightarrow> bool" where
  "containsDest p dest =
     (case To4 dest of None \<Rightarrow> False
      | Some four \<Rightarrow> list_ex (\<lambda>x. case x of None \<Rightarrow> False | Some n \<Rightarrow> Contains4 n four) (pp_allowedIPs p))"

text \<open>The checks on the destination, and the whole decision.\<close>

definition allow_target :: "packet_policy \<Rightarrow> packet \<Rightarrow> ip \<Rightarrow> error_class option" where
  "allow_target p pkt dest =
     (if To4 dest = None then Some ClassTargetDenied
      else if IsDangerousAddress dest then Some ClassMetadataDenied
      else if \<not> pp_allowPrivateTargets p \<and> IsPrivateTarget (Some dest) then Some ClassTargetDenied
      else if \<not> containsDest p dest then Some ClassTargetDenied
      else if pk_Protocol pkt = ProtocolICMP then None
      else if pk_Port pkt < minPort \<or> pk_Port pkt > maxPort then Some ClassPortDenied
      else if pp_ports p \<noteq> [] \<and> pk_Port pkt \<notin> set (pp_ports p) then Some ClassPortDenied
      else None)"

definition Allow :: "packet_policy \<Rightarrow> packet \<Rightarrow> error_class option" where
  "Allow p pkt =
     (if pk_Fragment pkt then Some ClassFragmentDropped
      else if pk_Size pkt > pp_mtu p then Some ClassOversizeDropped
      else if pk_Protocol pkt = ProtocolICMP \<and> \<not> pp_icmpEnabled p then Some ClassICMPUnsupported
      else if pk_Protocol pkt \<notin> {ProtocolTCP, ProtocolUDP, ProtocolICMP} then Some ClassProtocolUnsupported
      else (case pk_Dest pkt of None \<Rightarrow> Some ClassTargetDenied | Some dest \<Rightarrow> allow_target p pkt dest))"

section \<open>The client's configuration\<close>

definition MinTunnelMTU :: int where "MinTunnelMTU = 576"
definition MaxTunnelMTU :: int where "MaxTunnelMTU = 1500"
definition peerAddressBits :: nat where "peerAddressBits = 32"

record peer_config =
  pc_PrivateKey :: string
  pc_Address :: "ip option"
  pc_MTU :: int
  pc_NodePublicKey :: string
  pc_AllowedIPs :: "ipnet option list"
  pc_Endpoint :: string
  pc_PersistentKeepalive :: int

definition valid_endpoint :: "string \<Rightarrow> bool" where
  "valid_endpoint endpoint =
     (let trimmed = TrimSpace endpoint in
      trimmed \<noteq> [] \<and>
      (case SplitHostPort trimmed of None \<Rightarrow> False
       | Some (host, port) \<Rightarrow>
         TrimSpace host \<noteq> [] \<and> (case Atoi port of None \<Rightarrow> False | Some v \<Rightarrow> \<not> (v < minPort \<or> v > maxPort))))"

definition PeerConfig_validate :: "peer_config \<Rightarrow> vpn_error option" where
  "PeerConfig_validate c =
     (case ValidatePrivateKey (pc_PrivateKey c) of Some e \<Rightarrow> Some e
      | None \<Rightarrow>
        (case ValidatePublicKey (pc_NodePublicKey c) of Some e \<Rightarrow> Some e
         | None \<Rightarrow>
           if Option.bind (pc_Address c) To4 = None then Some ErrPeerInvalid
           else if pc_MTU c < MinTunnelMTU \<or> pc_MTU c > MaxTunnelMTU then Some ErrPeerInvalid
           else if pc_PersistentKeepalive c < 0 \<or> pc_PersistentKeepalive c > maxPort then Some ErrPeerInvalid
           else if \<not> valid_endpoint (pc_Endpoint c) then Some ErrPeerInvalid
           else if list_ex (\<lambda>x. case x of None \<Rightarrow> True | Some n \<Rightarrow> \<not> ipv4_network n) (pc_AllowedIPs c) then Some ErrPeerInvalid
           else None))"

definition iniLine :: "string \<times> string \<Rightarrow> vpn_error + string list" where
  "iniLine field =
     (let (key, v) = field in
      if v = [] then Inl ErrPeerInvalid
      else if list_ex (\<lambda>r. IsControl r \<or> r = 0x3B \<or> r = 0x23 \<or> r = 0x20) (runes v) then Inl ErrPeerInvalid
      else Inr [key @ '' = '' @ v])"

definition newline :: char where "newline = CHR 0x0A"

text \<open>A section: its name and the lines of its fields, unless a field cannot be written.\<close>

definition render_section :: "string \<Rightarrow> (string \<times> string) list \<Rightarrow> vpn_error + string" where
  "render_section name kvs = bindR (collect iniLine kvs) (\<lambda>lines. Inr (Join newline (name # lines) @ [newline]))"

definition host_net :: "ip option \<Rightarrow> string" where
  "host_net x = (case Option.bind x To4 of None \<Rightarrow> [] | Some four \<Rightarrow> show_net (net4 four peerAddressBits))"

definition RenderInterface :: "peer_config \<Rightarrow> vpn_error + string" where
  "RenderInterface cfg =
     (case PeerConfig_validate cfg of Some e \<Rightarrow> Inl e
      | None \<Rightarrow>
        render_section ''[Interface]''
          [(''PrivateKey'', pc_PrivateKey cfg), (''Address'', host_net (pc_Address cfg)), (''MTU'', Itoa (pc_MTU cfg))])"

definition RenderPeerSection :: "peer_config \<Rightarrow> vpn_error + string" where
  "RenderPeerSection cfg =
     (case PeerConfig_validate cfg of Some e \<Rightarrow> Inl e
      | None \<Rightarrow>
        (let allowedIPs = EncodeAllowedIPs (pc_AllowedIPs cfg) in
         if allowedIPs = [] then Inl ErrPeerInvalid
         else render_section ''[Peer]''
           [(''PublicKey'', pc_NodePublicKey cfg), (''AllowedIPs'', allowedIPs), (''Endpoint'', pc_Endpoint cfg),
            (''PersistentKeepalive'', Itoa (pc_PersistentKeepalive cfg))]))"

definition RenderPeerConfig :: "peer_config \<Rightarrow> vpn_error + string" where
  "RenderPeerConfig cfg =
     bindR (RenderInterface cfg) (\<lambda>iface. bindR (RenderPeerSection cfg) (\<lambda>peer. Inr (iface @ newline # peer)))"

section \<open>Blocks for the WireGuard device\<close>

definition uapiLine :: "string \<Rightarrow> string \<Rightarrow> string" where
  "uapiLine key v = key @ ''='' @ v"

definition uapiBlock :: "string list \<Rightarrow> string" where
  "uapiBlock lines = Join newline (lines @ [[]]) @ [newline]"

definition EncodeKeyHex :: "string \<Rightarrow> key_error + string" where
  "EncodeKeyHex encoded = bindR (decodeKey encoded) (\<lambda>raw. Inr (hex_encode raw))"

datatype uapi_error = NodeKeyInvalid | ListenPortInvalid

definition RenderNodeUAPI :: "node_identity \<Rightarrow> int \<Rightarrow> uapi_error + string" where
  "RenderNodeUAPI identity listenPort =
     (if ValidatePrivateKey (ni_PrivateKey identity) \<noteq> None then Inl NodeKeyInvalid
      else if listenPort < minPort \<or> listenPort > maxPort then Inl ListenPortInvalid
      else (case EncodeKeyHex (ni_PrivateKey identity) of Inl _ \<Rightarrow> Inl NodeKeyInvalid
        | Inr privateKey \<Rightarrow> Inr (uapiBlock [uapiLine ''private_key'' privateKey, uapiLine ''listen_port'' (Itoa listenPort)])))"

definition RenderNodeIdentityUAPI :: "node_identity \<Rightarrow> uapi_error + string" where
  "RenderNodeIdentityUAPI identity =
     (if ValidatePrivateKey (ni_PrivateKey identity) \<noteq> None then Inl NodeKeyInvalid
      else (case EncodeKeyHex (ni_PrivateKey identity) of Inl _ \<Rightarrow> Inl NodeKeyInvalid
        | Inr privateKey \<Rightarrow> Inr (uapiBlock [uapiLine ''private_key'' privateKey])))"

definition peerKeyHex :: "string \<Rightarrow> vpn_error + string" where
  "peerKeyHex publicKey =
     (case ValidatePublicKey publicKey of Some e \<Rightarrow> Inl e
      | None \<Rightarrow> (case EncodeKeyHex publicKey of Inl _ \<Rightarrow> Inl ErrPeerInvalid | Inr encoded \<Rightarrow> Inr encoded))"

definition peerAddress :: "ip option \<Rightarrow> vpn_error + string" where
  "peerAddress vpnIP =
     (case Option.bind vpnIP To4 of None \<Rightarrow> Inl ErrPeerInvalid | Some four \<Rightarrow> Inr (show_net (net4 four peerAddressBits)))"

definition RenderPeerUAPI :: "string \<Rightarrow> ip option \<Rightarrow> vpn_error + string" where
  "RenderPeerUAPI publicKey vpnIP =
     bindR (peerKeyHex publicKey) (\<lambda>peerKey. bindR (peerAddress vpnIP) (\<lambda>address.
       Inr (uapiBlock [uapiLine ''public_key'' peerKey, uapiLine ''replace_allowed_ips'' ''true'', uapiLine ''allowed_ip'' address])))"

definition RenderPeerRemoveUAPI :: "string \<Rightarrow> vpn_error + string" where
  "RenderPeerRemoveUAPI publicKey =
     bindR (peerKeyHex publicKey) (\<lambda>peerKey. Inr (uapiBlock [uapiLine ''public_key'' peerKey, uapiLine ''remove'' ''true'']))"

section \<open>A stored policy decides as the original\<close>

lemma set_fresh: "set (fresh seen xs) = set xs - set seen"
  by (induction xs arbitrary: seen) auto

lemma distinct_fresh: "distinct (fresh seen xs)"
  by (induction xs arbitrary: seen) (auto simp: set_fresh)

lemma sort_fresh: "sort (fresh [] (xs :: 'a::linorder list)) = sorted_list_of_set (set xs)"
  using sorted_list_of_set_sort_remdups [of "fresh [] xs"] by (simp add: set_fresh distinct_fresh distinct_remdups_id)

lemma collect_ok: "(\<And>x. x \<in> set xs \<Longrightarrow> f (g x) = Inr [x]) \<Longrightarrow> collect f (map g xs) = Inr xs"
  by (induction xs) auto

lemma Join_edges: "xs \<noteq> [] \<Longrightarrow> (\<And>x. x \<in> set xs \<Longrightarrow> x \<noteq> []) \<Longrightarrow>
  Join c xs \<noteq> [] \<and> hd (Join c xs) = hd (hd xs) \<and> last (Join c xs) = last (last xs)"
  by (induction c xs rule: Join.induct) auto

text \<open>A list written entry by entry is read back entry by entry.\<close>

lemma read_joined:
  assumes "xs \<noteq> []" and "\<And>x. x \<in> set xs \<Longrightarrow> g x \<noteq> [] \<and> graphic (hd (g x)) \<and> graphic (last (g x)) \<and> sep \<notin> set (g x) \<and> f (g x) = Inr [x]"
  shows "let s = Join sep (map g xs) in s \<noteq> [] \<and> TrimSpace s = s \<and> collect f (Split sep s) = Inr xs"
proof -
  let ?s = "Join sep (map g xs)"
  have "?s \<noteq> [] \<and> hd ?s = hd (hd (map g xs)) \<and> last ?s = last (last (map g xs))" by (rule Join_edges) (use assms in auto)
  then have s: "?s \<noteq> []" "hd ?s = hd (g (hd xs))" "last ?s = last (g (last xs))" using assms(1) by (simp_all add: hd_map last_map)
  moreover have "TrimSpace ?s = ?s" using s assms by (intro TrimSpace_graphic) simp_all
  moreover have "Split sep ?s = map g xs" using assms by (intro Split_Join) auto
  ultimately show ?thesis using collect_ok [of xs f g] assms(2) by (simp add: Let_def)
qed

text \<open>Networks in the form they are stored in, and the text of a list of them.\<close>

definition stored_net :: "ipnet \<Rightarrow> bool" where
  "stored_net n \<longleftrightarrow> (\<exists>a k. n = net4 a k \<and> k \<le> 32)"

lemma show_net_chars: "c \<in> set (show_net (net4 a k)) \<Longrightarrow> is_digit c \<or> c = CHR ''.'' \<or> c = CHR ''/''"
  using show_ip_chars show_nat_chars by (auto simp: show_net_def net4_def)

lemma show_net_edges: "graphic (hd (show_net (net4 a k)))" "graphic (last (show_net (net4 a k)))"
proof -
  have "graphic c" if "c \<in> set (show_net (net4 a k))" for c
    using show_net_chars [OF that] digit_graphic [of c] by (auto simp: graphic_def)
  then show "graphic (hd (show_net (net4 a k)))" "graphic (last (show_net (net4 a k)))"
    using show_net_nonempty by (auto intro: hd_in_set last_in_set)
qed

lemma ParseAllowedIPs_stored:
  assumes "\<And>n. n \<in> set ns \<Longrightarrow> stored_net n"
  shows "ParseAllowedIPs p6 (Join policySeparator (map show_net ns)) = Inr ns"
proof (cases "ns = []")
  case False
  have "let s = Join policySeparator (map show_net ns) in
      s \<noteq> [] \<and> TrimSpace s = s \<and> collect (parse_network p6) (Split policySeparator s) = Inr ns"
  proof (rule read_joined [OF False])
    fix n assume "n \<in> set ns"
    then obtain a k where n: "n = net4 a k" "k \<le> 32" using assms unfolding stored_net_def by blast
    then have "parse_network p6 (show_net n) = Inr [n]"
      using show_net_nonempty [of a k] by (simp add: parse_network_def show_net_trim ParseCIDR_show_net) (simp add: net4_def)
    moreover have "policySeparator \<notin> set (show_net n)" using n show_net_chars [of _ a k] by (force simp: policySeparator_def)
    ultimately show "show_net n \<noteq> [] \<and> graphic (hd (show_net n)) \<and> graphic (last (show_net n)) \<and> policySeparator \<notin> set (show_net n)
      \<and> parse_network p6 (show_net n) = Inr [n]" using n show_net_edges show_net_nonempty by simp
  qed
  then show ?thesis by (simp add: ParseAllowedIPs_def Let_def)
qed (simp add: ParseAllowedIPs_def)

lemma ParseAllowedPorts_stored:
  assumes "\<And>p. p \<in> set ps \<Longrightarrow> minPort \<le> p \<and> p \<le> maxPort"
  shows "ParseAllowedPorts (Join policySeparator (map Itoa ps)) = Inr ps"
proof (cases "ps = []")
  case False
  have "let s = Join policySeparator (map Itoa ps) in
      s \<noteq> [] \<and> TrimSpace s = s \<and> collect parse_port (Split policySeparator s) = Inr ps"
  proof (rule read_joined [OF False])
    fix p assume "p \<in> set ps"
    then have p: "minPort \<le> p" "p \<le> maxPort" using assms by auto
    then have i: "Itoa p = show_nat (nat p)" by (simp add: Itoa_def minPort_def)
    have e: "graphic (hd (Itoa p))" "graphic (last (Itoa p))" using show_nat_chars [of _ "nat p"] by (simp_all add: i digit_graphic)
    have "Atoi (Itoa p) = Some p" using p by (intro Atoi_Itoa) (simp_all add: minPort_def maxPort_def)
    then have "parse_port (Itoa p) = Inr [p]" using p e i by (simp add: parse_port_def TrimSpace_graphic)
    moreover have "policySeparator \<notin> set (Itoa p)" using show_nat_chars [of _ "nat p"] by (force simp: i policySeparator_def)
    ultimately show "Itoa p \<noteq> [] \<and> graphic (hd (Itoa p)) \<and> graphic (last (Itoa p)) \<and> policySeparator \<notin> set (Itoa p)
      \<and> parse_port (Itoa p) = Inr [p]" using e i by simp
  qed
  then show ?thesis by (simp add: ParseAllowedPorts_def Let_def)
qed (simp add: ParseAllowedPorts_def)

text \<open>The stored form of a validated network, which contains the same addresses.\<close>

definition stored_form :: "ipnet \<Rightarrow> ipnet" where
  "stored_form n = (case To4 (n_ip n) of None \<Rightarrow> n | Some a \<Rightarrow> net4 a (n_ones n))"

definition valid_nets :: "ipnet option list \<Rightarrow> bool" where
  "valid_nets xs \<longleftrightarrow> (\<forall>x\<in>set xs. \<exists>n. x = Some n \<and> ipv4_network n \<and> n_ones n \<le> 32)"

lemma stored_form_props:
  assumes "ipv4_network n" "n_ones n \<le> 32"
  shows "stored_net (stored_form n)" "canonical_text (Some n) = Some (show_net (stored_form n))" "Contains4 (stored_form n) a = Contains4 n a"
proof -
  obtain b where b: "n_ip n = IP4 b" using assms(1) by (cases "n_ip n") (auto simp: ipv4_network_def)
  then show "stored_net (stored_form n)" "canonical_text (Some n) = Some (show_net (stored_form n))"
    using assms by (auto simp: stored_form_def stored_net_def canonical_text_def ipv4_network_def)
  show "Contains4 (stored_form n) a = Contains4 n a"
    using b assms(1) by (auto simp: stored_form_def net4_def Contains4_def ones4_def ipv4_network_def Let_def)
qed

lemma stored_canonical:
  assumes "stored_net n"
  shows "canonical_text (Some n) = Some (show_net n)" "ipv4_network n" "n_ones n \<le> 32"
  using assms by (auto simp: stored_net_def canonical_text_def ipv4_network_def net4_def)

lemma stored_texts:
  assumes "valid_nets xs"
  obtains ns where "EncodeAllowedIPs xs = Join policySeparator (map show_net ns)"
    "set ns = stored_form ` the ` set xs" "\<And>n. n \<in> set ns \<Longrightarrow> stored_net n"
    "EncodeAllowedIPs (map Some ns) = EncodeAllowedIPs xs"
proof -
  let ?T = "set (List.map_filter canonical_text xs)"
  have T: "?T = show_net ` stored_form ` the ` set xs"
    using assms stored_form_props(2) by (force simp: valid_nets_def map_filter_def image_iff)
  define f where "f = inv_into (stored_form ` the ` set xs) show_net"
  have f: "f t \<in> stored_form ` the ` set xs" "show_net (f t) = t" if "t \<in> ?T" for t
    using that unfolding T f_def by (rule inv_into_into, rule f_inv_into_f)
  have st: "stored_net n" if "n \<in> stored_form ` the ` set xs" for n
    using that assms stored_form_props(1) by (auto simp: valid_nets_def)
  have inj: "m = n" if "stored_net m" "stored_net n" "show_net m = show_net n" for m n
    using that show_net_inj by (auto simp: stored_net_def)
  define ns where "ns = map f (sorted_list_of_set ?T)"
  have "map show_net ns = sorted_list_of_set ?T" unfolding ns_def map_map by (rule map_idI) (use f in auto)
  moreover have sn: "set ns = stored_form ` the ` set xs"
  proof (intro equalityI subsetI)
    fix n assume n: "n \<in> stored_form ` the ` set xs"
    then have "show_net n \<in> ?T" using T by blast
    moreover from this have "f (show_net n) = n" using f inj st n by metis
    ultimately show "n \<in> set ns" unfolding ns_def by (metis List.finite_set image_eqI list.set_map set_sorted_list_of_set)
  qed (use f in \<open>auto simp: ns_def\<close>)
  moreover have "List.map_filter canonical_text (map Some ns) = map show_net ns"
    using sn st stored_canonical by (force simp: map_filter_def filter_True)
  ultimately show thesis using that [of ns] st T by (simp add: EncodeAllowedIPs_def sort_fresh)
qed

definition valid_ports :: "int list \<Rightarrow> bool" where
  "valid_ports ps \<longleftrightarrow> (\<forall>p\<in>set ps. minPort \<le> p \<and> p \<le> maxPort)"

lemma EncodeAllowedPorts_valid:
  assumes "valid_ports ps"
  shows "EncodeAllowedPorts ps = Join policySeparator (map Itoa (sorted_list_of_set (set ps)))"
proof -
  have "filter (\<lambda>port. \<not> (port < minPort \<or> port > maxPort)) ps = ps" using assms by (auto simp: valid_ports_def intro!: filter_True)
  then show ?thesis by (simp add: EncodeAllowedPorts_def sort_fresh)
qed

lemma ValidateFields_lists:
  "ValidateFields s = None \<longleftrightarrow>
     ValidateFields (s\<lparr>ps_AllowedIPs := [], ps_AllowedPorts := []\<rparr>) = None \<and> valid_nets (ps_AllowedIPs s) \<and> valid_ports (ps_AllowedPorts s)"
proof -
  have "list_ex (\<lambda>x. case x of None \<Rightarrow> True | Some n \<Rightarrow> \<not> ipv4_network n \<or> n_ones n > 32) xs \<longleftrightarrow> \<not> valid_nets xs" for xs
  proof -
    have "(case x of None \<Rightarrow> True | Some n \<Rightarrow> \<not> ipv4_network n \<or> n_ones n > 32)
        \<longleftrightarrow> \<not> (\<exists>n. x = Some n \<and> ipv4_network n \<and> n_ones n \<le> 32)" for x by (cases x) auto
    then show ?thesis by (simp only: list_ex_iff valid_nets_def) blast
  qed
  moreover have "list_ex (\<lambda>port. port < minPort \<or> port > maxPort) ps \<longleftrightarrow> \<not> valid_ports ps" for ps
    unfolding list_ex_iff valid_ports_def by (meson not_less)
  moreover have "valid_nets []" "valid_ports []" by (simp_all add: valid_nets_def valid_ports_def)
  ultimately show ?thesis
    by (cases "validateLabel (ps_Name s) MaxPeerNameLength"; cases "validateLabel (ps_Description s) MaxPeerDescriptionLength")
      (simp_all add: ValidateFields_def)
qed

lemma same_addresses:
  assumes "valid_nets xs" "set ns = stored_form ` the ` set xs"
  shows "list_ex (\<lambda>x. case x of None \<Rightarrow> False | Some n \<Rightarrow> Contains4 n a) (map Some ns)
      = list_ex (\<lambda>x. case x of None \<Rightarrow> False | Some n \<Rightarrow> Contains4 n a) xs"
proof -
  have "(case x of None \<Rightarrow> False | Some n \<Rightarrow> Contains4 n a) \<longleftrightarrow> Contains4 (stored_form (the x)) a" if "x \<in> set xs" for x
    using assms(1) that stored_form_props(3) by (auto simp: valid_nets_def)
  then show ?thesis by (auto simp: list_ex_iff assms(2))
qed

text \<open>Two policies that agree on their networks' addresses, on their ports as a set and on the rest decide alike.\<close>

lemma Allow_cong:
  assumes "\<And>a. list_ex (\<lambda>x. case x of None \<Rightarrow> False | Some n \<Rightarrow> Contains4 n a) ips'
      = list_ex (\<lambda>x. case x of None \<Rightarrow> False | Some n \<Rightarrow> Contains4 n a) (pp_allowedIPs p)" "set ps' = set (pp_ports p)"
  shows "Allow (p\<lparr>pp_allowedIPs := ips', pp_ports := ps'\<rparr>) pkt = Allow p pkt"
proof -
  have "ps' = [] \<longleftrightarrow> pp_ports p = []" using assms(2) by (metis set_empty)
  moreover have "containsDest (p\<lparr>pp_allowedIPs := ips', pp_ports := ps'\<rparr>) d = containsDest p d" for d
    using assms(1) by (simp add: containsDest_def split: option.splits)
  ultimately have "allow_target (p\<lparr>pp_allowedIPs := ips', pp_ports := ps'\<rparr>) pkt d = allow_target p pkt d" for d
    using assms(2) by (simp add: allow_target_def)
  then show ?thesis by (simp add: Allow_def cong: option.case_cong)
qed

text \<open>
  C22. The policy of a validated peer survives storage: its stored text is read back without error; the peer rebuilt from it is
  accepted exactly when the original is, its policy decides every packet as the original's does, and storing it again gives the
  same text.
\<close>

theorem stored_policy_decides_alike:
  assumes "ValidateFields s = None"
  shows "\<exists>ips ports.
      ParseAllowedIPs p6 (EncodeAllowedIPs (ps_AllowedIPs s)) = Inr ips \<and> ParseAllowedPorts (EncodeAllowedPorts (ps_AllowedPorts s)) = Inr ports
    \<and> EncodeAllowedIPs (map Some ips) = EncodeAllowedIPs (ps_AllowedIPs s) \<and> EncodeAllowedPorts ports = EncodeAllowedPorts (ps_AllowedPorts s)
    \<and> (case (NewPacketPolicy now s mtu, NewPacketPolicy now (s\<lparr>ps_AllowedIPs := map Some ips, ps_AllowedPorts := ports\<rparr>) mtu) of
         (Inr p, Inr p') \<Rightarrow> \<forall>pkt. Allow p' pkt = Allow p pkt
       | (Inl e, Inl e') \<Rightarrow> e = e'
       | _ \<Rightarrow> False)"
proof -
  have v: "ValidateFields (s\<lparr>ps_AllowedIPs := [], ps_AllowedPorts := []\<rparr>) = None" "valid_nets (ps_AllowedIPs s)" "valid_ports (ps_AllowedPorts s)"
    using assms ValidateFields_lists [of s] by simp_all
  obtain ns where ns: "EncodeAllowedIPs (ps_AllowedIPs s) = Join policySeparator (map show_net ns)"
    "set ns = stored_form ` the ` set (ps_AllowedIPs s)" "\<And>n. n \<in> set ns \<Longrightarrow> stored_net n"
    "EncodeAllowedIPs (map Some ns) = EncodeAllowedIPs (ps_AllowedIPs s)" using stored_texts [OF v(2)] by metis
  define ports where "ports = sorted_list_of_set (set (ps_AllowedPorts s))"
  have p: "set ports = set (ps_AllowedPorts s)" "valid_ports ports" using v(3) by (simp_all add: ports_def valid_ports_def)
  let ?s' = "s\<lparr>ps_AllowedIPs := map Some ns, ps_AllowedPorts := ports\<rparr>"
  have "ValidateFields ?s' = None"
    using v(1) p(2) ns(3) stored_canonical ValidateFields_lists [of ?s'] by (auto simp: valid_nets_def)
  then have val: "PeerSpec_Validate now ?s' = PeerSpec_Validate now s"
    using assms by (simp add: PeerSpec_Validate_def ValidateRequest_def cong: option.case_cong)
  define P where "P = \<lparr>pp_allowedIPs = ps_AllowedIPs s, pp_ports = ps_AllowedPorts s,
    pp_allowPrivateTargets = ps_AllowPrivateTargets s, pp_icmpEnabled = ps_ICMPEnabled s, pp_mtu = mtu\<rparr>"
  have "list_ex (\<lambda>x. case x of None \<Rightarrow> False | Some n \<Rightarrow> Contains4 n a) (map Some ns)
      = list_ex (\<lambda>x. case x of None \<Rightarrow> False | Some n \<Rightarrow> Contains4 n a) (ps_AllowedIPs s)" for a
    using same_addresses [OF v(2) ns(2)] .
  then have "Allow (P\<lparr>pp_allowedIPs := map Some ns, pp_ports := ports\<rparr>) pkt = Allow P pkt" for pkt
    using p(1) by (intro Allow_cong) (simp_all add: P_def)
  then have "case (NewPacketPolicy now s mtu, NewPacketPolicy now ?s' mtu) of
      (Inr p, Inr p') \<Rightarrow> \<forall>pkt. Allow p' pkt = Allow p pkt | (Inl e, Inl e') \<Rightarrow> e = e' | _ \<Rightarrow> False"
    by (simp add: NewPacketPolicy_def val P_def split: option.splits)
  moreover have "EncodeAllowedPorts ports = EncodeAllowedPorts (ps_AllowedPorts s)"
    using EncodeAllowedPorts_valid p v(3) by simp
  moreover have "ParseAllowedPorts (EncodeAllowedPorts (ps_AllowedPorts s)) = Inr ports"
    using ParseAllowedPorts_stored [of ports] EncodeAllowedPorts_valid [OF v(3)] p(2) by (simp add: ports_def valid_ports_def)
  ultimately show ?thesis using ParseAllowedIPs_stored [of ns p6] ns by (metis (no_types, lifting))
qed

definition sample_peer :: peer_spec where
  "sample_peer =
     \<lparr>ps_Name = ''p'', ps_Description = [], ps_PublicKey = [], ps_VPNIP = None, ps_NodeID = [], ps_AgentID = ''a'',
      ps_AllowedIPs = [Some \<lparr>n_ip = IP4 (ipv4 [10, 1, 5, 7]), n_ones = 16, n_bits = 32\<rparr>], ps_AllowedPorts = [443, 80, 443],
      ps_AllowPrivateTargets = True, ps_ICMPEnabled = False, ps_MaxConcurrentFlows = 0, ps_PacketRateLimit = 0, ps_ExpiresAt = None\<rparr>"

theorem stored_policy_decides_alike_witness:
  "\<exists>ips ports. ParseAllowedIPs (\<lambda>_. None) (EncodeAllowedIPs (ps_AllowedIPs sample_peer)) = Inr ips
    \<and> ParseAllowedPorts (EncodeAllowedPorts [443, 80, 443]) = Inr ports"
proof -
  have "TrimSpace ''p'' = ''p''" "TrimSpace ''a'' = ''a''" by (simp_all add: TrimSpace_graphic graphic_def)
  then have "ValidateFields sample_peer = None"
    by (simp add: ValidateFields_def sample_peer_def validateLabel_def runes_def decode_rune_def IsControl_def MaxPeerNameLength_def
        MaxPeerDescriptionLength_def ipv4_network_def minPort_def maxPort_def)
  from stored_policy_decides_alike [OF this, of "\<lambda>_. None" 0 1420] show ?thesis by (auto simp: sample_peer_def)
qed

section \<open>No field adds a line to a configuration\<close>

lemma decode_rune_ascii: "a < 0x80 \<Longrightarrow> decode_rune a r = (a, 1)"
  by (auto simp: decode_rune_def split: list.splits)

lemma decode_rune_skips: "b \<in> set (take (snd (decode_rune a r) - 1) r) \<Longrightarrow> 0x80 \<le> b"
  by (auto simp: decode_rune_def second_byte_def cont_def take_Cons' split: list.splits if_splits)

lemma rune_ascii: "n < 0x80 \<Longrightarrow> n \<in> set bs \<Longrightarrow> n \<in> set (rune_list bs)"
proof (induction bs rule: rune_list.induct)
  case (2 a r)
  define k where "k = snd (decode_rune a r) - 1"
  have "set r = set (take k r) \<union> set (drop k r)" by (metis append_take_drop_id set_append)
  then have "n = a \<or> n \<in> set (drop k r)" using "2.prems" decode_rune_skips [of n a r] by (auto simp: k_def)
  then show ?case using "2.IH" "2.prems"(1) decode_rune_ascii [of a r] by (auto simp: k_def)
qed simp

lemma Join_append: "xs \<noteq> [] \<Longrightarrow> ys \<noteq> [] \<Longrightarrow> Join c (xs @ ys) = Join c xs @ c # Join c ys"
  by (induction c xs rule: Join.induct) (auto simp: Join_Cons)

lemma iniLine_Inr: "iniLine (k, v) = Inr ls \<Longrightarrow> ls = [k @ '' = '' @ v] \<and> newline \<notin> set v"
proof -
  assume i: "iniLine (k, v) = Inr ls"
  have "\<not> list_ex IsControl (runes v)" "ls = [k @ '' = '' @ v]"
    using i by (auto simp: iniLine_def list_ex_iff split: if_splits)
  moreover have "10 \<in> set (runes v)" if "newline \<in> set v"
    unfolding runes_def using that by (intro rune_ascii) (force simp: newline_def)+
  ultimately show ?thesis by (force simp: list_ex_iff IsControl_def)
qed

lemma collect_iniLine:
  "collect iniLine kvs = Inr ls \<Longrightarrow> ls = map (\<lambda>(k, v). k @ '' = '' @ v) kvs \<and> (\<forall>(k, v)\<in>set kvs. newline \<notin> set v)"
  by (induction kvs arbitrary: ls) (auto simp: bindR_Inr_iff dest: iniLine_Inr)

lemma render_section_lines:
  assumes "render_section name kvs = Inr text"
  shows "text = Join newline (name # map (\<lambda>(k, v). k @ '' = '' @ v) kvs @ [[]])" "\<forall>(k, v)\<in>set kvs. newline \<notin> set v"
  using assms collect_iniLine [of kvs] Join_append [of "name # map (\<lambda>(k, v). k @ '' = '' @ v) kvs" "[[]]" newline]
  by (auto simp: render_section_def bindR_Inr_iff)

text \<open>
  A rendered client configuration has exactly the lines of its two sections, each field of the peer on the one line that its
  key names: no key, endpoint or policy text can add a line or a section to the file.
\<close>

lemma config_lines_exact:
  assumes "RenderPeerConfig cfg = Inr text"
  shows "Split newline text =
    [''[Interface]'', ''PrivateKey = '' @ pc_PrivateKey cfg, ''Address = '' @ host_net (pc_Address cfg), ''MTU = '' @ Itoa (pc_MTU cfg), [],
     ''[Peer]'', ''PublicKey = '' @ pc_NodePublicKey cfg, ''AllowedIPs = '' @ EncodeAllowedIPs (pc_AllowedIPs cfg),
     ''Endpoint = '' @ pc_Endpoint cfg, ''PersistentKeepalive = '' @ Itoa (pc_PersistentKeepalive cfg), []]"
    (is "_ = ?lines")
proof -
  obtain iface peer where t: "RenderInterface cfg = Inr iface" "RenderPeerSection cfg = Inr peer" "text = iface @ newline # peer"
    using assms by (auto simp: RenderPeerConfig_def bindR_Inr_iff)
  have i: "render_section ''[Interface]''
      [(''PrivateKey'', pc_PrivateKey cfg), (''Address'', host_net (pc_Address cfg)), (''MTU'', Itoa (pc_MTU cfg))] = Inr iface"
    using t(1) by (simp add: RenderInterface_def split: option.splits)
  have p: "render_section ''[Peer]''
      [(''PublicKey'', pc_NodePublicKey cfg), (''AllowedIPs'', EncodeAllowedIPs (pc_AllowedIPs cfg)), (''Endpoint'', pc_Endpoint cfg),
       (''PersistentKeepalive'', Itoa (pc_PersistentKeepalive cfg))] = Inr peer"
    using t(2) by (simp add: RenderPeerSection_def Let_def split: option.splits if_splits)
  have "text = Join newline ?lines"
    using t(3) render_section_lines(1) [OF i] render_section_lines(1) [OF p] by simp
  moreover have "\<forall>w\<in>set ?lines. newline \<notin> set w"
    using render_section_lines(2) [OF i] render_section_lines(2) [OF p] by (simp add: newline_def)
  ultimately show ?thesis using Split_Join [of ?lines newline] by blast
qed

text \<open>Fields of printable characters without comment signs can always be written.\<close>

definition plain :: "string \<Rightarrow> bool" where
  "plain v \<longleftrightarrow> v \<noteq> [] \<and> (\<forall>c\<in>set v. graphic c \<and> of_char c \<notin> {0x3B, 0x23 :: nat})"

lemma runes_ascii: "\<forall>c\<in>set v. of_char c < (0x80::nat) \<Longrightarrow> runes v = map of_char v"
  unfolding runes_def by (induction v) (simp_all add: decode_rune_ascii)

lemma iniLine_plain:
  assumes "plain v"
  shows "iniLine (k, v) = Inr [k @ '' = '' @ v]"
proof -
  have "runes v = map of_char v" using assms by (intro runes_ascii) (force simp: plain_def graphic_def)
  moreover have "\<not> (IsControl (of_char c) \<or> of_char c = (0x3B::nat) \<or> of_char c = (0x23::nat) \<or> of_char c = (0x20::nat))"
    if "c \<in> set v" for c
    using assms that by (auto simp: plain_def graphic_def IsControl_def)
  ultimately show ?thesis using assms by (auto simp: iniLine_def list_ex_iff plain_def)
qed

lemma plain_digits: "plain (show_nat n)" "plain (show_net (net4 a k))"
proof -
  have "graphic c \<and> of_char c \<notin> {0x3B, 0x23 :: nat}" if "is_digit c \<or> c = CHR ''.'' \<or> c = CHR ''/''" for c
    using that digit_graphic [of c] by (auto simp: graphic_def is_digit_range)
  then have "\<forall>c\<in>set (show_nat n). graphic c \<and> of_char c \<notin> {0x3B, 0x23 :: nat}"
    "\<forall>c\<in>set (show_net (net4 a k)). graphic c \<and> of_char c \<notin> {0x3B, 0x23 :: nat}"
    using show_nat_chars show_net_chars by metis+
  then show "plain (show_nat n)" "plain (show_net (net4 a k))" unfolding plain_def using show_net_nonempty by simp_all
qed

definition key_char :: "char \<Rightarrow> bool" where
  "key_char c \<longleftrightarrow> c = CHR ''='' \<or> (\<exists>n<64. c = b64_char n)"

lemma key_char_simps: "key_char CHR ''=''" "n < 64 \<Longrightarrow> key_char (b64_char n)"
  by (auto simp: key_char_def)

lemma b64_encode_chars: "list_all key_char (b64_encode bs)"
  by (induction bs rule: b64_encode.induct) (simp_all add: key_char_simps byte_sextets byte_sextets [simplified])

lemma plain_key: "raw \<noteq> [] \<Longrightarrow> plain (EncodeKey raw)"
proof -
  have "graphic (b64_char n) \<and> of_char (b64_char n) \<notin> {0x3B, 0x23 :: nat}" if "n < 64" for n
    using that by (auto simp: b64_char_def graphic_def)
  then have "graphic c \<and> of_char c \<notin> {0x3B, 0x23 :: nat}" if "key_char c" for c
    using that by (auto simp: key_char_def graphic_def)
  moreover assume "raw \<noteq> []"
  then have "b64_encode raw \<noteq> []" by (cases raw rule: b64_encode.cases) simp_all
  ultimately show ?thesis using b64_encode_chars [of raw] unfolding plain_def EncodeKey_def list_all_iff by blast
qed

definition sample_config :: peer_config where
  "sample_config =
     \<lparr>pc_PrivateKey = EncodeKey (replicate 32 1), pc_Address = Some (IP4 1), pc_MTU = 1420, pc_NodePublicKey = EncodeKey (replicate 32 2),
      pc_AllowedIPs = [Some (net4 0 0)], pc_Endpoint = ''h:1'', pc_PersistentKeepalive = 25\<rparr>"

lemma sample_config_ok: "\<exists>text. RenderPeerConfig sample_config = Inr text"
proof -
  have e: "EncodeAllowedIPs [Some (net4 0 0)] = show_net (net4 0 0)"
    by (simp add: EncodeAllowedIPs_def canonical_text_def map_filter_def net4_def)
  have k: "ValidatePrivateKey (EncodeKey (replicate 32 1)) = None" "ValidatePublicKey (EncodeKey (replicate 32 2)) = None"
    by (simp_all add: ValidatePrivateKey_def ValidatePublicKey_def isAllZero_def x25519_import_def list_all_iff)
  have t: "TrimSpace ''h:1'' = ''h:1''" "TrimSpace ''h'' = ''h''" by (simp_all add: TrimSpace_graphic graphic_def)
  have "valid_endpoint ''h:1''"
    by (simp add: valid_endpoint_def t SplitHostPort_def Atoi_def parse_digits_def is_digit_def digits_val_def digit_val_def minPort_def
        maxPort_def less_eq_char_def)
  then have v: "PeerConfig_validate sample_config = None"
    by (simp add: PeerConfig_validate_def sample_config_def k MinTunnelMTU_def MaxTunnelMTU_def maxPort_def ipv4_network_def) (simp add: net4_def)
  have "plain ''h:1''" by (simp add: plain_def graphic_def)
  then show ?thesis
    by (simp add: RenderPeerConfig_def RenderInterface_def RenderPeerSection_def v)
      (simp add: sample_config_def render_section_def iniLine_plain plain_key plain_digits Itoa_def host_net_def e show_net_nonempty)
qed

end
