(* ===== verification/Go_Slices.thy ===== *)
theory Go_Slices
  imports Prelude
begin

text \<open>
  Indexing and slicing of byte slices as the language does it: an access outside the slice is a run-time panic, kept apart from
  the errors a function returns. (A slice expression may also reach past the length up to the capacity; here it panics
  there, so that what is shown free of panics is free of them for every capacity.)
\<close>

datatype 'e fault = Err 'e | Panic

definition index :: "bytes \<Rightarrow> nat \<Rightarrow> 'e fault + byte" where
  "index xs i = (if i < length xs then Inr (xs ! i) else Inl Panic)"

definition slice :: "bytes \<Rightarrow> nat \<Rightarrow> nat \<Rightarrow> 'e fault + bytes" where
  "slice xs lo hi = (if lo \<le> hi \<and> hi \<le> length xs then Inr (drop lo (take hi xs)) else Inl Panic)"

text \<open>\<^verbatim>\<open>binary.BigEndian.Uint16\<close> of the two bytes from a position, and an address of four.\<close>

definition uint16_at :: "bytes \<Rightarrow> nat \<Rightarrow> 'e fault + uint16" where
  "uint16_at xs i = bindR (slice xs i (i + 2)) (\<lambda>s. Inr (be16 (s ! 0) (s ! 1)))"

definition addr_at :: "bytes \<Rightarrow> nat \<Rightarrow> 'e fault + uint32" where
  "addr_at xs i = bindR (slice xs i (i + 4)) (\<lambda>s. Inr (be32 (s ! 0) (s ! 1) (s ! 2) (s ! 3)))"

lemma index_ok [simp]: "i < length xs \<Longrightarrow> index xs i = Inr (xs ! i)"
  by (simp add: index_def)

lemma index_first [simp]: "xs \<noteq> [] \<Longrightarrow> index xs 0 = Inr (xs ! 0)"
  by (simp add: index_def)

lemma slice_ok [simp]: "lo \<le> hi \<Longrightarrow> hi \<le> length xs \<Longrightarrow> slice xs lo hi = Inr (drop lo (take hi xs))"
  by (simp add: slice_def)

lemma uint16_at_ok [simp]: "i + 2 \<le> length xs \<Longrightarrow> uint16_at xs i = Inr (be16 (xs ! i) (xs ! Suc i))"
  by (simp add: uint16_at_def)

lemma addr_at_ok [simp]: "i + 4 \<le> length xs \<Longrightarrow> addr_at xs i = Inr (be32 (xs ! i) (xs ! (i + 1)) (xs ! (i + 2)) (xs ! (i + 3)))"
  by (simp add: addr_at_def)

end
