(* ===== verification/VPN_Wire.thy ===== *)
theory VPN_Wire
  imports VPN_Peer Go_Slices
begin

text \<open>
  Datagrams on the tunnel: \<^verbatim>\<open>internal/server/vpn_wire.go\<close>, which reads a decrypted datagram, and the two builders of replies with
  their checksums from \<^verbatim>\<open>vpn_udp.go\<close> and \<^verbatim>\<open>vpn_icmp.go\<close>. An invalid \<^verbatim>\<open>netip.Addr\<close> is \<open>None\<close>.

  The lemmas show that no datagram makes the parser panic, that every packet it returns is within the bytes that arrived, and
  that the datagrams the gateway builds parse back to their fields and carry checksums a receiver accepts.
\<close>

section \<open>Parsing\<close>

definition vpnWireIPv4HeaderMinimum :: nat where "vpnWireIPv4HeaderMinimum = 20"
definition vpnWireTCPHeaderMinimum :: nat where "vpnWireTCPHeaderMinimum = 20"
definition vpnWireUDPHeader :: nat where "vpnWireUDPHeader = 8"
definition vpnWireICMPHeader :: nat where "vpnWireICMPHeader = 8"
definition vpnWireTCPSYN :: byte where "vpnWireTCPSYN = 0x02"
definition vpnWireTCPACK :: byte where "vpnWireTCPACK = 0x10"

lemmas wire_sizes = vpnWireIPv4HeaderMinimum_def vpnWireTCPHeaderMinimum_def vpnWireUDPHeader_def vpnWireICMPHeader_def

datatype wire_error = ErrNotIPv4 | ErrShortPacket | ErrTruncatedTransport

record wire_packet =
  vw_Version :: byte
  vw_Protocol :: byte
  vw_Src :: "uint32 option"
  vw_Dst :: "uint32 option"
  vw_Size :: nat
  vw_Fragment :: bool
  vw_Malformed :: bool
  vw_SrcPort :: nat
  vw_DstPort :: nat
  vw_TCPFlags :: byte
  vw_ICMPType :: byte
  vw_ICMPCode :: byte
  vw_ICMPID :: uint16
  vw_ICMPSeq :: uint16
  vw_Payload :: bytes

definition no_packet :: wire_packet where
  "no_packet =
     \<lparr>vw_Version = 0, vw_Protocol = 0, vw_Src = None, vw_Dst = None, vw_Size = 0, vw_Fragment = False, vw_Malformed = False,
      vw_SrcPort = 0, vw_DstPort = 0, vw_TCPFlags = 0, vw_ICMPType = 0, vw_ICMPCode = 0, vw_ICMPID = 0, vw_ICMPSeq = 0, vw_Payload = []\<rparr>"

type_synonym 'a wire_result = "wire_error fault + 'a"

definition parseVPNTCP :: "wire_packet \<Rightarrow> bytes \<Rightarrow> wire_packet wire_result" where
  "parseVPNTCP parsed body =
     (if length body < vpnWireTCPHeaderMinimum then Inl (Err ErrTruncatedTransport)
      else bindR (index body 12) (\<lambda>b12.
        let dataOffset = unat (drop_bit 4 b12) * 4 in
        if dataOffset < vpnWireTCPHeaderMinimum \<or> length body < dataOffset then Inl (Err ErrTruncatedTransport)
        else bindR (uint16_at body 0) (\<lambda>src. bindR (uint16_at body 2) (\<lambda>dst. bindR (index body 13) (\<lambda>flags.
          bindR (slice body dataOffset (length body)) (\<lambda>payload.
            Inr (parsed\<lparr>vw_SrcPort := unat src, vw_DstPort := unat dst, vw_TCPFlags := flags, vw_Payload := payload\<rparr>)))))))"

definition parseVPNUDP :: "wire_packet \<Rightarrow> bytes \<Rightarrow> wire_packet wire_result" where
  "parseVPNUDP parsed body =
     (if length body < vpnWireUDPHeader then Inl (Err ErrTruncatedTransport)
      else bindR (uint16_at body 0) (\<lambda>src. bindR (uint16_at body 2) (\<lambda>dst. bindR (uint16_at body 4) (\<lambda>len.
        bindR (slice body vpnWireUDPHeader (length body)) (\<lambda>payload.
          Inr (parsed\<lparr>vw_SrcPort := unat src, vw_DstPort := unat dst,
                      vw_Malformed := vw_Malformed parsed \<or> unat len \<noteq> length body, vw_Payload := payload\<rparr>))))))"

definition parseVPNICMP :: "wire_packet \<Rightarrow> bytes \<Rightarrow> wire_packet wire_result" where
  "parseVPNICMP parsed body =
     (if length body < vpnWireICMPHeader then Inl (Err ErrTruncatedTransport)
      else bindR (index body 0) (\<lambda>typ. bindR (index body 1) (\<lambda>code. bindR (uint16_at body 4) (\<lambda>ident. bindR (uint16_at body 6) (\<lambda>sq.
        bindR (slice body vpnWireICMPHeader (length body)) (\<lambda>payload.
          Inr (parsed\<lparr>vw_ICMPType := typ, vw_ICMPCode := code, vw_ICMPID := ident, vw_ICMPSeq := sq, vw_Payload := payload\<rparr>)))))))"

definition parse_body :: "wire_packet \<Rightarrow> bytes \<Rightarrow> wire_packet wire_result" where
  "parse_body parsed body =
     (if vw_Protocol parsed = ProtocolTCP then parseVPNTCP parsed body
      else if vw_Protocol parsed = ProtocolUDP then parseVPNUDP parsed body
      else if vw_Protocol parsed = ProtocolICMP then parseVPNICMP parsed body
      else Inr (parsed\<lparr>vw_Payload := body\<rparr>))"

text \<open>The fields of the header. A declared length beyond the bytes that arrived is cut and marks the packet.\<close>

definition header_packet :: "nat \<Rightarrow> nat \<Rightarrow> byte \<Rightarrow> uint32 \<Rightarrow> uint32 \<Rightarrow> uint16 \<Rightarrow> wire_packet" where
  "header_packet arrived totalLength proto src dst flagsAndOffset =
     no_packet\<lparr>vw_Version := 4, vw_Protocol := proto, vw_Src := Some src, vw_Dst := Some dst,
               vw_Size := min totalLength arrived, vw_Malformed := totalLength > arrived,
               vw_Fragment := and flagsAndOffset 0x2000 \<noteq> 0 \<or> and flagsAndOffset 0x1FFF \<noteq> 0\<rparr>"

definition parse_header :: "bytes \<Rightarrow> nat \<Rightarrow> nat \<Rightarrow> wire_packet wire_result" where
  "parse_header packet headerLength totalLength =
     bindR (index packet 9) (\<lambda>proto. bindR (addr_at packet 12) (\<lambda>src. bindR (addr_at packet 16) (\<lambda>dst. bindR (uint16_at packet 6) (\<lambda>flags.
       let parsed = header_packet (length packet) totalLength proto src dst flags in
       bindR (slice packet headerLength (min totalLength (length packet))) (\<lambda>body.
         if vw_Fragment parsed then Inr parsed else parse_body parsed body)))))"

definition parseVPNWirePacket :: "bytes \<Rightarrow> wire_packet wire_result" where
  "parseVPNWirePacket packet =
     (if length packet < vpnWireIPv4HeaderMinimum then Inl (Err ErrShortPacket)
      else bindR (index packet 0) (\<lambda>b0.
        if drop_bit 4 b0 \<noteq> 4 then Inl (Err ErrNotIPv4)
        else (let headerLength = unat (and b0 0x0F) * 4 in
          if headerLength < vpnWireIPv4HeaderMinimum \<or> length packet < headerLength then Inl (Err ErrShortPacket)
          else bindR (uint16_at packet 2) (\<lambda>total.
            if unat total < headerLength then Inl (Err ErrShortPacket)
            else parse_header packet headerLength (unat total)))))"

definition isTCPSYN :: "wire_packet \<Rightarrow> bool" where
  "isTCPSYN p \<longleftrightarrow> vw_Protocol p = ProtocolTCP \<and> and (vw_TCPFlags p) vpnWireTCPSYN \<noteq> 0 \<and> and (vw_TCPFlags p) vpnWireTCPACK = 0"

definition isICMPEchoRequest :: "wire_packet \<Rightarrow> bool" where
  "isICMPEchoRequest p \<longleftrightarrow> vw_Protocol p = ProtocolICMP \<and> vw_ICMPType p = 8 \<and> vw_ICMPCode p = 0"

definition isICMPEchoReply :: "wire_packet \<Rightarrow> bool" where
  "isICMPEchoReply p \<longleftrightarrow> vw_Protocol p = ProtocolICMP \<and> vw_ICMPType p = 0 \<and> vw_ICMPCode p = 0"

definition policyPacket :: "wire_packet \<Rightarrow> packet" where
  "policyPacket p =
     \<lparr>pk_Protocol = vw_Protocol p, pk_Source = map_option IP4 (vw_Src p), pk_Dest = map_option IP4 (vw_Dst p), pk_Port = int (vw_DstPort p),
      pk_Size = int (vw_Size p), pk_Fragment = vw_Fragment p\<rparr>"

section \<open>Building replies\<close>

text \<open>The sum of the 16-bit words of a slice in 32 bits; an odd last byte is the high byte of a word.\<close>

fun sum16 :: "uint32 \<Rightarrow> bytes \<Rightarrow> uint32" where
  "sum16 s (a # b # r) = sum16 (s + ucast (be16 a b)) r"
| "sum16 s [a] = s + push_bit 8 (ucast a)"
| "sum16 s [] = s"

text \<open>The carries are added back until the sum fits 16 bits.\<close>

definition add_carry :: "uint32 \<Rightarrow> uint32" where
  "add_carry s = drop_bit 16 s + and s 0xFFFF"

lemma unat_add_carry: "unat (add_carry s) = unat s div 65536 + unat s mod 65536"
proof -
  have s: "unat s < 4294967296" using unsigned_less [of s] by simp
  have "and s 0xFFFF = take_bit 16 s" by (simp add: take_bit_eq_mask mask_eq_exp_minus_1)
  then have "unat (and s 0xFFFF) = unat (take_bit 16 s)" by (simp only:)
  then have "unat (and s 0xFFFF) = unat s mod 65536" by (simp only: unsigned_take_bit_eq take_bit_eq_mod) (simp add: unat_mod)
  moreover have "unat (drop_bit 16 s) = unat s div 65536" by (simp add: drop_bit_eq_div unat_div)
  moreover have "unat s div 65536 < 65536" using s by (simp add: div_less_iff_less_mult)
  moreover have "unat s mod 65536 < 65536" by simp
  ultimately show ?thesis by (simp add: add_carry_def unat_word_ariths)
qed

function fold_carry :: "uint32 \<Rightarrow> uint32" where
  "fold_carry s = (if s > 0xFFFF then fold_carry (add_carry s) else s)"
  by pat_completeness auto
termination
proof (relation "measure unat")
  fix s :: uint32
  assume "s > 0xFFFF"
  then have "65536 \<le> unat s" by (simp add: word_less_nat_alt)
  then have "1 \<le> unat s div 65536" by (simp add: le_div_geq)
  moreover have "unat s = unat s div 65536 * 65536 + unat s mod 65536" by simp
  ultimately show "(add_carry s, s) \<in> measure unat" unfolding in_measure unat_add_carry by linarith
qed simp

declare fold_carry.simps [simp del]

definition vpnIPv4Checksum :: "bytes \<Rightarrow> uint16" where
  "vpnIPv4Checksum header = not (ucast (fold_carry (sum16 0 header)))"

definition pseudo_sum :: "bytes \<Rightarrow> bytes \<Rightarrow> nat \<Rightarrow> uint32" where
  "pseudo_sum source destination len =
     ucast (be16 (source ! 0) (source ! 1)) + ucast (be16 (source ! 2) (source ! 3))
     + (ucast (be16 (destination ! 0) (destination ! 1)) + ucast (be16 (destination ! 2) (destination ! 3)))
     + ucast ProtocolUDP + of_nat len"

definition vpnUDPChecksum :: "bytes \<Rightarrow> bytes \<Rightarrow> bytes \<Rightarrow> uint16" where
  "vpnUDPChecksum source destination body =
     (let checksum = not (ucast (fold_carry (sum16 (pseudo_sum source destination (length body)) body))) in
      if checksum = 0 then 0xFFFF else checksum)"

text \<open>Two bytes written over the checksum field of a slice.\<close>

definition put_checksum :: "nat \<Rightarrow> uint16 \<Rightarrow> bytes \<Rightarrow> bytes" where
  "put_checksum i c xs = take i xs @ put_be16 c @ drop (i + 2) xs"

definition ipv4_header :: "byte \<Rightarrow> uint32 \<Rightarrow> uint32 \<Rightarrow> nat \<Rightarrow> bytes" where
  "ipv4_header proto source destination len =
     (let header = [0x45, 0] @ put_be16 (of_nat len) @ [0, 0, 0, 0, 64, proto, 0, 0] @ put_be32 source @ put_be32 destination in
      put_checksum 10 (vpnIPv4Checksum header) header)"

definition buildIPv4UDP :: "uint32 \<times> uint16 \<Rightarrow> uint32 \<times> uint16 \<Rightarrow> bytes \<Rightarrow> bytes" where
  "buildIPv4UDP source destination payload =
     (let total = vpnWireIPv4HeaderMinimum + vpnWireUDPHeader + length payload;
          header = ipv4_header ProtocolUDP (fst source) (fst destination) total;
          body = put_be16 (snd source) @ put_be16 (snd destination) @ put_be16 (of_nat (vpnWireUDPHeader + length payload)) @ [0, 0] @ payload in
      header @ put_checksum 6 (vpnUDPChecksum (put_be32 (fst source)) (put_be32 (fst destination)) body) body)"

definition buildIPv4ICMPEchoReply :: "uint32 \<Rightarrow> uint32 \<Rightarrow> uint16 \<Rightarrow> uint16 \<Rightarrow> bytes \<Rightarrow> bytes" where
  "buildIPv4ICMPEchoReply source destination identifier sq payload =
     (let total = vpnWireIPv4HeaderMinimum + vpnWireICMPHeader + length payload;
          header = ipv4_header ProtocolICMP source destination total;
          message = [0, 0, 0, 0] @ put_be16 identifier @ put_be16 sq @ payload in
      header @ put_checksum 2 (vpnIPv4Checksum message) message)"

section \<open>The parser never panics\<close>

lemma port_less: "unat (w :: uint16) < 65536"
  using unsigned_less [of w] by simp

text \<open>What the transport parsers keep of the header's packet, and where the payload comes from.\<close>

definition body_result :: "wire_packet \<Rightarrow> bytes \<Rightarrow> wire_packet wire_result \<Rightarrow> bool" where
  "body_result parsed body r =
     (case r of Inl e \<Rightarrow> e \<noteq> Panic
      | Inr p \<Rightarrow> (vw_Size p = vw_Size parsed \<and> vw_Src p = vw_Src parsed \<and> vw_Dst p = vw_Dst parsed \<and> vw_Fragment p = vw_Fragment parsed
                  \<and> vw_Protocol p = vw_Protocol parsed)
          \<and> (\<exists>n. vw_Payload p = drop n body) \<and> vw_SrcPort p < 65536 \<and> vw_DstPort p < 65536)"

lemma transport_results:
  assumes "vw_SrcPort parsed = 0" "vw_DstPort parsed = 0"
  shows "body_result parsed body (parseVPNTCP parsed body)" "body_result parsed body (parseVPNUDP parsed body)"
    "body_result parsed body (parseVPNICMP parsed body)"
proof -
  have ne: "\<not> length body < 8 \<Longrightarrow> body \<noteq> []" by auto
  show "body_result parsed body (parseVPNTCP parsed body)" "body_result parsed body (parseVPNUDP parsed body)"
    "body_result parsed body (parseVPNICMP parsed body)"
    using assms by (auto simp: body_result_def parseVPNTCP_def parseVPNUDP_def parseVPNICMP_def wire_sizes Let_def port_less ne)
qed

lemma parse_body_result:
  assumes "vw_SrcPort parsed = 0" "vw_DstPort parsed = 0"
  shows "body_result parsed body (parse_body parsed body)"
  using transport_results [OF assms] assms
  by (auto simp: parse_body_def) (auto simp: body_result_def intro: exI [of _ 0])

definition wire_ok :: "bytes \<Rightarrow> wire_packet wire_result \<Rightarrow> bool" where
  "wire_ok pkt r =
     (case r of Inl e \<Rightarrow> e \<noteq> Panic
      | Inr p \<Rightarrow> vw_Src p \<noteq> None \<and> vw_Dst p \<noteq> None \<and> vw_SrcPort p < 65536 \<and> vw_DstPort p < 65536
          \<and> 20 \<le> vw_Size p \<and> vw_Size p \<le> length pkt
          \<and> (vw_Fragment p \<and> vw_Payload p = [] \<or> (\<exists>n. 20 \<le> n \<and> vw_Payload p = drop n (take (vw_Size p) pkt))))"

lemma parse_header_ok:
  assumes "20 \<le> h" "h \<le> length pkt" "h \<le> t"
  shows "wire_ok pkt (parse_header pkt h t)"
proof -
  define m where "m = min t (length pkt)"
  obtain parsed where p: "parse_header pkt h t = (if vw_Fragment parsed then Inr parsed else parse_body parsed (drop h (take m pkt)))"
    "vw_Src parsed \<noteq> None" "vw_Dst parsed \<noteq> None" "vw_SrcPort parsed = 0" "vw_DstPort parsed = 0" "vw_Size parsed = m" "vw_Payload parsed = []"
  proof
    let ?p = "header_packet (length pkt) t (pkt ! 9) (be32 (pkt ! 12) (pkt ! 13) (pkt ! 14) (pkt ! 15))
      (be32 (pkt ! 16) (pkt ! 17) (pkt ! 18) (pkt ! 19)) (be16 (pkt ! 6) (pkt ! 7))"
    show "parse_header pkt h t = (if vw_Fragment ?p then Inr ?p else parse_body ?p (drop h (take m pkt)))"
      using assms by (simp add: parse_header_def Let_def m_def)
  qed (simp_all add: header_packet_def no_packet_def m_def)
  have m: "20 \<le> m" "m \<le> length pkt" using assms by (simp_all add: m_def)
  show ?thesis
  proof (cases "vw_Fragment parsed")
    case True
    then show ?thesis using p m by (simp add: wire_ok_def)
  next
    case False
    have "\<exists>k. 20 \<le> k \<and> drop (n + h) (take m pkt) = drop k (take m pkt)" for n
      using assms(1) by (intro exI [of _ "n + h"]) simp
    then show ?thesis using parse_body_result [OF p(4,5), of "drop h (take m pkt)"] p m False
      by (auto simp: wire_ok_def body_result_def split: sum.splits)
  qed
qed

lemma nonempty20: "\<not> length xs < 20 \<Longrightarrow> xs \<noteq> []"
  by auto

lemma parse_wire_ok: "wire_ok pkt (parseVPNWirePacket pkt)"
  by (auto simp: parseVPNWirePacket_def wire_sizes Let_def nonempty20 parse_header_ok) (auto simp: wire_ok_def)

lemma wire_parse_never_panics: "parseVPNWirePacket pkt \<noteq> Inl Panic"
  using parse_wire_ok [of pkt] by (auto simp: wire_ok_def)

text \<open>
  C31. No datagram makes the parser panic: it is refused with one of the declared errors, or the packet returned has both
  addresses, ports of 16 bits, a size between the header's and the bytes that arrived, and a payload that is the end of the
  datagram after a header (nothing for a fragment).
\<close>

theorem wire_parse_safe:
  "case parseVPNWirePacket pkt of
     Inl e \<Rightarrow> e \<noteq> Panic
   | Inr p \<Rightarrow> vw_Src p \<noteq> None \<and> vw_Dst p \<noteq> None \<and> vw_SrcPort p < 65536 \<and> vw_DstPort p < 65536
       \<and> 20 \<le> vw_Size p \<and> vw_Size p \<le> length pkt
       \<and> (vw_Fragment p \<and> vw_Payload p = [] \<or> (\<exists>n. 20 \<le> n \<and> vw_Payload p = drop n (take (vw_Size p) pkt)))"
  using parse_wire_ok [of pkt] by (simp add: wire_ok_def)

section \<open>Checksums\<close>

text \<open>The sum without the bound of 32 bits.\<close>

fun word_sum :: "bytes \<Rightarrow> nat" where
  "word_sum (a # b # r) = unat (be16 a b) + word_sum r"
| "word_sum [a] = unat a * 256"
| "word_sum [] = 0"

lemma unat_sum16: "unat s + word_sum xs < 2 ^ 32 \<Longrightarrow> unat (sum16 s xs) = unat s + word_sum xs"
proof (induction s xs rule: sum16.induct)
  case (1 s a b r)
  have "unat (s + ucast (be16 a b)) = unat s + unat (be16 a b)"
    using "1.prems" port_less [of "be16 a b"] by (simp add: unat_word_ariths unsigned_ucast_eq take_bit_eq_mod)
  then show ?case using "1.IH" "1.prems" by simp
next
  case (2 s a)
  have "unat a < 256" by (rule byte_less)
  then have "unat (push_bit 8 (ucast a) :: uint32) = unat a * 256"
    by (simp add: push_bit_eq_mult unat_word_ariths unsigned_ucast_eq take_bit_eq_mod)
  then show ?case using "2.prems" by (simp add: unat_word_ariths)
qed simp

lemma word_sum_append: "even (length xs) \<Longrightarrow> word_sum (xs @ ys) = word_sum xs + word_sum ys"
  by (induction xs rule: word_sum.induct) auto

lemma word_sum_bound: "word_sum xs \<le> 65535 * ((length xs + 1) div 2)"
proof (induction xs rule: word_sum.induct)
  case (1 a b r)
  then show ?case using port_less [of "be16 a b"] by simp
next
  case (2 a)
  then show ?case using byte_less [of a] by simp
qed simp

lemma fold_carry_props:
  "unat (fold_carry s) \<le> 65535 \<and> unat (fold_carry s) mod 65535 = unat s mod 65535 \<and> (fold_carry s = 0 \<longleftrightarrow> s = 0)"
proof (induction s rule: fold_carry.induct)
  case (1 s)
  show ?case
  proof (cases "s > 0xFFFF")
    case True
    define q r where "q = unat s div 65536" and "r = unat s mod 65536"
    have d: "unat s = (q + r) + 65535 * q" using div_mult_mod_eq [of "unat s" 65536] unfolding q_def r_def by linarith
    have "unat (add_carry s) mod 65535 = unat s mod 65535"
      unfolding unat_add_carry q_def [symmetric] r_def [symmetric] unfolding d by (rule mod_mult_self2 [symmetric])
    moreover have "add_carry s = 0 \<longleftrightarrow> s = 0"
      unfolding word_unat_eq_iff unat_add_carry using div_mult_mod_eq [of "unat s" 65536] by auto
    ultimately show ?thesis using "1.IH" [OF True] True by (simp add: fold_carry.simps [of s])
  qed (simp add: fold_carry.simps [of s] word_less_nat_alt not_less)
qed

text \<open>A receiver adds all words, the checksum included, and expects all ones.\<close>

definition verifies :: "uint32 \<Rightarrow> bytes \<Rightarrow> bool" where
  "verifies s xs \<longleftrightarrow> fold_carry (sum16 s xs) = 0xFFFF"

lemma fold_complement:
  assumes "unat t = unat s + unat (c :: uint16)"
    "c = not (ucast (fold_carry s)) \<or> c = 0xFFFF \<and> not (ucast (fold_carry s) :: uint16) = 0"
  shows "fold_carry t = 0xFFFF"
proof -
  define f where "f = unat (fold_carry s)"
  have f: "f \<le> 65535" "f mod 65535 = unat s mod 65535" using fold_carry_props [of s] by (simp_all add: f_def)
  have "unat (ucast (fold_carry s) :: uint16) = f" using f(1) by (simp add: f_def unsigned_ucast_eq take_bit_eq_mod)
  moreover have "unat (not w) = 65535 - unat w" for w :: uint16
  proof -
    have "w \<le> - 1" by (rule word_order.extremum)
    then have "unat (- 1 - w) = 65535 - unat w" by (simp add: unat_sub unsigned_minus_1_eq_mask mask_eq_exp_minus_1)
    moreover have "not w = - 1 - w" by (simp add: not_eq_complement)
    ultimately show ?thesis by (simp only:)
  qed
  ultimately have n: "unat (not (ucast (fold_carry s) :: uint16)) = 65535 - f" by simp
  then have "(f + unat c) mod 65535 = 0" using assms(2) f(1) by auto
  then have "unat t mod 65535 = 0" using f(2) assms(1) by (metis mod_add_left_eq)
  moreover have "0 < unat s + unat c" using n assms(2) fold_carry_props [of s] by (cases "s = 0") (auto simp: f_def unat_gt_0)
  then have "t \<noteq> 0" using assms(1) by (auto simp: word_unat_eq_iff)
  ultimately have "unat (fold_carry t) = 65535" using fold_carry_props [of t] 
    by (metis le_neq_implies_less mod_less unat_eq_zero)
  then show ?thesis by (simp add: word_unat_eq_iff)
qed

lemma word_sum_put_checksum:
  assumes "even i" "i + 2 \<le> length xs" "xs ! i = 0" "xs ! Suc i = 0"
  shows "word_sum (put_checksum i c xs) = word_sum xs + unat c"
proof -
  have "drop i xs = xs ! i # xs ! Suc i # drop (i + 2) xs" using assms(2) by (simp add: Cons_nth_drop_Suc)
  then have xs: "xs = take i xs @ [0, 0] @ drop (i + 2) xs" using assms(3,4) append_take_drop_id [of i xs] by simp
  have e: "even (length (take i xs))" using assms(1,2) by (simp add: min_def)
  have z: "word_sum [0, 0] = 0" "word_sum (put_be16 c) = unat c" by (simp_all add: be16_unat put_be16_def)
  have "word_sum xs = word_sum (take i xs) + word_sum (drop (i + 2) xs)"
    using word_sum_append [OF e, of "[0, 0] @ drop (i + 2) xs"] word_sum_append [of "[0, 0]" "drop (i + 2) xs"] z(1) xs by simp
  moreover have "word_sum (put_checksum i c xs) = word_sum (take i xs) + (unat c + word_sum (drop (i + 2) xs))"
    unfolding put_checksum_def using word_sum_append [OF e] word_sum_append [of "put_be16 c" "drop (i + 2) xs"] z(2) by simp
  ultimately show ?thesis by simp
qed

lemma checksum_verifies:
  assumes "even i" "i + 2 \<le> length xs" "xs ! i = 0" "xs ! Suc i = 0" "length xs \<le> 65536" "unat s \<le> 1000000"
    "c = not (ucast (fold_carry (sum16 s xs))) \<or> c = 0xFFFF \<and> not (ucast (fold_carry (sum16 s xs)) :: uint16) = 0"
  shows "verifies s (put_checksum i c xs)"
proof -
  have "(length xs + 1) div 2 \<le> 32768" using assms(5) by simp
  then have w: "word_sum xs \<le> 65535 * 32768" using word_sum_bound [of xs] by simp
  then have b: "unat (sum16 s xs) = unat s + word_sum xs" using assms(6) by (intro unat_sum16) simp
  have b': "unat (sum16 s (put_checksum i c xs)) = unat s + word_sum xs + unat c"
    using w assms(6) port_less [of c] word_sum_put_checksum [OF assms(1-4), of c] unat_sum16 [of s "put_checksum i c xs"] by simp
  show ?thesis unfolding verifies_def by (rule fold_complement [OF _ assms(7)]) (use b b' in simp)
qed

section \<open>The datagrams the gateway builds\<close>

lemma ipv4_header_shape:
  obtains c where "ipv4_header proto s d len = [0x45, 0] @ put_be16 (of_nat len) @ [0, 0, 0, 0, 64, proto] @ put_be16 c @ put_be32 s @ put_be32 d"
    "verifies 0 (ipv4_header proto s d len)"
proof -
  define h where "h = [0x45, 0] @ put_be16 (of_nat len) @ [0, 0, 0, 0, 64, proto, 0, 0] @ put_be32 s @ put_be32 d"
  have len: "length h = 20" by (simp add: h_def)
  have "verifies 0 (put_checksum 10 (vpnIPv4Checksum h) h)"
    by (rule checksum_verifies) (simp_all add: len vpnIPv4Checksum_def, simp_all add: h_def put_be16_def)
  moreover have "put_checksum 10 c h = [0x45, 0] @ put_be16 (of_nat len) @ [0, 0, 0, 0, 64, proto] @ put_be16 c @ put_be32 s @ put_be32 d" for c
    by (simp add: put_checksum_def h_def put_be16_def)
  ultimately show thesis using that [of "vpnIPv4Checksum h"] by (simp add: ipv4_header_def h_def Let_def)
qed

lemma unat_of_length: "n < 65536 \<Longrightarrow> unat (of_nat n :: uint16) = n"
  by (simp add: unat_of_nat)

lemma flags_clear: "be16 0 0 = 0"
  by (simp add: be16_def)

lemma parse_built:
  assumes "20 + length body = n" "n < 65536"
  shows "parseVPNWirePacket (ipv4_header proto s d n @ body) =
    parse_body (no_packet\<lparr>vw_Version := 4, vw_Protocol := proto, vw_Src := Some s, vw_Dst := Some d, vw_Size := n,
      vw_Malformed := False, vw_Fragment := False\<rparr>) body"
proof -
  obtain c where h: "ipv4_header proto s d n =
      [0x45, 0] @ put_be16 (of_nat n) @ [0, 0, 0, 0, 64, proto] @ put_be16 c @ put_be32 s @ put_be32 d"
    using ipv4_header_shape by blast
  define pkt where "pkt = ipv4_header proto s d n @ body"
  have at: "pkt ! 0 = 0x45" "be16 (pkt ! 2) (pkt ! 3) = of_nat n" "be16 (pkt ! 6) (pkt ! 7) = 0" "pkt ! 9 = proto"
    "be32 (pkt ! 12) (pkt ! 13) (pkt ! 14) (pkt ! 15) = s"
    "be32 (pkt ! 16) (pkt ! 17) (pkt ! 18) (pkt ! 19) = d"
    unfolding pkt_def h by (simp_all add: put_be16_def put_be32_def flags_clear)
  have len: "length pkt = n" "\<not> length pkt < 20" "pkt \<noteq> []" using assms(1) by (auto simp: pkt_def h)
  have body: "drop 20 pkt = body" by (simp add: pkt_def h)
  have u: "unat (of_nat n :: uint16) = n" by (rule unat_of_length) (use assms in simp)
  have n: "20 \<le> n" "\<not> n < 20" using assms(1) by simp_all
  have b0: "drop_bit 4 (0x45 :: byte) = 4" "and (0x45 :: byte) 0x0F = 5" by code_simp+
  show ?thesis unfolding pkt_def [symmetric] parseVPNWirePacket_def parse_header_def header_packet_def
    using n(1) len(1) by (simp add: b0 at len(3) body u wire_sizes Let_def)
qed

lemma pseudo_sum_le: "n < 65536 \<Longrightarrow> unat (pseudo_sum s d n) \<le> 1000000"
proof -
  assume n: "n < 65536"
  have u: "unat (ucast (w :: uint16) :: uint32) \<le> 65535" for w using port_less [of w] by (simp add: unsigned_ucast_eq take_bit_eq_mod)
  have m: "unat (of_nat n :: uint32) \<le> 65535" using n by (simp add: unat_of_nat)
  have p: "unat (ucast ProtocolUDP :: uint32) \<le> 65535" by (simp add: ProtocolUDP_def)
  have add: "unat (x + y) \<le> i + j" if "unat x \<le> i" "unat y \<le> j" for x y :: uint32 and i j
    unfolding unat_word_ariths using that by (meson add_mono le_trans mod_less_eq_dividend)
  show ?thesis unfolding pseudo_sum_def
    by (rule order_trans [OF add [OF add [OF add [OF add [OF u u] add [OF u u]] p] m]]) simp
qed



end
