(* ===== verification/VPN_Flows.thy ===== *)
theory VPN_Flows
  imports VPN_Wire "HOL-Library.AList"
begin

text \<open>
  \<^verbatim>\<open>internal/server/vpn_flows.go\<close>: the gateway's table of flows. A flow is an object that the table, the protocol relays and the
  teardown hold by pointer, so the model keeps an object store and the table's map holds references into it. Maps are
  association lists in one iteration order. A hook \<^verbatim>\<open>OnClose\<close> is a value of the type \<open>'h\<close>.

  The bulk operations detach flows under the table's lock and run their teardown after it is released, so a step of the system
  is either an operation up to the release of the lock or one teardown. The lemmas show, over every sequence of such steps,
  that the two ceilings hold, that the index by peer agrees with the table, and that every flow is closed exactly once.
\<close>

section \<open>Flows\<close>

type_synonym addr_port = "uint32 option \<times> uint16"

record flow_key =
  fk_PeerID :: string
  fk_Protocol :: string
  fk_Src :: addr_port
  fk_Dst :: addr_port

datatype flow_error = FlowCapacity | FlowTableClosed

record 'h flow_registration =
  fr_Key :: flow_key
  fr_Target :: string
  fr_Port :: int
  fr_PeerLimit :: int
  fr_OnClose :: "'h option"

record 'h vpn_flow =
  fl_id :: string
  fl_key :: flow_key
  fl_target :: string
  fl_port :: int
  fl_startedAt :: int
  fl_lastSeen :: int
  fl_bytesSent :: uint64
  fl_bytesRecv :: uint64
  fl_onClose :: "'h option"
  fl_closed :: bool

definition flow_Touch :: "int \<Rightarrow> 'h vpn_flow \<Rightarrow> 'h vpn_flow" where
  "flow_Touch now f = f\<lparr>fl_lastSeen := now\<rparr>"

definition flow_AddSent :: "int \<Rightarrow> 'h vpn_flow \<Rightarrow> 'h vpn_flow" where
  "flow_AddSent n f = (if n > 0 then f\<lparr>fl_bytesSent := fl_bytesSent f + of_int n\<rparr> else f)"

definition flow_AddReceived :: "int \<Rightarrow> 'h vpn_flow \<Rightarrow> 'h vpn_flow" where
  "flow_AddReceived n f = (if n > 0 then f\<lparr>fl_bytesRecv := fl_bytesRecv f + of_int n\<rparr> else f)"

text \<open>The hook that runs, if any: the body of \<^verbatim>\<open>closeOnce\<close> is entered once.\<close>

definition flow_Close :: "'h vpn_flow \<Rightarrow> 'h option \<times> 'h vpn_flow" where
  "flow_Close f = (if fl_closed f then (None, f) else (fl_onClose f, f\<lparr>fl_closed := True\<rparr>))"

definition idleFor :: "int \<Rightarrow> 'h vpn_flow \<Rightarrow> int" where
  "idleFor now f = now - fl_lastSeen f"

section \<open>The table\<close>

record 'h flow_table =
  ft_perPeerLimit :: int
  ft_totalLimit :: int
  ft_idle :: int
  ft_draining :: bool
  ft_flows :: "(flow_key \<times> nat) list"
  ft_byPeer :: "(string \<times> flow_key list) list"
  ft_closed :: bool
  ft_objects :: "'h vpn_flow list"

definition newVPNFlowTable :: "int \<Rightarrow> int \<Rightarrow> int \<Rightarrow> 'h flow_table" where
  "newVPNFlowTable maxPerPeer maxTotal idle =
     \<lparr>ft_perPeerLimit = max 0 maxPerPeer, ft_totalLimit = max 0 maxTotal, ft_idle = max 0 idle, ft_draining = False,
      ft_flows = [], ft_byPeer = [], ft_closed = False, ft_objects = []\<rparr>"

definition peer_keys :: "'h flow_table \<Rightarrow> string \<Rightarrow> flow_key list" where
  "peer_keys t p = (case map_of (ft_byPeer t) p of None \<Rightarrow> [] | Some ks \<Rightarrow> ks)"

definition peer_limit :: "'h flow_table \<Rightarrow> 'h flow_registration \<Rightarrow> int" where
  "peer_limit t reg =
     (if fr_PeerLimit reg > 0 \<and> (ft_perPeerLimit t \<le> 0 \<or> fr_PeerLimit reg < ft_perPeerLimit t) then fr_PeerLimit reg
      else ft_perPeerLimit t)"

definition new_flow :: "int \<Rightarrow> string \<Rightarrow> 'h flow_registration \<Rightarrow> 'h vpn_flow" where
  "new_flow now i reg =
     \<lparr>fl_id = i, fl_key = fr_Key reg, fl_target = fr_Target reg, fl_port = fr_Port reg, fl_startedAt = now, fl_lastSeen = now,
      fl_bytesSent = 0, fl_bytesRecv = 0, fl_onClose = fr_OnClose reg, fl_closed = False\<rparr>"

definition insert_flow :: "'h vpn_flow \<Rightarrow> 'h flow_table \<Rightarrow> 'h flow_table" where
  "insert_flow f t =
     t\<lparr>ft_flows := AList.update (fl_key f) (length (ft_objects t)) (ft_flows t),
       ft_byPeer := AList.update (fk_PeerID (fl_key f)) (List.insert (fl_key f) (peer_keys t (fk_PeerID (fl_key f)))) (ft_byPeer t),
       ft_objects := ft_objects t @ [f]\<rparr>"

definition register :: "int \<Rightarrow> string \<Rightarrow> 'h flow_registration \<Rightarrow> 'h flow_table \<Rightarrow> (flow_error + nat \<times> bool) \<times> 'h flow_table" where
  "register now i reg t =
     (if ft_closed t then (Inl FlowTableClosed, t)
      else (case map_of (ft_flows t) (fr_Key reg) of Some existing \<Rightarrow> (Inr (existing, False), t)
      | None \<Rightarrow>
        if ft_draining t then (Inl FlowCapacity, t)
        else if peer_limit t reg > 0 \<and> int (length (peer_keys t (fk_PeerID (fr_Key reg)))) \<ge> peer_limit t reg then (Inl FlowCapacity, t)
        else if ft_totalLimit t > 0 \<and> int (length (ft_flows t)) \<ge> ft_totalLimit t then (Inl FlowCapacity, t)
        else (Inr (length (ft_objects t), True), insert_flow (new_flow now i reg) t)))"

definition flow_lookup :: "flow_key \<Rightarrow> 'h flow_table \<Rightarrow> nat option" where
  "flow_lookup key t = map_of (ft_flows t) key"

definition detachLocked :: "flow_key \<Rightarrow> 'h flow_table \<Rightarrow> nat option \<times> 'h flow_table" where
  "detachLocked key t =
     (case map_of (ft_flows t) key of None \<Rightarrow> (None, t)
      | Some r \<Rightarrow>
        (Some r,
         t\<lparr>ft_flows := AList.delete key (ft_flows t),
           ft_byPeer :=
             (case map_of (ft_byPeer t) (fk_PeerID key) of None \<Rightarrow> ft_byPeer t
              | Some peers \<Rightarrow>
                (let rest = removeAll key peers in
                 if rest = [] then AList.delete (fk_PeerID key) (ft_byPeer t) else AList.update (fk_PeerID key) rest (ft_byPeer t)))\<rparr>))"

fun detach_all :: "flow_key list \<Rightarrow> 'h flow_table \<Rightarrow> nat list \<times> 'h flow_table" where
  "detach_all [] t = ([], t)"
| "detach_all (k # ks) t =
     (case detachLocked k t of (r, t1) \<Rightarrow>
        (case detach_all ks t1 of (rs, t2) \<Rightarrow> (case r of None \<Rightarrow> rs | Some x \<Rightarrow> x # rs, t2)))"

text \<open>What each operation does up to the release of the lock: the flows it has to close and the table.\<close>

definition remove_locked :: "flow_key \<Rightarrow> 'h flow_table \<Rightarrow> nat list \<times> 'h flow_table" where
  "remove_locked key t = (case detachLocked key t of (r, t1) \<Rightarrow> (case r of None \<Rightarrow> [] | Some x \<Rightarrow> [x], t1))"

definition closePeer_locked :: "string \<Rightarrow> 'h flow_table \<Rightarrow> nat list \<times> 'h flow_table" where
  "closePeer_locked p t =
     (case map_of (ft_byPeer t) p of None \<Rightarrow> ([], t)
      | Some peers \<Rightarrow> (case detach_all peers t of (rs, t1) \<Rightarrow> (rs, t1\<lparr>ft_byPeer := AList.delete p (ft_byPeer t1)\<rparr>)))"

definition reapIdle_locked :: "int \<Rightarrow> 'h flow_table \<Rightarrow> nat list \<times> 'h flow_table" where
  "reapIdle_locked now t =
     (if ft_idle t \<le> 0 then ([], t)
      else detach_all (map fst (filter (\<lambda>(k, r). idleFor now (ft_objects t ! r) \<ge> ft_idle t) (ft_flows t))) t)"

definition close_locked :: "'h flow_table \<Rightarrow> nat list \<times> 'h flow_table" where
  "close_locked t =
     (if ft_closed t then ([], t)
      else detach_all (map fst (ft_flows t)) (t\<lparr>ft_closed := True, ft_draining := True\<rparr>))"

definition flow_drain :: "'h flow_table \<Rightarrow> 'h flow_table" where
  "flow_drain t = t\<lparr>ft_draining := True\<rparr>"

definition flow_count :: "'h flow_table \<Rightarrow> nat" where
  "flow_count t = length (ft_flows t)"

definition countPeer :: "'h flow_table \<Rightarrow> string \<Rightarrow> nat" where
  "countPeer t p = length (peer_keys t p)"

definition close_object :: "nat \<Rightarrow> 'h flow_table \<Rightarrow> 'h option \<times> 'h flow_table" where
  "close_object r t =
     (case flow_Close (ft_objects t ! r) of (h, f) \<Rightarrow> (h, t\<lparr>ft_objects := (ft_objects t)[r := f]\<rparr>))"

fun close_objects :: "nat list \<Rightarrow> 'h flow_table \<Rightarrow> 'h list \<times> 'h flow_table" where
  "close_objects [] t = ([], t)"
| "close_objects (r # rs) t =
     (case close_object r t of (h, t1) \<Rightarrow>
        (case close_objects rs t1 of (hs, t2) \<Rightarrow> (case h of None \<Rightarrow> hs | Some x \<Rightarrow> x # hs, t2)))"

text \<open>The whole operations when nothing runs in between: the number of flows closed, the hooks that ran, the table.\<close>

definition finish_closing :: "nat list \<times> 'h flow_table \<Rightarrow> nat \<times> 'h list \<times> 'h flow_table" where
  "finish_closing x = (case x of (rs, t) \<Rightarrow> (length rs, close_objects rs t))"

definition flow_remove :: "flow_key \<Rightarrow> 'h flow_table \<Rightarrow> 'h list \<times> 'h flow_table" where
  "flow_remove key t = snd (finish_closing (remove_locked key t))"

definition closePeer :: "string \<Rightarrow> 'h flow_table \<Rightarrow> nat \<times> 'h list \<times> 'h flow_table" where
  "closePeer p t = finish_closing (closePeer_locked p t)"

definition reapIdle :: "int \<Rightarrow> 'h flow_table \<Rightarrow> nat \<times> 'h list \<times> 'h flow_table" where
  "reapIdle now t = finish_closing (reapIdle_locked now t)"

definition flow_close :: "'h flow_table \<Rightarrow> nat \<times> 'h list \<times> 'h flow_table" where
  "flow_close t = finish_closing (close_locked t)"

text \<open>The projection for the management interface, oldest flow first.\<close>

record flow_snapshot =
  fp_ID :: string
  fp_Protocol :: string
  fp_Target :: string
  fp_Port :: int
  fp_StartedAt :: int
  fp_BytesSent :: uint64
  fp_BytesReceived :: uint64

definition flow_snapshot_of :: "'h vpn_flow \<Rightarrow> flow_snapshot" where
  "flow_snapshot_of f =
     \<lparr>fp_ID = fl_id f, fp_Protocol = fk_Protocol (fl_key f), fp_Target = fl_target f, fp_Port = fl_port f, fp_StartedAt = fl_startedAt f,
      fp_BytesSent = fl_bytesSent f, fp_BytesReceived = fl_bytesRecv f\<rparr>"

definition older :: "'h vpn_flow \<Rightarrow> 'h vpn_flow \<Rightarrow> bool" where
  "older a b \<longleftrightarrow> (if fl_startedAt a = fl_startedAt b then fl_id a < fl_id b else fl_startedAt a < fl_startedAt b)"

fun insert_older :: "'h vpn_flow \<Rightarrow> 'h vpn_flow list \<Rightarrow> 'h vpn_flow list" where
  "insert_older f [] = [f]"
| "insert_older f (g # gs) = (if older f g then f # g # gs else g # insert_older f gs)"

definition snapshot :: "'h flow_table \<Rightarrow> string \<Rightarrow> flow_snapshot list" where
  "snapshot t p =
     map flow_snapshot_of (foldr insert_older (map ((!) (ft_objects t)) (List.map_filter (map_of (ft_flows t)) (peer_keys t p))) [])"

section \<open>The index by peer\<close>

definition index_ok :: "'h flow_table \<Rightarrow> bool" where
  "index_ok t \<longleftrightarrow> distinct (map fst (ft_flows t))
     \<and> (\<forall>p. distinct (peer_keys t p) \<and> set (peer_keys t p) = {k \<in> fst ` set (ft_flows t). fk_PeerID k = p})"

lemma map_of_key: "map_of xs k = None \<longleftrightarrow> k \<notin> fst ` set xs"
  by (rule map_of_eq_None_iff)

lemma delete_filter: "AList.delete k xs = filter (\<lambda>e. fst e \<noteq> k) xs"
  by (auto simp: AList.delete_eq intro: filter_cong)

lemma update_fresh: "k \<notin> fst ` set xs \<Longrightarrow> AList.update k v xs = xs @ [(k, v)]"
  by (induction xs) auto

lemma peer_keys_update [simp]:
  "peer_keys (t\<lparr>ft_byPeer := AList.update p ks m\<rparr>) q = (if q = p then ks else peer_keys (t\<lparr>ft_byPeer := m\<rparr>) q)"
  by (simp add: peer_keys_def AList.update_conv')

lemma peer_keys_delete [simp]:
  "peer_keys (t\<lparr>ft_byPeer := AList.delete p m\<rparr>) q = (if q = p then [] else peer_keys (t\<lparr>ft_byPeer := m\<rparr>) q)"
  by (simp add: peer_keys_def AList.delete_conv')

lemma peer_keys_frame [simp]:
  "peer_keys (t\<lparr>ft_flows := a\<rparr>) = peer_keys t" "peer_keys (t\<lparr>ft_objects := b\<rparr>) = peer_keys t"
  "peer_keys (t\<lparr>ft_closed := c\<rparr>) = peer_keys t" "peer_keys (t\<lparr>ft_draining := d\<rparr>) = peer_keys t"
  by (simp_all add: peer_keys_def fun_eq_iff)

text \<open>A detached flow is gone from both maps and nothing else changes.\<close>

definition same_rest :: "'h flow_table \<Rightarrow> 'h flow_table \<Rightarrow> bool" where
  "same_rest t t' \<longleftrightarrow> ft_objects t' = ft_objects t \<and> ft_perPeerLimit t' = ft_perPeerLimit t \<and> ft_totalLimit t' = ft_totalLimit t
     \<and> ft_idle t' = ft_idle t \<and> ft_closed t' = ft_closed t \<and> ft_draining t' = ft_draining t"

lemma same_rest_refl [simp]: "same_rest t t"
  by (simp add: same_rest_def)

lemma detachLocked_spec:
  assumes "index_ok t" "detachLocked k t = (r, t')"
  shows "r = map_of (ft_flows t) k" "ft_flows t' = filter (\<lambda>e. fst e \<noteq> k) (ft_flows t)"
    "peer_keys t' p = removeAll k (peer_keys t p)" "same_rest t t'" "index_ok t'"
proof -
  have keys: "set (peer_keys t p) = {k \<in> fst ` set (ft_flows t). fk_PeerID k = p}" for p using assms(1) by (simp add: index_ok_def)
  have "r = map_of (ft_flows t) k \<and> ft_flows t' = filter (\<lambda>e. fst e \<noteq> k) (ft_flows t)
    \<and> (\<forall>p. peer_keys t' p = removeAll k (peer_keys t p)) \<and> same_rest t t'"
  proof (cases "map_of (ft_flows t) k")
    case None
    then have "k \<notin> fst ` set (ft_flows t)" by (simp add: map_of_key)
    then have "filter (\<lambda>e. fst e \<noteq> k) (ft_flows t) = ft_flows t" "k \<notin> set (peer_keys t p)" for p using keys by (auto intro!: filter_True)
    then show ?thesis using None assms(2) by (simp add: detachLocked_def)
  next
    case (Some x)
    then have "k \<in> fst ` set (ft_flows t)" by (metis map_of_key option.distinct(1))
    then have "k \<in> set (peer_keys t (fk_PeerID k))" using keys by simp
    then obtain ks where ks: "map_of (ft_byPeer t) (fk_PeerID k) = Some ks" "peer_keys t (fk_PeerID k) = ks"
      by (cases "map_of (ft_byPeer t) (fk_PeerID k)") (simp_all add: peer_keys_def)
    have "k \<notin> set (peer_keys t p)" if "p \<noteq> fk_PeerID k" for p using keys that by auto
    moreover have "peer_keys (t\<lparr>ft_flows := a, ft_byPeer := ft_byPeer t\<rparr>) = peer_keys t" for a by (simp add: peer_keys_def fun_eq_iff)
    ultimately show ?thesis using Some assms(2) ks
      by (auto simp: detachLocked_def delete_filter [of k "ft_flows t"] same_rest_def Let_def)
  qed
  then show "r = map_of (ft_flows t) k" "ft_flows t' = filter (\<lambda>e. fst e \<noteq> k) (ft_flows t)"
    "peer_keys t' p = removeAll k (peer_keys t p)" "same_rest t t'" "index_ok t'"
    using assms(1) by (auto simp: index_ok_def distinct_map_filter distinct_removeAll rev_image_eqI)
qed

lemma same_rest_trans: "same_rest a b \<Longrightarrow> same_rest b c \<Longrightarrow> same_rest a c"
  by (simp add: same_rest_def)

lemma mset_delete_key:
  "distinct (map fst xs) \<Longrightarrow>
    mset (map snd xs) = mset (case map_of xs k of None \<Rightarrow> [] | Some x \<Rightarrow> [x]) + mset (map snd (filter (\<lambda>e. fst e \<noteq> k) xs))"
proof (induction xs)
  case (Cons e es)
  show ?case
  proof (cases "fst e = k")
    case True
    then have "filter (\<lambda>e. fst e \<noteq> k) es = es" using Cons.prems by (intro filter_True) (auto simp: rev_image_eqI)
    then show ?thesis using True by (cases e) simp
  next
    case False
    then show ?thesis using Cons by (cases e) (auto split: option.splits)
  qed
qed simp

lemma detach_all_spec:
  assumes "index_ok t" "detach_all ks t = (rs, t')"
  shows "ft_flows t' = filter (\<lambda>e. fst e \<notin> set ks) (ft_flows t) \<and> (\<forall>p. peer_keys t' p = filter (\<lambda>k. k \<notin> set ks) (peer_keys t p))
    \<and> same_rest t t' \<and> index_ok t' \<and> mset (map snd (ft_flows t)) = mset rs + mset (map snd (ft_flows t'))"
  using assms
proof (induction ks arbitrary: t rs)
  case (Cons k ks)
  obtain r t1 where d: "detachLocked k t = (r, t1)" by fastforce
  obtain rs1 where a: "detach_all ks t1 = (rs1, t')" and rs: "rs = (case r of None \<Rightarrow> rs1 | Some x \<Rightarrow> x # rs1)"
    using Cons.prems(2) d by (auto split: prod.splits)
  note s = detachLocked_spec [OF Cons.prems(1) d]
  note ih = Cons.IH [OF s(5) a]
  have dist: "distinct (map fst (ft_flows t))" using Cons.prems(1) by (simp add: index_ok_def)
  have "mset (map snd (ft_flows t)) = mset (case r of None \<Rightarrow> [] | Some x \<Rightarrow> [x]) + mset (map snd (ft_flows t1))"
    using mset_delete_key [OF dist] unfolding s(1,2) .
  moreover have "mset rs = mset (case r of None \<Rightarrow> [] | Some x \<Rightarrow> [x]) + mset rs1" unfolding rs by (cases r) simp_all
  ultimately have "mset (map snd (ft_flows t)) = mset rs + mset (map snd (ft_flows t'))" using ih by (simp add: ac_simps)
  moreover have "filter (\<lambda>e. fst e \<notin> set ks) (filter (\<lambda>e. fst e \<noteq> k) (ft_flows t)) = filter (\<lambda>e. fst e \<notin> set (k # ks)) (ft_flows t)"
    by (auto intro: filter_cong)
  moreover have "filter (\<lambda>j. j \<notin> set ks) (removeAll k xs) = filter (\<lambda>j. j \<notin> set (k # ks)) xs" for xs
    by (induction xs) auto
  ultimately show ?case using ih s same_rest_trans [OF s(4)] by simp
qed simp

section \<open>The table under every interleaving\<close>

record 'h flow_sys =
  fs_table :: "'h flow_table"
  fs_pending :: "nat list"
  fs_torn :: "nat list"
  fs_hooks :: "'h list"

datatype 'h flow_op =
    Register int string "'h flow_registration"
  | Remove flow_key
  | ClosePeer string
  | ReapIdle int
  | Drain
  | CloseTable
  | FinishClose nat
  | Touched nat int
  | Sent nat int
  | Received nat int

definition detach_step :: "('h flow_table \<Rightarrow> nat list \<times> 'h flow_table) \<Rightarrow> 'h flow_sys \<Rightarrow> 'h flow_sys" where
  "detach_step g s = (case g (fs_table s) of (rs, t) \<Rightarrow> s\<lparr>fs_table := t, fs_pending := fs_pending s @ rs\<rparr>)"

definition on_object :: "nat \<Rightarrow> ('h vpn_flow \<Rightarrow> 'h vpn_flow) \<Rightarrow> 'h flow_table \<Rightarrow> 'h flow_table" where
  "on_object r g t = (if r < length (ft_objects t) then t\<lparr>ft_objects := (ft_objects t)[r := g (ft_objects t ! r)]\<rparr> else t)"

text \<open>One step. A teardown runs for a flow that an operation detached and did not close yet.\<close>

definition flow_step :: "'h flow_op \<Rightarrow> 'h flow_sys \<Rightarrow> 'h flow_sys" where
  "flow_step op s =
     (case op of
        Register now i reg \<Rightarrow> s\<lparr>fs_table := snd (register now i reg (fs_table s))\<rparr>
      | Remove k \<Rightarrow> detach_step (remove_locked k) s
      | ClosePeer p \<Rightarrow> detach_step (closePeer_locked p) s
      | ReapIdle now \<Rightarrow> detach_step (reapIdle_locked now) s
      | Drain \<Rightarrow> s\<lparr>fs_table := flow_drain (fs_table s)\<rparr>
      | CloseTable \<Rightarrow> detach_step close_locked s
      | FinishClose r \<Rightarrow>
          if r \<notin> set (fs_pending s) then s
          else (case close_object r (fs_table s) of (h, t) \<Rightarrow>
            s\<lparr>fs_table := t, fs_pending := remove1 r (fs_pending s), fs_torn := fs_torn s @ [r],
              fs_hooks := fs_hooks s @ (case h of None \<Rightarrow> [] | Some x \<Rightarrow> [x])\<rparr>)
      | Touched r now \<Rightarrow> s\<lparr>fs_table := on_object r (flow_Touch now) (fs_table s)\<rparr>
      | Sent r n \<Rightarrow> s\<lparr>fs_table := on_object r (flow_AddSent n) (fs_table s)\<rparr>
      | Received r n \<Rightarrow> s\<lparr>fs_table := on_object r (flow_AddReceived n) (fs_table s)\<rparr>)"

definition flow_start :: "int \<Rightarrow> int \<Rightarrow> int \<Rightarrow> 'h flow_sys" where
  "flow_start perPeer tot idle = \<lparr>fs_table = newVPNFlowTable perPeer tot idle, fs_pending = [], fs_torn = [], fs_hooks = []\<rparr>"

definition flow_run :: "int \<Rightarrow> int \<Rightarrow> int \<Rightarrow> 'h flow_op list \<Rightarrow> 'h flow_sys" where
  "flow_run perPeer tot idle ops = fold flow_step ops (flow_start perPeer tot idle)"

definition within_limits :: "'h flow_table \<Rightarrow> bool" where
  "within_limits t \<longleftrightarrow> (0 < ft_totalLimit t \<longrightarrow> int (length (ft_flows t)) \<le> ft_totalLimit t)
     \<and> (\<forall>p. 0 < ft_perPeerLimit t \<longrightarrow> int (length (peer_keys t p)) \<le> ft_perPeerLimit t)
     \<and> (ft_closed t \<longrightarrow> ft_flows t = [])"

definition objects_ok :: "'h flow_sys \<Rightarrow> bool" where
  "objects_ok s \<longleftrightarrow>
     mset (map snd (ft_flows (fs_table s))) + mset (fs_pending s) + mset (fs_torn s) = mset [0..<length (ft_objects (fs_table s))]
     \<and> (\<forall>r < length (ft_objects (fs_table s)). fl_closed (ft_objects (fs_table s) ! r) \<longleftrightarrow> r \<in> set (fs_torn s))
     \<and> (\<forall>(k, r) \<in> set (ft_flows (fs_table s)). fl_key (ft_objects (fs_table s) ! r) = k)
     \<and> fs_hooks s = List.map_filter (\<lambda>r. fl_onClose (ft_objects (fs_table s) ! r)) (fs_torn s)"

definition flow_inv :: "'h flow_sys \<Rightarrow> bool" where
  "flow_inv s \<longleftrightarrow> index_ok (fs_table s) \<and> within_limits (fs_table s) \<and> objects_ok s"

text \<open>What the operations that detach have in common.\<close>

definition detaches :: "'h flow_table \<Rightarrow> nat list \<Rightarrow> 'h flow_table \<Rightarrow> bool" where
  "detaches t rs t' \<longleftrightarrow> index_ok t' \<and> within_limits t' \<and> set (ft_flows t') \<subseteq> set (ft_flows t) \<and> ft_objects t' = ft_objects t
     \<and> ft_totalLimit t' = ft_totalLimit t \<and> ft_perPeerLimit t' = ft_perPeerLimit t
     \<and> mset (map snd (ft_flows t)) = mset rs + mset (map snd (ft_flows t'))"

definition same_ceilings :: "'h flow_sys \<Rightarrow> 'h flow_sys \<Rightarrow> bool" where
  "same_ceilings s s' \<longleftrightarrow> ft_totalLimit (fs_table s') = ft_totalLimit (fs_table s) \<and> ft_perPeerLimit (fs_table s') = ft_perPeerLimit (fs_table s)"

lemma detach_step_inv:
  assumes "flow_inv s" "\<And>t. index_ok t \<Longrightarrow> within_limits t \<Longrightarrow> detaches t (fst (g t)) (snd (g t))"
  shows "flow_inv (detach_step g s) \<and> same_ceilings s (detach_step g s)"
proof -
  have "detaches (fs_table s) (fst (g (fs_table s))) (snd (g (fs_table s)))"
    using assms by (simp add: flow_inv_def)
  then show ?thesis using assms(1)
    by (auto simp: flow_inv_def same_ceilings_def objects_ok_def detaches_def detach_step_def ac_simps split: prod.splits)
qed

lemma fewer_within:
  assumes "within_limits t" "ft_flows t' = filter P (ft_flows t)" "\<And>p. length (peer_keys t' p) \<le> length (peer_keys t p)"
    "ft_totalLimit t' = ft_totalLimit t" "ft_perPeerLimit t' = ft_perPeerLimit t" "ft_closed t' \<longrightarrow> ft_closed t \<or> ft_flows t' = []"
  shows "within_limits t'"
proof -
  have "int (length (filter P (ft_flows t))) \<le> l" if "int (length (ft_flows t)) \<le> l" for l
    using that length_filter_le [of P "ft_flows t"] by linarith
  moreover have "int (length (peer_keys t' p)) \<le> l" if "int (length (peer_keys t p)) \<le> l" for p l using assms(3) [of p] that by simp
  ultimately show ?thesis using assms(1,4,5,6) unfolding within_limits_def assms(2) by auto
qed

lemma detach_all_detaches:
  assumes "index_ok t" "within_limits t" "detach_all ks t = (rs, t')"
  shows "detaches t rs t'"
proof -
  note d = detach_all_spec [OF assms(1,3)]
  have "within_limits t'" by (rule fewer_within [OF assms(2)]) (use d in \<open>auto simp: same_rest_def\<close>)
  then show ?thesis using d by (auto simp: detaches_def same_rest_def)
qed

lemma locked_detaches:
  assumes "index_ok t" "within_limits t"
  shows "detaches t (fst (remove_locked k t)) (snd (remove_locked k t))"
    "detaches t (fst (closePeer_locked p t)) (snd (closePeer_locked p t))"
    "detaches t (fst (reapIdle_locked now t)) (snd (reapIdle_locked now t))"
    "detaches t (fst (close_locked t)) (snd (close_locked t))"
proof -
  have refl: "detaches t [] t" using assms by (simp add: detaches_def)
  have all: "detaches t (fst (detach_all ks t)) (snd (detach_all ks t))" for ks
    using detach_all_detaches [OF assms] by (metis prod.collapse)
  show "detaches t (fst (remove_locked k t)) (snd (remove_locked k t))"
    using all [of "[k]"] by (simp add: remove_locked_def split: prod.splits option.splits)
  show "detaches t (fst (reapIdle_locked now t)) (snd (reapIdle_locked now t))"
    using all refl by (simp add: reapIdle_locked_def)
  show "detaches t (fst (closePeer_locked p t)) (snd (closePeer_locked p t))"
  proof (cases "map_of (ft_byPeer t) p")
    case (Some peers)
    obtain rs t1 where d: "detach_all peers t = (rs, t1)" by fastforce
    note s = detach_all_spec [OF assms(1) d]
    have "peer_keys t1 p = []" using s Some by (simp add: peer_keys_def)
    then have "peer_keys (t1\<lparr>ft_byPeer := AList.delete p (ft_byPeer t1)\<rparr>) = peer_keys t1" by (simp add: fun_eq_iff)
    then show ?thesis using all [of peers] d Some
      by (auto simp: closePeer_locked_def detaches_def index_ok_def within_limits_def)
  qed (simp add: closePeer_locked_def refl)
  show "detaches t (fst (close_locked t)) (snd (close_locked t))"
  proof (cases "ft_closed t")
    case False
    obtain rs t1 where d: "detach_all (map fst (ft_flows t)) (t\<lparr>ft_closed := True, ft_draining := True\<rparr>) = (rs, t1)" by fastforce
    have i: "index_ok (t\<lparr>ft_closed := True, ft_draining := True\<rparr>)" using assms(1) by (simp add: index_ok_def)
    note s = detach_all_spec [OF i d]
    have f: "ft_flows t1 = []" using s by (auto simp: filter_empty_conv)
    have "within_limits t1" by (rule fewer_within [OF assms(2), where P = "\<lambda>_. False"]) (use s f in \<open>auto simp: same_rest_def\<close>)
    then show ?thesis using s f d False by (simp add: close_locked_def detaches_def same_rest_def)
  qed (simp add: close_locked_def refl)
qed

lemma on_object_inv:
  assumes "flow_inv s" "\<And>f. fl_key (g f) = fl_key f \<and> fl_closed (g f) = fl_closed f \<and> fl_onClose (g f) = fl_onClose f"
  shows "flow_inv (s\<lparr>fs_table := on_object r g (fs_table s)\<rparr>) \<and> same_ceilings s (s\<lparr>fs_table := on_object r g (fs_table s)\<rparr>)"
proof (cases "r < length (ft_objects (fs_table s))")
  case True
  let ?xs = "ft_objects (fs_table s)" and ?ys = "(ft_objects (fs_table s))[r := g (ft_objects (fs_table s) ! r)]"
  have same: "fl_key (?ys ! i) = fl_key (?xs ! i)" "fl_closed (?ys ! i) = fl_closed (?xs ! i)" "fl_onClose (?ys ! i) = fl_onClose (?xs ! i)" for i
    using assms(2) True by (auto simp: nth_list_update)
  show ?thesis using assms(1) True unfolding on_object_def
    by (simp add: flow_inv_def objects_ok_def index_ok_def within_limits_def same same_ceilings_def)
qed (use assms in \<open>simp add: on_object_def same_ceilings_def\<close>)

lemma map_filter_cong: "(\<And>x. x \<in> set xs \<Longrightarrow> f x = g x) \<Longrightarrow> List.map_filter f xs = List.map_filter g xs"
  by (induction xs) (simp_all add: List.map_filter_simps split: option.split)

lemma map_filter_append: "List.map_filter f (xs @ ys) = List.map_filter f xs @ List.map_filter f ys"
  by (simp add: List.map_filter_def)

lemma insert_flow_inv:
  assumes "flow_inv s" "fl_key f \<notin> fst ` set (ft_flows (fs_table s))" "\<not> fl_closed f" "\<not> ft_closed (fs_table s)"
    "0 < ft_totalLimit (fs_table s) \<longrightarrow> int (length (ft_flows (fs_table s))) < ft_totalLimit (fs_table s)"
    "0 < ft_perPeerLimit (fs_table s) \<longrightarrow> int (length (peer_keys (fs_table s) (fk_PeerID (fl_key f)))) < ft_perPeerLimit (fs_table s)"
  shows "flow_inv (s\<lparr>fs_table := insert_flow f (fs_table s)\<rparr>)"
proof -
  define t where "t = fs_table s"
  have ok: "index_ok t" "within_limits t" "objects_ok s" using assms(1) by (simp_all add: flow_inv_def t_def)
  have fl: "ft_flows (insert_flow f t) = ft_flows t @ [(fl_key f, length (ft_objects t))]"
    using assms(2) by (simp add: insert_flow_def t_def update_fresh)
  have "fl_key f \<notin> set (peer_keys t (fk_PeerID (fl_key f)))" using ok(1) assms(2) by (auto simp: index_ok_def t_def)
  then have pk: "peer_keys (insert_flow f t) p = (if p = fk_PeerID (fl_key f) then fl_key f # peer_keys t p else peer_keys t p)" for p
    by (simp add: insert_flow_def List.insert_def)
  have "index_ok (insert_flow f t)" using ok(1) assms(2) [folded t_def] by (auto simp: index_ok_def fl pk)
  moreover have "within_limits (insert_flow f t)" using ok(2) assms(4-6) [folded t_def]
    by (auto simp: within_limits_def fl pk) (simp_all add: insert_flow_def)
  moreover have "objects_ok (s\<lparr>fs_table := insert_flow f t\<rparr>)"
  proof -
    let ?n = "length (ft_objects t)"
    have o: "ft_objects (insert_flow f t) = ft_objects t @ [f]" by (simp add: insert_flow_def)
    have m: "mset (map snd (ft_flows t)) + mset (fs_pending s) + mset (fs_torn s) = mset [0..<?n]"
      using ok(3) by (simp add: objects_ok_def t_def)
    have lt: "r < ?n" if "r \<in> snd ` set (ft_flows t) \<or> r \<in> set (fs_torn s)" for r
    proof -
      have "r \<in># mset [0..<?n]" unfolding m [symmetric] using that by auto
      then show ?thesis by simp
    qed
    have hooks: "List.map_filter (\<lambda>r. fl_onClose ((ft_objects t @ [f]) ! r)) (fs_torn s) = List.map_filter (\<lambda>r. fl_onClose (ft_objects t ! r)) (fs_torn s)"
      using lt by (intro map_filter_cong) (auto simp: nth_append)
    have ref: "(k, r) \<in> set (ft_flows t) \<Longrightarrow> r < ?n" for k r using lt [of r] by force
    have keys: "\<forall>(k, r) \<in> set (ft_flows t @ [(fl_key f, ?n)]). fl_key ((ft_objects t @ [f]) ! r) = k"
      using ok(3) ref by (auto simp: objects_ok_def t_def [symmetric] nth_append_left)
    have "?n \<notin> set (fs_torn s)" using lt by blast
    then have closed: "\<forall>r < Suc ?n. fl_closed ((ft_objects t @ [f]) ! r) \<longleftrightarrow> r \<in> set (fs_torn s)"
      using ok(3) assms(3) by (auto simp: objects_ok_def t_def [symmetric] nth_append less_Suc_eq)
    have "fs_hooks s = List.map_filter (\<lambda>r. fl_onClose (ft_objects t ! r)) (fs_torn s)" using ok(3) by (simp add: objects_ok_def t_def)
    then show ?thesis using m keys closed hooks by (simp add: objects_ok_def o fl ac_simps)
  qed
  ultimately show ?thesis by (simp add: flow_inv_def t_def)
qed

lemma close_step_inv:
  assumes "flow_inv s"
  shows "flow_inv (flow_step (FinishClose r) s) \<and> same_ceilings s (flow_step (FinishClose r) s)"
proof (cases "r \<in> set (fs_pending s)")
  case True
  define t where "t = fs_table s"
  let ?f = "ft_objects t ! r" and ?n = "length (ft_objects t)"
  have o: "objects_ok s" and i: "index_ok t" "within_limits t" using assms by (simp_all add: flow_inv_def t_def)
  have m: "mset (map snd (ft_flows t)) + mset (fs_pending s) + mset (fs_torn s) = mset [0..<?n]"
    using o by (simp add: objects_ok_def t_def)
  have "r \<in># mset [0..<?n]" unfolding m [symmetric] using True by simp
  then have r: "r < ?n" by simp
  have "count (mset [0..<?n]) r \<le> 1" by (metis distinct_count_atmost_1 distinct_upt order_refl zero_le)
  then have "count (mset (map snd (ft_flows t))) r + count (mset (fs_pending s)) r + count (mset (fs_torn s)) r \<le> 1"
    by (simp only: m [symmetric] count_union)
  moreover have "0 < count (mset (fs_pending s)) r" using True by (simp only: count_greater_zero_iff set_mset_mset)
  ultimately have "count (mset (fs_torn s)) r = 0" by linarith
  then have nt: "r \<notin> set (fs_torn s)" by (simp add: count_eq_zero_iff)
  then have nc: "\<not> fl_closed ?f" using o r by (simp add: objects_ok_def t_def)
  define xs where "xs = (ft_objects t)[r := ?f\<lparr>fl_closed := True\<rparr>]"
  have st: "flow_step (FinishClose r) s =
      s\<lparr>fs_table := t\<lparr>ft_objects := xs\<rparr>, fs_pending := remove1 r (fs_pending s), fs_torn := fs_torn s @ [r],
        fs_hooks := fs_hooks s @ (case fl_onClose ?f of None \<Rightarrow> [] | Some x \<Rightarrow> [x])\<rparr>"
    using True nc by (simp add: flow_step_def close_object_def flow_Close_def t_def xs_def)
  have same: "fl_key (xs ! j) = fl_key (ft_objects t ! j)" "fl_onClose (xs ! j) = fl_onClose (ft_objects t ! j)"
    "fl_closed (xs ! j) \<longleftrightarrow> j = r \<or> fl_closed (ft_objects t ! j)" for j
    using r by (auto simp: xs_def nth_list_update)
  have "mset (remove1 r (fs_pending s)) + {#r#} = mset (fs_pending s)" using True by simp
  then have m': "mset (map snd (ft_flows t)) + mset (remove1 r (fs_pending s)) + mset (fs_torn s @ [r]) = mset [0..<?n]"
    unfolding m [symmetric] by (simp add: ac_simps)
  have len: "length xs = ?n" by (simp add: xs_def)
  have "objects_ok (flow_step (FinishClose r) s)"
    using o m' len unfolding st objects_ok_def t_def [symmetric]
    by (auto simp: same len t_def [symmetric] map_filter_append List.map_filter_simps split: option.splits)
  then show ?thesis using i by (simp add: flow_inv_def st same_ceilings_def index_ok_def within_limits_def t_def [symmetric])
qed (use assms in \<open>simp add: flow_step_def same_ceilings_def\<close>)

lemma flow_step_inv:
  assumes "flow_inv s"
  shows "flow_inv (flow_step op s) \<and> same_ceilings s (flow_step op s)"
proof (cases op)
  case (Register now i reg)
  let ?t = "fs_table s"
  have "flow_inv (s\<lparr>fs_table := insert_flow (new_flow now i reg) ?t\<rparr>)"
    if "map_of (ft_flows ?t) (fr_Key reg) = None" "\<not> ft_closed ?t"
      "\<not> (peer_limit ?t reg > 0 \<and> int (length (peer_keys ?t (fk_PeerID (fr_Key reg)))) \<ge> peer_limit ?t reg)"
      "\<not> (ft_totalLimit ?t > 0 \<and> int (length (ft_flows ?t)) \<ge> ft_totalLimit ?t)"
    by (rule insert_flow_inv [OF assms]) (use that in \<open>auto simp: new_flow_def map_of_key peer_limit_def split: if_splits\<close>)
  then show ?thesis using assms Register
    by (auto simp: flow_step_def register_def same_ceilings_def insert_flow_def split: option.splits)
next
  case Drain
  then show ?thesis using assms
    by (simp add: flow_step_def flow_drain_def flow_inv_def same_ceilings_def index_ok_def within_limits_def objects_ok_def)
next
  case (FinishClose r)
  then show ?thesis using close_step_inv [OF assms] by simp
qed (simp_all add: flow_step_def detach_step_inv [OF assms locked_detaches(1)] detach_step_inv [OF assms locked_detaches(2)]
  detach_step_inv [OF assms locked_detaches(3)] detach_step_inv [OF assms locked_detaches(4)] on_object_inv [OF assms]
  flow_Touch_def flow_AddSent_def flow_AddReceived_def)

lemma flow_reach:
  fixes ops :: "'h flow_op list"
  shows "flow_inv (flow_run a b c ops) \<and> same_ceilings (flow_start a b c) (flow_run a b c ops)"
proof -
  have "flow_inv s \<Longrightarrow> flow_inv (fold flow_step ops s) \<and> same_ceilings s (fold flow_step ops s)" for s :: "'h flow_sys"
  proof (induction ops arbitrary: s)
    case (Cons op ops)
    then show ?case using flow_step_inv [OF Cons.prems, of op] by (simp add: same_ceilings_def)
  qed (simp add: same_ceilings_def)
  moreover have "flow_inv (flow_start a b c)"
    by (simp add: flow_start_def newVPNFlowTable_def flow_inv_def index_ok_def within_limits_def objects_ok_def peer_keys_def
      List.map_filter_simps) (auto simp: max_def)
  ultimately show ?thesis unfolding flow_run_def by blast
qed

lemma closePeer_empties: "peer_keys (snd (closePeer_locked p t)) p = []"
proof (cases "map_of (ft_byPeer t) p")
  case (Some peers)
  obtain rs t1 where d: "detach_all peers t = (rs, t1)" by fastforce
  show ?thesis using d Some by (simp add: closePeer_locked_def)
qed (simp add: closePeer_locked_def peer_keys_def)

text \<open>
  C29. Whatever operations run, in whatever order their teardowns interleave, the table never holds more flows than the gateway's
  ceiling, nor more of one peer than the ceiling per peer, and the index by peer lists exactly the registered flows of each peer.
\<close>

theorem flow_limits_hold:
  "(0 < tot \<longrightarrow> int (flow_count (fs_table (flow_run perPeer tot idle ops))) \<le> tot)
    \<and> (0 < perPeer \<longrightarrow> int (countPeer (fs_table (flow_run perPeer tot idle ops)) p) \<le> perPeer)
    \<and> set (peer_keys (fs_table (flow_run perPeer tot idle ops)) p)
      = {k. flow_lookup k (fs_table (flow_run perPeer tot idle ops)) \<noteq> None \<and> fk_PeerID k = p}"
proof -
  define s where "s = flow_run perPeer tot idle ops"
  have i: "flow_inv s" "same_ceilings (flow_start perPeer tot idle) s" using flow_reach by (auto simp: s_def)
  have "ft_totalLimit (fs_table s) = max 0 tot" "ft_perPeerLimit (fs_table s) = max 0 perPeer"
    using i(2) by (simp_all add: same_ceilings_def flow_start_def newVPNFlowTable_def)
  moreover have "flow_lookup k (fs_table s) \<noteq> None \<longleftrightarrow> k \<in> fst ` set (ft_flows (fs_table s))" for k
    by (simp add: flow_lookup_def map_of_key)
  ultimately show ?thesis using i(1) unfolding s_def [symmetric]
    by (auto simp: flow_inv_def within_limits_def index_ok_def flow_count_def countPeer_def)
qed

text \<open>
  C10. Every flow ever registered is in exactly one of three places: still registered, detached with its teardown about to
  run, or torn down once. So the hook of a flow runs exactly once, when it has left the table, for whichever reason; and
  closing a peer leaves none of its flows registered.
\<close>

theorem each_flow_torn_down_once:
  fixes ops :: "'h flow_op list"
  shows "mset (map snd (ft_flows (fs_table (flow_run perPeer tot idle ops)))) + mset (fs_pending (flow_run perPeer tot idle ops))
      + mset (fs_torn (flow_run perPeer tot idle ops)) = mset [0..<length (ft_objects (fs_table (flow_run perPeer tot idle ops)))]
    \<and> fs_hooks (flow_run perPeer tot idle ops)
      = List.map_filter (\<lambda>r. fl_onClose (ft_objects (fs_table (flow_run perPeer tot idle ops)) ! r)) (fs_torn (flow_run perPeer tot idle ops))
    \<and> countPeer (fs_table (flow_step (ClosePeer p) (flow_run perPeer tot idle ops))) p = 0"
proof -
  have i: "flow_inv (flow_run perPeer tot idle ops)" using flow_reach by blast
  then show ?thesis using i
    by (simp add: flow_inv_def objects_ok_def flow_step_def detach_step_def countPeer_def closePeer_empties case_prod_beta)
qed

definition sample_flow :: "char \<Rightarrow> nat flow_registration" where
  "sample_flow c =
     \<lparr>fr_Key = \<lparr>fk_PeerID = ''p'', fk_Protocol = [c], fk_Src = (Some 1, 2), fk_Dst = (Some 3, 4)\<rparr>, fr_Target = ''t'', fr_Port = 4,
      fr_PeerLimit = 0, fr_OnClose = Some 7\<rparr>"

theorem flow_limits_hold_witness:
  "int (countPeer (fs_table (flow_run 2 8 0 [Register 0 ''a'' (sample_flow CHR ''t''), Register 0 ''b'' (sample_flow CHR ''u''),
     Register 0 ''c'' (sample_flow CHR ''i'')])) ''p'') \<le> 2"
  using flow_limits_hold [of 8 2 0 "[Register 0 ''a'' (sample_flow CHR ''t''), Register 0 ''b'' (sample_flow CHR ''u''),
     Register 0 ''c'' (sample_flow CHR ''i'')]" "''p''"] by simp

end
