(* ===== verification/VPN_Denials.thy ===== *)
theory VPN_Denials
  imports VPN_Flows
begin

text \<open>
  \<^verbatim>\<open>internal/server/vpn_denials.go\<close>: refused packets are counted in windows and written to the audit log as aggregated entries. The
  map of buckets is bounded; when it is full a denial goes to the overflow bucket of its class. An audit entry is a record of
  the fields its JSON object has. A destination is the parsed packet's, an IPv4 address or none, so the branch for IPv6 is not
  reached. The aggregator has a repository to write to (without one every method is a no-op). A method runs under the aggregator's lock and writes what it returns after releasing it.

  The lemmas show that no denial is lost or counted twice, that the maps stay within their bounds, and that nothing in the log
  depends on the last byte of a destination.
\<close>

section \<open>The aggregator\<close>

definition vpnDenialSubnetBits :: nat where "vpnDenialSubnetBits = 24"
definition vpnDenialDefaultWindow :: int where "vpnDenialDefaultWindow = 60 * 1000000000"
definition vpnDenialDefaultMaxKeys :: int where "vpnDenialDefaultMaxKeys = 4096"

record vpn_denial =
  vd_PeerID :: string
  vd_Class :: error_class
  vd_Reason :: string
  vd_Protocol :: string
  vd_Dest :: "uint32 option"
  vd_Port :: int

record denial_key =
  dk_peerID :: string
  dk_class :: error_class
  dk_subnet :: string
  dk_protocol :: string

record denial_bucket =
  db_key :: denial_key
  db_reason :: string
  db_port :: int
  db_count :: nat
  db_peers :: "string list"
  db_windowStart :: int

datatype audit_scope = Aggregated nat | OnePeer string string string int

record denial_entry =
  de_resourceID :: string
  de_errorClass :: error_class
  de_count :: nat
  de_windowMs :: int
  de_reason :: "string option"
  de_scope :: audit_scope

record denial_aggregator =
  da_window :: int
  da_maxKeys :: int
  da_buckets :: "(denial_key \<times> denial_bucket) list"
  da_overflow :: "(error_class \<times> denial_bucket) list"
  da_closed :: bool

definition newDenialAggregator :: "int \<Rightarrow> int \<Rightarrow> denial_aggregator" where
  "newDenialAggregator window maxKeys =
     \<lparr>da_window = (if window \<le> 0 then vpnDenialDefaultWindow else window),
      da_maxKeys = (if maxKeys \<le> 0 then vpnDenialDefaultMaxKeys else maxKeys), da_buckets = [], da_overflow = [], da_closed = False\<rparr>"

definition vpnDenialSubnet :: "uint32 option \<Rightarrow> string" where
  "vpnDenialSubnet dest = (case dest of None \<Rightarrow> ''unknown'' | Some a \<Rightarrow> show_net (net4 a vpnDenialSubnetBits))"

definition renderLocked :: "denial_aggregator \<Rightarrow> denial_bucket \<Rightarrow> denial_entry" where
  "renderLocked a b =
     (let key = db_key b; aggregated = (dk_peerID key = []) in
      \<lparr>de_resourceID = dk_peerID key, de_errorClass = dk_class key, de_count = db_count b, de_windowMs = da_window a div 1000000,
       de_reason = (if db_reason b \<noteq> [] then Some (db_reason b) else None),
       de_scope = (if aggregated then Aggregated (length (db_peers b))
                   else OnePeer (dk_peerID key) (dk_protocol key) (dk_subnet key) (db_port b))\<rparr>)"

definition expired :: "denial_aggregator \<Rightarrow> int \<Rightarrow> denial_bucket \<Rightarrow> bool" where
  "expired a now b \<longleftrightarrow> now - db_windowStart b \<ge> da_window a"

definition sweepExpiredLocked :: "int \<Rightarrow> denial_aggregator \<Rightarrow> denial_entry list \<times> denial_aggregator" where
  "sweepExpiredLocked now a =
     (map (renderLocked a \<circ> snd) (filter (\<lambda>e. expired a now (snd e)) (da_buckets a))
        @ map (renderLocked a \<circ> snd) (filter (\<lambda>e. expired a now (snd e)) (da_overflow a)),
      a\<lparr>da_buckets := filter (\<lambda>e. \<not> expired a now (snd e)) (da_buckets a),
        da_overflow := filter (\<lambda>e. \<not> expired a now (snd e)) (da_overflow a)\<rparr>)"

definition overflow_bucket :: "vpn_denial \<Rightarrow> int \<Rightarrow> denial_bucket" where
  "overflow_bucket d now =
     \<lparr>db_key = \<lparr>dk_peerID = [], dk_class = vd_Class d, dk_subnet = [], dk_protocol = []\<rparr>, db_reason = vd_Reason d, db_port = 0,
      db_count = 1, db_peers = [vd_PeerID d], db_windowStart = now\<rparr>"

definition overflowLocked :: "vpn_denial \<Rightarrow> int \<Rightarrow> denial_aggregator \<Rightarrow> denial_entry list \<times> denial_aggregator" where
  "overflowLocked d now a =
     (case map_of (da_overflow a) (vd_Class d) of
        None \<Rightarrow> ([], a\<lparr>da_overflow := AList.update (vd_Class d) (overflow_bucket d now) (da_overflow a)\<rparr>)
      | Some b \<Rightarrow>
        if expired a now b
        then ([renderLocked a b], a\<lparr>da_overflow := AList.update (vd_Class d) (overflow_bucket d now) (AList.delete (vd_Class d) (da_overflow a))\<rparr>)
        else ([], a\<lparr>da_overflow := AList.update (vd_Class d)
            (b\<lparr>db_count := db_count b + 1,
               db_peers := (if vd_PeerID d \<noteq> [] then List.insert (vd_PeerID d) (db_peers b) else db_peers b)\<rparr>) (da_overflow a)\<rparr>))"

definition denial_key_of :: "vpn_denial \<Rightarrow> denial_key" where
  "denial_key_of d =
     \<lparr>dk_peerID = vd_PeerID d, dk_class = vd_Class d, dk_subnet = vpnDenialSubnet (vd_Dest d), dk_protocol = vd_Protocol d\<rparr>"

definition new_bucket :: "vpn_denial \<Rightarrow> int \<Rightarrow> denial_bucket" where
  "new_bucket d now =
     \<lparr>db_key = denial_key_of d, db_reason = vd_Reason d, db_port = vd_Port d, db_count = 1, db_peers = [], db_windowStart = now\<rparr>"

text \<open>The part of \<^verbatim>\<open>recordLocked\<close> after the denial's own bucket, if it had one, is found not to be open.\<close>

definition start_bucket :: "vpn_denial \<Rightarrow> int \<Rightarrow> denial_aggregator \<Rightarrow> denial_entry list \<times> denial_aggregator" where
  "start_bucket d now a =
     (if int (length (da_buckets a)) \<ge> da_maxKeys a then overflowLocked d now a
      else ([], a\<lparr>da_buckets := AList.update (denial_key_of d) (new_bucket d now) (da_buckets a)\<rparr>))"

definition recordLocked :: "vpn_denial \<Rightarrow> int \<Rightarrow> denial_aggregator \<Rightarrow> denial_entry list \<times> denial_aggregator" where
  "recordLocked d now a =
     (let (due, a1) = (if int (length (da_buckets a)) \<ge> da_maxKeys a then sweepExpiredLocked now a else ([], a)) in
      case map_of (da_buckets a1) (denial_key_of d) of
        None \<Rightarrow> (let (more, a2) = start_bucket d now a1 in (due @ more, a2))
      | Some b \<Rightarrow>
        if now - db_windowStart b < da_window a1
        then (due, a1\<lparr>da_buckets := AList.update (denial_key_of d) (b\<lparr>db_count := db_count b + 1\<rparr>) (da_buckets a1)\<rparr>)
        else (let (more, a2) = start_bucket d now (a1\<lparr>da_buckets := AList.delete (denial_key_of d) (da_buckets a1)\<rparr>)
              in (due @ [renderLocked a1 b] @ more, a2)))"

definition sweepAllLocked :: "denial_aggregator \<Rightarrow> denial_entry list \<times> denial_aggregator" where
  "sweepAllLocked a =
     (map (renderLocked a \<circ> snd) (da_buckets a) @ map (renderLocked a \<circ> snd) (da_overflow a), a\<lparr>da_buckets := [], da_overflow := []\<rparr>)"

definition Record :: "vpn_denial \<Rightarrow> int \<Rightarrow> denial_aggregator \<Rightarrow> denial_entry list \<times> denial_aggregator" where
  "Record d now a = (if da_closed a then ([], a) else recordLocked d now a)"

definition Flush :: "denial_aggregator \<Rightarrow> denial_entry list \<times> denial_aggregator" where
  "Flush a = sweepAllLocked a"

definition Close_aggregator :: "denial_aggregator \<Rightarrow> denial_entry list \<times> denial_aggregator" where
  "Close_aggregator a =
     (if da_closed a then ([], a) else (let (due, a1) = sweepAllLocked a in (due, a1\<lparr>da_closed := True\<rparr>)))"

definition pending :: "denial_aggregator \<Rightarrow> nat" where
  "pending a = length (da_buckets a) + length (da_overflow a)"

section \<open>Histories\<close>

datatype denial_op = Denied vpn_denial int | Flushed | ClosedDown

definition denial_step :: "denial_op \<Rightarrow> denial_aggregator \<Rightarrow> denial_entry list \<times> denial_aggregator" where
  "denial_step op a = (case op of Denied d now \<Rightarrow> Record d now a | Flushed \<Rightarrow> Flush a | ClosedDown \<Rightarrow> Close_aggregator a)"

text \<open>The entries written so far and the aggregator after a history; the denials accepted in it.\<close>

fun denial_run :: "denial_op list \<Rightarrow> denial_aggregator \<Rightarrow> denial_entry list \<times> denial_aggregator" where
  "denial_run [] a = ([], a)"
| "denial_run (op # ops) a = (let (due, a1) = denial_step op a; (more, a2) = denial_run ops a1 in (due @ more, a2))"

fun accepted_denials :: "denial_op list \<Rightarrow> nat" where
  "accepted_denials [] = 0"
| "accepted_denials (Denied d now # ops) = Suc (accepted_denials ops)"
| "accepted_denials (Flushed # ops) = accepted_denials ops"
| "accepted_denials (ClosedDown # ops) = 0"

definition entry_total :: "denial_entry list \<Rightarrow> nat" where
  "entry_total es = sum_list (map de_count es)"

definition held :: "denial_aggregator \<Rightarrow> nat" where
  "held a = sum_list (map (db_count \<circ> snd) (da_buckets a)) + sum_list (map (db_count \<circ> snd) (da_overflow a))"

definition denials_ok :: "denial_aggregator \<Rightarrow> bool" where
  "denials_ok a \<longleftrightarrow> distinct (map fst (da_buckets a)) \<and> distinct (map fst (da_overflow a))
     \<and> int (length (da_buckets a)) \<le> da_maxKeys a \<and> 0 < da_maxKeys a"

section \<open>Nothing is lost\<close>

lemma sum_update_fresh:
  fixes f :: "'v \<Rightarrow> nat"
  shows "map_of xs k = None \<Longrightarrow> sum_list (map (f \<circ> snd) (AList.update k v xs)) = sum_list (map (f \<circ> snd) xs) + f v"
  by (simp add: update_fresh map_of_key)

lemma sum_update_present:
  fixes f :: "'v \<Rightarrow> nat"
  shows "map_of xs k = Some b \<Longrightarrow> sum_list (map (f \<circ> snd) (AList.update k v xs)) + f b = sum_list (map (f \<circ> snd) xs) + f v"
  by (induction xs) (auto split: if_splits)

lemma sum_delete:
  fixes f :: "'v \<Rightarrow> nat"
  shows "distinct (map fst xs) \<Longrightarrow> map_of xs k = Some b \<Longrightarrow>
    sum_list (map (f \<circ> snd) (AList.delete k xs)) + f b = sum_list (map (f \<circ> snd) xs)"
proof (induction xs)
  case (Cons e xs)
  then have "fst e = k \<Longrightarrow> AList.delete k xs = xs" by (auto simp: delete_filter filter_id_conv rev_image_eqI)
  then show ?case using Cons by (cases e) auto
qed simp

lemma sum_parts:
  fixes f :: "'v \<Rightarrow> nat"
  shows "sum_list (map (f \<circ> snd) xs) =
    sum_list (map (f \<circ> snd) (filter P xs)) + sum_list (map (f \<circ> snd) (filter (\<lambda>e. \<not> P e) xs))"
  by (induction xs) auto

lemma length_update_present: "map_of xs k = Some b \<Longrightarrow> length (AList.update k v xs) = length xs"
  by (induction xs) (auto split: if_splits)

lemma entry_total_simps [simp]:
  "entry_total [] = 0" "entry_total (es @ es') = entry_total es + entry_total es'" "entry_total (renderLocked a b # es) = db_count b + entry_total es"
  "entry_total (map (renderLocked a \<circ> snd) xs) = sum_list (map (db_count \<circ> snd) xs)"
  by (simp_all add: entry_total_def renderLocked_def Let_def comp_def)

lemma overflowLocked_spec:
  assumes "denials_ok a" "overflowLocked d now a = (due, a')"
  shows "denials_ok a' \<and> entry_total due + held a' = Suc (held a)"
proof (cases "map_of (da_overflow a) (vd_Class d)")
  case None
  then show ?thesis using assms
    by (auto simp: overflowLocked_def denials_ok_def held_def sum_update_fresh distinct_update overflow_bucket_def)
next
  case (Some b)
  have dist: "distinct (map fst (da_overflow a))" using assms(1) by (simp add: denials_ok_def)
  show ?thesis
  proof (cases "expired a now b")
    case True
    have "sum_list (map (db_count \<circ> snd) (AList.delete (vd_Class d) (da_overflow a))) + db_count b = sum_list (map (db_count \<circ> snd) (da_overflow a))"
      by (rule sum_delete [OF dist Some])
    moreover have "map_of (AList.delete (vd_Class d) (da_overflow a)) (vd_Class d) = None" by (simp add: AList.delete_conv')
    ultimately show ?thesis using assms Some True dist
      by (auto simp: overflowLocked_def denials_ok_def held_def sum_update_fresh distinct_update distinct_delete overflow_bucket_def)
  next
    case False
    let ?b = "b\<lparr>db_count := db_count b + 1, db_peers := (if vd_PeerID d \<noteq> [] then List.insert (vd_PeerID d) (db_peers b) else db_peers b)\<rparr>"
    show ?thesis using assms Some False sum_update_present [OF Some, of db_count ?b]
      by (auto simp: overflowLocked_def denials_ok_def held_def distinct_update)
  qed
qed

lemma start_bucket_spec:
  assumes "denials_ok a" "map_of (da_buckets a) (denial_key_of d) = None" "start_bucket d now a = (due, a')"
  shows "denials_ok a' \<and> entry_total due + held a' = Suc (held a)"
proof (cases "int (length (da_buckets a)) \<ge> da_maxKeys a")
  case True
  then show ?thesis using assms overflowLocked_spec by (simp add: start_bucket_def)
next
  case False
  then show ?thesis using assms
    by (auto simp: start_bucket_def denials_ok_def held_def sum_update_fresh distinct_update new_bucket_def)
      (simp add: update_fresh map_of_key)
qed

lemma sweepExpired_spec:
  assumes "denials_ok a" "sweepExpiredLocked now a = (due, a')"
  shows "denials_ok a' \<and> entry_total due + held a' = held a"
proof -
  have "int (length (filter P (da_buckets a))) \<le> da_maxKeys a" for P
    using assms(1) length_filter_le [of P "da_buckets a"] unfolding denials_ok_def by linarith
  then show ?thesis using assms sum_parts [of db_count "da_buckets a" "\<lambda>e. expired a now (snd e)"]
      sum_parts [of db_count "da_overflow a" "\<lambda>e. expired a now (snd e)"]
    by (auto simp: sweepExpiredLocked_def denials_ok_def held_def distinct_map_filter)
qed

lemma recordLocked_spec:
  assumes "denials_ok a" "recordLocked d now a = (due, a')"
  shows "denials_ok a' \<and> entry_total due + held a' = Suc (held a)"
proof -
  define k where "k = denial_key_of d"
  obtain due1 a1 where s: "(if int (length (da_buckets a)) \<ge> da_maxKeys a then sweepExpiredLocked now a else ([], a)) = (due1, a1)" by fastforce
  have a1: "denials_ok a1" "entry_total due1 + held a1 = held a"
    using s sweepExpired_spec [OF assms(1)] assms(1) by (auto split: if_splits)
  show ?thesis
  proof (cases "map_of (da_buckets a1) k")
    case None
    obtain more a2 where m: "start_bucket d now a1 = (more, a2)" by fastforce
    show ?thesis using start_bucket_spec [OF a1(1) _ m] None m s assms(2) a1(2) by (auto simp: recordLocked_def k_def)
  next
    case (Some b)
    show ?thesis
    proof (cases "now - db_windowStart b < da_window a1")
      case True
      let ?b = "b\<lparr>db_count := db_count b + 1\<rparr>"
      have "due = due1" "a' = a1\<lparr>da_buckets := AList.update k ?b (da_buckets a1)\<rparr>"
        using True Some s assms(2) by (simp_all add: recordLocked_def k_def)
      then show ?thesis using a1 sum_update_present [OF Some, of db_count ?b] length_update_present [OF Some]
        by (auto simp: denials_ok_def held_def distinct_update)
    next
      case False
      let ?a = "a1\<lparr>da_buckets := AList.delete k (da_buckets a1)\<rparr>"
      obtain more a2 where m: "start_bucket d now ?a = (more, a2)" by fastforce
      have "length (AList.delete k (da_buckets a1)) \<le> length (da_buckets a1)" by (simp add: length_delete_le)
      then have ok: "denials_ok ?a" using a1(1) by (auto simp: denials_ok_def distinct_delete)
      have "held ?a + db_count b = held a1"
        using a1(1) sum_delete [OF _ Some, of db_count] by (simp add: denials_ok_def held_def)
      moreover have "map_of (da_buckets ?a) k = None" by (simp add: AList.delete_conv')
      ultimately show ?thesis using start_bucket_spec [OF ok _ m] m s assms(2) a1(2) False Some by (auto simp: recordLocked_def k_def)
    qed
  qed
qed

lemma recordLocked_frame:
  assumes "recordLocked d now a = (due, a')"
  shows "da_closed a' = da_closed a \<and> da_maxKeys a' = da_maxKeys a"
proof -
  have o: "da_closed (snd (overflowLocked d now a)) = da_closed a \<and> da_maxKeys (snd (overflowLocked d now a)) = da_maxKeys a" for a
    by (simp add: overflowLocked_def split: option.split)
  then have b: "da_closed (snd (start_bucket d now a)) = da_closed a \<and> da_maxKeys (snd (start_bucket d now a)) = da_maxKeys a" for a
    by (simp add: start_bucket_def)
  have "da_closed (snd (recordLocked d now a)) = da_closed a \<and> da_maxKeys (snd (recordLocked d now a)) = da_maxKeys a"
    by (auto simp: recordLocked_def case_prod_beta Let_def b sweepExpiredLocked_def split: option.split)
  then show ?thesis using assms by simp
qed

lemma sweepAll_spec:
  assumes "denials_ok a" "sweepAllLocked a = (due, a')"
  shows "denials_ok a'" "held a' = 0" "entry_total due = held a" "da_closed a' = da_closed a" "da_maxKeys a' = da_maxKeys a"
  using assms by (auto simp: sweepAllLocked_def denials_ok_def held_def)

lemma close_frame [simp]: "denials_ok (a\<lparr>da_closed := c\<rparr>) = denials_ok a" "held (a\<lparr>da_closed := c\<rparr>) = held a"
  by (simp_all add: denials_ok_def held_def)

lemma denial_run_spec:
  assumes "denials_ok a" "denial_run ops a = (es, a')"
  shows "denials_ok a' \<and> entry_total es + held a' = held a + (if da_closed a then 0 else accepted_denials ops)
    \<and> da_maxKeys a' = da_maxKeys a"
  using assms
proof (induction ops arbitrary: a es)
  case (Cons op ops)
  obtain due a1 more where d: "denial_step op a = (due, a1)" "denial_run ops a1 = (more, a')" "es = due @ more"
    using Cons.prems(2) by (auto split: prod.splits)
  show ?case
  proof (cases op)
    case (Denied x now)
    show ?thesis using d Denied Cons.IH [OF _ d(2)] Cons.prems(1) recordLocked_spec [OF Cons.prems(1), of x now due a1]
        recordLocked_frame [of x now a due a1]
      by (auto simp: denial_step_def Record_def split: if_splits)
  qed (use d Cons.IH [OF _ d(2)] sweepAll_spec [OF Cons.prems(1)] Cons.prems(1) in
    \<open>auto simp: denial_step_def Flush_def Close_aggregator_def split: if_splits prod.splits\<close>)
qed simp

lemma denial_run_closed:
  assumes "da_closed a \<Longrightarrow> held a = 0" "denial_run ops a = (es, a')" "da_closed a \<or> ClosedDown \<in> set ops"
  shows "held a' = 0"
  using assms
proof (induction ops arbitrary: a es)
  case (Cons op ops)
  obtain due a1 more where d: "denial_step op a = (due, a1)" "denial_run ops a1 = (more, a')"
    using Cons.prems(2) by (auto split: prod.splits)
  have "da_closed a1 \<longleftrightarrow> da_closed a \<or> op = ClosedDown" "da_closed a1 \<Longrightarrow> held a1 = 0"
    using d(1) Cons.prems(1) recordLocked_frame
    by (auto simp: denial_step_def Record_def Flush_def Close_aggregator_def sweepAllLocked_def held_def split: denial_op.splits if_splits)
  then show ?case using Cons.IH [OF _ d(2)] Cons.prems(3) by auto
qed simp

lemma error_class_bound: "distinct (cs :: error_class list) \<Longrightarrow> length cs \<le> 16"
proof -
  assume "distinct cs"
  have "c \<in> set AllErrorClasses" for c by (cases c) (simp_all add: AllErrorClasses_def)
  then have "card (set cs) \<le> card (set AllErrorClasses)" by (intro card_mono) auto
  also have "\<dots> \<le> 16" using card_length [of AllErrorClasses] by (simp add: AllErrorClasses_def)
  finally show ?thesis using \<open>distinct cs\<close> by (simp add: distinct_card)
qed

text \<open>
  C14. Every denial accepted before the aggregator is closed is counted in exactly one entry, written or still held, whatever
  the windows, the overflow and the order of records and flushes; once closed, everything is written. The buckets held never
  exceed the configured number and one per error class.
\<close>

theorem denials_conserved:
  assumes "denial_run ops (newDenialAggregator window maxKeys) = (es, a)"
  shows "entry_total es + held a = accepted_denials ops \<and> pending a \<le> nat (da_maxKeys (newDenialAggregator window maxKeys)) + 16
    \<and> (ClosedDown \<in> set ops \<longrightarrow> entry_total es = accepted_denials ops)"
proof -
  have "denials_ok (newDenialAggregator window maxKeys)"
    by (simp add: newDenialAggregator_def denials_ok_def vpnDenialDefaultMaxKeys_def)
  note r = denial_run_spec [OF this assms]
  have "entry_total es + held a = accepted_denials ops" using r by (simp add: newDenialAggregator_def held_def)
  moreover have "pending a \<le> nat (da_maxKeys (newDenialAggregator window maxKeys)) + 16"
    using r error_class_bound [of "map fst (da_overflow a)"] by (auto simp: pending_def denials_ok_def)
  moreover have "ClosedDown \<in> set ops \<Longrightarrow> held a = 0"
    using denial_run_closed [OF _ assms] by (simp add: newDenialAggregator_def)
  ultimately show ?thesis by auto
qed

definition sample_denial :: "string \<Rightarrow> vpn_denial" where
  "sample_denial peer =
     \<lparr>vd_PeerID = peer, vd_Class = ClassPortDenied, vd_Reason = ''r'', vd_Protocol = ''tcp'', vd_Dest = Some 0x0A000001, vd_Port = 22\<rparr>"

theorem denials_conserved_witness:
  "\<exists>es a. denial_run [Denied (sample_denial ''p'') 0, Denied (sample_denial ''q'') 1, Denied (sample_denial ''p'') 2, ClosedDown]
      (newDenialAggregator 0 1) = (es, a) \<and> entry_total es = 3"
proof -
  let ?ops = "[Denied (sample_denial ''p'') 0, Denied (sample_denial ''q'') 1, Denied (sample_denial ''p'') 2, ClosedDown]"
  obtain es a where r: "denial_run ?ops (newDenialAggregator 0 1) = (es, a)" by fastforce
  show ?thesis using denials_conserved [OF r] r by auto
qed

section \<open>What the log does not show\<close>

text \<open>The denial with only the first three bytes of its destination.\<close>

definition blurred :: "vpn_denial \<Rightarrow> vpn_denial" where
  "blurred d = d\<lparr>vd_Dest := map_option (masked 24) (vd_Dest d)\<rparr>"

definition blurred_op :: "denial_op \<Rightarrow> denial_op" where
  "blurred_op op = (case op of Denied d now \<Rightarrow> Denied (blurred d) now | Flushed \<Rightarrow> Flushed | ClosedDown \<Rightarrow> ClosedDown)"

lemma blurred_key: "denial_key_of (blurred d) = denial_key_of d"
  by (simp add: denial_key_of_def blurred_def vpnDenialSubnet_def vpnDenialSubnetBits_def net4_def masked_def and.assoc split: option.split)

lemma blurred_step: "denial_step (blurred_op op) a = denial_step op a"
proof -
  have f: "vd_Class (blurred d) = vd_Class d" "vd_PeerID (blurred d) = vd_PeerID d" "vd_Reason (blurred d) = vd_Reason d"
    "vd_Port (blurred d) = vd_Port d" for d by (simp_all add: blurred_def)
  have o: "overflowLocked (blurred d) now a = overflowLocked d now a" for d now a unfolding overflowLocked_def overflow_bucket_def f ..
  have b: "start_bucket (blurred d) now a = start_bucket d now a" for d now a
    unfolding start_bucket_def new_bucket_def blurred_key f o ..
  have "recordLocked (blurred d) now a = recordLocked d now a" for d now a unfolding recordLocked_def blurred_key b ..
  then show ?thesis by (simp add: denial_step_def blurred_op_def Record_def split: denial_op.split)
qed

text \<open>
  The audit log does not depend on which host of a /24 a packet was sent to: two histories that agree up to the last byte of
  each destination write the same entries.
\<close>

lemma denial_log_blind_to_host: "denial_run (map blurred_op ops) a = denial_run ops a"
  by (induction ops arbitrary: a) (simp_all add: blurred_step)

end
