(* ===== verification/Rounding.thy ===== *)
theory Rounding
  imports Complex_Main
begin

text \<open>
  Floating-point arithmetic (\<^verbatim>\<open>float64\<close>) as exact arithmetic followed by a rounding \<open>fl\<close>, which the components that compute
  with it take as a parameter. What they use of the rounding is that it is monotone and exact on integers up to 2^53.
\<close>

definition rounds :: "(rat \<Rightarrow> rat) \<Rightarrow> bool" where
  "rounds fl \<longleftrightarrow> mono fl \<and> (\<forall>i::int. \<bar>i\<bar> \<le> 2 ^ 53 \<longrightarrow> fl (of_int i) = of_int i)"

lemma rounds_exact: "rounds fl \<Longrightarrow> \<bar>i\<bar> \<le> 2 ^ 53 \<Longrightarrow> fl (of_int i) = of_int i"
  unfolding rounds_def by blast

lemma rounds_nonneg: "rounds fl \<Longrightarrow> 0 \<le> x \<Longrightarrow> 0 \<le> fl x"
proof -
  assume r: "rounds fl" and "0 \<le> x"
  then have "fl 0 \<le> fl x" by (simp add: rounds_def mono_def)
  moreover have "fl (of_int 0) = of_int 0" by (rule rounds_exact [OF r]) simp
  ultimately show ?thesis by simp
qed

lemma rounds_le: "rounds fl \<Longrightarrow> x \<le> of_int i \<Longrightarrow> \<bar>i\<bar> \<le> 2 ^ 53 \<Longrightarrow> fl x \<le> of_int i"
proof -
  assume r: "rounds fl" and "x \<le> of_int i" and i: "\<bar>i\<bar> \<le> 2 ^ 53"
  then have "fl x \<le> fl (of_int i)" unfolding rounds_def by (blast intro: monoD)
  then show ?thesis using rounds_exact [OF r i] by simp
qed

end
