(* ===== verification/VPN_Gateway.thy ===== *)
theory VPN_Gateway
  imports Rounding VPN_Denials Complex_Main
begin

text \<open>
  The gateway's packet path: the in-memory peer table (\<^verbatim>\<open>internal/server/vpn_peers.go\<close>), the per-peer rate limit
  (\<^verbatim>\<open>vpn_ratelimit.go\<close>), the pipeline every decrypted datagram takes (\<^verbatim>\<open>vpn_packet.go\<close>) and the reactions of the gateway to changes of
  a peer (the hooks of \<^verbatim>\<open>vpn_gateway.go\<close>). Clock readings are arguments; the result of each floating-point operation is the
  parameter \<open>fl\<close> of the exact one; messages that are not fixed texts are the parameter \<open>why\<close>. The WireGuard device is the list of
  requests sent to it.

  The lemmas show that the two indexes of the table agree, that a datagram is handed to a relay exactly if every check of the
  pipeline holds and otherwise counted and recorded once, that no peer is served under another's address, that the limiter
  bounds every burst, and that the device answers for exactly the keys of the peers that may be served.
\<close>

section \<open>Peer rows\<close>

definition VPNPeerStatusActive :: string where "VPNPeerStatusActive = ''active''"

record vpn_row =
  vr_ID :: string
  vr_Name :: string
  vr_PublicKey :: string
  vr_VPNIP :: string
  vr_NodeID :: string
  vr_AgentID :: string
  vr_AllowedIPs :: string
  vr_AllowedPorts :: string
  vr_AllowPrivateTargets :: bool
  vr_ICMPEnabled :: bool
  vr_MaxConcurrentFlows :: int
  vr_PacketRateLimit :: int
  vr_ExpiresAt :: "int option"
  vr_Status :: string
  vr_Description :: string

datatype table_error = RowUnusable | TableClosed

type_synonym parse6 = "string \<Rightarrow> 128 word option"

definition parse_v4 :: "parse6 \<Rightarrow> string \<Rightarrow> uint32 option" where
  "parse_v4 p6 s = (case ParseAddr p6 (TrimSpace s) of None \<Rightarrow> None | Some (w, bits) \<Rightarrow> if bits = 32 then Some (ucast w) else None)"

definition vpnPeerSpecFromRow :: "parse6 \<Rightarrow> vpn_row \<Rightarrow> table_error + peer_spec" where
  "vpnPeerSpecFromRow p6 row =
     (if TrimSpace (vr_ID row) = [] then Inl RowUnusable
      else if ValidatePublicKey (vr_PublicKey row) \<noteq> None then Inl RowUnusable
      else if TrimSpace (vr_VPNIP row) = [] then Inl RowUnusable
      else (case ParseAllowedIPs p6 (vr_AllowedIPs row) of Inl _ \<Rightarrow> Inl RowUnusable
      | Inr networks \<Rightarrow>
        if networks = [] then Inl RowUnusable
        else (case ParseAllowedPorts (vr_AllowedPorts row) of Inl _ \<Rightarrow> Inl RowUnusable
        | Inr ports \<Rightarrow>
          (case parse_v4 p6 (vr_VPNIP row) of None \<Rightarrow> Inl RowUnusable
           | Some address \<Rightarrow>
             (let spec =
                \<lparr>ps_Name = vr_Name row, ps_Description = vr_Description row, ps_PublicKey = vr_PublicKey row,
                 ps_VPNIP = Some (IP4 address), ps_NodeID = vr_NodeID row, ps_AgentID = vr_AgentID row,
                 ps_AllowedIPs = map Some networks, ps_AllowedPorts = ports, ps_AllowPrivateTargets = vr_AllowPrivateTargets row,
                 ps_ICMPEnabled = vr_ICMPEnabled row, ps_MaxConcurrentFlows = vr_MaxConcurrentFlows row,
                 ps_PacketRateLimit = vr_PacketRateLimit row, ps_ExpiresAt = vr_ExpiresAt row\<rparr> in
              if ValidateFields spec \<noteq> None then Inl RowUnusable else Inr spec)))))"

section \<open>The peer table\<close>

record peer_entry =
  pe_PeerID :: string
  pe_PublicKey :: string
  pe_VPNIP :: "uint32 option"
  pe_NodeID :: string
  pe_AgentID :: string
  pe_Status :: string
  pe_Policy :: packet_policy
  pe_PeerLimit :: int
  pe_RateLimit :: int
  pe_ICMPEnabled :: bool
  pe_ExpiresAt :: "int option"

definition no_policy :: packet_policy where
  "no_policy = \<lparr>pp_allowedIPs = [], pp_ports = [], pp_allowPrivateTargets = False, pp_icmpEnabled = False, pp_mtu = 0\<rparr>"

definition no_entry :: peer_entry where
  "no_entry =
     \<lparr>pe_PeerID = [], pe_PublicKey = [], pe_VPNIP = None, pe_NodeID = [], pe_AgentID = [], pe_Status = [], pe_Policy = no_policy,
      pe_PeerLimit = 0, pe_RateLimit = 0, pe_ICMPEnabled = False, pe_ExpiresAt = None\<rparr>"

text \<open>The class that explains why a peer may not be served, if it may not.\<close>

definition usable :: "int \<Rightarrow> peer_entry \<Rightarrow> error_class option" where
  "usable now e =
     (if pe_Status e \<noteq> VPNPeerStatusActive then Some ClassPeerRevoked
      else (case pe_ExpiresAt e of None \<Rightarrow> None | Some t \<Rightarrow> if \<not> t > now then Some ClassPeerExpired else None))"

datatype peer_event = Applied peer_entry | Removed peer_entry | KeyReplaced string string peer_entry

record peer_table =
  pt_mtu :: int
  pt_nodeID :: string
  pt_peers :: "(string \<times> peer_entry) list"
  pt_byIP :: "(uint32 option \<times> string) list"
  pt_closed :: bool

definition newVPNPeerTable :: "int \<Rightarrow> string \<Rightarrow> peer_table" where
  "newVPNPeerTable mtu node =
     \<lparr>pt_mtu = (if mtu \<le> 0 then MinTunnelMTU else mtu), pt_nodeID = node, pt_peers = [], pt_byIP = [], pt_closed = False\<rparr>"

definition row_entry :: "vpn_row \<Rightarrow> uint32 \<Rightarrow> packet_policy \<Rightarrow> peer_entry" where
  "row_entry row address policy =
     \<lparr>pe_PeerID = vr_ID row, pe_PublicKey = vr_PublicKey row, pe_VPNIP = Some address, pe_NodeID = vr_NodeID row,
      pe_AgentID = vr_AgentID row, pe_Status = vr_Status row, pe_Policy = policy, pe_PeerLimit = vr_MaxConcurrentFlows row,
      pe_RateLimit = vr_PacketRateLimit row, pe_ICMPEnabled = vr_ICMPEnabled row, pe_ExpiresAt = vr_ExpiresAt row\<rparr>"

text \<open>The update of the two indexes, and the entry that lost its address to this one.\<close>

definition displaced :: "peer_entry \<Rightarrow> peer_table \<Rightarrow> peer_entry option" where
  "displaced e t =
     (case map_of (pt_byIP t) (pe_VPNIP e) of None \<Rightarrow> None
      | Some holder \<Rightarrow> if holder \<noteq> pe_PeerID e then map_of (pt_peers t) holder else None)"

definition store_entry :: "peer_entry \<Rightarrow> peer_table \<Rightarrow> peer_table" where
  "store_entry e t =
     (let i = pe_PeerID e;
          previous = map_of (pt_peers t) i;
          peers1 = (case map_of (pt_byIP t) (pe_VPNIP e) of None \<Rightarrow> pt_peers t
                    | Some holder \<Rightarrow> if holder \<noteq> i then AList.delete holder (pt_peers t) else pt_peers t);
          byIP1 = (case previous of None \<Rightarrow> pt_byIP t
                   | Some old \<Rightarrow>
                     if pe_VPNIP old \<noteq> pe_VPNIP e \<and> map_of (pt_byIP t) (pe_VPNIP old) = Some i then AList.delete (pe_VPNIP old) (pt_byIP t)
                     else pt_byIP t) in
      t\<lparr>pt_peers := AList.update i e peers1, pt_byIP := AList.update (pe_VPNIP e) i byIP1\<rparr>)"

definition apply_events :: "int \<Rightarrow> peer_entry \<Rightarrow> peer_table \<Rightarrow> peer_event list" where
  "apply_events now e t =
     (case displaced e t of None \<Rightarrow> [] | Some d \<Rightarrow> [Removed d])
     @ (case map_of (pt_peers t) (pe_PeerID e) of None \<Rightarrow> []
        | Some old \<Rightarrow> if pe_PublicKey old \<noteq> pe_PublicKey e \<and> pe_PublicKey old \<noteq> [] then [KeyReplaced (pe_PublicKey old) (pe_PublicKey e) e] else [])
     @ (if usable now e \<noteq> None then [Removed e] else [Applied e])"

text \<open>\<open>n1\<close> is the clock before the row is stored, \<open>n2\<close> the one the policy is validated against, \<open>n3\<close> the clock after.\<close>

definition ApplyPeer :: "parse6 \<Rightarrow> int \<Rightarrow> int \<Rightarrow> int \<Rightarrow> vpn_row \<Rightarrow> peer_table \<Rightarrow> table_error option \<times> peer_event list \<times> peer_table" where
  "ApplyPeer p6 n1 n2 n3 row t =
     (if pt_closed t then (Some TableClosed, [], t)
      else if pt_nodeID t \<noteq> [] \<and> vr_NodeID row \<noteq> pt_nodeID t then (Some RowUnusable, [], t)
      else (case vpnPeerSpecFromRow p6 row of Inl e \<Rightarrow> (Some e, [], t)
      | Inr spec \<Rightarrow>
        (case parse_v4 p6 (vr_VPNIP row) of None \<Rightarrow> (Some RowUnusable, [], t)
         | Some address \<Rightarrow>
           (let entry = row_entry row address no_policy in
            case (if usable n1 entry = None then NewPacketPolicy n2 spec (pt_mtu t) else Inr no_policy) of
              Inl _ \<Rightarrow> (Some RowUnusable, [], t)
            | Inr policy \<Rightarrow>
              (let entry = entry\<lparr>pe_Policy := policy\<rparr> in (None, apply_events n3 entry t, store_entry entry t))))))"

definition RemovePeer :: "string \<Rightarrow> peer_table \<Rightarrow> peer_event list \<times> peer_table" where
  "RemovePeer peer t =
     (case map_of (pt_peers t) peer of None \<Rightarrow> ([], t)
      | Some e \<Rightarrow>
        ([Removed e],
         t\<lparr>pt_peers := AList.delete peer (pt_peers t),
           pt_byIP := (if map_of (pt_byIP t) (pe_VPNIP e) = Some peer then AList.delete (pe_VPNIP e) (pt_byIP t) else pt_byIP t)\<rparr>))"

text \<open>The entry found, if any, and the class of a refusal.\<close>

definition lookupByIP :: "int \<Rightarrow> uint32 option \<Rightarrow> peer_table \<Rightarrow> peer_entry \<times> error_class option" where
  "lookupByIP now address t =
     (if pt_closed t then (no_entry, Some ClassPeerUnknown)
      else (case map_of (pt_byIP t) address of None \<Rightarrow> (no_entry, Some ClassPeerUnknown)
      | Some peer \<Rightarrow> (let e = (case map_of (pt_peers t) peer of None \<Rightarrow> no_entry | Some e \<Rightarrow> e) in (e, usable now e))))"

definition lookupByID :: "string \<Rightarrow> peer_table \<Rightarrow> peer_entry option" where
  "lookupByID peer t = map_of (pt_peers t) peer"

definition entries :: "peer_table \<Rightarrow> peer_entry list" where
  "entries t = map snd (pt_peers t)"

definition active :: "int \<Rightarrow> peer_table \<Rightarrow> peer_entry list" where
  "active now t = filter (\<lambda>e. usable now e = None) (entries t)"

definition activeCount :: "int \<Rightarrow> peer_table \<Rightarrow> nat" where
  "activeCount now t = length (active now t)"

record peer_snapshot =
  sn_Active :: nat
  sn_Total :: nat
  sn_Addresses :: "uint32 option list"

definition SnapshotForNode :: "int \<Rightarrow> peer_table \<Rightarrow> peer_snapshot" where
  "SnapshotForNode now t =
     \<lparr>sn_Active = length (active now t), sn_Total = length (pt_peers t), sn_Addresses = map pe_VPNIP (active now t)\<rparr>"

definition close_peers :: "peer_table \<Rightarrow> peer_table" where
  "close_peers t = t\<lparr>pt_closed := True, pt_peers := [], pt_byIP := []\<rparr>"

section \<open>The rate limit\<close>

record packet_bucket =
  pb_rate :: rat
  pb_capacity :: rat
  pb_tokens :: rat
  pb_last :: int

definition newPacketBucket :: "int \<Rightarrow> int \<Rightarrow> packet_bucket" where
  "newPacketBucket rate now =
     (if rate > 0 then \<lparr>pb_rate = of_int rate, pb_capacity = of_int rate, pb_tokens = of_int rate, pb_last = now\<rparr>
      else \<lparr>pb_rate = 0, pb_capacity = 0, pb_tokens = 0, pb_last = now\<rparr>)"

text \<open>\<^verbatim>\<open>Duration.Seconds\<close>: the whole seconds plus the rest, each operation rounded.\<close>

definition seconds :: "(rat \<Rightarrow> rat) \<Rightarrow> int \<Rightarrow> rat" where
  "seconds fl d = fl (fl (of_int (d div 1000000000)) + fl (fl (of_int (d mod 1000000000)) / 1000000000))"

definition refillLocked :: "(rat \<Rightarrow> rat) \<Rightarrow> int \<Rightarrow> packet_bucket \<Rightarrow> packet_bucket" where
  "refillLocked fl now b =
     (let elapsed = now - pb_last b in
      if elapsed > 0
      then (let tokens = fl (pb_tokens b + fl (pb_rate b * seconds fl elapsed)) in
            b\<lparr>pb_last := now, pb_tokens := (if tokens > pb_capacity b then pb_capacity b else tokens)\<rparr>)
      else b)"

definition AllowN :: "(rat \<Rightarrow> rat) \<Rightarrow> int \<Rightarrow> int \<Rightarrow> packet_bucket \<Rightarrow> bool \<times> packet_bucket" where
  "AllowN fl now n b =
     (if pb_rate b \<le> 0 then (True, b)
      else if n \<le> 0 then (True, b)
      else (let b1 = refillLocked fl now b; cost = of_int n in
            if pb_tokens b1 < cost then (False, b1) else (True, b1\<lparr>pb_tokens := fl (pb_tokens b1 - cost)\<rparr>)))"

definition AllowPacket :: "(rat \<Rightarrow> rat) \<Rightarrow> int \<Rightarrow> packet_bucket \<Rightarrow> bool \<times> packet_bucket" where
  "AllowPacket fl now b = AllowN fl now 1 b"

definition available :: "(rat \<Rightarrow> rat) \<Rightarrow> int \<Rightarrow> packet_bucket \<Rightarrow> rat \<times> packet_bucket" where
  "available fl now b = (if pb_rate b \<le> 0 then (0, b) else (let b1 = refillLocked fl now b in (pb_tokens b1, b1)))"

section \<open>The gateway\<close>

datatype device_op = DeviceInstall string "uint32 option" | DeviceRemove string

text \<open>The text a request is sent as.\<close>

definition device_block :: "device_op \<Rightarrow> vpn_error + string" where
  "device_block op =
     (case op of DeviceInstall key address \<Rightarrow> RenderPeerUAPI key (map_option IP4 address) | DeviceRemove key \<Rightarrow> RenderPeerRemoveUAPI key)"

record 'h vpn_gateway =
  g_PacketRatePerPeer :: int
  g_endpoint :: bool
  g_peers :: peer_table
  g_flows :: "'h flow_sys"
  g_denials :: denial_aggregator
  g_written :: "denial_entry list"
  g_dropped :: "(string \<times> error_class) list"
  g_buckets :: "(string \<times> packet_bucket) list"
  g_selfAddress :: "uint32 option"
  g_device :: "device_op list"
  g_serveTCP :: bool
  g_serveUDP :: bool
  g_serveICMP :: bool

definition forgetBucket :: "string \<Rightarrow> 'h vpn_gateway \<Rightarrow> 'h vpn_gateway" where
  "forgetBucket peer g = g\<lparr>g_buckets := AList.delete peer (g_buckets g)\<rparr>"

text \<open>A request is sent when the endpoint is up and its text can be rendered.\<close>

definition device_send :: "device_op \<Rightarrow> 'h vpn_gateway \<Rightarrow> 'h vpn_gateway" where
  "device_send op g =
     (if g_endpoint g then (case device_block op of Inl _ \<Rightarrow> g | Inr _ \<Rightarrow> g\<lparr>g_device := g_device g @ [op]\<rparr>) else g)"

definition installDevicePeer :: "peer_entry \<Rightarrow> 'h vpn_gateway \<Rightarrow> 'h vpn_gateway" where
  "installDevicePeer e g = device_send (DeviceInstall (pe_PublicKey e) (pe_VPNIP e)) g"

definition removeDevicePeer :: "string \<Rightarrow> 'h vpn_gateway \<Rightarrow> 'h vpn_gateway" where
  "removeDevicePeer key g = device_send (DeviceRemove key) g"

definition peerApplied :: "peer_entry \<Rightarrow> 'h vpn_gateway \<Rightarrow> 'h vpn_gateway" where
  "peerApplied e g = installDevicePeer e (forgetBucket (pe_PeerID e) g)"

definition peerKeyReplaced :: "string \<Rightarrow> string \<Rightarrow> peer_entry \<Rightarrow> 'h vpn_gateway \<Rightarrow> 'h vpn_gateway" where
  "peerKeyReplaced oldKey newKey e g = removeDevicePeer oldKey g"

definition peerRemoved :: "peer_entry \<Rightarrow> 'h vpn_gateway \<Rightarrow> 'h vpn_gateway" where
  "peerRemoved e g =
     (let g1 = removeDevicePeer (pe_PublicKey e) (forgetBucket (pe_PeerID e) g) in
      g1\<lparr>g_flows := flow_step (ClosePeer (pe_PeerID e)) (g_flows g1)\<rparr>)"

definition peer_hook :: "peer_event \<Rightarrow> 'h vpn_gateway \<Rightarrow> 'h vpn_gateway" where
  "peer_hook ev g =
     (case ev of Applied e \<Rightarrow> peerApplied e g | Removed e \<Rightarrow> peerRemoved e g | KeyReplaced old new e \<Rightarrow> peerKeyReplaced old new e g)"

definition gateway_ApplyPeer :: "parse6 \<Rightarrow> int \<Rightarrow> int \<Rightarrow> int \<Rightarrow> vpn_row \<Rightarrow> 'h vpn_gateway \<Rightarrow> table_error option \<times> 'h vpn_gateway" where
  "gateway_ApplyPeer p6 n1 n2 n3 row g =
     (case ApplyPeer p6 n1 n2 n3 row (g_peers g) of (r, evs, t) \<Rightarrow> (r, fold peer_hook evs (g\<lparr>g_peers := t\<rparr>)))"

definition gateway_RemovePeer :: "string \<Rightarrow> 'h vpn_gateway \<Rightarrow> 'h vpn_gateway" where
  "gateway_RemovePeer peer g = (case RemovePeer peer (g_peers g) of (evs, t) \<Rightarrow> fold peer_hook evs (g\<lparr>g_peers := t\<rparr>))"

text \<open>A peer without a limit is served by the shared bucket of rate zero, which is not kept.\<close>

definition bucketFor :: "int \<Rightarrow> peer_entry \<Rightarrow> 'h vpn_gateway \<Rightarrow> packet_bucket option \<times> 'h vpn_gateway" where
  "bucketFor now e g =
     (let rate = (if pe_RateLimit e \<le> 0 then g_PacketRatePerPeer g else pe_RateLimit e) in
      if rate \<le> 0 then (None, g)
      else (case map_of (g_buckets g) (pe_PeerID e) of Some b \<Rightarrow> (Some b, g)
      | None \<Rightarrow> (let b = newPacketBucket rate now in (Some b, g\<lparr>g_buckets := AList.update (pe_PeerID e) b (g_buckets g)\<rparr>))))"

definition take_token :: "(rat \<Rightarrow> rat) \<Rightarrow> int \<Rightarrow> int \<Rightarrow> peer_entry \<Rightarrow> 'h vpn_gateway \<Rightarrow> bool \<times> 'h vpn_gateway" where
  "take_token fl n1 n2 e g =
     (case bucketFor n1 e g of
        (None, g1) \<Rightarrow> (fst (AllowPacket fl n2 (newPacketBucket 0 n1)), g1)
      | (Some b, g1) \<Rightarrow> (case AllowPacket fl n2 b of (ok, b1) \<Rightarrow> (ok, g1\<lparr>g_buckets := AList.update (pe_PeerID e) b1 (g_buckets g1)\<rparr>)))"

definition isSelfAddress :: "uint32 option \<Rightarrow> 'h vpn_gateway \<Rightarrow> bool" where
  "isSelfAddress address g \<longleftrightarrow> g_selfAddress g \<noteq> None \<and> g_selfAddress g = address"

section \<open>The pipeline\<close>

definition vpnProtocolUnparsed :: string where "vpnProtocolUnparsed = ''unknown''"

definition vpnProtocolLabel :: "byte \<Rightarrow> string" where
  "vpnProtocolLabel n =
     (if n = ProtocolTCP then ''tcp'' else if n = ProtocolUDP then ''udp'' else if n = ProtocolICMP then ''icmp-echo'' else vpnProtocolUnparsed)"

definition vpnPeerRefusalReason :: "error_class \<Rightarrow> string" where
  "vpnPeerRefusalReason c =
     (case c of ClassPeerRevoked \<Rightarrow> ''the peer is disabled or revoked''
      | ClassPeerExpired \<Rightarrow> ''the peer configuration has expired''
      | _ \<Rightarrow> ''the source address does not belong to a peer of this gateway'')"

definition vpnTuple :: "peer_entry \<Rightarrow> wire_packet \<Rightarrow> string \<Rightarrow> flow_key" where
  "vpnTuple e p name =
     \<lparr>fk_PeerID = pe_PeerID e, fk_Protocol = name, fk_Src = (vw_Src p, of_nat (vw_SrcPort p)), fk_Dst = (vw_Dst p, of_nat (vw_DstPort p))\<rparr>"

datatype packet_outcome =
    Unparsed wire_error
  | Refused error_class peer_entry
  | Forwarded string peer_entry wire_packet
  | Crashed

definition record_denial :: "int \<Rightarrow> vpn_denial \<Rightarrow> 'h vpn_gateway \<Rightarrow> 'h vpn_gateway" where
  "record_denial now d g =
     (case Record d now (g_denials g) of (due, a) \<Rightarrow> g\<lparr>g_denials := a, g_written := g_written g @ due\<rparr>)"

definition denyUnparsed :: "(wire_error \<Rightarrow> string) \<Rightarrow> int \<Rightarrow> wire_error \<Rightarrow> 'h vpn_gateway \<Rightarrow> packet_outcome \<times> 'h vpn_gateway" where
  "denyUnparsed txt now cause g =
     (Unparsed cause,
      record_denial now
        \<lparr>vd_PeerID = [], vd_Class = ClassProtocolUnsupported, vd_Reason = ''the datagram could not be parsed: '' @ txt cause,
         vd_Protocol = vpnProtocolUnparsed, vd_Dest = None, vd_Port = 0\<rparr>
        (g\<lparr>g_dropped := g_dropped g @ [(vpnProtocolUnparsed, ClassProtocolUnsupported)]\<rparr>))"

definition denyPacket :: "int \<Rightarrow> string \<Rightarrow> wire_packet \<Rightarrow> peer_entry \<Rightarrow> error_class \<Rightarrow> string \<Rightarrow> 'h vpn_gateway \<Rightarrow> packet_outcome \<times> 'h vpn_gateway" where
  "denyPacket now label p e class reason g =
     (Refused class e,
      record_denial now
        \<lparr>vd_PeerID = pe_PeerID e, vd_Class = class, vd_Reason = reason, vd_Protocol = label, vd_Dest = vw_Dst p, vd_Port = int (vw_DstPort p)\<rparr>
        (g\<lparr>g_dropped := g_dropped g @ [(label, class)]\<rparr>))"

definition dispatch :: "int \<Rightarrow> string \<Rightarrow> bool \<Rightarrow> string \<Rightarrow> wire_packet \<Rightarrow> peer_entry \<Rightarrow> 'h vpn_gateway \<Rightarrow> packet_outcome \<times> 'h vpn_gateway" where
  "dispatch now name installed label p e g =
     (if \<not> installed then denyPacket now label p e ClassStackError (''the '' @ name @ '' relay is not installed in this build'') g
      else (Forwarded name e p, g))"

definition relay_packet :: "int \<Rightarrow> wire_packet \<Rightarrow> peer_entry \<Rightarrow> 'h vpn_gateway \<Rightarrow> packet_outcome \<times> 'h vpn_gateway" where
  "relay_packet now p e g =
     (let label = vpnProtocolLabel (vw_Protocol p) in
      if vw_Protocol p = ProtocolTCP then dispatch now ''tcp'' (g_serveTCP g) label p e g
      else if vw_Protocol p = ProtocolUDP then dispatch now ''udp'' (g_serveUDP g) label p e g
      else if vw_Protocol p = ProtocolICMP
      then (if \<not> isICMPEchoRequest p
            then denyPacket now label p e ClassProtocolUnsupported
              (''icmp type '' @ show_nat (unat (vw_ICMPType p)) @ '' code '' @ show_nat (unat (vw_ICMPCode p)) @ '' is not relayed'') g
            else dispatch now ''icmp'' (g_serveICMP g) label p e g)
      else denyPacket now label p e ClassProtocolUnsupported (''ip protocol '' @ show_nat (unat (vw_Protocol p)) @ '' is not forwarded'') g)"

text \<open>\<open>clk\<close> gives the readings of the clock in the order they are taken: the lookup, a new bucket, the token, the denial.\<close>

definition serve_packet ::
  "(rat \<Rightarrow> rat) \<Rightarrow> (packet_policy \<Rightarrow> packet \<Rightarrow> string) \<Rightarrow> (nat \<Rightarrow> int) \<Rightarrow> wire_packet \<Rightarrow> peer_entry \<Rightarrow> 'h vpn_gateway \<Rightarrow> packet_outcome \<times> 'h vpn_gateway" where
  "serve_packet fl why clk p e g =
     (let label = vpnProtocolLabel (vw_Protocol p) in
      case take_token fl (clk 1) (clk 2) e g of (ok, g1) \<Rightarrow>
        if \<not> ok then denyPacket (clk 3) label p e ClassRateLimited ''the peer exceeded its packet rate limit'' g1
        else if isSelfAddress (vw_Dst p) g1
        then denyPacket (clk 3) label p e ClassTargetDenied ''the gateway's own vpn address is not an internal service'' g1
        else (case Allow (pe_Policy e) (policyPacket p) of
                Some class \<Rightarrow> denyPacket (clk 3) label p e class (why (pe_Policy e) (policyPacket p)) g1
              | None \<Rightarrow> relay_packet (clk 3) p e g1))"

definition handlePacket ::
  "(rat \<Rightarrow> rat) \<Rightarrow> (wire_error \<Rightarrow> string) \<Rightarrow> (packet_policy \<Rightarrow> packet \<Rightarrow> string) \<Rightarrow> (nat \<Rightarrow> int) \<Rightarrow> bytes \<Rightarrow> 'h vpn_gateway \<Rightarrow> packet_outcome \<times> 'h vpn_gateway" where
  "handlePacket fl txt why clk pkt g =
     (case parseVPNWirePacket pkt of
        Inl Panic \<Rightarrow> (Crashed, g)
      | Inl (Err cause) \<Rightarrow> denyUnparsed txt (clk 3) cause g
      | Inr p \<Rightarrow>
        (let label = vpnProtocolLabel (vw_Protocol p) in
         if vw_Fragment p
         then denyPacket (clk 3) label p (fst (lookupByIP (clk 0) (vw_Src p) (g_peers g))) ClassFragmentDropped ''fragmented packets are not forwarded'' g
         else (case lookupByIP (clk 0) (vw_Src p) (g_peers g) of
                 (e, Some class) \<Rightarrow> denyPacket (clk 3) label p e class (vpnPeerRefusalReason class) g
               | (e, None) \<Rightarrow> serve_packet fl why clk p e g)))"

section \<open>Histories of the gateway\<close>

definition vpnDefaultMTU :: int where "vpnDefaultMTU = 1420"

record gateway_config =
  gc_NodeID :: string
  gc_MTU :: int
  gc_MaxFlowsPerPeer :: int
  gc_MaxFlowsTotal :: int
  gc_IdleTimeout :: int
  gc_PacketRatePerPeer :: int

definition newVPNGateway :: "gateway_config \<Rightarrow> 'h vpn_gateway" where
  "newVPNGateway cfg =
     (let mtu = (if gc_MTU cfg < MinTunnelMTU \<or> gc_MTU cfg > MaxTunnelMTU then vpnDefaultMTU else gc_MTU cfg) in
      \<lparr>g_PacketRatePerPeer = gc_PacketRatePerPeer cfg, g_endpoint = False, g_peers = newVPNPeerTable mtu (gc_NodeID cfg),
       g_flows = flow_start (gc_MaxFlowsPerPeer cfg) (gc_MaxFlowsTotal cfg) (gc_IdleTimeout cfg),
       g_denials = newDenialAggregator vpnDenialDefaultWindow vpnDenialDefaultMaxKeys, g_written = [], g_dropped = [], g_buckets = [],
       g_selfAddress = None, g_device = [], g_serveTCP = True, g_serveUDP = True, g_serveICMP = True\<rparr>)"

definition setSelfAddress :: "uint32 option \<Rightarrow> 'h vpn_gateway \<Rightarrow> 'h vpn_gateway" where
  "setSelfAddress a g = g\<lparr>g_selfAddress := a\<rparr>"

record gateway_env =
  ge_p6 :: parse6
  ge_fl :: "rat \<Rightarrow> rat"
  ge_txt :: "wire_error \<Rightarrow> string"
  ge_why :: "packet_policy \<Rightarrow> packet \<Rightarrow> string"

datatype 'h gateway_op =
    StartEndpoint
  | SelfAddress "uint32 option"
  | ApplyRow int int int vpn_row
  | DropPeer string
  | Datagram "nat \<Rightarrow> int" bytes
  | OnFlows "'h flow_op"
  | ClosePeers

definition gateway_step :: "gateway_env \<Rightarrow> 'h gateway_op \<Rightarrow> 'h vpn_gateway \<Rightarrow> 'h vpn_gateway" where
  "gateway_step env op g =
     (case op of
        StartEndpoint \<Rightarrow> g\<lparr>g_endpoint := True\<rparr>
      | SelfAddress a \<Rightarrow> setSelfAddress a g
      | ApplyRow n1 n2 n3 row \<Rightarrow> snd (gateway_ApplyPeer (ge_p6 env) n1 n2 n3 row g)
      | DropPeer i \<Rightarrow> gateway_RemovePeer i g
      | Datagram clk pkt \<Rightarrow> snd (handlePacket (ge_fl env) (ge_txt env) (ge_why env) clk pkt g)
      | OnFlows fop \<Rightarrow> g\<lparr>g_flows := flow_step fop (g_flows g)\<rparr>
      | ClosePeers \<Rightarrow> g\<lparr>g_peers := close_peers (g_peers g)\<rparr>)"

definition gateway_run :: "gateway_env \<Rightarrow> gateway_config \<Rightarrow> 'h gateway_op list \<Rightarrow> 'h vpn_gateway" where
  "gateway_run env cfg ops = fold (gateway_step env) ops (newVPNGateway cfg)"

section \<open>The two indexes agree\<close>

definition table_inv :: "peer_table \<Rightarrow> bool" where
  "table_inv t \<longleftrightarrow>
     (\<forall>i e. map_of (pt_peers t) i = Some e \<longrightarrow> pe_PeerID e = i \<and> map_of (pt_byIP t) (pe_VPNIP e) = Some i)
     \<and> (\<forall>a i. map_of (pt_byIP t) a = Some i \<longrightarrow> (\<exists>e. map_of (pt_peers t) i = Some e \<and> pe_VPNIP e = a))"

lemma store_entry_maps:
  assumes "table_inv t"
  shows "map_of (pt_peers (store_entry e t)) j =
      (if j = pe_PeerID e then Some e else if map_of (pt_byIP t) (pe_VPNIP e) = Some j then None else map_of (pt_peers t) j)"
    "map_of (pt_byIP (store_entry e t)) a =
      (if a = pe_VPNIP e then Some (pe_PeerID e) else if map_of (pt_byIP t) a = Some (pe_PeerID e) then None else map_of (pt_byIP t) a)"
proof -
  let ?i = "pe_PeerID e"
  show "map_of (pt_peers (store_entry e t)) j =
      (if j = ?i then Some e else if map_of (pt_byIP t) (pe_VPNIP e) = Some j then None else map_of (pt_peers t) j)"
    by (auto simp: store_entry_def Let_def AList.update_conv' AList.delete_conv' split: option.split)
  have "map_of (pt_byIP t) a = Some ?i \<longleftrightarrow> (\<exists>old. map_of (pt_peers t) ?i = Some old \<and> pe_VPNIP old = a)" for a
    using assms unfolding table_inv_def by auto
  then show "map_of (pt_byIP (store_entry e t)) a =
      (if a = pe_VPNIP e then Some ?i else if map_of (pt_byIP t) a = Some ?i then None else map_of (pt_byIP t) a)"
    by (auto simp: store_entry_def Let_def AList.update_conv' AList.delete_conv' split: option.split)
qed

lemma store_entry_inv:
  assumes "table_inv t"
  shows "table_inv (store_entry e t)"
proof -
  have p: "map_of (pt_peers t) i = Some x \<Longrightarrow> pe_PeerID x = i \<and> map_of (pt_byIP t) (pe_VPNIP x) = Some i" for i x
    using assms by (simp add: table_inv_def)
  have b: "map_of (pt_byIP t) a = Some i \<Longrightarrow> \<exists>x. map_of (pt_peers t) i = Some x \<and> pe_VPNIP x = a" for a i
    using assms by (simp add: table_inv_def)
  show ?thesis unfolding table_inv_def store_entry_maps [OF assms] using p b by (auto split: if_splits) (metis option.inject)+
qed

lemma RemovePeer_inv:
  assumes "table_inv t"
  shows "table_inv (snd (RemovePeer i t))"
proof (cases "map_of (pt_peers t) i")
  case (Some e)
  then have "map_of (pt_byIP t) (pe_VPNIP e) = Some i" using assms by (simp add: table_inv_def)
  then have m: "map_of (pt_peers (snd (RemovePeer i t))) = (map_of (pt_peers t))(i := None)"
    "map_of (pt_byIP (snd (RemovePeer i t))) = (map_of (pt_byIP t))(pe_VPNIP e := None)"
    using Some by (simp_all add: RemovePeer_def AList.delete_conv')
  show ?thesis using assms Some unfolding table_inv_def m by (auto split: if_splits) (metis option.inject)+
qed (simp add: RemovePeer_def assms)

lemma ApplyPeer_cases:
  assumes "ApplyPeer p6 n1 n2 n3 row t = (r, evs, t')"
  shows "evs = [] \<and> t' = t \<or>
    (\<exists>a policy. let e = row_entry row a policy in
      r = None \<and> \<not> pt_closed t \<and> ValidatePublicKey (vr_PublicKey row) = None \<and> parse_v4 p6 (vr_VPNIP row) = Some a
      \<and> evs = apply_events n3 e t \<and> t' = store_entry e t)"
proof -
  have k: "ValidatePublicKey (vr_PublicKey row) = None" if "vpnPeerSpecFromRow p6 row = Inr spec" for spec
    using that by (auto simp: vpnPeerSpecFromRow_def split: if_splits)
  have "row_entry row a no_policy\<lparr>pe_Policy := q\<rparr> = row_entry row a q" for a q by (simp add: row_entry_def)
  then show ?thesis using assms k by (fastforce simp: ApplyPeer_def Let_def split: if_splits sum.splits option.splits)
qed

section \<open>What the pipeline lets through\<close>

text \<open>The relay a packet is handed to, if it is of a kind that is relayed.\<close>

definition relay_of :: "wire_packet \<Rightarrow> 'h vpn_gateway \<Rightarrow> string option" where
  "relay_of p g =
     (if vw_Protocol p = ProtocolTCP \<and> g_serveTCP g then Some ''tcp''
      else if vw_Protocol p = ProtocolUDP \<and> g_serveUDP g then Some ''udp''
      else if isICMPEchoRequest p \<and> g_serveICMP g then Some ''icmp'' else None)"

definition forwarded :: "packet_outcome \<Rightarrow> bool" where
  "forwarded out = (case out of Forwarded _ _ _ \<Rightarrow> True | _ \<Rightarrow> False)"

lemma record_denial_frame [simp]:
  "g_dropped (record_denial now d g) = g_dropped g" "g_peers (record_denial now d g) = g_peers g"
  "g_device (record_denial now d g) = g_device g" "g_endpoint (record_denial now d g) = g_endpoint g"
  by (simp_all add: record_denial_def split: prod.split)

lemma take_token_frame:
  assumes "take_token fl n1 n2 e g = (ok, g1)"
  shows "g_dropped g1 = g_dropped g \<and> g_peers g1 = g_peers g \<and> g_device g1 = g_device g \<and> g_endpoint g1 = g_endpoint g
    \<and> g_selfAddress g1 = g_selfAddress g \<and> relay_of p g1 = relay_of p g"
proof -
  have "\<exists>bs. snd (bucketFor n1 e g) = g\<lparr>g_buckets := bs\<rparr>"
    by (cases "map_of (g_buckets g) (pe_PeerID e)") (auto simp: bucketFor_def Let_def intro: exI [of _ "g_buckets g"])
  then obtain bs where "g1 = g\<lparr>g_buckets := bs\<rparr>"
    using assms by (cases "bucketFor n1 e g") (auto simp: take_token_def split: option.splits prod.splits)
  then show ?thesis by (simp add: relay_of_def)
qed

text \<open>One refusal: one metric, one record, nothing else of the gateway's tables.\<close>

definition refused_once :: "packet_outcome \<times> 'h vpn_gateway \<Rightarrow> 'h vpn_gateway \<Rightarrow> bool" where
  "refused_once r g \<longleftrightarrow> \<not> forwarded (fst r) \<and> fst r \<noteq> Crashed \<and> (\<exists>m. g_dropped (snd r) = g_dropped g @ [m])
     \<and> g_peers (snd r) = g_peers g \<and> g_device (snd r) = g_device g \<and> g_endpoint (snd r) = g_endpoint g"

lemma deny_once: "refused_once (denyPacket now l p e c y g) g" "refused_once (denyUnparsed txt now cause g) g"
  by (simp_all add: refused_once_def denyPacket_def denyUnparsed_def forwarded_def)

lemma relay_packet_spec:
  "case relay_of p g of None \<Rightarrow> refused_once (relay_packet now p e g) g | Some name \<Rightarrow> relay_packet now p e g = (Forwarded name e p, g)"
proof -
  have d: "ProtocolICMP \<noteq> ProtocolTCP" "ProtocolICMP \<noteq> ProtocolUDP" "ProtocolUDP \<noteq> ProtocolTCP"
    by (simp_all add: ProtocolTCP_def ProtocolUDP_def ProtocolICMP_def)
  have "isICMPEchoRequest p \<Longrightarrow> vw_Protocol p = ProtocolICMP" by (simp add: isICMPEchoRequest_def)
  then show ?thesis using d unfolding relay_of_def relay_packet_def dispatch_def Let_def by (simp add: deny_once)
qed

lemma serve_packet_spec:
  assumes "take_token fl (clk 1) (clk 2) e g = (ok, g1)"
  shows "if ok \<and> \<not> isSelfAddress (vw_Dst p) g \<and> Allow (pe_Policy e) (policyPacket p) = None \<and> relay_of p g \<noteq> None
    then serve_packet fl why clk p e g = (Forwarded (the (relay_of p g)) e p, g1)
    else refused_once (serve_packet fl why clk p e g) g"
proof -
  note f = take_token_frame [OF assms]
  have self: "isSelfAddress a g1 = isSelfAddress a g" for a using f by (simp add: isSelfAddress_def)
  have once: "refused_once r g1 \<Longrightarrow> refused_once r g" for r using f by (simp add: refused_once_def)
  have relay: "relay_of p g1 = relay_of p g" using f by simp
  show ?thesis using relay_packet_spec [of "clk 3" p e g1] unfolding serve_packet_def assms Let_def relay
    by (auto simp: self deny_once once split: option.splits)
qed

definition passes :: "(rat \<Rightarrow> rat) \<Rightarrow> (nat \<Rightarrow> int) \<Rightarrow> wire_packet \<Rightarrow> peer_entry \<Rightarrow> 'h vpn_gateway \<Rightarrow> bool" where
  "passes fl clk p e g \<longleftrightarrow> \<not> vw_Fragment p \<and> lookupByIP (clk 0) (vw_Src p) (g_peers g) = (e, None)
     \<and> fst (take_token fl (clk 1) (clk 2) e g) \<and> \<not> isSelfAddress (vw_Dst p) g \<and> Allow (pe_Policy e) (policyPacket p) = None"

lemma handle_cases:
  "(\<exists>p e name. parseVPNWirePacket pkt = Inr p \<and> passes fl clk p e g \<and> relay_of p g = Some name
      \<and> handlePacket fl txt why clk pkt g = (Forwarded name e p, snd (take_token fl (clk 1) (clk 2) e g)))
   \<or> refused_once (handlePacket fl txt why clk pkt g) g \<and> \<not> (\<exists>p e name. parseVPNWirePacket pkt = Inr p \<and> passes fl clk p e g \<and> relay_of p g = Some name)"
proof (cases "parseVPNWirePacket pkt")
  case (Inl f)
  then have "f \<noteq> Panic" using wire_parse_never_panics by blast
  then obtain c where "f = Err c" by (cases f) auto
  then show ?thesis using Inl deny_once(2) [of "txt" "clk 3" c g] by (simp add: handlePacket_def)
next
  case (Inr p)
  obtain e cl where l: "lookupByIP (clk 0) (vw_Src p) (g_peers g) = (e, cl)" by fastforce
  obtain ok g1 where t: "take_token fl (clk 1) (clk 2) e g = (ok, g1)" by fastforce
  define pass where "pass \<longleftrightarrow> \<not> vw_Fragment p \<and> cl = None \<and> ok \<and> \<not> isSelfAddress (vw_Dst p) g
    \<and> Allow (pe_Policy e) (policyPacket p) = None \<and> relay_of p g \<noteq> None"
  have r: "if pass then handlePacket fl txt why clk pkt g = (Forwarded (the (relay_of p g)) e p, g1) else refused_once (handlePacket fl txt why clk pkt g) g"
    using serve_packet_spec [OF t, of p why] unfolding handlePacket_def Inr Let_def pass_def
    by (auto simp: l deny_once split: option.splits)
  have "pass \<longleftrightarrow> passes fl clk p e g \<and> relay_of p g \<noteq> None" unfolding pass_def passes_def l t by auto
  moreover have "passes fl clk p x g \<Longrightarrow> x = e" for x by (simp add: passes_def l)
  ultimately show ?thesis using r t Inr by (cases pass) auto
qed

lemma handle_forwards:
  "fst (handlePacket fl txt why clk pkt g) = Forwarded name e p \<longleftrightarrow> parseVPNWirePacket pkt = Inr p \<and> passes fl clk p e g \<and> relay_of p g = Some name"
  using handle_cases [of pkt fl clk g "txt" why] by (fastforce simp: refused_once_def forwarded_def passes_def)

text \<open>
  C6. A datagram is handed to a relay exactly if it parses, is no fragment, comes from the address of a peer that may be served now,
  gets a token, is not for the gateway itself, is allowed by the peer's policy and is of a relayed kind; it then goes to the
  relay of its protocol under the peer found. In every other case it is dropped, counted once under one class. The
  pipeline never panics.
\<close>

theorem forwarded_exactly_if_allowed:
  "let r = handlePacket fl txt why clk pkt g in
     fst r \<noteq> Crashed
   \<and> (if forwarded (fst r) then g_dropped (snd r) = g_dropped g else \<exists>m. g_dropped (snd r) = g_dropped g @ [m])
   \<and> (\<forall>name e p. fst r = Forwarded name e p \<longleftrightarrow>
        parseVPNWirePacket pkt = Inr p \<and> \<not> vw_Fragment p \<and> lookupByIP (clk 0) (vw_Src p) (g_peers g) = (e, None)
        \<and> fst (take_token fl (clk 1) (clk 2) e g) \<and> \<not> isSelfAddress (vw_Dst p) g \<and> Allow (pe_Policy e) (policyPacket p) = None
        \<and> relay_of p g = Some name)"
proof -
  let ?r = "handlePacket fl txt why clk pkt g"
  have "fst ?r \<noteq> Crashed \<and> (if forwarded (fst ?r) then g_dropped (snd ?r) = g_dropped g else \<exists>m. g_dropped (snd ?r) = g_dropped g @ [m])"
    using handle_cases [of pkt fl clk g "txt" why]
  proof (elim disjE exE conjE)
    fix p e name assume h: "?r = (Forwarded name e p, snd (take_token fl (clk 1) (clk 2) e g))"
    have "g_dropped (snd (take_token fl (clk 1) (clk 2) e g)) = g_dropped g" using take_token_frame by (metis prod.collapse)
    then show ?thesis unfolding h by (simp add: forwarded_def)
  qed (simp add: refused_once_def)
  then show ?thesis unfolding Let_def handle_forwards passes_def by blast
qed

section \<open>The device follows the table\<close>

lemma handle_frame:
  "g_peers (snd (handlePacket fl txt why clk pkt g)) = g_peers g \<and> g_device (snd (handlePacket fl txt why clk pkt g)) = g_device g
    \<and> g_endpoint (snd (handlePacket fl txt why clk pkt g)) = g_endpoint g"
proof -
  have d: "g_peers (snd (denyPacket n l p e c y g)) = g_peers g" "g_device (snd (denyPacket n l p e c y g)) = g_device g"
    "g_endpoint (snd (denyPacket n l p e c y g)) = g_endpoint g" "g_peers (snd (denyUnparsed txt n w g)) = g_peers g"
    "g_device (snd (denyUnparsed txt n w g)) = g_device g" "g_endpoint (snd (denyUnparsed txt n w g)) = g_endpoint g" for n l p e c y w
    by (simp_all add: denyPacket_def denyUnparsed_def)
  have "g_peers (snd (serve_packet fl why clk p e g)) = g_peers g \<and> g_device (snd (serve_packet fl why clk p e g)) = g_device g
    \<and> g_endpoint (snd (serve_packet fl why clk p e g)) = g_endpoint g" for p e
  proof -
    obtain ok g1 where t: "take_token fl (clk 1) (clk 2) e g = (ok, g1)" by fastforce
    show ?thesis using serve_packet_spec [OF t, of p why] take_token_frame [OF t] by (auto simp: refused_once_def split: if_splits)
  qed
  then show ?thesis by (simp add: handlePacket_def Let_def d split: sum.splits fault.splits prod.splits option.splits)
qed

text \<open>The device identifies a peer by its key, whatever its spelling.\<close>

definition device_apply :: "device_op \<Rightarrow> (key_error + bytes \<rightharpoonup> uint32 option) \<Rightarrow> (key_error + bytes \<rightharpoonup> uint32 option)" where
  "device_apply op m =
     (case op of DeviceInstall key address \<Rightarrow> m(decodeKey key \<mapsto> address) | DeviceRemove key \<Rightarrow> m(decodeKey key := None))"

definition device_map :: "device_op list \<Rightarrow> (key_error + bytes \<rightharpoonup> uint32 option)" where
  "device_map ops = fold device_apply ops (\<lambda>_. None)"

definition device_request :: "peer_event \<Rightarrow> device_op" where
  "device_request ev =
     (case ev of Applied e \<Rightarrow> DeviceInstall (pe_PublicKey e) (pe_VPNIP e) | Removed e \<Rightarrow> DeviceRemove (pe_PublicKey e)
      | KeyReplaced old new e \<Rightarrow> DeviceRemove old)"

lemma valid_key_renders:
  assumes "ValidatePublicKey k = None"
  shows "\<exists>t. device_block (DeviceRemove k) = Inr t" "\<exists>t. device_block (DeviceInstall k (Some a)) = Inr t" "k \<noteq> []"
proof -
  obtain raw where d: "decodeKey k = Inr raw" using assms by (auto simp: ValidatePublicKey_def split: sum.splits)
  then have "peerKeyHex k = Inr (hex_encode raw)" using assms by (simp add: peerKeyHex_def EncodeKeyHex_def)
  then show "\<exists>t. device_block (DeviceRemove k) = Inr t" "\<exists>t. device_block (DeviceInstall k (Some a)) = Inr t"
    by (simp_all add: device_block_def RenderPeerRemoveUAPI_def RenderPeerUAPI_def peerAddress_def)
  show "k \<noteq> []" using assms using d by (auto simp: decodeKey_def b64_decode_def keySize_def)
qed

lemma fold_hooks:
  assumes "\<forall>ev \<in> set evs. \<exists>t. device_block (device_request ev) = Inr t" "g_endpoint g"
  shows "g_device (fold peer_hook evs g) = g_device g @ map device_request evs \<and> g_peers (fold peer_hook evs g) = g_peers g
    \<and> g_endpoint (fold peer_hook evs g)"
  using assms
proof (induction evs arbitrary: g)
  case (Cons ev evs)
  have "g_device (peer_hook ev g) = g_device g @ [device_request ev] \<and> g_peers (peer_hook ev g) = g_peers g \<and> g_endpoint (peer_hook ev g)"
    using Cons.prems
    by (cases ev) (auto simp: peer_hook_def peerApplied_def peerRemoved_def peerKeyReplaced_def installDevicePeer_def removeDevicePeer_def
      device_send_def forgetBucket_def device_request_def Let_def)
  then show ?case using Cons by simp
qed simp

definition entries_ok :: "peer_table \<Rightarrow> bool" where
  "entries_ok t \<longleftrightarrow>
     (\<forall>i e. map_of (pt_peers t) i = Some e \<longrightarrow> ValidatePublicKey (pe_PublicKey e) = None \<and> pe_VPNIP e \<noteq> None)
     \<and> (\<forall>i j e f. map_of (pt_peers t) i = Some e \<longrightarrow> map_of (pt_peers t) j = Some f \<longrightarrow>
          decodeKey (pe_PublicKey e) = decodeKey (pe_PublicKey f) \<longrightarrow> i = j)"

definition mirrors :: "(key_error + bytes \<rightharpoonup> uint32 option) \<Rightarrow> peer_table \<Rightarrow> bool" where
  "mirrors m t \<longleftrightarrow>
     (\<forall>k a. m k = Some a \<longrightarrow> (\<exists>i e. map_of (pt_peers t) i = Some e \<and> decodeKey (pe_PublicKey e) = k \<and> pe_VPNIP e = a \<and> pe_Status e = VPNPeerStatusActive))
     \<and> (\<forall>i e. map_of (pt_peers t) i = Some e \<longrightarrow> pe_Status e = VPNPeerStatusActive \<longrightarrow> pe_ExpiresAt e = None \<longrightarrow>
          m (decodeKey (pe_PublicKey e)) = Some (pe_VPNIP e))"

definition key_unused :: "string \<Rightarrow> string \<Rightarrow> peer_table \<Rightarrow> bool" where
  "key_unused i key t \<longleftrightarrow> (\<forall>(j, e) \<in> set (pt_peers t). j \<noteq> i \<longrightarrow> decodeKey (pe_PublicKey e) \<noteq> decodeKey key)"

lemma key_unusedD: "key_unused i key t \<Longrightarrow> map_of (pt_peers t) j = Some e \<Longrightarrow> j \<noteq> i \<Longrightarrow> decodeKey (pe_PublicKey e) \<noteq> decodeKey key"
  by (auto simp: key_unused_def dest: map_of_SomeD)

lemma store_entry_ok:
  assumes "table_inv t" "entries_ok t" "key_unused (pe_PeerID e) (pe_PublicKey e) t" "ValidatePublicKey (pe_PublicKey e) = None" "pe_VPNIP e \<noteq> None"
  shows "entries_ok (store_entry e t)"
  using assms key_unusedD [OF assms(3)] unfolding entries_ok_def store_entry_maps [OF assms(1)] by (auto split: if_splits) metis+

lemma apply_events_device:
  "fold device_apply (map device_request (apply_events n3 e t)) m =
    (let m1 = (case displaced e t of None \<Rightarrow> m | Some d \<Rightarrow> m(decodeKey (pe_PublicKey d) := None));
         m2 = (case map_of (pt_peers t) (pe_PeerID e) of None \<Rightarrow> m1
               | Some old \<Rightarrow> if pe_PublicKey old \<noteq> pe_PublicKey e \<and> pe_PublicKey old \<noteq> [] then m1(decodeKey (pe_PublicKey old) := None) else m1) in
     m2(decodeKey (pe_PublicKey e) := (if usable n3 e = None then Some (pe_VPNIP e) else None)))"
  by (simp add: apply_events_def device_request_def device_apply_def Let_def split: option.split)

lemma apply_mirrors:
  assumes "table_inv t" "entries_ok t" "mirrors m t" "key_unused (pe_PeerID e) (pe_PublicKey e) t"
  shows "mirrors (fold device_apply (map device_request (apply_events n3 e t)) m) (store_entry e t)"
proof -
  let ?m = "fold device_apply (map device_request (apply_events n3 e t)) m" and ?k = "decodeKey (pe_PublicKey e)"
  have holder: "displaced e t = Some d \<longleftrightarrow> (\<exists>j. map_of (pt_byIP t) (pe_VPNIP e) = Some j \<and> j \<noteq> pe_PeerID e \<and> map_of (pt_peers t) j = Some d)" for d
    by (auto simp: displaced_def split: option.split)
  have ne: "map_of (pt_peers t) i = Some x \<Longrightarrow> pe_PublicKey x \<noteq> []" for i x using assms(2) valid_key_renders(3) by (auto simp: entries_ok_def)
  have stays: "?m (decodeKey (pe_PublicKey x)) = m (decodeKey (pe_PublicKey x))"
    if x: "map_of (pt_peers t) j = Some x" "j \<noteq> pe_PeerID e" "map_of (pt_byIP t) (pe_VPNIP e) \<noteq> Some j" for j x
  proof -
    have "decodeKey (pe_PublicKey x) \<noteq> decodeKey (pe_PublicKey y)" if "map_of (pt_peers t) i = Some y" "i \<noteq> j" for i y
      using assms(2) x(1) that unfolding entries_ok_def by metis
    then show ?thesis using x holder key_unusedD [OF assms(4) x(1,2)] unfolding apply_events_device Let_def
      by (auto split: option.splits)
  qed
  have gone: "?m k = None" if "map_of (pt_peers t) j = Some x" "j = pe_PeerID e \<or> map_of (pt_byIP t) (pe_VPNIP e) = Some j"
    "k = decodeKey (pe_PublicKey x)" "k \<noteq> ?k" for j x k
  proof (cases "j = pe_PeerID e")
    case True
    then have old: "map_of (pt_peers t) (pe_PeerID e) = Some x" "pe_PublicKey x \<noteq> pe_PublicKey e" "pe_PublicKey x \<noteq> []"
      using that ne by auto
    show ?thesis unfolding apply_events_device Let_def old(1) option.case using old that(3,4) by simp
  next
    case False
    then have d: "displaced e t = Some x" using that(1,2) holder by blast
    show ?thesis unfolding apply_events_device Let_def d option.case using that(3,4) by (simp split: option.split)
  qed
  have new: "?m ?k = (if usable n3 e = None then Some (pe_VPNIP e) else None)" unfolding apply_events_device Let_def by simp
  have other: "k \<noteq> ?k \<Longrightarrow> ?m k = Some a \<Longrightarrow> m k = Some a" for k a
    unfolding apply_events_device Let_def by (auto split: option.splits if_splits)
  have act: "usable n3 e = None \<Longrightarrow> pe_Status e = VPNPeerStatusActive" "pe_Status e = VPNPeerStatusActive \<Longrightarrow> pe_ExpiresAt e = None \<Longrightarrow> usable n3 e = None"
    by (auto simp: usable_def split: if_splits)
  show ?thesis unfolding mirrors_def
  proof (intro conjI allI impI)
    fix k a assume k: "?m k = Some a"
    show "\<exists>i x. map_of (pt_peers (store_entry e t)) i = Some x \<and> decodeKey (pe_PublicKey x) = k \<and> pe_VPNIP x = a \<and> pe_Status x = VPNPeerStatusActive"
    proof (cases "k = ?k")
      case True
      then show ?thesis using k new act(1) store_entry_maps(1) [OF assms(1), of e "pe_PeerID e"] by (auto split: if_splits)
    next
      case False
      then obtain j x where x: "map_of (pt_peers t) j = Some x" "decodeKey (pe_PublicKey x) = k" "pe_VPNIP x = a" "pe_Status x = VPNPeerStatusActive"
        using other [OF False k] assms(3) unfolding mirrors_def by metis
      then have "j \<noteq> pe_PeerID e" "map_of (pt_byIP t) (pe_VPNIP e) \<noteq> Some j" using gone [OF x(1) _ x(2) [symmetric] False] k by auto
      then show ?thesis using x store_entry_maps(1) [OF assms(1), of e j] by (intro exI [of _ j] exI [of _ x]) simp
    qed
  next
    fix i x assume x: "map_of (pt_peers (store_entry e t)) i = Some x" "pe_Status x = VPNPeerStatusActive" "pe_ExpiresAt x = None"
    show "?m (decodeKey (pe_PublicKey x)) = Some (pe_VPNIP x)"
    proof (cases "i = pe_PeerID e")
      case True
      then show ?thesis using x new act(2) store_entry_maps(1) [OF assms(1), of e i] by simp
    next
      case False
      then have "map_of (pt_peers t) i = Some x" "map_of (pt_byIP t) (pe_VPNIP e) \<noteq> Some i"
        using x(1) store_entry_maps(1) [OF assms(1), of e i] by (auto split: if_splits)
      then show ?thesis using stays False x(2,3) assms(3) unfolding mirrors_def by metis
    qed
  qed
qed

lemma remove_mirrors:
  assumes "table_inv t" "entries_ok t" "mirrors m t"
  shows "mirrors (fold device_apply (map device_request (fst (RemovePeer i t))) m) (snd (RemovePeer i t))" "entries_ok (snd (RemovePeer i t))"
proof -
  have "mirrors (fold device_apply (map device_request (fst (RemovePeer i t))) m) (snd (RemovePeer i t)) \<and> entries_ok (snd (RemovePeer i t))"
  proof (cases "map_of (pt_peers t) i")
    case (Some e)
    let ?k = "decodeKey (pe_PublicKey e)"
    have p: "map_of (pt_peers (snd (RemovePeer i t))) = (map_of (pt_peers t))(i := None)"
      and d: "fold device_apply (map device_request (fst (RemovePeer i t))) m = m(?k := None)"
      using Some by (simp_all add: RemovePeer_def AList.delete_conv' device_request_def device_apply_def)
    have "decodeKey (pe_PublicKey x) \<noteq> ?k" if "map_of (pt_peers t) j = Some x" "j \<noteq> i" for j x
      using assms(2) that Some unfolding entries_ok_def by metis
    then have "mirrors (m(?k := None)) (snd (RemovePeer i t))"
      using assms(3) Some unfolding mirrors_def p by (auto split: if_splits) (metis option.inject)+
    moreover have "entries_ok (snd (RemovePeer i t))" using assms(2) unfolding entries_ok_def p by (auto split: if_splits)
    ultimately show ?thesis by (simp add: d)
  qed (simp add: RemovePeer_def assms)
  then show "mirrors (fold device_apply (map device_request (fst (RemovePeer i t))) m) (snd (RemovePeer i t))" "entries_ok (snd (RemovePeer i t))"
    by simp_all
qed

lemma hooks_keep_peers: "g_peers (fold peer_hook evs g) = g_peers g"
proof (induction evs arbitrary: g)
  case (Cons ev evs)
  have "g_peers (device_send op g) = g_peers g" for op and g :: "'a vpn_gateway" by (simp add: device_send_def split: sum.split)
  then have "g_peers (peer_hook ev g) = g_peers g"
    by (cases ev) (simp_all add: peer_hook_def peerApplied_def peerRemoved_def peerKeyReplaced_def installDevicePeer_def removeDevicePeer_def
      forgetBucket_def Let_def)
  then show ?case using Cons by simp
qed simp

lemma gateway_step_peers:
  assumes "table_inv (g_peers g)"
  shows "table_inv (g_peers (gateway_step env op g))"
proof (cases op)
  case (ApplyRow n1 n2 n3 row)
  obtain r evs t where a: "ApplyPeer (ge_p6 env) n1 n2 n3 row (g_peers g) = (r, evs, t)" by (metis prod_cases3)
  then have "t = g_peers g \<or> (\<exists>e. t = store_entry e (g_peers g))" using ApplyPeer_cases [OF a] by (auto simp: Let_def)
  then have "table_inv t" using assms store_entry_inv by auto
  then show ?thesis by (simp add: ApplyRow gateway_step_def gateway_ApplyPeer_def a hooks_keep_peers)
next
  case (DropPeer i)
  then show ?thesis using RemovePeer_inv [OF assms] by (simp add: gateway_step_def gateway_RemovePeer_def hooks_keep_peers case_prod_beta)
qed (use assms in \<open>simp_all add: gateway_step_def setSelfAddress_def close_peers_def table_inv_def handle_frame\<close>)

lemma gateway_run_peers: "table_inv (g_peers (gateway_run env cfg ops))"
proof -
  have "table_inv (g_peers g) \<Longrightarrow> table_inv (g_peers (fold (gateway_step env) ops g))" for g :: "'h vpn_gateway" and ops
    by (induction ops arbitrary: g) (simp_all add: gateway_step_peers)
  moreover have "table_inv (g_peers (newVPNGateway cfg))" by (simp add: newVPNGateway_def newVPNPeerTable_def table_inv_def Let_def)
  ultimately show ?thesis by (simp add: gateway_run_def)
qed

text \<open>
  C7. Whatever management writes and packets came before, a datagram is only ever served under the peer that holds its source address:
  the entry it is forwarded with is the one the table holds under its own id, has the packet's source as its tunnel address, is
  active and has not expired at the time of the lookup.
\<close>

theorem served_under_own_address:
  assumes "fst (handlePacket (ge_fl env) (ge_txt env) (ge_why env) clk pkt (gateway_run env cfg ops)) = Forwarded name e p"
  shows "parseVPNWirePacket pkt = Inr p \<and> pe_VPNIP e = vw_Src p \<and> lookupByID (pe_PeerID e) (g_peers (gateway_run env cfg ops)) = Some e
    \<and> pe_Status e = VPNPeerStatusActive \<and> (\<forall>t. pe_ExpiresAt e = Some t \<longrightarrow> clk 0 < t)"
proof -
  define g where "g = gateway_run env cfg ops"
  have inv: "table_inv (g_peers g)" by (simp add: g_def gateway_run_peers)
  have l: "parseVPNWirePacket pkt = Inr p \<and> lookupByIP (clk 0) (vw_Src p) (g_peers g) = (e, None)"
    using assms [folded g_def] unfolding handle_forwards passes_def by blast
  then have u: "usable (clk 0) e = None" and b: "\<exists>i. map_of (pt_byIP (g_peers g)) (vw_Src p) = Some i"
    by (auto simp: lookupByIP_def Let_def split: if_splits option.splits)
  then obtain i where i: "map_of (pt_byIP (g_peers g)) (vw_Src p) = Some i" by blast
  then obtain x where x: "map_of (pt_peers (g_peers g)) i = Some x" "pe_VPNIP x = vw_Src p" using inv unfolding table_inv_def by blast
  have "x = e" "pe_PeerID x = i" using l i x inv by (auto simp: lookupByIP_def Let_def table_inv_def split: if_splits)
  then show ?thesis using x l u unfolding g_def [symmetric] by (auto simp: lookupByID_def usable_def split: if_splits option.splits)
qed

text \<open>
  Along a history: the endpoint is up, no key that is applied belongs to another peer (the column is unique and its values are
  canonical encodings), and the table is not closed.
\<close>

fun keys_distinct :: "gateway_env \<Rightarrow> 'h gateway_op list \<Rightarrow> 'h vpn_gateway \<Rightarrow> bool" where
  "keys_distinct env [] g = True"
| "keys_distinct env (op # ops) g =
     ((case op of ApplyRow n1 n2 n3 row \<Rightarrow> key_unused (vr_ID row) (vr_PublicKey row) (g_peers g) | ClosePeers \<Rightarrow> False | _ \<Rightarrow> True)
      \<and> keys_distinct env ops (gateway_step env op g))"

definition gateway_ok :: "'h vpn_gateway \<Rightarrow> bool" where
  "gateway_ok g \<longleftrightarrow> g_endpoint g \<and> table_inv (g_peers g) \<and> entries_ok (g_peers g) \<and> mirrors (device_map (g_device g)) (g_peers g)"

lemma device_map_append: "device_map (xs @ ys) = fold device_apply ys (device_map xs)"
  by (simp add: device_map_def)

lemma events_render:
  assumes "entries_ok t" "ValidatePublicKey (pe_PublicKey e) = None" "pe_VPNIP e \<noteq> None"
  shows "\<forall>ev \<in> set (apply_events n3 e t). \<exists>x. device_block (device_request ev) = Inr x"
proof -
  have k: "map_of (pt_peers t) i = Some x \<Longrightarrow> \<exists>b. device_block (DeviceRemove (pe_PublicKey x)) = Inr b" for i x
    using assms(1) valid_key_renders(1) by (simp add: entries_ok_def)
  obtain a where "pe_VPNIP e = Some a" using assms(3) by auto
  then show ?thesis using k valid_key_renders [OF assms(2)]
    by (auto simp: apply_events_def displaced_def device_request_def split: option.splits if_splits)
qed

lemma gateway_step_ok:
  assumes "gateway_ok g" "keys_distinct env [op] g"
  shows "gateway_ok (gateway_step env op g)"
proof (cases op)
  case (ApplyRow n1 n2 n3 row)
  let ?t = "g_peers g"
  have g: "g_endpoint g" "table_inv ?t" "entries_ok ?t" "mirrors (device_map (g_device g)) ?t" using assms(1) by (simp_all add: gateway_ok_def)
  obtain r evs t where a: "ApplyPeer (ge_p6 env) n1 n2 n3 row ?t = (r, evs, t)" by (metis prod_cases3)
  consider "evs = []" "t = ?t" | a q where "evs = apply_events n3 (row_entry row a q) ?t" "t = store_entry (row_entry row a q) ?t"
    "ValidatePublicKey (vr_PublicKey row) = None"
    using ApplyPeer_cases [OF a] by (auto simp: Let_def)
  then show ?thesis
  proof cases
    case 1
    then show ?thesis using assms(1) a by (simp add: ApplyRow gateway_step_def gateway_ApplyPeer_def)
  next
    case (2 b q)
    let ?e = "row_entry row b q"
    have e: "pe_PeerID ?e = vr_ID row" "pe_PublicKey ?e = vr_PublicKey row" "pe_VPNIP ?e \<noteq> None" by (simp_all add: row_entry_def)
    have u: "key_unused (pe_PeerID ?e) (pe_PublicKey ?e) ?t" using assms(2) ApplyRow by (simp add: e)
    have v: "ValidatePublicKey (pe_PublicKey ?e) = None" using 2 by (simp add: e)
    have "g_endpoint (g\<lparr>g_peers := t\<rparr>)" using g(1) by simp
    note h = fold_hooks [OF events_render [OF g(3) v e(3)] this, of n3, folded 2(1)]
    have "gateway_ok (fold peer_hook evs (g\<lparr>g_peers := t\<rparr>))"
      unfolding gateway_ok_def device_map_append [symmetric]
      using h store_entry_inv [OF g(2)] store_entry_ok [OF g(2,3) u v e(3)] apply_mirrors [OF g(2,3,4) u]
      by (simp add: 2(1,2) device_map_append)
    then show ?thesis by (simp add: ApplyRow gateway_step_def gateway_ApplyPeer_def a)
  qed
next
  case (DropPeer i)
  let ?t = "g_peers g"
  have g: "g_endpoint g" "table_inv ?t" "entries_ok ?t" "mirrors (device_map (g_device g)) ?t" using assms(1) by (simp_all add: gateway_ok_def)
  have "\<forall>ev \<in> set (fst (RemovePeer i ?t)). \<exists>x. device_block (device_request ev) = Inr x"
    using g(3) valid_key_renders(1) by (auto simp: RemovePeer_def device_request_def entries_ok_def split: option.splits)
  note h = fold_hooks [OF this, of "g\<lparr>g_peers := snd (RemovePeer i ?t)\<rparr>"]
  show ?thesis using h g RemovePeer_inv [OF g(2)] remove_mirrors [OF g(2,3,4)]
    by (simp add: DropPeer gateway_step_def gateway_RemovePeer_def gateway_ok_def case_prod_beta device_map_append)
qed (use assms in \<open>simp_all add: gateway_step_def gateway_ok_def setSelfAddress_def handle_frame\<close>)


section \<open>The limiter bounds every burst\<close>

text \<open>The number of packets let through by calls at the given clock readings.\<close>

fun admitted :: "(rat \<Rightarrow> rat) \<Rightarrow> int list \<Rightarrow> packet_bucket \<Rightarrow> nat" where
  "admitted fl [] b = 0"
| "admitted fl (now # ns) b = (case AllowPacket fl now b of (ok, b1) \<Rightarrow> (if ok then 1 else 0) + admitted fl ns b1)"

definition bucket_ok :: "packet_bucket \<Rightarrow> int \<Rightarrow> bool" where
  "bucket_ok b rate \<longleftrightarrow> 0 < rate \<and> rate \<le> 2 ^ 53 \<and> pb_rate b = of_int rate \<and> pb_capacity b = of_int rate \<and> 0 \<le> pb_tokens b \<and> pb_tokens b \<le> of_int rate"

lemma refill_ok:
  assumes "rounds fl" "bucket_ok b rate"
  shows "bucket_ok (refillLocked fl now b) rate"
proof -
  have "0 \<le> seconds fl d" if "0 < d" for d
    unfolding seconds_def using that by (intro rounds_nonneg [OF assms(1)] add_nonneg_nonneg divide_nonneg_nonneg) simp_all
  then have "0 \<le> fl (pb_tokens b + fl (pb_rate b * seconds fl d))" if "0 < d" for d
    using that assms(2) by (intro rounds_nonneg [OF assms(1)] add_nonneg_nonneg mult_nonneg_nonneg) (simp_all add: bucket_ok_def)
  then show ?thesis using assms(2) by (simp add: refillLocked_def bucket_ok_def Let_def)
qed

lemma refill_last: "now \<le> pb_last b \<Longrightarrow> refillLocked fl now b = b"
  by (simp add: refillLocked_def Let_def)

lemma spend_bound:
  assumes "rounds fl" "bucket_ok b rate" "now \<le> pb_last b" "pb_tokens b \<le> of_int k" "0 \<le> k" "k \<le> rate"
  shows "admitted fl (replicate n now) b \<le> nat k"
  using assms(2-6)
proof (induction n arbitrary: b k)
  case (Suc n)
  have pos: "\<not> pb_rate b \<le> 0" using Suc.prems(1) by (simp add: bucket_ok_def)
  show ?case
  proof (cases "pb_tokens b < 1")
    case True
    then have "AllowPacket fl now b = (False, b)" using Suc.prems(2) pos by (simp add: AllowPacket_def AllowN_def refill_last Let_def)
    then show ?thesis using Suc.IH [OF Suc.prems] by simp
  next
    case False
    let ?b = "b\<lparr>pb_tokens := fl (pb_tokens b - 1)\<rparr>"
    have a: "AllowPacket fl now b = (True, ?b)" using Suc.prems(2) pos False by (simp add: AllowPacket_def AllowN_def refill_last Let_def)
    have "1 \<le> k" using False Suc.prems(3) by (metis linorder_not_less of_int_le_1_iff of_int_less_1_iff order_trans)
    have "fl (pb_tokens b - 1) \<le> fl (of_int (k - 1))" using assms(1) Suc.prems(3) by (auto simp: rounds_def mono_def)
    also have "\<dots> = of_int (k - 1)" using Suc.prems(1,5) \<open>1 \<le> k\<close> by (intro rounds_exact [OF assms(1)]) (simp add: bucket_ok_def)
    finally have t: "pb_tokens ?b \<le> of_int (k - 1)" by simp
    have "0 \<le> pb_tokens ?b" using rounds_nonneg [OF assms(1), of "pb_tokens b - 1"] False by simp
    moreover have "(of_int (k - 1) :: rat) \<le> of_int rate" using Suc.prems(5) by simp
    ultimately have "bucket_ok ?b rate" using Suc.prems(1) t unfolding bucket_ok_def by simp
    then have "admitted fl (replicate n now) ?b \<le> nat (k - 1)" using Suc.prems \<open>1 \<le> k\<close> t by (intro Suc.IH) simp_all
    then show ?thesis using a \<open>1 \<le> k\<close> by simp
  qed
qed simp

text \<open>
  However many packets a peer sends at one reading of the clock, and whatever the bucket held and however the arithmetic
  rounds, no more than one second's worth of its rate is let through, and the bucket never holds less than nothing or more
  than its capacity.
\<close>

lemma burst_bounded:
  assumes "rounds fl" "bucket_ok b rate"
  shows "admitted fl (replicate n now) b \<le> nat rate \<and> bucket_ok (snd (AllowPacket fl now b)) rate"
proof
  have pos: "\<not> pb_rate b \<le> 0" "0 \<le> rate" using assms(2) by (simp_all add: bucket_ok_def)
  let ?b = "refillLocked fl now b"
  have r: "bucket_ok ?b rate" by (rule refill_ok [OF assms])
  have last: "now \<le> pb_last ?b" by (simp add: refillLocked_def Let_def)
  have rate: "pb_rate ?b = pb_rate b" using r assms(2) by (simp add: bucket_ok_def)
  have same: "AllowPacket fl now b = AllowPacket fl now ?b"
    using rate pos(1) by (simp add: AllowPacket_def AllowN_def refill_last [OF last] Let_def)
  have "pb_tokens ?b \<le> of_int rate" using r by (simp add: bucket_ok_def)
  then have "admitted fl (replicate n now) ?b \<le> nat rate" using spend_bound [OF assms(1) r last] pos(2) by blast
  moreover have "admitted fl (replicate n now) b = admitted fl (replicate n now) ?b" using same by (cases n) simp_all
  ultimately show "admitted fl (replicate n now) b \<le> nat rate" by simp
  have "fl (pb_tokens ?b - 1) \<le> of_int rate" if "1 \<le> pb_tokens ?b"
  proof -
    have "pb_tokens ?b - 1 \<le> of_int rate" using r by (simp add: bucket_ok_def)
    then have "fl (pb_tokens ?b - 1) \<le> fl (of_int rate)" using assms(1) by (simp add: rounds_def mono_def)
    also have "\<dots> = of_int rate" using r by (intro rounds_exact [OF assms(1)]) (simp add: bucket_ok_def)
    finally show ?thesis .
  qed
  then show "bucket_ok (snd (AllowPacket fl now b)) rate"
    using r rounds_nonneg [OF assms(1), of "pb_tokens ?b - 1"] pos
    by (auto simp: AllowPacket_def AllowN_def Let_def not_less) (simp_all add: bucket_ok_def)
qed

section \<open>A run\<close>

definition sample_row :: vpn_row where
  "sample_row =
     \<lparr>vr_ID = ''p'', vr_Name = ''n'', vr_PublicKey = EncodeKey (replicate 32 2), vr_VPNIP = show_ip 0x0A000002, vr_NodeID = ''x'',
      vr_AgentID = ''a'', vr_AllowedIPs = show_net (net4 0 0), vr_AllowedPorts = [], vr_AllowPrivateTargets = True, vr_ICMPEnabled = False,
      vr_MaxConcurrentFlows = 0, vr_PacketRateLimit = 0, vr_ExpiresAt = None, vr_Status = ''active'', vr_Description = []\<rparr>"

definition sample_cfg :: gateway_config where
  "sample_cfg = \<lparr>gc_NodeID = ''x'', gc_MTU = 1420, gc_MaxFlowsPerPeer = 8, gc_MaxFlowsTotal = 8, gc_IdleTimeout = 0, gc_PacketRatePerPeer = 0\<rparr>"

definition sample_genv :: gateway_env where
  "sample_genv = \<lparr>ge_p6 = (\<lambda>_. None), ge_fl = id, ge_txt = (\<lambda>_. []), ge_why = (\<lambda>_ _. [])\<rparr>"

text \<open>A UDP datagram from the sample peer to 10.1.5.7, port 80.\<close>

definition sample_datagram :: bytes where
  "sample_datagram = [0x45, 0, 0, 28, 0, 0, 0, 0, 64, 17, 0, 0, 10, 0, 0, 2, 10, 1, 5, 7, 3, 232, 0, 80, 0, 8, 0, 0]"

definition sample_policy :: packet_policy where
  "sample_policy = \<lparr>pp_allowedIPs = [Some (net4 0 0)], pp_ports = [], pp_allowPrivateTargets = True, pp_icmpEnabled = False, pp_mtu = 1420\<rparr>"

lemma sample_row_parts:
  "ValidatePublicKey (vr_PublicKey sample_row) = None" "parse_v4 p6 (vr_VPNIP sample_row) = Some 0x0A000002"
  "ParseAllowedIPs p6 (vr_AllowedIPs sample_row) = Inr [net4 0 0]" "ParseAllowedPorts (vr_AllowedPorts sample_row) = Inr []"
  "TrimSpace (vr_ID sample_row) = ''p''" "TrimSpace (vr_VPNIP sample_row) \<noteq> []"
proof -
  show "ValidatePublicKey (vr_PublicKey sample_row) = None"
    by (simp add: sample_row_def ValidatePublicKey_def isAllZero_def x25519_import_def list_all_iff)
  have ne: "show_ip a \<noteq> []" for a using show_ip_dot [of a] by auto
  have g: "graphic c" if "c \<in> set (show_ip a)" for a c using show_ip_chars [OF that] digit_graphic [of c] by (auto simp: graphic_def)
  have t: "TrimSpace (show_ip a) = show_ip a" for a
    by (rule TrimSpace_graphic [OF ne g [OF hd_in_set [OF ne]] g [OF last_in_set [OF ne]]])
  show "parse_v4 p6 (vr_VPNIP sample_row) = Some 0x0A000002" by (simp add: sample_row_def parse_v4_def t mapped_def)
  show "TrimSpace (vr_VPNIP sample_row) \<noteq> []" by (simp add: sample_row_def t ne)
  show "ParseAllowedIPs p6 (vr_AllowedIPs sample_row) = Inr [net4 0 0]"
    using ParseAllowedIPs_stored [of "[net4 0 0]" p6] by (auto simp: sample_row_def stored_net_def)
  show "ParseAllowedPorts (vr_AllowedPorts sample_row) = Inr []" by (simp add: sample_row_def ParseAllowedPorts_def)
  show "TrimSpace (vr_ID sample_row) = ''p''" by (simp add: sample_row_def TrimSpace_graphic graphic_def)
qed

definition sample_peer_entry :: peer_entry where
  "sample_peer_entry = row_entry sample_row 0x0A000002 sample_policy"

lemma sample_applies:
  "gateway_run sample_genv sample_cfg [StartEndpoint, ApplyRow 0 0 0 sample_row] =
    (newVPNGateway sample_cfg)\<lparr>g_endpoint := True, g_peers := store_entry sample_peer_entry (newVPNPeerTable 1420 ''x''),
      g_device := [DeviceInstall (vr_PublicKey sample_row) (Some 0x0A000002)]\<rparr>"
  (is "?l = ?r")
proof -
  have trim: "TrimSpace ''n'' = ''n''" "TrimSpace ''a'' = ''a''" "TrimSpace ''x'' = ''x''" by (simp_all add: TrimSpace_graphic graphic_def)
  let ?spec = "\<lparr>ps_Name = ''n'', ps_Description = [], ps_PublicKey = vr_PublicKey sample_row, ps_VPNIP = Some (IP4 0x0A000002), ps_NodeID = ''x'',
    ps_AgentID = ''a'', ps_AllowedIPs = [Some (net4 0 0)], ps_AllowedPorts = [], ps_AllowPrivateTargets = True, ps_ICMPEnabled = False,
    ps_MaxConcurrentFlows = 0, ps_PacketRateLimit = 0, ps_ExpiresAt = None\<rparr>"
  have v: "ValidateFields ?spec = None"
    by (simp add: ValidateFields_def trim validateLabel_def runes_def decode_rune_def IsControl_def MaxPeerNameLength_def
        MaxPeerDescriptionLength_def ipv4_network_def net4_def)
  have f: "vr_Name sample_row = ''n''" "vr_Description sample_row = []" "vr_NodeID sample_row = ''x''" "vr_AgentID sample_row = ''a''"
    "vr_AllowPrivateTargets sample_row" "\<not> vr_ICMPEnabled sample_row" "vr_MaxConcurrentFlows sample_row = 0"
    "vr_PacketRateLimit sample_row = 0" "vr_ExpiresAt sample_row = None" "vr_Status sample_row = VPNPeerStatusActive"
    by (simp_all add: sample_row_def VPNPeerStatusActive_def)
  have s: "vpnPeerSpecFromRow (\<lambda>_. None) sample_row = Inr ?spec" using v by (simp add: vpnPeerSpecFromRow_def sample_row_parts f Let_def)
  have q: "NewPacketPolicy 0 ?spec 1420 = Inr sample_policy"
    using v by (simp add: NewPacketPolicy_def PeerSpec_Validate_def ValidateRequest_def sample_row_parts trim sample_policy_def)
  have u: "usable 0 (row_entry sample_row 0x0A000002 no_policy) = None" "usable 0 sample_peer_entry = None"
    by (simp_all add: usable_def row_entry_def sample_peer_entry_def f)
  let ?t = "newVPNPeerTable 1420 ''x''"
  have "apply_events 0 sample_peer_entry ?t = [Applied sample_peer_entry]" by (simp add: apply_events_def displaced_def newVPNPeerTable_def u)
  moreover have "row_entry sample_row 0x0A000002 no_policy\<lparr>pe_Policy := sample_policy\<rparr> = sample_peer_entry"
    by (simp add: sample_peer_entry_def row_entry_def)
  ultimately have a: "ApplyPeer (\<lambda>_. None) 0 0 0 sample_row ?t = (None, [Applied sample_peer_entry], store_entry sample_peer_entry ?t)"
    by (simp add: ApplyPeer_def s sample_row_parts u q f Let_def) (simp add: newVPNPeerTable_def q Let_def)
  have t: "g_peers (newVPNGateway sample_cfg) = ?t" by (simp add: newVPNGateway_def sample_cfg_def MinTunnelMTU_def MaxTunnelMTU_def)
  obtain b where b: "device_block (DeviceInstall (vr_PublicKey sample_row) (Some 0x0A000002)) = Inr b"
    using valid_key_renders(2) [OF sample_row_parts(1)] by blast
  have e: "pe_PublicKey sample_peer_entry = vr_PublicKey sample_row" "pe_VPNIP sample_peer_entry = Some 0x0A000002" by (simp_all add: sample_peer_entry_def row_entry_def)
  have n: "g_device (newVPNGateway sample_cfg) = []" "g_buckets (newVPNGateway sample_cfg) = []" by (simp_all add: newVPNGateway_def Let_def)
  show ?thesis
    by (simp add: gateway_run_def gateway_step_def gateway_ApplyPeer_def sample_genv_def t a peer_hook_def peerApplied_def forgetBucket_def
      installDevicePeer_def device_send_def e b n)
qed

definition sample_packet :: wire_packet where
  "sample_packet = no_packet\<lparr>vw_Version := 4, vw_Protocol := ProtocolUDP, vw_Src := Some 0x0A000002, vw_Dst := Some 0x0A010507,
     vw_Size := 28, vw_SrcPort := 1000, vw_DstPort := 80\<rparr>"

lemma sample_parses: "parseVPNWirePacket sample_datagram = Inr sample_packet"
proof -
  have w: "be16 0 28 = 28" "be16 0 0 = 0" "be16 3 232 = 1000" "be16 0 80 = 80" "be16 0 8 = 8" "be32 10 0 0 2 = 0x0A000002" "be32 10 1 5 7 = 0x0A010507"
    "drop_bit 4 (0x45 :: byte) = 4" "and (0x45 :: byte) 0x0F = 5" by code_simp+
  show ?thesis unfolding sample_datagram_def sample_packet_def
    by (simp add: parseVPNWirePacket_def parse_header_def header_packet_def parse_body_def parseVPNUDP_def wire_sizes Let_def w no_packet_def
      ProtocolTCP_def ProtocolUDP_def)
qed

theorem served_under_own_address_witness:
  "pe_VPNIP sample_peer_entry = vw_Src sample_packet
    \<and> fst (handlePacket (ge_fl sample_genv) (ge_txt sample_genv) (ge_why sample_genv) (\<lambda>_. 0) sample_datagram
        (gateway_run sample_genv sample_cfg [StartEndpoint, ApplyRow 0 0 0 sample_row] :: nat vpn_gateway)) = Forwarded ''udp'' sample_peer_entry sample_packet"
proof -
  let ?g = "gateway_run sample_genv sample_cfg [StartEndpoint, ApplyRow 0 0 0 sample_row] :: nat vpn_gateway"
  have e: "pe_PeerID sample_peer_entry = ''p''" "pe_VPNIP sample_peer_entry = Some 0x0A000002" "pe_Policy sample_peer_entry = sample_policy"
    "pe_RateLimit sample_peer_entry = 0" "usable 0 sample_peer_entry = None"
    by (simp_all add: sample_peer_entry_def row_entry_def sample_row_def usable_def VPNPeerStatusActive_def)
  have l: "lookupByIP 0 (vw_Src sample_packet) (g_peers ?g) = (sample_peer_entry, None)"
    unfolding sample_applies by (simp add: lookupByIP_def store_entry_def newVPNPeerTable_def e sample_packet_def Let_def)
  have m: "mask 32 = (- 1 :: uint32)" by (rule bit_word_eqI) (simp add: bit_mask_iff)
  have al: "Allow sample_policy (policyPacket sample_packet) = None"
    by (simp add: Allow_def allow_target_def policyPacket_def sample_packet_def sample_policy_def no_packet_def ProtocolTCP_def ProtocolUDP_def
      ProtocolICMP_def IsDangerousAddress_def octet_def ipv4_def containsDest_def Contains4_def net4_def masked_def minPort_def maxPort_def
      ones4_def m)
  have "passes id (\<lambda>_. 0) sample_packet sample_peer_entry ?g \<and> relay_of sample_packet ?g = Some ''udp''"
    unfolding passes_def l e(3) al unfolding sample_applies
    by (simp add: sample_packet_def no_packet_def take_token_def bucketFor_def e newVPNGateway_def sample_cfg_def isSelfAddress_def relay_of_def
      AllowPacket_def AllowN_def newPacketBucket_def ProtocolTCP_def ProtocolUDP_def Let_def)
  then have f: "fst (handlePacket (ge_fl sample_genv) (ge_txt sample_genv) (ge_why sample_genv) (\<lambda>_. 0) sample_datagram ?g)
      = Forwarded ''udp'' sample_peer_entry sample_packet"
    unfolding handle_forwards by (simp add: sample_parses sample_genv_def)
  show ?thesis using served_under_own_address [OF f] f by simp
qed


end
