(* ===== verification/Proxy_Handshake.thy ===== *)
theory Proxy_Handshake
  imports Frame Routing VPN_Keys Go_Slices
begin

text \<open>
  The proxy handshakes of \<^verbatim>\<open>proxy/handshake.go\<close>: SOCKS5 read from a stream, step by step, and SOCKS5 parsed from one buffer; the
  CONNECT request of HTTP; the PROXY header, version 2. A stream is the list of bytes the peer sends before it closes
  (as for the frame codec); the functions on a buffer index it the way the code does, so that an access outside the buffer is
  the panic it is in Go. Texts are \<open>string\<close>s of the same bytes.
\<close>

section \<open>Addresses as text\<close>

definition string_of :: "bytes \<Rightarrow> string" where
  "string_of bs = map (\<lambda>b. char_of (unat b)) bs"

text \<open>\<^verbatim>\<open>net.IP.String\<close> of four and of sixteen bytes. The sixteen-byte form is the dotted one when the address is an IPv4-mapped one;
  otherwise its eight groups in hexadecimal, with the first of the longest runs of at least two zero groups left out.\<close>

fun show_hex :: "nat \<Rightarrow> string" where
  "show_hex n = (if n < 16 then [hex_char n] else show_hex (n div 16) @ [hex_char (n mod 16)])"

declare show_hex.simps [simp del]

definition zero_run :: "nat list \<Rightarrow> nat \<Rightarrow> nat" where
  "zero_run gs i = length (takeWhile (\<lambda>g. g = 0) (drop i gs))"

definition longest_zeros :: "nat list \<Rightarrow> nat \<times> nat" where
  "longest_zeros gs =
     foldl (\<lambda>(start, len) i. if zero_run gs i \<ge> 2 \<and> zero_run gs i > len then (i, zero_run gs i) else (start, len)) (0, 0) [0..<length gs]"

definition show_groups :: "nat list \<Rightarrow> string" where
  "show_groups gs =
     (case longest_zeros gs of (start, len) \<Rightarrow>
        if len = 0 then Join CHR '':'' (map show_hex gs)
        else Join CHR '':'' (map show_hex (take start gs)) @ ''::'' @ Join CHR '':'' (map show_hex (drop (start + len) gs)))"

definition show_ip4_bytes :: "bytes \<Rightarrow> string" where
  "show_ip4_bytes bs = Join CHR ''.'' (map (\<lambda>b. show_nat (unat b)) bs)"

definition show_ip16_bytes :: "bytes \<Rightarrow> string" where
  "show_ip16_bytes bs =
     (if take 12 bs = replicate 10 0 @ [0xFF, 0xFF] then show_ip4_bytes (drop 12 bs)
      else show_groups (map (\<lambda>i. unat (bs ! (2 * i)) * 256 + unat (bs ! (2 * i + 1))) [0..<8]))"

section \<open>SOCKS5 from a stream\<close>

datatype handshake_error = ErrMalformedHandshake | ErrUnsupportedCommand

definition SOCKS5Connect :: byte where "SOCKS5Connect = 1"
definition SOCKS5MethodNoAuth :: byte where "SOCKS5MethodNoAuth = 0"
definition SOCKS5MethodUsernamePassword :: byte where "SOCKS5MethodUsernamePassword = 2"

record SOCKS5Credentials =
  cr_Username :: string
  cr_Password :: string

record SOCKS5Request =
  rq_Command :: byte
  rq_Host :: string
  rq_Port :: int

text \<open>\<^verbatim>\<open>io.ReadFull\<close>, any failure of which is a malformed handshake.\<close>

definition read_exactly :: "nat \<Rightarrow> bytes \<Rightarrow> handshake_error + (bytes \<times> bytes)" where
  "read_exactly n r = (case ReadFull n r of Inl _ \<Rightarrow> Inl ErrMalformedHandshake | Inr x \<Rightarrow> Inr x)"

definition ReadSOCKS5Methods :: "bytes \<Rightarrow> handshake_error + (bytes \<times> bytes)" where
  "ReadSOCKS5Methods r =
     bindR (read_exactly 2 r) (\<lambda>(header, r).
       if header ! 0 \<noteq> 5 \<or> header ! 1 = 0 then Inl ErrMalformedHandshake
       else read_exactly (unat (header ! 1)) r)"

fun supportsSOCKS5Method :: "bytes \<Rightarrow> byte \<Rightarrow> bool" where
  "supportsSOCKS5Method [] method = False"
| "supportsSOCKS5Method (offered # methods) method = (if offered = method then True else supportsSOCKS5Method methods method)"

definition SupportsSOCKS5NoAuth :: "bytes \<Rightarrow> bool" where
  "SupportsSOCKS5NoAuth methods = supportsSOCKS5Method methods SOCKS5MethodNoAuth"

definition SupportsSOCKS5UsernamePassword :: "bytes \<Rightarrow> bool" where
  "SupportsSOCKS5UsernamePassword methods = supportsSOCKS5Method methods SOCKS5MethodUsernamePassword"

definition EncodeSOCKS5MethodSelection :: "byte \<Rightarrow> bytes" where
  "EncodeSOCKS5MethodSelection method = [5, method]"

definition ReadSOCKS5UsernamePassword :: "bytes \<Rightarrow> handshake_error + (SOCKS5Credentials \<times> bytes)" where
  "ReadSOCKS5UsernamePassword r =
     bindR (read_exactly 2 r) (\<lambda>(header, r).
       if header ! 0 \<noteq> 1 then Inl ErrMalformedHandshake
       else bindR (read_exactly (unat (header ! 1)) r) (\<lambda>(username, r).
         bindR (read_exactly 1 r) (\<lambda>(len, r).
           bindR (read_exactly (unat (len ! 0)) r) (\<lambda>(password, r).
             Inr (\<lparr>cr_Username = string_of username, cr_Password = string_of password\<rparr>, r)))))"

definition EncodeSOCKS5UsernamePasswordReply :: "bool \<Rightarrow> bytes" where
  "EncodeSOCKS5UsernamePasswordReply success = [1, if success then 0 else 1]"

definition read_host :: "byte \<Rightarrow> bytes \<Rightarrow> handshake_error + (string \<times> bytes)" where
  "read_host kind r =
     (if kind = 1 then bindR (read_exactly 4 r) (\<lambda>(address, r). Inr (show_ip4_bytes address, r))
      else if kind = 3 then
        bindR (read_exactly 1 r) (\<lambda>(len, r).
          if len ! 0 = 0 then Inl ErrMalformedHandshake
          else bindR (read_exactly (unat (len ! 0)) r) (\<lambda>(address, r). Inr (string_of address, r)))
      else if kind = 4 then bindR (read_exactly 16 r) (\<lambda>(address, r). Inr (show_ip16_bytes address, r))
      else Inl ErrMalformedHandshake)"

definition ReadSOCKS5Request :: "bytes \<Rightarrow> handshake_error + (SOCKS5Request \<times> bytes)" where
  "ReadSOCKS5Request r =
     bindR (read_exactly 4 r) (\<lambda>(header, r).
       if header ! 0 \<noteq> 5 \<or> header ! 2 \<noteq> 0 then Inl ErrMalformedHandshake
       else bindR (read_host (header ! 3) r) (\<lambda>(host, r).
         bindR (read_exactly 2 r) (\<lambda>(portBytes, r).
           let port = int (unat (be16 (portBytes ! 0) (portBytes ! 1))) in
           if port < 1 then Inl ErrMalformedHandshake
           else Inr (\<lparr>rq_Command = header ! 1, rq_Host = host, rq_Port = port\<rparr>, r))))"

definition EncodeSOCKS5Reply :: "byte \<Rightarrow> bytes" where
  "EncodeSOCKS5Reply reply = [5, reply, 0, 1, 0, 0, 0, 0, 0, 0]"

text \<open>The reply for the code of an open result (the code is a string on the wire).\<close>

definition SOCKS5ReplyForResult :: "open_result \<Rightarrow> byte" where
  "SOCKS5ReplyForResult res =
     (let code = Code res in
      if code = ''ok'' then 0
      else if code = ''forbidden'' then 2
      else if code = ''network_unreachable'' then 3
      else if code = ''host_unreachable'' then 4
      else if code = ''connection_refused'' then 5
      else if code = ''unsupported_capability'' then 7
      else 1)"

section \<open>SOCKS5 from a buffer\<close>

text \<open>The address and the position of the port behind it; \<open>pos\<close> is the position of the address type.\<close>

definition host_at :: "bytes \<Rightarrow> nat \<Rightarrow> handshake_error fault + (string \<times> nat)" where
  "host_at payload pos =
     bindR (index payload pos) (\<lambda>kind.
       if kind = 1 then
         (if length payload < pos + 7 then Inl (Err ErrMalformedHandshake)
          else bindR (slice payload (pos + 1) (pos + 5)) (\<lambda>a. Inr (show_ip4_bytes a, pos + 5)))
       else if kind = 3 then
         bindR (index payload (pos + 1)) (\<lambda>len.
           if len = 0 \<or> length payload < pos + 2 + unat len + 2 then Inl (Err ErrMalformedHandshake)
           else bindR (slice payload (pos + 2) (pos + 2 + unat len)) (\<lambda>a. Inr (string_of a, pos + 2 + unat len)))
       else if kind = 4 then
         (if length payload < pos + 19 then Inl (Err ErrMalformedHandshake)
          else bindR (slice payload (pos + 1) (pos + 17)) (\<lambda>a. Inr (show_ip16_bytes a, pos + 17)))
       else Inl (Err ErrMalformedHandshake))"

definition ParseSOCKS5Connect :: "bytes \<Rightarrow> handshake_error fault + SOCKS5Request" where
  "ParseSOCKS5Connect payload =
     (if length payload < 7 then Inl (Err ErrMalformedHandshake)
      else bindR (index payload 0) (\<lambda>version.
        if version \<noteq> 5 then Inl (Err ErrMalformedHandshake)
        else bindR (index payload 1) (\<lambda>count.
          let nmethods = unat count; pos = 2 + nmethods in
          if nmethods < 1 \<or> length payload < 2 + nmethods + 4 then Inl (Err ErrMalformedHandshake)
          else bindR (index payload pos) (\<lambda>version2.
            bindR (index payload (pos + 2)) (\<lambda>reserved.
              bindR (index payload (pos + 1)) (\<lambda>command.
                if version2 \<noteq> 5 \<or> reserved \<noteq> 0 \<or> command \<noteq> SOCKS5Connect then Inl (Err ErrUnsupportedCommand)
                else bindR (host_at payload (pos + 3)) (\<lambda>(host, pos).
                  bindR (uint16_at payload pos) (\<lambda>p.
                    let port = int (unat p) in
                    if port < 1 then Inl (Err ErrMalformedHandshake)
                    else Inr \<lparr>rq_Command = SOCKS5Connect, rq_Host = host, rq_Port = port\<rparr>))))))))"

section \<open>CONNECT over HTTP\<close>

text \<open>\<^verbatim>\<open>strings.Fields\<close>: the maximal pieces without white space; \<open>uu\<close> of \<open>ToUpper\<close> stands for the Unicode tables, as in \<open>ToLower\<close>.\<close>

definition space_len :: "string \<Rightarrow> nat" where
  "space_len s = (case find (HasPrefix s) (ascii_spaces @ unicode_spaces) of None \<Rightarrow> 0 | Some w \<Rightarrow> length w)"

definition flush :: "string \<Rightarrow> string list" where
  "flush w = (if w = [] then [] else [w])"

function fields_from :: "string \<Rightarrow> string \<Rightarrow> string list" where
  "fields_from w [] = flush w"
| "fields_from w (c # s) =
     (if space_len (c # s) > 0 then flush w @ fields_from [] (drop (space_len (c # s)) (c # s))
      else fields_from (w @ [c]) s)"
  by pat_completeness auto
termination
  by (relation "measure (\<lambda>(w, s). length s)") auto

definition Fields :: "string \<Rightarrow> string list" where
  "Fields s = fields_from [] s"

definition upper_char :: "char \<Rightarrow> char" where
  "upper_char c = (let n = of_char c :: nat in if 97 \<le> n \<and> n \<le> 122 then char_of (n - 32) else c)"

definition ToUpper :: "(string \<Rightarrow> string) \<Rightarrow> string \<Rightarrow> string" where
  "ToUpper uu s = (if is_ascii s then map upper_char s else uu s)"

text \<open>The position of the first occurrence of a text (\<^verbatim>\<open>strings.Index\<close>), and the part before it of a text that is split at it.\<close>

fun Index_of :: "string \<Rightarrow> string \<Rightarrow> nat option" where
  "Index_of [] sep = (if sep = [] then Some 0 else None)"
| "Index_of (c # s) sep = (if HasPrefix (c # s) sep then Some 0 else map_option Suc (Index_of s sep))"

definition first_line :: "string \<Rightarrow> string" where
  "first_line s = (case Index_of s [CHR 0x0D, CHR 0x0A] of None \<Rightarrow> s | Some i \<Rightarrow> take i s)"

record ConnectRequest =
  cq_Host :: string
  cq_Port :: int

definition ParseHTTPConnect :: "(string \<Rightarrow> string) \<Rightarrow> bytes \<Rightarrow> handshake_error + ConnectRequest" where
  "ParseHTTPConnect uu payload =
     (let content = string_of payload in
      case Index_of content [CHR 0x0D, CHR 0x0A, CHR 0x0D, CHR 0x0A] of
        None \<Rightarrow> Inl ErrMalformedHandshake
      | Some i \<Rightarrow>
          if i > 16384 then Inl ErrMalformedHandshake
          else (let parts = Fields (first_line (take i content)) in
            if length parts \<noteq> 3 \<or> ToUpper uu (parts ! 0) \<noteq> ''CONNECT'' \<or> \<not> HasPrefix (parts ! 2) ''HTTP/''
            then Inl ErrMalformedHandshake
            else (case SplitHostPort (parts ! 1) of
                None \<Rightarrow> Inl ErrMalformedHandshake
              | Some (host, portText) \<Rightarrow>
                  if host = [] then Inl ErrMalformedHandshake
                  else (case Atoi portText of
                      None \<Rightarrow> Inl ErrMalformedHandshake
                    | Some port \<Rightarrow> if port < 1 \<or> port > 65535 then Inl ErrMalformedHandshake
                                   else Inr \<lparr>cq_Host = host, cq_Port = port\<rparr>))))"

section \<open>PROXY protocol, version 2\<close>

record ProxyV2Header =
  px_Source :: "uint32 \<times> int"
  px_Destination :: "uint32 \<times> int"

definition proxyV2Signature :: bytes where
  "proxyV2Signature = [0x0D, 0x0A, 0x0D, 0x0A, 0x00, 0x0D, 0x0A, 0x51, 0x55, 0x49, 0x54, 0x0A]"

text \<open>The four-byte slices always have a four-byte form, so the tests on \<^verbatim>\<open>To4\<close> never fire.\<close>

definition ParseProxyV2 :: "bytes \<Rightarrow> handshake_error fault + ProxyV2Header" where
  "ParseProxyV2 payload =
     (if length payload < 16 then Inl (Err ErrMalformedHandshake)
      else bindR (slice payload 0 12) (\<lambda>signature.
        if signature \<noteq> proxyV2Signature then Inl (Err ErrMalformedHandshake)
        else bindR (index payload 12) (\<lambda>command. bindR (index payload 13) (\<lambda>family.
          if command \<noteq> 0x21 \<or> family \<noteq> 0x11 then Inl (Err ErrMalformedHandshake)
          else bindR (uint16_at payload 14) (\<lambda>len.
            if len \<noteq> 12 \<or> length payload < 28 then Inl (Err ErrMalformedHandshake)
            else bindR (addr_at payload 16) (\<lambda>src. bindR (addr_at payload 20) (\<lambda>dst.
              bindR (uint16_at payload 24) (\<lambda>sport. bindR (uint16_at payload 26) (\<lambda>dport.
                Inr \<lparr>px_Source = (src, int (unat sport)), px_Destination = (dst, int (unat dport))\<rparr>)))))))))"

section \<open>The two SOCKS5 parsers\<close>

lemma read_exactly_ok: "read_exactly n bs = Inr (p, rest) \<longleftrightarrow> bs = p @ rest \<and> length p = n"
  by (auto simp: read_exactly_def ReadFull_Inr split: sum.splits)

lemma read_exactly_eq: "read_exactly n bs = (if n \<le> length bs then Inr (take n bs, drop n bs) else Inl ErrMalformedHandshake)"
  by (auto simp: read_exactly_def ReadFull_def)

lemma methods_read:
  "ReadSOCKS5Methods p = Inr (ms, rest) \<longleftrightarrow>
   ms \<noteq> [] \<and> length ms < 256 \<and> p = [5, of_nat (length ms)] @ ms @ rest"
proof
  assume "ReadSOCKS5Methods p = Inr (ms, rest)"
  then obtain h r where h: "p = h @ r" "length h = 2" "h ! 0 = 5" "h ! 1 \<noteq> 0" "r = ms @ rest" "length ms = unat (h ! 1)"
    by (auto simp: ReadSOCKS5Methods_def bindR_Inr_iff read_exactly_ok split: if_splits)
  have "h = [h ! 0, h ! 1]" using h(2) by (cases h; cases "tl h") auto
  moreover have "unat (h ! 1) < 256" "unat (h ! 1) \<noteq> 0" using unsigned_less [of "h ! 1"] h(4) by (simp_all add: unat_eq_0)
  ultimately show "ms \<noteq> [] \<and> length ms < 256 \<and> p = [5, of_nat (length ms)] @ ms @ rest"
    using h by auto
next
  assume a: "ms \<noteq> [] \<and> length ms < 256 \<and> p = [5, of_nat (length ms)] @ ms @ rest"
  then have "unat (of_nat (length ms) :: byte) = length ms" by (simp add: unat_of_nat)
  moreover from this a have "(of_nat (length ms) :: byte) \<noteq> 0" by (metis length_0_conv unat_0)
  ultimately show "ReadSOCKS5Methods p = Inr (ms, rest)"
    using a by (simp add: ReadSOCKS5Methods_def read_exactly_eq)
qed

lemma no_methods_no_connect:
  assumes "ReadSOCKS5Methods p = Inl e"
  shows "ParseSOCKS5Connect p = Inl (Err ErrMalformedHandshake)"
proof -
  have "length p < 2 \<or> p ! 0 \<noteq> 5 \<or> p ! 1 = 0 \<or> length p < 2 + unat (p ! 1)"
    using assms by (auto simp: ReadSOCKS5Methods_def read_exactly_eq split: if_splits)
  moreover have "(index p 0 :: handshake_error fault + byte) = Inr (p ! 0)" "(index p 1 :: handshake_error fault + byte) = Inr (p ! 1)"
    if "\<not> length p < 7" using that by (intro index_ok; linarith)+
  ultimately show ?thesis
    by (cases "length p < 7") (auto simp: ParseSOCKS5Connect_def Let_def)
qed

lemma slice_shifted: "slice (q @ r) (length q + i) (length q + j) = slice r i j"
  by (simp add: slice_def)

lemma shifted:
  "index (q @ r) (length q + i) = index r i"
  "uint16_at (q @ r) (length q + i) = uint16_at r i"
  by (simp_all add: index_def nth_append uint16_at_def add.assoc slice_shifted del: add_2_eq_Suc')

lemma host_agree:
  "host_at (q @ kind # r) (length q) =
     (case read_host kind r of
        Inl _ \<Rightarrow> Inl (if kind = 3 \<and> r = [] then Panic else Err ErrMalformedHandshake)
      | Inr (h, r') \<Rightarrow> if length r' < 2 then Inl (Err ErrMalformedHandshake) else Inr (h, length q + (1 + length r - length r')))"
proof -
  have i: "(index (q @ kind # r) (length q) :: handshake_error fault + byte) = Inr kind"
    by (simp add: index_def)
  have s: "(slice (q @ kind # r) (length q + i) (length q + j) :: handshake_error fault + bytes) = slice (kind # r) i j" for i j
    by (rule slice_shifted)
  have n: "(index (q @ kind # r) (length q + 1) :: handshake_error fault + byte) = index r 0"
    by (simp add: index_def nth_append)
  note eqs = host_at_def i read_host_def read_exactly_eq s
  consider "kind = 1" | "kind = 3" | "kind = 4" | "kind \<notin> {1, 3, 4}" by blast
  then show ?thesis
  proof cases
    case 1
    show ?thesis by (cases "length r < 6") (auto simp: 1 eqs)
  next
    case 2
    show ?thesis
    proof (cases r)
      case (Cons len r1)
      then show ?thesis
        by (cases "len = 0"; cases "length r1 < unat len + 2") (auto simp: 2 eqs n nth_append)
    qed (simp add: 2 eqs n index_def)
  next
    case 3
    show ?thesis by (cases "length r < 18") (auto simp: 3 eqs)
  qed (simp add: eqs)
qed

lemma connect_values:
  assumes "7 \<le> length p" "2 + k + 4 \<le> length p" "p ! 0 = 5" "p ! 1 = n" "p ! (2 + k) = a" "p ! (2 + k + 2) = c" "p ! (2 + k + 1) = b"
    and n: "unat n = k" "1 \<le> k"
  shows "ParseSOCKS5Connect p =
    (if a \<noteq> 5 \<or> c \<noteq> 0 \<or> b \<noteq> SOCKS5Connect then Inl (Err ErrUnsupportedCommand)
     else bindR (host_at p (2 + k + 3)) (\<lambda>(host, pos).
            bindR (uint16_at p pos) (\<lambda>p.
              let port = int (unat p) in
              if port < 1 then Inl (Err ErrMalformedHandshake)
              else Inr \<lparr>rq_Command = SOCKS5Connect, rq_Host = host, rq_Port = port\<rparr>)))"
proof -
  have "0 < length p" "1 < length p" "2 + k < length p" "2 + k + 2 < length p" "2 + k + 1 < length p" "\<not> length p < 7" "\<not> length p < 2 + k + 4" "\<not> k < 1"
    using assms(1,2) n by linarith+
  then show ?thesis
    unfolding ParseSOCKS5Connect_def by (simp only: index_ok bindR_simps assms(3-8) Let_def if_False if_True simp_thms)
qed

lemma read_host_suffix: "read_host kind r = Inr (h, r') \<Longrightarrow> \<exists>a. r = a @ r'"
  by (auto simp: read_host_def bindR_Inr_iff read_exactly_ok split: if_splits)

lemma tail_agree:
  "bindR (host_at (s @ kind # r) (length s)) (\<lambda>(host, pos).
     bindR (uint16_at (s @ kind # r) pos) (\<lambda>p.
       let port = int (unat p) in
       if port < 1 then Inl (Err ErrMalformedHandshake)
       else Inr \<lparr>rq_Command = SOCKS5Connect, rq_Host = host, rq_Port = port\<rparr>)) =
   (case ReadSOCKS5Request (5 # SOCKS5Connect # 0 # kind # r) of
      Inr (r, _) \<Rightarrow> Inr r
    | Inl _ \<Rightarrow> Inl (if kind = 3 \<and> r = [] then Panic else Err ErrMalformedHandshake))"
proof (cases "read_host kind r")
  case (Inl e)
  then show ?thesis by (simp add: host_agree ReadSOCKS5Request_def read_exactly_eq)
next
  case (Inr x)
  then obtain h r' where x: "x = (h, r')" by (cases x)
  with Inr obtain a where a: "r = a @ r'" using read_host_suffix by blast
  have none: "\<not> (kind = 3 \<and> r = [])" using Inr by (auto simp: read_host_def read_exactly_eq)
  have at: "uint16_at (s @ kind # r) (length s + (1 + length r - length r')) = (uint16_at r' 0 :: handshake_error fault + uint16)"
  proof -
    have "s @ kind # r = (s @ kind # a) @ r'" "length s + (1 + length r - length r') = length (s @ kind # a) + 0" by (simp_all add: a)
    then show ?thesis by (simp only: shifted)
  qed
  have port: "(uint16_at r' 0 :: handshake_error fault + uint16) = Inr (be16 (r' ! 0) (r' ! 1))" if "\<not> length r' < 2"
    using that by (simp only: uint16_at_ok) (simp add: not_less)
  show ?thesis
  proof (cases "length r' < 2")
    case True
    then show ?thesis using none by (simp add: host_agree ReadSOCKS5Request_def read_exactly_eq Inr x)
  next
    case False
    then have "host_at (s @ kind # r) (length s) = Inr (h, length s + (1 + length r - length r'))"
      using Inr x by (simp only: host_agree sum.case prod.case if_False)
    moreover have "ReadSOCKS5Request (5 # SOCKS5Connect # 0 # kind # r) =
      (if int (unat (be16 (r' ! 0) (r' ! 1))) < 1 then Inl ErrMalformedHandshake
       else Inr (\<lparr>rq_Command = SOCKS5Connect, rq_Host = h, rq_Port = int (unat (be16 (r' ! 0) (r' ! 1)))\<rparr>, drop 2 r'))"
      using False Inr x by (simp add: ReadSOCKS5Request_def read_exactly_eq Let_def)
    ultimately show ?thesis using none
      by (simp only: bindR_simps prod.case at port [OF False] Let_def split: if_split) simp
  qed
qed

text \<open>Behind the methods, the parser of the buffer does what the reader of the stream does, up to the command it demands.\<close>

lemma connect_tail:
  assumes "ms \<noteq> []" "length ms < 256"
  shows "ParseSOCKS5Connect ([5, of_nat (length ms)] @ ms @ rest) =
    (if length rest < 4 then Inl (Err ErrMalformedHandshake)
     else if rest ! 0 \<noteq> 5 \<or> rest ! 2 \<noteq> 0 \<or> rest ! 1 \<noteq> SOCKS5Connect then Inl (Err ErrUnsupportedCommand)
     else (case ReadSOCKS5Request rest of
         Inr (r, _) \<Rightarrow> Inr r
       | Inl _ \<Rightarrow> Inl (if rest ! 3 = 3 \<and> length rest = 4 then Panic else Err ErrMalformedHandshake)))"
proof -
  define q where "q = [5, of_nat (length ms)] @ ms"
  have n: "unat (of_nat (length ms) :: byte) = length ms" using assms(2) by (simp add: unat_of_nat)
  have q: "length q = 2 + length ms" "length q \<ge> 3"
    using assms(1) by (simp_all add: q_def Suc_le_eq)
  have k: "1 \<le> length ms" using assms(1) by (cases ms) simp_all
  show ?thesis
  proof (cases "length rest < 4")
    case True
    then show ?thesis using q n assms(1)
      by (simp add: ParseSOCKS5Connect_def q_def [symmetric] Let_def)
  next
    case False
    then have "length rest = Suc (Suc (Suc (Suc (length rest - 4))))" by simp
    then obtain a b c kind r where rest: "rest = a # b # c # kind # r"
      by (auto simp: length_Suc_conv)
    define s where "s = q @ [a, b, c]"
    have s: "q @ rest = s @ kind # r" "length q + 3 = length s" by (simp_all add: s_def rest)
    have v: "(q @ rest) ! 0 = 5" "(q @ rest) ! 1 = of_nat (length ms)"
      "(q @ rest) ! (2 + length ms) = a" "(q @ rest) ! (2 + length ms + 2) = c" "(q @ rest) ! (2 + length ms + 1) = b"
      by (simp_all add: q_def rest nth_append)
    have l: "7 \<le> length (q @ rest)" "2 + length ms + 4 \<le> length (q @ rest)" using q False by simp_all
    have "ParseSOCKS5Connect (q @ rest) =
      (if a \<noteq> 5 \<or> c \<noteq> 0 \<or> b \<noteq> SOCKS5Connect then Inl (Err ErrUnsupportedCommand)
       else bindR (host_at (s @ kind # r) (length s)) (\<lambda>(host, pos).
              bindR (uint16_at (s @ kind # r) pos) (\<lambda>p.
                let port = int (unat p) in
                if port < 1 then Inl (Err ErrMalformedHandshake)
                else Inr \<lparr>rq_Command = SOCKS5Connect, rq_Host = host, rq_Port = port\<rparr>)))"
      unfolding s(1) [symmetric] s(2) [symmetric] q(1) by (rule connect_values [OF l v n k])
    also have "\<dots> = (if rest ! 0 \<noteq> 5 \<or> rest ! 2 \<noteq> 0 \<or> rest ! 1 \<noteq> SOCKS5Connect then Inl (Err ErrUnsupportedCommand)
      else (case ReadSOCKS5Request rest of
          Inr (r, _) \<Rightarrow> Inr r
        | Inl _ \<Rightarrow> Inl (if rest ! 3 = 3 \<and> length rest = 4 then Panic else Err ErrMalformedHandshake)))"
      unfolding tail_agree by (auto simp: rest)
    finally show ?thesis using False by (simp add: q_def)
  qed
qed

text \<open>
  C34. The two SOCKS5 parsers of the program agree: the parser of a buffer returns a request exactly when reading the same
  bytes as a stream gives the methods and then that request, and the command is CONNECT. In particular they decode the
  same host (address or name) and the same port from the same bytes.
\<close>

theorem socks5_parsers_agree:
  "ParseSOCKS5Connect payload = Inr req \<longleftrightarrow>
   (\<exists>methods rest unread.
      ReadSOCKS5Methods payload = Inr (methods, rest) \<and> ReadSOCKS5Request rest = Inr (req, unread) \<and> rq_Command req = SOCKS5Connect)"
proof (cases "ReadSOCKS5Methods payload")
  case (Inl e)
  then show ?thesis using no_methods_no_connect by simp
next
  case (Inr x)
  then obtain ms rest where x: "x = (ms, rest)" "ms \<noteq> []" "length ms < 256" "payload = [5, of_nat (length ms)] @ ms @ rest"
    by (metis methods_read surj_pair)
  show ?thesis
  proof (cases "length rest < 4 \<or> rest ! 0 \<noteq> 5 \<or> rest ! 2 \<noteq> 0")
    case True
    then have "\<exists>e. ReadSOCKS5Request rest = Inl e" by (auto simp: ReadSOCKS5Request_def read_exactly_eq)
    with True show ?thesis unfolding x(4) connect_tail [OF x(2,3)] by (auto simp: Inr [unfolded x(1,4), simplified])
  next
    case False
    then have "rq_Command r = rest ! 1" if "ReadSOCKS5Request rest = Inr (r, u)" for r u
      using that by (auto simp: ReadSOCKS5Request_def read_exactly_eq bindR_Inr_iff Let_def split: if_splits)
    with False show ?thesis unfolding x(4) connect_tail [OF x(2,3)]
      by (auto simp: Inr [unfolded x(1,4), simplified] split: sum.splits)
  qed
qed

text \<open>
  C35. What the parser of a buffer does on bytes it does not accept: it returns an error, except on a message that is cut off right
  behind the address type of a domain name, where it reads the length byte that is not there and panics.
\<close>

theorem socks5_parser_panics:
  "ParseSOCKS5Connect payload = Inl Panic \<longleftrightarrow>
   (\<exists>methods. methods \<noteq> [] \<and> length methods < 256 \<and>
      payload = [5, of_nat (length methods)] @ methods @ [5, SOCKS5Connect, 0, 3])"
proof (cases "ReadSOCKS5Methods payload")
  case (Inl e)
  then have "\<nexists>ms rest. ms \<noteq> [] \<and> length ms < 256 \<and> payload = [5, of_nat (length ms)] @ ms @ rest"
    by (metis Inr_Inl_False methods_read)
  then show ?thesis using no_methods_no_connect [OF Inl] by (metis Inl_inject fault.distinct(1))
next
  case (Inr x)
  then obtain ms rest where x: "x = (ms, rest)" "ms \<noteq> []" "length ms < 256" "payload = [5, of_nat (length ms)] @ ms @ rest"
    by (metis methods_read surj_pair)
  have "ParseSOCKS5Connect payload = Inl Panic \<longleftrightarrow> rest = [5, SOCKS5Connect, 0, 3]"
  proof -
    have "rest = [5, SOCKS5Connect, 0, 3]"
      if "length rest = 4" "rest ! 0 = 5" "rest ! 1 = SOCKS5Connect" "rest ! 2 = 0" "rest ! 3 = 3"
      using that by (auto simp: numeral_eq_Suc length_Suc_conv)
    moreover have "ReadSOCKS5Request [5, SOCKS5Connect, 0, 3] = Inl ErrMalformedHandshake"
      by (simp add: ReadSOCKS5Request_def read_exactly_eq read_host_def)
    ultimately show ?thesis
      unfolding x(4) connect_tail [OF x(2,3)] by (auto split: sum.splits if_splits)
  qed
  moreover have "ms' = ms \<and> rest' = rest"
    if "ms' \<noteq> []" "length ms' < 256" "payload = [5, of_nat (length ms')] @ ms' @ rest'" for ms' rest'
    using that Inr methods_read [of payload ms' rest'] by (simp add: x(1))
  ultimately show ?thesis using x by blast
qed

section \<open>The other handshakes\<close>

lemma credentials_read:
  assumes "length u < 256" "length w < 256"
  shows "ReadSOCKS5UsernamePassword ([1, of_nat (length u)] @ u @ [of_nat (length w)] @ w @ rest) =
    Inr (\<lparr>cr_Username = string_of u, cr_Password = string_of w\<rparr>, rest)"
proof -
  have "unat (of_nat (length u) :: byte) = length u" "unat (of_nat (length w) :: byte) = length w"
    using assms by (simp_all add: unat_of_nat)
  then show ?thesis by (simp add: ReadSOCKS5UsernamePassword_def read_exactly_eq)
qed

lemma http_connect_target:
  "ParseHTTPConnect uu payload = Inr req \<Longrightarrow> cq_Host req \<noteq> [] \<and> 1 \<le> cq_Port req \<and> cq_Port req \<le> 65535"
  by (auto simp: ParseHTTPConnect_def Let_def split: option.splits if_splits prod.splits)

lemma proxy_v2_never_panics: "ParseProxyV2 payload \<noteq> Inl Panic"
proof (cases "length payload < 28")
  case True
  show ?thesis
  proof (cases "length payload < 16")
    case False
    then have l: "0 \<le> (12::nat)" "12 \<le> length payload" "12 < length payload" "13 < length payload" "14 + 2 \<le> length payload" by simp_all
    show ?thesis using True
      by (simp only: ParseProxyV2_def slice_ok [OF l(1,2)] index_ok [OF l(3)] index_ok [OF l(4)] uint16_at_ok [OF l(5)] bindR_simps) simp
  qed (simp add: ParseProxyV2_def)
next
  case False
  then have l: "0 \<le> (12::nat)" "12 \<le> length payload" "12 < length payload" "13 < length payload" "14 + 2 \<le> length payload"
    "16 + 4 \<le> length payload" "20 + 4 \<le> length payload" "24 + 2 \<le> length payload" "26 + 2 \<le> length payload" by simp_all
  show ?thesis
    by (simp only: ParseProxyV2_def slice_ok [OF l(1,2)] index_ok [OF l(3)] index_ok [OF l(4)] uint16_at_ok [OF l(5)]
      addr_at_ok [OF l(6)] addr_at_ok [OF l(7)] uint16_at_ok [OF l(8)] uint16_at_ok [OF l(9)] bindR_simps) simp
qed

end
