(* ===== verification/Proxy_Policy.thy ===== *)
theory Proxy_Policy
  imports Proxy_Handshake "HOL-Library.AList"
begin

text \<open>
  The policy kernel of the managed proxy entry, \<^verbatim>\<open>internal/proxyentry\<close>: the name of a route, the allowlist of source addresses, the
  policy on targets, and the authenticator that verifies Basic credentials and throttles failures. The clock readings of a
  method are arguments, in nanoseconds; the zero time of \<^verbatim>\<open>until\<close> is \<open>None\<close>. The digest of \<^verbatim>\<open>constantTimeEqual\<close> (SHA-256) is the
  parameter \<open>sha\<close>, the textual form of IPv6 addresses is parsed by \<open>p6\<close> as in the address theory. An iteration over a Go map is
  given the keys in the order it visits them.

  The lemmas show that a client whose failures reached the threshold is refused, whatever the other requests do meanwhile, until
  the penalty is over; that the penalty is between 30 seconds and 15 minutes and never shrinks; and what an accepted target
  satisfies.
\<close>

section \<open>Errors and routes\<close>

datatype proxy_error =
    ErrRouteIdentityInvalid | ErrRouteUnavailable | ErrSourceDenied | ErrAuthRequired | ErrAuthFailed | ErrAuthBackoff
  | ErrTargetDenied | ErrTargetInvalid | ErrEgressUnavailable | ErrEgressTimeout | ErrCapacityExhausted | ErrSecretUnavailable

record proxy_route =
  pr_ID :: string
  pr_Domain :: string
  pr_Name :: string
  pr_AgentID :: string
  pr_AuthMode :: string
  pr_CredentialID :: string
  pr_SourceCIDRs :: "string list"
  pr_TargetCIDRs :: "string list"
  pr_TargetPorts :: "int list"
  pr_AllowPrivateTargets :: bool
  pr_MaxConcurrentTunnels :: int
  pr_Status :: string

definition Active :: "proxy_route \<Rightarrow> bool" where
  "Active r \<longleftrightarrow> pr_Status r = ''active''"

definition RequiresAuth :: "proxy_route \<Rightarrow> bool" where
  "RequiresAuth r \<longleftrightarrow> pr_AuthMode r = ''basic''"

section \<open>The name of a route\<close>

definition lower_alnum :: "char \<Rightarrow> bool" where
  "lower_alnum c \<longleftrightarrow> is_digit c \<or> (97 \<le> (of_char c :: nat) \<and> of_char c \<le> (122::nat))"

definition alnum :: "char \<Rightarrow> bool" where
  "alnum c \<longleftrightarrow> lower_alnum c \<or> (65 \<le> (of_char c :: nat) \<and> of_char c \<le> (90::nat))"

text \<open>The shape \<^verbatim>\<open>^E(M{0,n}E)?$\<close> of the two patterns of the package.\<close>

definition edged :: "(char \<Rightarrow> bool) \<Rightarrow> (char \<Rightarrow> bool) \<Rightarrow> nat \<Rightarrow> string \<Rightarrow> bool" where
  "edged edge middle n s \<longleftrightarrow>
     s \<noteq> [] \<and> edge (hd s) \<and> (length s = 1 \<or> (edge (last s) \<and> length s \<le> n + 2 \<and> list_all middle (butlast (tl s))))"

definition proxyRouteNamePattern :: "string \<Rightarrow> bool" where
  "proxyRouteNamePattern s = edged lower_alnum (\<lambda>c. lower_alnum c \<or> c = CHR ''-'') 30 s"

definition normalizeSuffix :: "(string \<Rightarrow> string) \<Rightarrow> string \<Rightarrow> string" where
  "normalizeSuffix ul raw = ToLower ul (TrimSuffix (TrimSpace raw) ''.'')"

definition normalizeRouteKey :: "(string \<Rightarrow> string) \<Rightarrow> string \<Rightarrow> string \<Rightarrow> proxy_error + string" where
  "normalizeRouteKey ul raw suffix =
     (let value = ToLower ul (TrimSpace raw) in
      if value = [] \<or> suffix = [] then Inl ErrRouteIdentityInvalid
      else if CHR ''.'' \<in> set value \<and> \<not> HasSuffix value (CHR ''.'' # suffix) then Inl ErrRouteIdentityInvalid
      else (let host = (if CHR ''.'' \<in> set value then TrimSuffix value (CHR ''.'' # suffix) else value);
                name = TrimPrefix host ''tp-'' in
            if name = [] \<or> \<not> proxyRouteNamePattern name then Inl ErrRouteIdentityInvalid
            else Inr (''tp-'' @ name @ CHR ''.'' # suffix)))"

text \<open>\<^verbatim>\<open>HeaderRouteIdentity.Resolve\<close>, given the values of the header.\<close>

definition header_identity :: "(string \<Rightarrow> string) \<Rightarrow> string \<Rightarrow> string list \<Rightarrow> proxy_error + string" where
  "header_identity ul suffix values = (case values of [v] \<Rightarrow> normalizeRouteKey ul v suffix | _ \<Rightarrow> Inl ErrRouteIdentityInvalid)"

text \<open>\<^verbatim>\<open>SNIRouteIdentity.Resolve\<close>, given the server name of the TLS handshake, if there was one.\<close>

definition sni_identity :: "(string \<Rightarrow> string) \<Rightarrow> string \<Rightarrow> string option \<Rightarrow> proxy_error + string" where
  "sni_identity ul suffix sni =
     (case sni of None \<Rightarrow> Inl ErrRouteIdentityInvalid
      | Some name \<Rightarrow> if TrimSpace name = [] then Inl ErrRouteIdentityInvalid else normalizeRouteKey ul name suffix)"

definition RouteKey_Name :: "string \<Rightarrow> string" where
  "RouteKey_Name k =
     (let host = TrimPrefix k ''tp-''; label = takeWhile (\<lambda>c. c \<noteq> CHR ''.'') host in
      if CHR ''.'' \<in> set host \<and> label \<noteq> [] then label else host)"

section \<open>Source addresses\<close>

text \<open>\<^verbatim>\<open>net.IP.String\<close>, \<^verbatim>\<open>net.IPNet.Contains\<close> and \<^verbatim>\<open>net.IPNet.String\<close> for both kinds of address.\<close>

definition groups6 :: "128 word \<Rightarrow> nat list" where
  "groups6 w = map (\<lambda>i. unat w div 2 ^ (112 - 16 * i) mod 65536) [0..<8]"

definition show_addr :: "ip \<Rightarrow> string" where
  "show_addr i = (case i of IP4 a \<Rightarrow> show_ip a | IP6 w \<Rightarrow> show_groups (groups6 w))"

definition Contains :: "ipnet \<Rightarrow> ip \<Rightarrow> bool" where
  "Contains n i =
     (case (n_ip n, i) of
        (IP4 _, IP4 a) \<Rightarrow> Contains4 n a
      | (IP6 b, IP6 w) \<Rightarrow> (let m = push_bit (128 - n_ones n) (- 1) in and b m = and w m)
      | _ \<Rightarrow> False)"

definition show_block :: "ipnet \<Rightarrow> string" where
  "show_block n = (case n_ip n of IP4 _ \<Rightarrow> show_net n | IP6 w \<Rightarrow> show_groups (groups6 w) @ CHR ''/'' # show_nat (n_ones n))"

record SourceACL =
  acl_networks :: "ipnet list"
  acl_broken :: bool

datatype cidr_error = BadCIDR

definition NormalizeCIDR :: "(string \<Rightarrow> 128 word option) \<Rightarrow> string \<Rightarrow> cidr_error + string" where
  "NormalizeCIDR p6 raw =
     (let value = TrimSpace raw in
      if value = [] then Inl BadCIDR
      else bindR
        (if CHR ''/'' \<in> set value then Inr value
         else (case ParseIP p6 value of None \<Rightarrow> Inl BadCIDR
               | Some i \<Rightarrow> Inr (value @ (if To4 i \<noteq> None then ''/32'' else ''/128''))))
        (\<lambda>value. case ParseCIDR p6 value of None \<Rightarrow> Inl BadCIDR | Some (_, n) \<Rightarrow> Inr (show_block n)))"

definition DenyAllSourceACL :: SourceACL where
  "DenyAllSourceACL = \<lparr>acl_networks = [], acl_broken = True\<rparr>"

fun acl_networks_of :: "(string \<Rightarrow> 128 word option) \<Rightarrow> string list \<Rightarrow> cidr_error + ipnet list" where
  "acl_networks_of p6 [] = Inr []"
| "acl_networks_of p6 (raw # cidrs) =
     bindR (NormalizeCIDR p6 raw) (\<lambda>normalized.
       case ParseCIDR p6 normalized of None \<Rightarrow> Inl BadCIDR
       | Some (_, n) \<Rightarrow> bindR (acl_networks_of p6 cidrs) (\<lambda>ns. Inr (n # ns)))"

definition NewSourceACL :: "(string \<Rightarrow> 128 word option) \<Rightarrow> string list \<Rightarrow> SourceACL \<times> cidr_error option" where
  "NewSourceACL p6 cidrs =
     (case acl_networks_of p6 cidrs of
        Inl e \<Rightarrow> (DenyAllSourceACL, Some e)
      | Inr ns \<Rightarrow> (\<lparr>acl_networks = ns, acl_broken = False\<rparr>, None))"

definition SourceACL_Allow :: "SourceACL \<Rightarrow> ip option \<Rightarrow> bool" where
  "SourceACL_Allow a x =
     (case x of None \<Rightarrow> False
      | Some i \<Rightarrow> \<not> acl_broken a \<and> acl_networks a \<noteq> [] \<and> list_ex (\<lambda>n. Contains n i) (acl_networks a))"

definition ParseClientIP :: "(string \<Rightarrow> 128 word option) \<Rightarrow> string \<Rightarrow> proxy_error + ip" where
  "ParseClientIP p6 raw =
     (let trimmed = TrimSpace raw in
      if trimmed = [] then Inl ErrRouteIdentityInvalid
      else (case ParseIP p6 trimmed of None \<Rightarrow> Inl ErrRouteIdentityInvalid | Some i \<Rightarrow> Inr i))"

section \<open>Targets\<close>

record TargetPolicy =
  tp_policy :: route_policy
  tp_allowPrivateTargets :: bool
  tp_restrictCIDRs :: bool

definition NewTargetPolicy :: "(string \<Rightarrow> 128 word option) \<Rightarrow> string list \<Rightarrow> int list \<Rightarrow> bool \<Rightarrow> routing_error + TargetPolicy" where
  "NewTargetPolicy p6 cidrs ports allowPrivateTargets =
     bindR (NewPolicy p6 cidrs (PortInts ports)) (\<lambda>p.
       Inr \<lparr>tp_policy = p, tp_allowPrivateTargets = allowPrivateTargets, tp_restrictCIDRs = (cidrs \<noteq> [])\<rparr>)"

definition portAllowed :: "TargetPolicy \<Rightarrow> int \<Rightarrow> bool" where
  "portAllowed p port \<longleftrightarrow> rp_Ports (tp_policy p) = [] \<or> port \<in> set (rp_Ports (tp_policy p))"

definition ValidateIP :: "TargetPolicy \<Rightarrow> ip option \<Rightarrow> int \<Rightarrow> proxy_error option" where
  "ValidateIP p x port =
     (case x of None \<Rightarrow> Some ErrTargetInvalid
      | Some i \<Rightarrow>
        if port < 1 \<or> port > 65535 then Some ErrTargetInvalid
        else if IsDangerousAddress i then Some ErrTargetDenied
        else if \<not> tp_allowPrivateTargets p \<and> IsPrivateTarget (Some i) then Some ErrTargetDenied
        else (case Policy_Validate (tp_policy p) (Some i) port of Some _ \<Rightarrow> Some ErrTargetDenied | None \<Rightarrow> None))"

definition validProxyHostname :: "string \<Rightarrow> bool" where
  "validProxyHostname host \<longleftrightarrow>
     Index_of host ''..'' = None \<and> \<not> HasSuffix host ''.'' \<and>
     edged alnum (\<lambda>c. alnum c \<or> c = CHR ''.'' \<or> c = CHR ''-'') 251 host"

definition TargetPolicy_Validate :: "(string \<Rightarrow> 128 word option) \<Rightarrow> TargetPolicy \<Rightarrow> string \<Rightarrow> int \<Rightarrow> proxy_error option" where
  "TargetPolicy_Validate p6 p host port =
     (if port < 1 \<or> port > 65535 then Some ErrTargetInvalid
      else (let trimmed = TrimSpace host in
        if trimmed = [] \<or> length trimmed > 253 \<or> list_ex (\<lambda>c. c \<in> {CHR '' '', CHR ''/'', CHR 0x09, CHR 0x0D, CHR 0x0A}) trimmed
        then Some ErrTargetInvalid
        else (case ParseIP p6 trimmed of
            Some i \<Rightarrow> ValidateIP p (Some i) port
          | None \<Rightarrow>
              if \<not> validProxyHostname trimmed then Some ErrTargetInvalid
              else if tp_restrictCIDRs p then Some ErrTargetDenied
              else if \<not> portAllowed p port then Some ErrTargetDenied
              else None)))"

section \<open>Throttled authentication\<close>

definition second :: int where "second = 1000000000"
definition backoffBase :: int where "backoffBase = 30 * second"
definition backoffMax :: int where "backoffMax = 15 * 60 * second"
definition attemptTTL :: int where "attemptTTL = 15 * 60 * second"
definition sweepLimit :: nat where "sweepLimit = 64"
definition maxBackoffShift :: int where "maxBackoffShift = 5"

record authAttempt =
  at_failures :: int
  at_until :: "int option"
  at_lastFailure :: int

record authenticator =
  au_threshold :: int
  au_attempts :: "(string \<times> authAttempt) list"

definition NewAuthenticator :: "int \<Rightarrow> authenticator" where
  "NewAuthenticator backoffThreshold =
     \<lparr>au_threshold = (if backoffThreshold \<le> 0 then 1 else backoffThreshold), au_attempts = []\<rparr>"

definition attemptKey :: "string \<Rightarrow> string \<Rightarrow> string" where
  "attemptKey routeID clientIP = routeID @ CHR ''|'' # clientIP"

definition Attempts :: "authenticator \<Rightarrow> string \<Rightarrow> string \<Rightarrow> int" where
  "Attempts a routeID clientIP =
     (case map_of (au_attempts a) (attemptKey routeID clientIP) of None \<Rightarrow> 0 | Some e \<Rightarrow> at_failures e)"

definition clearExpiredBackoff :: "authAttempt \<Rightarrow> int \<Rightarrow> authAttempt" where
  "clearExpiredBackoff e now =
     (case at_until e of None \<Rightarrow> e | Some u \<Rightarrow> if u > now then e else e\<lparr>at_until := None\<rparr>)"

text \<open>What the sweep does with one key: an entry without a failure for too long is dropped, an expired penalty is cleared.\<close>

definition sweep_key :: "int \<Rightarrow> string \<Rightarrow> (string \<times> authAttempt) list \<Rightarrow> (string \<times> authAttempt) list" where
  "sweep_key now k m =
     (case map_of m k of None \<Rightarrow> m
      | Some e \<Rightarrow> if now - at_lastFailure e > attemptTTL then AList.delete k m
                  else AList.update k (clearExpiredBackoff e now) m)"

definition sweep :: "authenticator \<Rightarrow> string \<Rightarrow> int \<Rightarrow> string list \<Rightarrow> authenticator" where
  "sweep a key now visited =
     a\<lparr>au_attempts := fold (\<lambda>other m. if other = key then m else sweep_key now other m)
        (take sweepLimit visited) (sweep_key now key (au_attempts a))\<rparr>"

definition backoffFor :: "int \<Rightarrow> int \<Rightarrow> int" where
  "backoffFor failures threshold =
     (let shift = (if failures - threshold < 0 then 0 else failures - threshold) in
      if shift > maxBackoffShift then backoffMax
      else (let window = backoffBase * 2 ^ nat shift in
            if window \<le> 0 \<or> window > backoffMax then backoffMax else window))"

definition recordFailure :: "authenticator \<Rightarrow> string \<Rightarrow> int \<Rightarrow> authenticator" where
  "recordFailure a key now =
     (let e = (case map_of (au_attempts a) key of None \<Rightarrow> \<lparr>at_failures = 0, at_until = None, at_lastFailure = 0\<rparr> | Some e \<Rightarrow> e);
          e = e\<lparr>at_failures := at_failures e + 1, at_lastFailure := now\<rparr>;
          e = (if at_failures e \<ge> au_threshold a
               then e\<lparr>at_until := Some (now + backoffFor (at_failures e) (au_threshold a))\<rparr> else e) in
      a\<lparr>au_attempts := AList.update key e (au_attempts a)\<rparr>)"

definition inBackoff :: "authenticator \<Rightarrow> string \<Rightarrow> int \<Rightarrow> bool" where
  "inBackoff a key now =
     (case map_of (au_attempts a) key of None \<Rightarrow> False
      | Some e \<Rightarrow> (case at_until e of None \<Rightarrow> False | Some u \<Rightarrow> u > now))"

definition clearAttempts :: "authenticator \<Rightarrow> string \<Rightarrow> authenticator" where
  "clearAttempts a key = a\<lparr>au_attempts := AList.delete key (au_attempts a)\<rparr>"

text \<open>\<open>uf\<close> is Unicode case folding, which decides \<^verbatim>\<open>EqualFold\<close> on texts that are not ASCII.\<close>

definition parseBasicHeader :: "(string \<Rightarrow> string \<Rightarrow> bool) \<Rightarrow> string \<Rightarrow> (string \<times> string) option" where
  "parseBasicHeader uf header =
     (if length header < 6 \<or> \<not> EqualFold uf (take 6 header) ''Basic '' then None
      else (case b64_decode (TrimSpace (drop 6 header)) of
          None \<Rightarrow> None
        | Some decoded \<Rightarrow>
            (case Cut CHR '':'' (string_of decoded) of (user, pass, found) \<Rightarrow>
               if \<not> found \<or> user = [] then None else Some (user, pass))))"

datatype secret_error = ErrSecretStoreUnavailable | SecretOther

record auth_env =
  ae_resolver :: "string \<Rightarrow> secret_error + string \<times> string"
  ae_sha :: "string \<Rightarrow> bytes"
  ae_fold :: "string \<Rightarrow> string \<Rightarrow> bool"

definition constantTimeEqual :: "(string \<Rightarrow> bytes) \<Rightarrow> string \<Rightarrow> string \<Rightarrow> bool" where
  "constantTimeEqual sha a b \<longleftrightarrow> sha a = sha b"

text \<open>\<open>now1\<close>, \<open>now2\<close> and \<open>now3\<close> are what the clock shows in the sweep, in the test for a penalty, and when a failure is recorded.\<close>

definition Authorize ::
  "auth_env \<Rightarrow> authenticator \<Rightarrow> proxy_route \<Rightarrow> ip option \<Rightarrow> string \<Rightarrow> string list \<Rightarrow> int \<Rightarrow> int \<Rightarrow> int \<Rightarrow> proxy_error option \<times> authenticator" where
  "Authorize env a route clientIP header visited now1 now2 now3 =
     (if \<not> RequiresAuth route then (None, a)
      else (let client = (case clientIP of None \<Rightarrow> [] | Some i \<Rightarrow> show_addr i);
                key = attemptKey (pr_ID route) client;
                a = sweep a key now1 visited in
        if pr_CredentialID route = [] then (Some ErrAuthFailed, recordFailure a key now3)
        else if inBackoff a key now2 then (Some ErrAuthBackoff, a)
        else (case parseBasicHeader (ae_fold env) header of
            None \<Rightarrow> (Some ErrAuthRequired, recordFailure a key now3)
          | Some (username, password) \<Rightarrow>
              (case ae_resolver env (pr_CredentialID route) of
                 Inl ErrSecretStoreUnavailable \<Rightarrow> (Some ErrSecretUnavailable, a)
               | Inl SecretOther \<Rightarrow> (Some ErrAuthFailed, recordFailure a key now3)
               | Inr (su, sp) \<Rightarrow>
                   if \<not> constantTimeEqual (ae_sha env) username su \<or> \<not> constantTimeEqual (ae_sha env) password sp
                   then (Some ErrAuthFailed, recordFailure a key now3)
                   else (None, clearAttempts a key)))))"

section \<open>Requests that run at the same time\<close>

text \<open>
  The authenticator holds its lock only inside its four small methods, so the requests that run at the same time interleave at
  these: any sequence of them is a run. \<open>Authorize\<close> alone is one such sequence.
\<close>

datatype auth_op = OpSweep string int "string list" | OpFail string int | OpClear string

fun auth_step :: "authenticator \<Rightarrow> auth_op \<Rightarrow> authenticator" where
  "auth_step a (OpSweep k now visited) = sweep a k now visited"
| "auth_step a (OpFail k now) = recordFailure a k now"
| "auth_step a (OpClear k) = clearAttempts a k"

definition auth_run :: "authenticator \<Rightarrow> auth_op list \<Rightarrow> authenticator" where
  "auth_run a ops = foldl auth_step a ops"

lemma auth_run_simps [simp]:
  "auth_run a [] = a"
  "auth_run a (op # ops) = auth_run (auth_step a op) ops"
  by (simp_all add: auth_run_def)

lemma Authorize_is_run: "\<exists>ops. snd (Authorize env a route i header visited now1 now2 now3) = auth_run a ops"
proof -
  let ?k = "attemptKey (pr_ID route) (case i of None \<Rightarrow> [] | Some i \<Rightarrow> show_addr i)"
  have "snd (Authorize env a route i header visited now1 now2 now3) \<in>
    {auth_run a [], auth_run a [OpSweep ?k now1 visited], auth_run a [OpSweep ?k now1 visited, OpFail ?k now3],
     auth_run a [OpSweep ?k now1 visited, OpClear ?k]}"
    by (simp add: Authorize_def Let_def split: option.split sum.split secret_error.split prod.split)
  then show ?thesis by blast
qed

lemma backoffFor_eq:
  "backoffFor f thr = (if f - thr \<ge> 5 then backoffMax else backoffBase * 2 ^ nat (f - thr))"
proof -
  consider "f - thr < 0" | "f - thr \<in> {0, 1, 2, 3, 4, 5}" | "f - thr > 5" by force
  then show ?thesis
    by cases (auto simp: backoffFor_def maxBackoffShift_def backoffBase_def backoffMax_def second_def)
qed

lemma backoffFor_bounds: "backoffBase \<le> backoffFor f thr" "backoffFor f thr \<le> backoffMax"
proof -
  have "nat (f - thr) \<in> {0, 1, 2, 3, 4}" if "\<not> f - thr \<ge> 5" using that by auto
  then show "backoffBase \<le> backoffFor f thr" "backoffFor f thr \<le> backoffMax"
    unfolding backoffFor_eq by (auto simp: backoffBase_def backoffMax_def second_def)
qed

lemma backoffFor_mono: "f \<le> g \<Longrightarrow> backoffFor f thr \<le> backoffFor g thr"
proof (cases "g - thr \<ge> 5")
  case True
  then have "backoffFor g thr = backoffMax" by (simp add: backoffFor_eq)
  then show ?thesis using backoffFor_bounds by simp
next
  case False
  assume "f \<le> g"
  with False show ?thesis
    by (simp add: backoffFor_eq backoffBase_def second_def power_increasing)
qed

text \<open>A penalty runs from the last failure and is the one the number of failures asks for.\<close>

definition entry_exact :: "int \<Rightarrow> authAttempt \<Rightarrow> bool" where
  "entry_exact thr e \<longleftrightarrow>
     (\<forall>u. at_until e = Some u \<longrightarrow> thr \<le> at_failures e \<and> u = at_lastFailure e + backoffFor (at_failures e) thr)"

definition table_exact :: "int \<Rightarrow> (string \<times> authAttempt) list \<Rightarrow> bool" where
  "table_exact thr m \<longleftrightarrow> (\<forall>k e. map_of m k = Some e \<longrightarrow> entry_exact thr e)"

lemma table_exact_update: "table_exact thr m \<Longrightarrow> entry_exact thr e \<Longrightarrow> table_exact thr (AList.update k e m)"
  by (simp add: table_exact_def AList.update_conv')

lemma table_exact_delete: "table_exact thr m \<Longrightarrow> table_exact thr (AList.delete k m)"
  by (auto simp: table_exact_def AList.delete_conv' restrict_map_def split: if_splits)

lemma table_exact_sweep: "table_exact thr m \<Longrightarrow> table_exact thr (sweep_key now k m)"
proof (cases "map_of m k")
  case (Some e)
  assume m: "table_exact thr m"
  with Some have "entry_exact thr e" by (auto simp: table_exact_def)
  then have "entry_exact thr (clearExpiredBackoff e now)"
    by (auto simp: entry_exact_def clearExpiredBackoff_def split: option.splits)
  then show ?thesis using m Some by (simp add: sweep_key_def table_exact_update table_exact_delete)
qed (simp add: sweep_key_def)

lemma sweep_threshold [simp]: "au_threshold (sweep a k now v) = au_threshold a"
  by (simp add: sweep_def)

lemma step_threshold: "au_threshold (auth_step a op) = au_threshold a"
  by (cases op) (simp_all add: recordFailure_def clearAttempts_def Let_def)

lemma step_exact: "table_exact (au_threshold a) (au_attempts a) \<Longrightarrow> table_exact (au_threshold a) (au_attempts (auth_step a op))"
proof (induction op)
  case (OpSweep k now visited)
  have "table_exact thr m \<Longrightarrow> table_exact thr (fold (\<lambda>other m. if other = k then m else sweep_key now other m) ks m)" for thr m ks
    by (induction ks arbitrary: m) (simp_all add: table_exact_sweep)
  then show ?case using OpSweep by (simp add: sweep_def table_exact_sweep)
next
  case (OpFail k now)
  define e0 where "e0 = (case map_of (au_attempts a) k of None \<Rightarrow> \<lparr>at_failures = 0, at_until = None, at_lastFailure = 0\<rparr> | Some e \<Rightarrow> e)"
  have "entry_exact (au_threshold a) e0"
    using OpFail by (auto simp: e0_def table_exact_def entry_exact_def split: option.splits)
  then show ?case using OpFail
    by (auto simp: recordFailure_def e0_def [symmetric] Let_def entry_exact_def intro!: table_exact_update)
qed (simp add: clearAttempts_def table_exact_delete)

lemma run_exact:
  "table_exact (au_threshold a) (au_attempts a) \<Longrightarrow>
   table_exact (au_threshold a) (au_attempts (auth_run a ops)) \<and> au_threshold (auth_run a ops) = au_threshold a"
  by (induction ops arbitrary: a) (simp, metis step_exact step_threshold auth_run_simps(2))

text \<open>A key with at least \<open>f\<close> failures, the last not before \<open>lf\<close>, whose penalty has not been cleared.\<close>

definition penalised :: "(string \<times> authAttempt) list \<Rightarrow> string \<Rightarrow> int \<Rightarrow> int \<Rightarrow> bool" where
  "penalised m k f lf \<longleftrightarrow> (\<exists>e. map_of m k = Some e \<and> at_until e \<noteq> None \<and> f \<le> at_failures e \<and> lf \<le> at_lastFailure e)"

lemma penalised_until:
  assumes "table_exact thr m" "penalised m k f lf"
  obtains e u where "map_of m k = Some e" "at_until e = Some u" "lf + backoffFor f thr \<le> u" "u = at_lastFailure e + backoffFor (at_failures e) thr"
proof -
  from assms obtain e u where e: "map_of m k = Some e" "at_until e = Some u" "f \<le> at_failures e" "lf \<le> at_lastFailure e"
    by (auto simp: penalised_def)
  moreover from this assms(1) have "u = at_lastFailure e + backoffFor (at_failures e) thr"
    by (auto simp: table_exact_def entry_exact_def)
  ultimately show thesis using that backoffFor_mono [OF e(3), of thr] by fastforce
qed

lemma sweep_key_keeps:
  assumes "table_exact thr m" "penalised m k f lf" "now < lf + backoffFor f thr"
  shows "penalised (sweep_key now j m) k f lf"
proof (cases "j = k")
  case False
  then have "map_of (sweep_key now j m) k = map_of m k"
    by (auto simp: sweep_key_def AList.update_conv' AList.delete_conv' restrict_map_def split: option.splits)
  then show ?thesis using assms(2) by (simp add: penalised_def)
next
  case True
  from penalised_until [OF assms(1,2)] obtain e u
    where e: "map_of m k = Some e" "at_until e = Some u" "lf + backoffFor f thr \<le> u" "u = at_lastFailure e + backoffFor (at_failures e) thr" .
  have "\<not> now - at_lastFailure e > attemptTTL"
    using e(3,4) assms(3) backoffFor_bounds(2) [of "at_failures e" thr] by (simp add: attemptTTL_def backoffMax_def)
  moreover have "clearExpiredBackoff e now = e" using e(2,3) assms(3) by (simp add: clearExpiredBackoff_def)
  ultimately show ?thesis using e assms(2) True by (auto simp: sweep_key_def penalised_def AList.update_conv')
qed

lemma sweep_keeps:
  assumes "table_exact (au_threshold a) (au_attempts a)" "penalised (au_attempts a) k f lf" "now < lf + backoffFor f (au_threshold a)"
  shows "penalised (au_attempts (sweep a j now visited)) k f lf"
proof -
  have "penalised (fold (\<lambda>other m. if other = j then m else sweep_key now other m) ks m) k f lf"
    if "table_exact (au_threshold a) m" "penalised m k f lf" for ks m
    using that by (induction ks arbitrary: m) (simp_all add: sweep_key_keeps [OF _ _ assms(3)] table_exact_sweep)
  then show ?thesis
    by (simp add: sweep_def sweep_key_keeps [OF assms] table_exact_sweep [OF assms(1)])
qed

fun op_time :: "auth_op \<Rightarrow> int option" where
  "op_time (OpSweep _ now _) = Some now"
| "op_time (OpFail _ now) = Some now"
| "op_time (OpClear _) = None"

definition during :: "int \<Rightarrow> int \<Rightarrow> auth_op \<Rightarrow> bool" where
  "during lo hi op \<longleftrightarrow> (case op_time op of None \<Rightarrow> True | Some t \<Rightarrow> lo \<le> t \<and> t < hi)"

lemma step_keeps:
  assumes "table_exact (au_threshold a) (au_attempts a)" "penalised (au_attempts a) k f lf" "au_threshold a \<le> f"
    "during lf (lf + backoffFor f (au_threshold a)) op" "op \<noteq> OpClear k"
  shows "penalised (au_attempts (auth_step a op)) k f lf"
proof (cases op)
  case (OpSweep j now visited)
  then show ?thesis using sweep_keeps [OF assms(1,2)] assms(4) by (simp add: during_def)
next
  case (OpFail j now)
  then show ?thesis using assms by (auto simp: penalised_def recordFailure_def Let_def AList.update_conv' during_def)
next
  case (OpClear j)
  then show ?thesis using assms by (auto simp: penalised_def clearAttempts_def AList.delete_conv' restrict_map_def)
qed

lemma run_keeps:
  assumes "table_exact (au_threshold a) (au_attempts a)" "penalised (au_attempts a) k f lf" "au_threshold a \<le> f"
    "list_all (during lf (lf + backoffFor f (au_threshold a))) ops" "OpClear k \<notin> set ops"
  shows "penalised (au_attempts (auth_run a ops)) k f lf"
  using assms
proof (induction ops arbitrary: a)
  case (Cons op ops)
  then show ?case
    using step_keeps [of a k f lf op] step_exact [of a op] step_threshold [of a op] by auto
qed simp

text \<open>
  C17. A client that reached the failure threshold of a route stays locked out until its penalty is over. Start from any table the
  authenticator can reach and a failure that brings the number of failures to the threshold or beyond; the penalty lasts at
  least 30 seconds and at most 15 minutes. Whatever requests run meanwhile and however they interleave, short of one that
  authenticates with the right password for the same key, every request of that client on that route is refused with the
  backoff error, whatever its header says and whatever the secret is: no guess is compared.
\<close>

theorem locked_out_until_penalty_over:
  assumes reachable: "a = auth_run (NewAuthenticator threshold) history"
    and key: "key = attemptKey (pr_ID route) (show_addr client)"
    and reached: "au_threshold a \<le> Attempts a (pr_ID route) (show_addr client) + 1"
    and penalty: "penalty = backoffFor (Attempts a (pr_ID route) (show_addr client) + 1) (au_threshold a)"
    and meanwhile: "list_all (during failed (failed + penalty)) ops" "OpClear key \<notin> set ops"
    and now: "now1 < failed + penalty" "now2 < failed + penalty"
    and route: "RequiresAuth route" "pr_CredentialID route \<noteq> []"
  shows "30 * second \<le> penalty \<and> penalty \<le> 15 * 60 * second \<and>
    fst (Authorize env (auth_run (recordFailure a key failed) ops) route (Some client) header visited now1 now2 now3) = Some ErrAuthBackoff"
proof -
  define f where "f = Attempts a (pr_ID route) (show_addr client) + 1"
  define b where "b = recordFailure a key failed"
  define c where "c = auth_run b ops"
  have "table_exact (au_threshold (NewAuthenticator threshold)) (au_attempts (NewAuthenticator threshold))"
    by (simp add: table_exact_def NewAuthenticator_def)
  then have a: "table_exact (au_threshold a) (au_attempts a)" unfolding reachable using run_exact by metis
  have thr: "au_threshold b = au_threshold a" "table_exact (au_threshold b) (au_attempts b)"
    using step_exact [OF a, of "OpFail key failed"] step_threshold [of a "OpFail key failed"] by (simp_all add: b_def)
  have "penalised (au_attempts b) key f failed"
    using reached by (auto simp: b_def recordFailure_def Let_def penalised_def f_def Attempts_def key AList.update_conv' split: option.splits)
  then have "penalised (au_attempts c) key f failed" "table_exact (au_threshold c) (au_attempts c)" "au_threshold c = au_threshold a"
    using run_keeps [OF thr(2)] meanwhile run_exact [OF thr(2)] reached thr(1) by (simp_all add: c_def penalty f_def)
  then have "penalised (au_attempts (sweep c key now1 visited)) key f failed"
    "table_exact (au_threshold a) (au_attempts (sweep c key now1 visited))"
    using sweep_keeps [of c key f failed now1 key visited] now(1) step_exact [of c "OpSweep key now1 visited"] by (simp_all add: penalty f_def)
  from penalised_until [OF this(2,1)] obtain e u
    where "map_of (au_attempts (sweep c key now1 visited)) key = Some e" "at_until e = Some u" "failed + penalty \<le> u"
    unfolding penalty f_def [symmetric] .
  then have "inBackoff (sweep c key now1 visited) key now2" using now(2) by (simp add: inBackoff_def)
  then show ?thesis
    using route backoffFor_bounds [of f "au_threshold a"]
    by (simp add: Authorize_def Let_def key [symmetric] b_def [symmetric] c_def [symmetric] penalty f_def [symmetric] backoffBase_def backoffMax_def)
qed

definition sample_proxy_route :: proxy_route where
  "sample_proxy_route = \<lparr>pr_ID = ''r1'', pr_Domain = ''tp-demo.tm.test'', pr_Name = ''demo'', pr_AgentID = ''edge'', pr_AuthMode = ''basic'',
     pr_CredentialID = ''c1'', pr_SourceCIDRs = [''10.0.0.0/8''], pr_TargetCIDRs = [], pr_TargetPorts = [443], pr_AllowPrivateTargets = False,
     pr_MaxConcurrentTunnels = 2, pr_Status = ''active''\<rparr>"

definition sample_auth_env :: auth_env where
  "sample_auth_env = \<lparr>ae_resolver = (\<lambda>_. Inr (''u'', ''p'')), ae_sha = map (\<lambda>c. of_nat (of_char c)), ae_fold = (=)\<rparr>"

lemma locked_out_until_penalty_over_witness:
  "fst (Authorize sample_auth_env
      (auth_run (recordFailure (auth_run (NewAuthenticator 2) [OpFail (attemptKey ''r1'' (show_addr (IP4 1))) 0])
         (attemptKey ''r1'' (show_addr (IP4 1))) second)
       [OpFail (attemptKey ''r1'' (show_addr (IP4 1))) (2 * second), OpSweep ''x|y'' (20 * second) []])
      sample_proxy_route (Some (IP4 1)) ''Basic dTpw'' [] (25 * second) (26 * second) (27 * second)) = Some ErrAuthBackoff"
proof -
  define client where "client = show_addr (IP4 1)"
  define key where "key = attemptKey ''r1'' client"
  define a where "a = auth_run (NewAuthenticator 2) [OpFail key 0]"
  have id: "pr_ID sample_proxy_route = ''r1''" by (simp add: sample_proxy_route_def)
  have n: "Attempts a ''r1'' client + 1 = 2" "au_threshold a = 2"
    by (simp_all add: a_def Attempts_def key_def NewAuthenticator_def recordFailure_def Let_def)
  have "backoffFor 2 2 = 30 * second" by (simp add: backoffFor_eq backoffBase_def)
  then show ?thesis
    using locked_out_until_penalty_over [of a 2 "[OpFail key 0]" key sample_proxy_route "IP4 1"
        "30 * second" second "[OpFail key (2 * second), OpSweep ''x|y'' (20 * second) []]" "25 * second" "26 * second" sample_auth_env
        "''Basic dTpw''" "[]" "27 * second", unfolded id client_def [symmetric], OF a_def key_def]
    unfolding client_def [symmetric] key_def [symmetric] a_def [symmetric]
    by (simp add: n during_def second_def sample_proxy_route_def RequiresAuth_def del: auth_run_simps)
qed

section \<open>What an accepted target satisfies\<close>

lemma target_accepted:
  assumes "TargetPolicy_Validate p6 p host port = None"
  shows "1 \<le> port \<and> port \<le> 65535 \<and> portAllowed p port \<and>
    (case ParseIP p6 (TrimSpace host) of
       None \<Rightarrow> \<not> tp_restrictCIDRs p
     | Some i \<Rightarrow> \<not> IsDangerousAddress i \<and> (tp_allowPrivateTargets p \<or> \<not> IsPrivateTarget (Some i)) \<and>
                 (\<exists>a. i = IP4 a \<and> (rp_CIDRs (tp_policy p) = [] \<or> (\<exists>n\<in>set (rp_CIDRs (tp_policy p)). Contains4 n a))))"
proof (cases "ParseIP p6 (TrimSpace host)")
  case None
  then show ?thesis using assms by (auto simp: TargetPolicy_Validate_def Let_def split: if_splits)
next
  case (Some i)
  then have v: "ValidateIP p (Some i) port = None" using assms by (auto simp: TargetPolicy_Validate_def Let_def split: if_splits)
  then have "Policy_Validate (tp_policy p) (Some i) port = None" "\<not> IsDangerousAddress i"
    "tp_allowPrivateTargets p \<or> \<not> IsPrivateTarget (Some i)" "1 \<le> port \<and> port \<le> 65535"
    by (auto simp: ValidateIP_def split: if_splits option.splits)
  then show ?thesis using Some
    by (cases i) (auto simp: Policy_Validate_def portAllowed_def list_ex_iff split: if_splits)
qed

lemma key_shape:
  assumes "normalizeRouteKey ul raw suffix = Inr k"
  shows "\<exists>name. k = ''tp-'' @ name @ CHR ''.'' # suffix \<and> proxyRouteNamePattern name"
  using assms by (auto simp: normalizeRouteKey_def Let_def split: if_splits)

end
