(* ===== verification/Proxy_Entry.thy ===== *)
theory Proxy_Entry
  imports Proxy_Policy Relay_Service VPN_Pool
begin

text \<open>
  The managed proxy entry, \<^verbatim>\<open>internal/server/proxy_entry.go\<close>: the chain of decisions a request passes (identity, route, source
  address, credentials, capacity, target), the slots it holds while it is served, and the request it opens towards the agent. Headers
  are an association list from canonical names to values; the parts of a URL are what \<^verbatim>\<open>net/url\<close> parsed. Metrics, audit records and
  the response bodies are left out, and so are the egress connection and the copying of bytes behind it: a request that passes
  the chain yields the stream request handed to \<^verbatim>\<open>openEgress\<close>, and its slot is given back by \<open>release\<close> when it is over.

  The lemmas show what holds of every request that gets through, and that the slots in use are counted exactly and stay within
  the limits.
\<close>

section \<open>Capacity\<close>

text \<open>\<open>sl_held\<close> has one element per call of \<^verbatim>\<open>reserve\<close> that succeeded: its route and whether its release function has run
  (the \<^verbatim>\<open>sync.Once\<close>).\<close>

record slots =
  sl_activeTotal :: int
  sl_activeByRoute :: "(string \<times> int) list"
  sl_held :: "(string \<times> bool) list"

definition no_slots :: slots where
  "no_slots = \<lparr>sl_activeTotal = 0, sl_activeByRoute = [], sl_held = []\<rparr>"

definition active_on :: "slots \<Rightarrow> string \<Rightarrow> int" where
  "active_on s r = (case map_of (sl_activeByRoute s) r of None \<Rightarrow> 0 | Some n \<Rightarrow> n)"

definition reserve :: "int \<Rightarrow> slots \<Rightarrow> proxy_route \<Rightarrow> (proxy_error + nat) \<times> slots" where
  "reserve limit s route =
     (if limit > 0 \<and> sl_activeTotal s \<ge> limit then (Inl ErrCapacityExhausted, s)
      else if pr_MaxConcurrentTunnels route > 0 \<and> active_on s (pr_ID route) \<ge> pr_MaxConcurrentTunnels route
      then (Inl ErrCapacityExhausted, s)
      else (Inr (length (sl_held s)),
            s\<lparr>sl_activeTotal := sl_activeTotal s + 1,
              sl_activeByRoute := AList.update (pr_ID route) (active_on s (pr_ID route) + 1) (sl_activeByRoute s),
              sl_held := sl_held s @ [(pr_ID route, False)]\<rparr>))"

definition release :: "slots \<Rightarrow> nat \<Rightarrow> slots" where
  "release s i =
     (if i \<ge> length (sl_held s) then s
      else (case sl_held s ! i of (r, released) \<Rightarrow>
        if released then s
        else (let n = active_on s r - 1 in
          s\<lparr>sl_activeTotal := sl_activeTotal s - 1,
            sl_activeByRoute := (if n \<le> 0 then AList.delete r (sl_activeByRoute s) else AList.update r n (sl_activeByRoute s)),
            sl_held := (sl_held s)[i := (r, True)]\<rparr>)))"

section \<open>Requests\<close>

record url =
  u_Scheme :: string
  u_Host :: string
  u_Hostname :: string
  u_Port :: string

record http_request =
  hr_Method :: string
  hr_Host :: string
  hr_URL :: url
  hr_Header :: "(string \<times> string list) list"

definition Values :: "http_request \<Rightarrow> string \<Rightarrow> string list" where
  "Values r name = (case map_of (hr_Header r) name of None \<Rightarrow> [] | Some vs \<Rightarrow> vs)"

definition Get :: "http_request \<Rightarrow> string \<Rightarrow> string" where
  "Get r name = (case Values r name of [] \<Rightarrow> [] | v # _ \<Rightarrow> v)"

text \<open>The header names of the configuration are kept in canonical form; \<open>pe_parseURL\<close> is \<^verbatim>\<open>url.Parse\<close>.\<close>

record proxy_entry =
  pe_routeHeader :: string
  pe_clientIPHeader :: string
  pe_clientPortHeader :: string
  pe_suffix :: string
  pe_limit :: int
  pe_routes :: "string \<Rightarrow> proxy_route option"
  pe_auth :: auth_env
  pe_parse6 :: "string \<Rightarrow> 128 word option"
  pe_lower :: "string \<Rightarrow> string"
  pe_parseURL :: "string \<Rightarrow> url option"

definition defaultConnectPort :: int where "defaultConnectPort = 443"

definition splitConnectTarget :: "http_request \<Rightarrow> (string \<times> int) option" where
  "splitConnectTarget r =
     (let authority = (if TrimSpace (hr_Host r) = [] then TrimSpace (u_Host (hr_URL r)) else TrimSpace (hr_Host r)) in
      if authority = [] then None
      else (case (case SplitHostPort authority of None \<Rightarrow> (authority, Itoa defaultConnectPort) | Some hp \<Rightarrow> hp) of
          (host, portText) \<Rightarrow>
            if TrimSpace host = [] then None
            else (case Atoi portText of None \<Rightarrow> None | Some port \<Rightarrow> Some (host, port))))"

definition splitProxyTarget :: "(string \<Rightarrow> url option) \<Rightarrow> http_request \<Rightarrow> (string \<times> int \<times> string) option" where
  "splitProxyTarget parse r =
     (case (if u_Host (hr_URL r) \<noteq> [] then Some (hr_URL r, u_Scheme (hr_URL r))
            else (let authority = TrimSpace (hr_Host r) in
              if authority = [] then None
              else map_option (\<lambda>u. (u, ''http'')) (parse (''http://'' @ authority)))) of
        None \<Rightarrow> None
      | Some (target, scheme) \<Rightarrow>
          if scheme \<noteq> ''http'' \<and> scheme \<noteq> ''https'' then None
          else (let host = u_Hostname target;
                    portText = (if u_Port target = [] then (if scheme = ''https'' then ''443'' else ''80'') else u_Port target) in
            case Atoi portText of
              None \<Rightarrow> None
            | Some port \<Rightarrow> if port < 1 \<or> port > 65535 \<or> host = [] then None else Some (host, port, scheme)))"

definition bytes_of :: "string \<Rightarrow> bytes" where
  "bytes_of s = map (\<lambda>c. of_nat (of_char c)) s"

definition traceparentFromRequest :: "http_request \<Rightarrow> bytes" where
  "traceparentFromRequest r = bytes_of (TrimSpace (Get r ''Traceparent''))"

definition egress_request :: "string \<Rightarrow> string \<Rightarrow> string \<Rightarrow> int \<Rightarrow> string \<Rightarrow> string \<Rightarrow> bytes \<Rightarrow> stream_request" where
  "egress_request agent protocol host port scheme hostHeader metadata =
     \<lparr>sr_NodeID = [], sr_AgentID = agent, sr_CaseInsensitiveAgentID = False, sr_Epoch = 0, sr_TargetConnectionID = [],
      sr_TargetConnectionEpoch = 0, sr_StreamID = 0, sr_StrictOpen = False, sr_InitialWindow = 0, sr_Protocol = protocol,
      sr_TargetHost = host, sr_TargetPort = port, sr_TargetScheme = scheme, sr_HostHeader = hostHeader, sr_TLSServerName = [],
      sr_Metadata = metadata\<rparr>"

section \<open>The chain of decisions\<close>

definition checked_target :: "proxy_entry \<Rightarrow> proxy_route \<Rightarrow> string \<Rightarrow> int \<Rightarrow> proxy_error option" where
  "checked_target p route host port =
     (case NewTargetPolicy (pe_parse6 p) (pr_TargetCIDRs route) (pr_TargetPorts route) (pr_AllowPrivateTargets route) of
        Inl _ \<Rightarrow> Some ErrTargetDenied
      | Inr policy \<Rightarrow> TargetPolicy_Validate (pe_parse6 p) policy host port)"

definition handleConnect :: "proxy_entry \<Rightarrow> http_request \<Rightarrow> proxy_route \<Rightarrow> proxy_error + stream_request" where
  "handleConnect p r route =
     (case splitConnectTarget r of
        None \<Rightarrow> Inl ErrTargetInvalid
      | Some (host, port) \<Rightarrow>
          (case checked_target p route host port of
             Some e \<Rightarrow> Inl e
           | None \<Rightarrow> Inr (egress_request (pr_AgentID route) ''tcp'' host port [] [] (traceparentFromRequest r))))"

definition handleAbsoluteForm :: "proxy_entry \<Rightarrow> http_request \<Rightarrow> proxy_route \<Rightarrow> proxy_error + stream_request" where
  "handleAbsoluteForm p r route =
     (case splitProxyTarget (pe_parseURL p) r of
        None \<Rightarrow> Inl ErrTargetInvalid
      | Some (host, port, scheme) \<Rightarrow>
          (case checked_target p route host port of
             Some e \<Rightarrow> Inl e
           | None \<Rightarrow> Inr (egress_request (pr_AgentID route) ''http'' host port scheme host (traceparentFromRequest r))))"

text \<open>
  \<^verbatim>\<open>ServeHTTP\<close>: the answer is an error, or the stream request to open with the slot that is held for it. A request refused for its
  target has given its slot back.
\<close>

definition admit ::
  "proxy_entry \<Rightarrow> http_request \<Rightarrow> authenticator \<Rightarrow> string list \<Rightarrow> int \<Rightarrow> int \<Rightarrow> int \<Rightarrow> (proxy_error + proxy_route) \<times> authenticator" where
  "admit p r a visited now1 now2 now3 =
     (case (ParseClientIP (pe_parse6 p) (Get r (pe_clientIPHeader p)), header_identity (pe_lower p) (pe_suffix p) (Values r (pe_routeHeader p))) of
        (Inr clientIP, Inr key) \<Rightarrow>
          (case pe_routes p key of
             None \<Rightarrow> (Inl ErrRouteUnavailable, a)
           | Some route \<Rightarrow>
               if \<not> Active route then (Inl ErrRouteUnavailable, a)
               else if \<not> SourceACL_Allow (fst (NewSourceACL (pe_parse6 p) (pr_SourceCIDRs route))) (Some clientIP)
               then (Inl ErrSourceDenied, a)
               else (case Authorize (pe_auth p) a route (Some clientIP) (Get r ''Proxy-Authorization'') visited now1 now2 now3 of
                   (Some e, a) \<Rightarrow> (Inl e, a)
                 | (None, a) \<Rightarrow> (Inr route, a)))
      | _ \<Rightarrow> (Inl ErrRouteIdentityInvalid, a))"

definition ServeHTTP ::
  "proxy_entry \<Rightarrow> http_request \<Rightarrow> authenticator \<Rightarrow> slots \<Rightarrow> string list \<Rightarrow> int \<Rightarrow> int \<Rightarrow> int \<Rightarrow>
   (proxy_error + stream_request \<times> nat) \<times> authenticator \<times> slots" where
  "ServeHTTP p r a s visited now1 now2 now3 =
     (case admit p r a visited now1 now2 now3 of
        (Inl e, a) \<Rightarrow> (Inl e, a, s)
      | (Inr route, a) \<Rightarrow>
          (case reserve (pe_limit p) s route of
             (Inl e, s) \<Rightarrow> (Inl e, a, s)
           | (Inr slot, s) \<Rightarrow>
               (case (if hr_Method r = ''CONNECT'' then handleConnect p r route else handleAbsoluteForm p r route) of
                  Inl e \<Rightarrow> (Inl e, a, release s slot)
                | Inr sr \<Rightarrow> (Inr (sr, slot), a, s))))"

section \<open>The forwarded request\<close>

text \<open>
  \<^verbatim>\<open>normalizeProxyEntryRequest\<close>: the headers that go on to the target. \<^verbatim>\<open>Header.Del\<close> removes the canonical form of a name, which
  the names here are.
\<close>

definition hop_by_hop :: "string list" where
  "hop_by_hop = [''Proxy-Authorization'', ''Proxy-Connection'', ''Connection'', ''Keep-Alive'', ''Te'', ''Trailer'',
     ''Transfer-Encoding'', ''Upgrade'']"

definition normalizeProxyEntryRequest :: "proxy_entry \<Rightarrow> http_request \<Rightarrow> string \<Rightarrow> int \<Rightarrow> http_request" where
  "normalizeProxyEntryRequest p r host port =
     (let header = fold AList.delete hop_by_hop (hr_Header r);
          header = filter (\<lambda>(k, _). \<not> HasPrefix k ''X-Tunnelmesh-'') header;
          header = fold AList.delete [pe_routeHeader p, pe_clientIPHeader p, pe_clientPortHeader p] header in
      r\<lparr>hr_URL := (hr_URL r)\<lparr>u_Scheme := [], u_Host := [], u_Hostname := [], u_Port := []\<rparr>,
        hr_Host := (if CHR '':'' \<in> set host then CHR ''['' # host @ '']'' else host) @ CHR '':'' # Itoa port,
        hr_Header := header\<rparr>)"

section \<open>Slots are counted exactly\<close>

definition live :: "slots \<Rightarrow> nat" where
  "live s = length (filter (\<lambda>(_, released). \<not> released) (sl_held s))"

definition live_on :: "slots \<Rightarrow> string \<Rightarrow> nat" where
  "live_on s r = length (filter (\<lambda>(q, released). q = r \<and> \<not> released) (sl_held s))"

datatype slot_op = Reserve proxy_route | Release nat

fun slot_step :: "int \<Rightarrow> slots \<Rightarrow> slot_op \<Rightarrow> slots" where
  "slot_step limit s (Reserve route) = snd (reserve limit s route)"
| "slot_step limit s (Release i) = release s i"

definition slot_run :: "int \<Rightarrow> slot_op list \<Rightarrow> slots" where
  "slot_run limit ops = foldl (slot_step limit) no_slots ops"

text \<open>\<open>caps\<close> is a limit for the routes that have one in every request.\<close>

definition slots_ok :: "int \<Rightarrow> (string \<Rightarrow> int option) \<Rightarrow> slots \<Rightarrow> bool" where
  "slots_ok limit caps s \<longleftrightarrow>
     sl_activeTotal s = int (live s) \<and> (\<forall>r. active_on s r = int (live_on s r)) \<and>
     (limit > 0 \<longrightarrow> sl_activeTotal s \<le> limit) \<and> (\<forall>r c. caps r = Some c \<longrightarrow> active_on s r \<le> c)"

lemma filter_update_length:
  "i < length xs \<Longrightarrow> length (filter P (xs[i := y])) + (if P (xs ! i) then 1 else 0) = length (filter P xs) + (if P y then 1 else 0)"
proof (induction xs arbitrary: i)
  case (Cons x xs)
  then show ?case by (cases i) auto
qed simp

lemma release_ok:
  assumes "slots_ok limit caps s"
  shows "slots_ok limit caps (release s i)"
proof (cases "i < length (sl_held s) \<and> \<not> snd (sl_held s ! i)")
  case False
  then have "release s i = s" by (auto simp: release_def split: prod.splits)
  then show ?thesis using assms by simp
next
  case True
  then obtain r where i: "i < length (sl_held s)" "sl_held s ! i = (r, False)" by (metis prod.collapse)
  define s' where "s' = release s i"
  have held: "sl_held s' = (sl_held s)[i := (r, True)]" and total: "sl_activeTotal s' = sl_activeTotal s - 1"
    using i by (simp_all add: s'_def release_def Let_def)
  have "live s' + 1 = live s" "live_on s' r + 1 = live_on s r" "q \<noteq> r \<Longrightarrow> live_on s' q = live_on s q" for q
    using filter_update_length [OF i(1), of "\<lambda>(_, released). \<not> released" "(r, True)"]
      filter_update_length [OF i(1), of "\<lambda>(q, released). q = r \<and> \<not> released" "(r, True)"]
      filter_update_length [OF i(1), of "\<lambda>(p, released). p = q \<and> \<not> released" "(r, True)"] i(2)
    by (auto simp: live_def live_on_def held)
  note counts = this
  have "active_on s r = int (live_on s r)" using assms by (simp add: slots_ok_def)
  then have "active_on s' r = int (live_on s' r)" "q \<noteq> r \<Longrightarrow> active_on s' q = active_on s q" for q
    using i counts(2)
    by (auto simp: s'_def release_def active_on_def Let_def AList.update_conv' AList.delete_conv' restrict_map_def split: option.splits)
  then have "active_on s' q = int (live_on s' q)" "active_on s' q \<le> active_on s q" for q
    using counts(2) counts(3) [of q] assms by (cases "q = r"; simp add: slots_ok_def)+
  moreover have "sl_activeTotal s' = int (live s')" using total counts(1) assms by (simp add: slots_ok_def)
  ultimately have "slots_ok limit caps s'" using assms total unfolding slots_ok_def by (smt (verit))
  then show ?thesis by (simp add: s'_def)
qed

lemma reserve_ok:
  assumes "slots_ok limit caps s" "\<And>c. caps (pr_ID route) = Some c \<Longrightarrow> pr_MaxConcurrentTunnels route = c \<and> 0 < c"
  shows "slots_ok limit caps (snd (reserve limit s route))"
proof (cases "fst (reserve limit s route)")
  case (Inl e)
  then have "snd (reserve limit s route) = s" by (auto simp: reserve_def split: if_splits)
  then show ?thesis using assms(1) by simp
next
  case (Inr n)
  then have room: "limit > 0 \<Longrightarrow> sl_activeTotal s < limit"
    "pr_MaxConcurrentTunnels route > 0 \<Longrightarrow> active_on s (pr_ID route) < pr_MaxConcurrentTunnels route"
    by (auto simp: reserve_def split: if_splits)
  define s' where "s' = snd (reserve limit s route)"
  from Inr have s': "s' = s\<lparr>sl_activeTotal := sl_activeTotal s + 1,
      sl_activeByRoute := AList.update (pr_ID route) (active_on s (pr_ID route) + 1) (sl_activeByRoute s),
      sl_held := sl_held s @ [(pr_ID route, False)]\<rparr>"
    by (auto simp: s'_def reserve_def split: if_splits)
  have "active_on s' q = active_on s q + (if q = pr_ID route then 1 else 0)" "live s' = live s + 1"
    "live_on s' q = live_on s q + (if q = pr_ID route then 1 else 0)" for q
    by (simp_all add: s' active_on_def AList.update_conv' live_def live_on_def)
  moreover have "sl_activeTotal s' = sl_activeTotal s + 1" by (simp add: s')
  ultimately show ?thesis unfolding s'_def [symmetric]
    using assms room by (fastforce simp: slots_ok_def)
qed

text \<open>
  C33. The entry knows how many tunnels it carries: after any sequence of reservations and releases (a release may be repeated) the total
  and the number of each route are the reservations that have not been released, the total never exceeds the limit of the
  entry, and a route with a limit never exceeds it.
\<close>

theorem slots_counted_exactly:
  assumes "\<forall>route. Reserve route \<in> set ops \<longrightarrow> (\<forall>c. caps (pr_ID route) = Some c \<longrightarrow> pr_MaxConcurrentTunnels route = c \<and> 0 < c)"
    and "\<forall>r c. caps r = Some c \<longrightarrow> 0 < c"
  shows "slots_ok limit caps (slot_run limit ops)"
  using assms(1)
proof (induction ops rule: rev_induct)
  case Nil
  then show ?case using assms(2) by (fastforce simp: slot_run_def slots_ok_def no_slots_def live_def live_on_def active_on_def)
next
  case (snoc op ops)
  then have ok: "slots_ok limit caps (slot_run limit ops)" by simp
  have run: "slot_run limit (ops @ [op]) = slot_step limit (slot_run limit ops) op" by (simp add: slot_run_def)
  show ?case
  proof (cases op)
    case (Reserve route)
    then have "Reserve route \<in> set (ops @ [op])" by simp
    then have "pr_MaxConcurrentTunnels route = c \<and> 0 < c" if "caps (pr_ID route) = Some c" for c using snoc.prems that by blast
    with ok show ?thesis unfolding Reserve run [unfolded Reserve] slot_step.simps by (rule reserve_ok)
  next
    case (Release i)
    show ?thesis unfolding Release run [unfolded Release] slot_step.simps by (rule release_ok [OF ok])
  qed
qed

lemma slots_counted_exactly_witness:
  "slots_ok 3 (\<lambda>r. if r = ''r1'' then Some 2 else None)
     (slot_run 3 [Reserve sample_proxy_route, Reserve sample_proxy_route, Reserve sample_proxy_route, Release 0, Release 0])"
  using slots_counted_exactly [of "[Reserve sample_proxy_route, Reserve sample_proxy_route, Reserve sample_proxy_route, Release 0, Release 0]"
    "\<lambda>r. if r = ''r1'' then Some 2 else None" 3]
  by (simp add: sample_proxy_route_def)

section \<open>What gets through\<close>

lemma bindR_elim: "bindR r f = Inr y \<Longrightarrow> (\<And>x. r = Inr x \<Longrightarrow> f x = Inr y \<Longrightarrow> P) \<Longrightarrow> P"
  by (auto simp: bindR_Inr_iff)

lemma authorized:
  assumes "Authorize env a route i header visited now1 now2 now3 = (None, a')" "RequiresAuth route"
  shows "\<exists>u w su sw. parseBasicHeader (ae_fold env) header = Some (u, w) \<and> ae_resolver env (pr_CredentialID route) = Inr (su, sw) \<and>
    ae_sha env u = ae_sha env su \<and> ae_sha env w = ae_sha env sw"
  using assms
  by (auto simp: Authorize_def Let_def constantTimeEqual_def split: if_splits option.splits sum.splits secret_error.splits)

lemma admitted:
  assumes "admit p r a visited now1 now2 now3 = (Inr route, a')"
  obtains clientIP key where "ParseClientIP (pe_parse6 p) (Get r (pe_clientIPHeader p)) = Inr clientIP"
    "header_identity (pe_lower p) (pe_suffix p) (Values r (pe_routeHeader p)) = Inr key"
    "pe_routes p key = Some route" "Active route"
    "SourceACL_Allow (fst (NewSourceACL (pe_parse6 p) (pr_SourceCIDRs route))) (Some clientIP)"
    "Authorize (pe_auth p) a route (Some clientIP) (Get r ''Proxy-Authorization'') visited now1 now2 now3 = (None, a')"
  using assms by (auto simp: admit_def split: sum.splits option.splits if_splits prod.splits)

lemma source_matches:
  assumes "SourceACL_Allow (fst (NewSourceACL p6 cidrs)) (Some i)"
  shows "\<exists>ns. acl_networks_of p6 cidrs = Inr ns \<and> (\<exists>n\<in>set ns. Contains n i)"
  using assms by (auto simp: SourceACL_Allow_def NewSourceACL_def DenyAllSourceACL_def list_ex_iff split: sum.splits)

lemma policy_cidrs: "NewTargetPolicy p6 cidrs ports priv = Inr q \<Longrightarrow>
  tp_allowPrivateTargets q = priv \<and> tp_restrictCIDRs q = (cidrs \<noteq> []) \<and> rp_Ports (tp_policy q) = ports"
  by (auto simp: NewTargetPolicy_def NewPolicy_def bindR_Inr_iff normalizePorts_def split: if_splits)

text \<open>The agent, host and port of the request a handler opens, and that the target passed the policy of the route.\<close>

lemma handled:
  assumes "(if hr_Method r = ''CONNECT'' then handleConnect p r route else handleAbsoluteForm p r route) = Inr sr"
  shows "sr_AgentID sr = pr_AgentID route \<and> checked_target p route (sr_TargetHost sr) (sr_TargetPort sr) = None"
  using assms
  by (auto simp: handleConnect_def handleAbsoluteForm_def egress_request_def split: if_splits option.splits)


text \<open>IPv4 blocks in their canonical text parse to themselves, and so does an IPv4 address.\<close>

lemma acl_of_blocks:
  "\<forall>(b, k)\<in>set bs. k \<le> 32 \<Longrightarrow>
   acl_networks_of p6 (map (\<lambda>(b, k). show_net (net4 b k)) bs) = Inr (map (\<lambda>(b, k). net4 b k) bs)"
proof (induction bs)
  case (Cons x bs)
  obtain b k where x: "x = (b, k)" by (cases x)
  then have k: "k \<le> 32" using Cons.prems by simp
  have "CHR ''/'' \<in> set (show_net (net4 b k))" "show_block (net4 b k) = show_net (net4 b k)"
    by (simp_all add: show_net_def net4_def show_block_def)
  then have "NormalizeCIDR p6 (show_net (net4 b k)) = Inr (show_net (net4 b k))"
    by (simp add: NormalizeCIDR_def Let_def show_net_trim show_net_nonempty ParseCIDR_show_net [OF k])
  then show ?case using Cons by (simp add: x ParseCIDR_show_net [OF k])
qed simp

lemma client_of_text: "ParseClientIP p6 (show_ip b) = Inr (IP4 b)"
proof -
  have d: "show_nat k \<noteq> []" "is_digit (hd (show_nat k))" "is_digit (last (show_nat k))" for k
    using show_nat_props [of k] by (auto simp: list_all_iff)
  then have "show_ip b \<noteq> []" "graphic (hd (show_ip b))" "graphic (last (show_ip b))"
    by (auto simp: show_ip_def octets_def intro: digit_graphic)
  then show ?thesis by (simp add: ParseClientIP_def TrimSpace_graphic ParseIP_def)
qed

definition sample_open_route :: proxy_route where
  "sample_open_route = sample_proxy_route\<lparr>pr_SourceCIDRs := [show_net (net4 0x0A000000 8)]\<rparr>"

definition sample_entry :: proxy_entry where
  "sample_entry = \<lparr>pe_routeHeader = ''R'', pe_clientIPHeader = ''C'', pe_clientPortHeader = ''P'', pe_suffix = ''tm.test'', pe_limit = 8,
     pe_routes = (\<lambda>k. if k = ''tp-demo.tm.test'' then Some sample_open_route else None), pe_auth = sample_auth_env,
     pe_parse6 = (\<lambda>_. None), pe_lower = id, pe_parseURL = (\<lambda>_. None)\<rparr>"

definition sample_connect :: http_request where
  "sample_connect = \<lparr>hr_Method = ''CONNECT'', hr_Host = ''db'', hr_URL = \<lparr>u_Scheme = [], u_Host = [], u_Hostname = [], u_Port = []\<rparr>,
     hr_Header = [(''R'', [''demo'']), (''C'', [show_ip 0x0A000001]), (''Proxy-Authorization'', [''Basic dTpw''])]\<rparr>"

lemma sample_header: "parseBasicHeader (=) ''Basic dTpw'' = Some (''u'', ''p'')"
proof -
  have "TrimSpace ''dTpw'' = ''dTpw''" by (rule TrimSpace_graphic) (simp_all add: graphic_def)
  moreover have "EqualFold (=) ''Basic '' ''Basic ''" by (simp add: EqualFold_def)
  moreover have "b64_decode ''dTpw'' = Some [0x75, 0x3A, 0x70]" by (simp add: b64_decode_def b64_val_def)
  ultimately show ?thesis by (simp add: parseBasicHeader_def string_of_def char_of_def bit_0)
qed

lemma sample_identity: "header_identity id ''tm.test'' [''demo''] = Inr ''tp-demo.tm.test''"
proof -
  have "TrimSpace ''demo'' = ''demo''" by (rule TrimSpace_graphic) (simp_all add: graphic_def)
  moreover have "ToLower id ''demo'' = ''demo''" by (simp add: ToLower_def is_ascii_def lower_char_def)
  moreover have "TrimPrefix ''demo'' ''tp-'' = ''demo''" by (simp add: TrimPrefix_def HasPrefix_def)
  moreover have "proxyRouteNamePattern ''demo''"
    by (simp add: proxyRouteNamePattern_def edged_def lower_alnum_def)
  ultimately show ?thesis by (simp add: header_identity_def normalizeRouteKey_def)
qed

lemma sample_target: "splitConnectTarget sample_connect = Some (''db'', 443)" "checked_target sample_entry sample_open_route ''db'' 443 = None"
proof -
  have t: "TrimSpace ''db'' = ''db''" by (rule TrimSpace_graphic) (simp_all add: graphic_def)
  have "Atoi (Itoa 443) = Some 443" by (rule Atoi_Itoa) simp_all
  then show "splitConnectTarget sample_connect = Some (''db'', 443)"
    by (simp add: splitConnectTarget_def sample_connect_def t SplitHostPort_def defaultConnectPort_def)
  have "validProxyHostname ''db''"
    by (simp add: validProxyHostname_def HasPrefix_def HasSuffix_def edged_def alnum_def lower_alnum_def)
  then show "checked_target sample_entry sample_open_route ''db'' 443 = None"
    by (simp add: checked_target_def sample_entry_def sample_open_route_def sample_proxy_route_def NewTargetPolicy_def NewPolicy_def
        normalizePorts_def TargetPolicy_Validate_def t ParseIP_def ParseAddr_def portAllowed_def)
qed

lemma sample_source: "SourceACL_Allow (fst (NewSourceACL p6 (pr_SourceCIDRs sample_open_route))) (Some (IP4 0x0A000001))"
proof -
  have "masked 8 0x0A000001 = masked 8 0x0A000000" by code_simp
  then have "Contains4 (net4 0x0A000000 8) 0x0A000001" unfolding Contains4_net4 .
  moreover have "n_ip (net4 0x0A000000 8) = IP4 (masked 8 0x0A000000)" by (simp add: net4_def)
  ultimately have "Contains (net4 0x0A000000 8) (IP4 0x0A000001)" by (simp add: Contains_def)
  then show ?thesis using acl_of_blocks [of "[(0x0A000000, 8)]" p6]
    by (simp add: SourceACL_Allow_def NewSourceACL_def sample_open_route_def)
qed

lemma sample_served:
  "ServeHTTP sample_entry sample_connect (NewAuthenticator 3) no_slots [] 0 0 0 =
   (Inr (egress_request ''edge'' ''tcp'' ''db'' 443 [] [] [], 0), NewAuthenticator 3,
    snd (reserve 8 no_slots sample_open_route))"
proof -
  define key where "key = attemptKey ''r1'' (show_addr (IP4 0x0A000001))"
  have route: "RequiresAuth sample_open_route" "Active sample_open_route" "pr_ID sample_open_route = ''r1''"
    "pr_CredentialID sample_open_route = ''c1''" "pr_AgentID sample_open_route = ''edge''"
    by (simp_all add: sample_open_route_def sample_proxy_route_def RequiresAuth_def Active_def)
  have "Authorize sample_auth_env (NewAuthenticator 3) sample_open_route (Some (IP4 0x0A000001)) ''Basic dTpw'' [] 0 0 0 = (None, NewAuthenticator 3)"
    using sample_header unfolding Authorize_def route key_def [symmetric] option.case
    by (simp add: route key_def [symmetric] Let_def sweep_def sweep_key_def NewAuthenticator_def inBackoff_def sample_auth_env_def
        constantTimeEqual_def clearAttempts_def)
  then have "admit sample_entry sample_connect (NewAuthenticator 3) [] 0 0 0 = (Inr sample_open_route, NewAuthenticator 3)"
    using sample_source sample_identity client_of_text route
    by (simp add: admit_def sample_entry_def sample_connect_def Get_def Values_def)
  moreover obtain s where "reserve 8 no_slots sample_open_route = (Inr 0, s)"
    by (simp add: reserve_def no_slots_def active_on_def sample_open_route_def sample_proxy_route_def)
  moreover have "handleConnect sample_entry sample_connect sample_open_route = Inr (egress_request ''edge'' ''tcp'' ''db'' 443 [] [] [])"
    using sample_target route
    by (simp add: handleConnect_def traceparentFromRequest_def bytes_of_def)
      (simp add: Get_def Values_def sample_connect_def)
  moreover have "pe_limit sample_entry = 8" "hr_Method sample_connect = ''CONNECT''" by (simp_all add: sample_entry_def sample_connect_def)
  ultimately show ?thesis by (simp add: ServeHTTP_def)
qed


section \<open>The forwarded headers\<close>

lemma delete_all: "map_of (fold AList.delete ks m) k = (if k \<in> set ks then None else map_of m k)"
  by (induction ks arbitrary: m) (auto simp: AList.delete_conv' restrict_map_def)

lemma forwarded_headers:
  assumes "k \<in> set hop_by_hop \<union> {pe_routeHeader p, pe_clientIPHeader p, pe_clientPortHeader p} \<or> HasPrefix k ''X-Tunnelmesh-''"
  shows "Values (normalizeProxyEntryRequest p r host port) k = []"
proof -
  have "map_of (filter (\<lambda>(k, _). \<not> HasPrefix k ''X-Tunnelmesh-'') m) k = (if HasPrefix k ''X-Tunnelmesh-'' then None else map_of m k)"
    for m :: "(string \<times> string list) list"
    by (induction m) auto
  then show ?thesis using assms
    by (auto simp: Values_def normalizeProxyEntryRequest_def Let_def delete_all AList.delete_conv' restrict_map_def)
qed

end
