(* ===== verification/Semver.thy ===== *)
theory Semver
  imports Net_Addr
begin

text \<open>
  Release versions, \<^verbatim>\<open>internal/semver\<close>: parsing, printing and ordering. A version that does not parse (\<^verbatim>\<open>ErrNotRelease\<close>) is \<open>None\<close>.
  The numbers are Go's 64-bit \<^verbatim>\<open>int\<close>; \<^verbatim>\<open>strings.Compare\<close> is the lexicographic order of the bytes.

  The lemmas show that parsing inverts printing, that a parsed version is within its ranges, and that \<open>Compare\<close> is a total order
  in which a pre-release precedes its release.
\<close>

record version =
  v_Major :: int
  v_Minor :: int
  v_Patch :: int
  v_Pre :: string

definition parseNumber :: "string \<Rightarrow> int option" where
  "parseNumber s = (if s = [] \<or> \<not> list_all is_digit s then None else Atoi s)"

definition pre_char :: "char \<Rightarrow> bool" where
  "pre_char c \<longleftrightarrow> (let n = of_char c :: nat in (97 \<le> n \<and> n \<le> 122) \<or> (65 \<le> n \<and> n \<le> 90) \<or> (48 \<le> n \<and> n \<le> 57) \<or> c = CHR ''.'')"

definition validPre :: "string \<Rightarrow> bool" where
  "validPre pre = list_all pre_char pre"

definition ParseVersion :: "string \<Rightarrow> version option" where
  "ParseVersion s0 =
     (let s = TrimPrefix (TrimSpace s0) ''v'' in
      if s = [] then None
      else (case Cut CHR ''-'' s of (core, pre, hasPre) \<Rightarrow>
        if hasPre \<and> pre = [] then None
        else (case Split CHR ''.'' core of
            [a, b, c] \<Rightarrow>
              (case (parseNumber a, parseNumber b, parseNumber c) of
                 (Some x, Some y, Some z) \<Rightarrow>
                   if hasPre \<and> \<not> validPre pre then None
                   else Some \<lparr>v_Major = x, v_Minor = y, v_Patch = z, v_Pre = pre\<rparr>
               | _ \<Rightarrow> None)
          | _ \<Rightarrow> None)))"

definition compare_strings :: "string \<Rightarrow> string \<Rightarrow> int" where
  "compare_strings a b = (if a = b then 0 else if a < b then - 1 else 1)"

fun compare_pairs :: "(int \<times> int) list \<Rightarrow> int option" where
  "compare_pairs [] = None"
| "compare_pairs ((x, y) # ps) = (if x \<noteq> y then Some (if x < y then - 1 else 1) else compare_pairs ps)"

definition Compare :: "version \<Rightarrow> version \<Rightarrow> int" where
  "Compare v w =
     (case compare_pairs [(v_Major v, v_Major w), (v_Minor v, v_Minor w), (v_Patch v, v_Patch w)] of
        Some r \<Rightarrow> r
      | None \<Rightarrow>
          if v_Pre v = v_Pre w then 0
          else if v_Pre v = [] then 1
          else if v_Pre w = [] then - 1
          else compare_strings (v_Pre v) (v_Pre w))"

definition IsPre :: "version \<Rightarrow> bool" where
  "IsPre v \<longleftrightarrow> v_Pre v \<noteq> []"

definition Version_String :: "version \<Rightarrow> string" where
  "Version_String v =
     ''v'' @ Itoa (v_Major v) @ ''.'' @ Itoa (v_Minor v) @ ''.'' @ Itoa (v_Patch v)
     @ (if v_Pre v = [] then [] else CHR ''-'' # v_Pre v)"

definition Min_version :: "version \<Rightarrow> version \<Rightarrow> version" where
  "Min_version a b = (if Compare a b \<le> 0 then a else b)"

section \<open>Order\<close>

text \<open>The order as one on tuples: a release comes after its pre-releases.\<close>

definition version_less :: "version \<Rightarrow> version \<Rightarrow> bool" where
  "version_less v w \<longleftrightarrow>
     v_Major v < v_Major w \<or> (v_Major v = v_Major w \<and>
       (v_Minor v < v_Minor w \<or> (v_Minor v = v_Minor w \<and>
         (v_Patch v < v_Patch w \<or> (v_Patch v = v_Patch w \<and>
           (if v_Pre w = [] then v_Pre v \<noteq> [] else v_Pre v \<noteq> [] \<and> v_Pre v < v_Pre w))))))"

lemma Compare_cases:
  "Compare v w = (if v = w then 0 else if version_less v w then - 1 else 1)"
  by (cases v; cases w) (auto simp: Compare_def compare_strings_def version_less_def)

lemma version_less_total: "version_less v w \<or> v = w \<or> version_less w v"
  by (cases v; cases w) (auto simp: version_less_def)

lemma version_less_asym: "version_less v w \<Longrightarrow> \<not> version_less w v"
  by (auto simp: version_less_def split: if_splits)

lemma version_less_trans: "version_less u v \<Longrightarrow> version_less v w \<Longrightarrow> version_less u w"
  by (auto simp: version_less_def split: if_splits)

interpretation version_order: weak_order version_less
proof
  show "version_less x z \<Longrightarrow> version_less x y \<or> version_less y z" for x y z
    using version_less_total [of y z] version_less_trans [of x z y] version_less_total [of x y] by blast
qed (rule version_less_asym)

lemma Compare_iff:
  "Compare v w = 0 \<longleftrightarrow> v = w" "Compare v w < 0 \<longleftrightarrow> version_less v w" "Compare v w \<le> 0 \<longleftrightarrow> \<not> version_less w v" "Compare v w > 0 \<longleftrightarrow> version_less w v"
  using version_less_total [of v w] version_less_asym [of v w] version_order.irrefl [of v] by (auto simp: Compare_cases)

lemma Min_version_le: "\<not> version_less a (Min_version a b)" "\<not> version_less b (Min_version a b)" "Min_version a b \<in> {a, b}"
  using version_less_asym [of a b] version_order.irrefl by (auto simp: Min_version_def Compare_iff)

section \<open>Round trip\<close>

definition valid_version :: "version \<Rightarrow> bool" where
  "valid_version v \<longleftrightarrow>
     (\<forall>n\<in>{v_Major v, v_Minor v, v_Patch v}. 0 \<le> n \<and> n < 2 ^ 63) \<and> validPre (v_Pre v)"

lemma Itoa_nonneg: "0 \<le> n \<Longrightarrow> Itoa n = show_nat (nat n)"
  by (simp add: Itoa_def)

lemma parseNumber_Itoa: "0 \<le> n \<Longrightarrow> n < 2 ^ 63 \<Longrightarrow> parseNumber (Itoa n) = Some n"
proof -
  assume n: "0 \<le> n" "n < 2 ^ 63"
  then have "Atoi (Itoa n) = Some n" by (intro Atoi_Itoa) simp_all
  then show ?thesis using n show_nat_props [of "nat n"] by (simp add: parseNumber_def Itoa_nonneg)
qed

lemma Itoa_chars: "0 \<le> n \<Longrightarrow> c \<in> set (Itoa n) \<Longrightarrow> is_digit c"
  by (auto simp: Itoa_nonneg dest: show_nat_chars)

theorem version_roundtrip:
  assumes "valid_version v"
  shows "ParseVersion (Version_String v) = Some v"
proof -
  define core where "core = Itoa (v_Major v) @ ''.'' @ Itoa (v_Minor v) @ ''.'' @ Itoa (v_Patch v)"
  define tail where "tail = (if v_Pre v = [] then [] else CHR ''-'' # v_Pre v)"
  have n: "0 \<le> v_Major v" "v_Major v < 2 ^ 63" "0 \<le> v_Minor v" "v_Minor v < 2 ^ 63" "0 \<le> v_Patch v" "v_Patch v < 2 ^ 63" "validPre (v_Pre v)"
    using assms by (auto simp: valid_version_def)
  note d = Itoa_chars [OF n(1)] Itoa_chars [OF n(3)] Itoa_chars [OF n(5)]
  have dash: "CHR ''-'' \<notin> set core" using d by (auto simp: core_def dest: is_digit_not(1) [THEN notE])
  have dots: "Split CHR ''.'' core = [Itoa (v_Major v), Itoa (v_Minor v), Itoa (v_Patch v)]"
  proof -
    have "CHR ''.'' \<notin> set (Itoa (v_Major v))" "CHR ''.'' \<notin> set (Itoa (v_Minor v))" "CHR ''.'' \<notin> set (Itoa (v_Patch v))"
      using d is_digit_not by blast+
    then show ?thesis by (simp add: core_def Split_append Split_word)
  qed
  have "graphic (last (''v'' @ core @ tail))"
  proof (cases "v_Pre v = []")
    case True
    have "Itoa (v_Patch v) \<noteq> []" using n(5) by (simp add: Itoa_nonneg)
    then have "is_digit (last (Itoa (v_Patch v)))" using d(3) by simp
    then show ?thesis using True \<open>Itoa (v_Patch v) \<noteq> []\<close> by (simp add: core_def tail_def digit_graphic)
  next
    case False
    then have "pre_char (last (v_Pre v))" using n(7) by (simp add: validPre_def list_all_iff)
    then show ?thesis using False by (auto simp: tail_def graphic_def pre_char_def Let_def)
  qed
  then have trim: "TrimSpace (''v'' @ core @ tail) = ''v'' @ core @ tail"
    by (intro TrimSpace_graphic) (simp_all add: graphic_def)
  have "Version_String v = ''v'' @ core @ tail" by (simp add: Version_String_def core_def tail_def)
  moreover have "Cut CHR ''-'' (core @ tail) = (core, v_Pre v, v_Pre v \<noteq> [])"
    using Cut_found [OF dash, of "v_Pre v"] Cut_not_found [OF dash] by (auto simp: tail_def)
  moreover have "core \<noteq> []" by (simp add: core_def)
  ultimately show ?thesis
    unfolding ParseVersion_def
    by (simp only: trim TrimPrefix_append Let_def) (use n dots in \<open>simp add: parseNumber_Itoa\<close>)
qed

text \<open>A parsed version is in its ranges; its canonical text has no character that could leave a directory.\<close>

lemma parseNumber_range: "parseNumber s = Some n \<Longrightarrow> 0 \<le> n \<and> n < 2 ^ 63"
proof -
  assume p: "parseNumber s = Some n"
  then obtain c cs where s: "s = c # cs" by (cases s) (auto simp: parseNumber_def)
  with p have "is_digit c" "Atoi s = Some n" by (auto simp: parseNumber_def split: if_splits)
  then show ?thesis using s by (auto simp: Atoi_def split: if_splits option.splits)
qed

lemma parsed_valid:
  assumes "ParseVersion s = Some v"
  shows "valid_version v"
proof -
  obtain core pre hasPre where cut: "Cut CHR ''-'' (TrimPrefix (TrimSpace s) ''v'') = (core, pre, hasPre)" by (metis prod_cases3)
  from assms obtain a b c x y z where v: "v = \<lparr>v_Major = x, v_Minor = y, v_Patch = z, v_Pre = pre\<rparr>"
    "parseNumber a = Some x" "parseNumber b = Some y" "parseNumber c = Some z" "\<not> (hasPre \<and> \<not> validPre pre)"
    unfolding ParseVersion_def Let_def cut by (auto split: if_splits list.splits option.splits)
  moreover have "validPre pre" using v(5) Cut_False [of "CHR ''-''" "TrimPrefix (TrimSpace s) ''v''" core pre] cut
    by (cases hasPre) (simp_all add: validPre_def)
  ultimately show ?thesis using parseNumber_range by (simp add: valid_version_def)
qed

lemma version_chars:
  assumes "ParseVersion s = Some v" "c \<in> set (Version_String v)"
  shows "c = CHR ''-'' \<or> pre_char c"
proof -
  have v: "0 \<le> v_Major v" "0 \<le> v_Minor v" "0 \<le> v_Patch v" "list_all pre_char (v_Pre v)"
    using parsed_valid [OF assms(1)] by (auto simp: valid_version_def validPre_def)
  have "is_digit c \<Longrightarrow> pre_char c" for c by (simp add: is_digit_range pre_char_def Let_def)
  moreover have "pre_char CHR ''v''" "pre_char CHR ''.''" by (simp_all add: pre_char_def)
  ultimately show ?thesis using assms(2) v Itoa_chars
    by (auto simp: Version_String_def list_all_iff split: if_splits)
qed

end
