(* ===== verification/Self_Update.thy ===== *)
theory Self_Update
  imports Semver Prelude "HOL-Library.AList"
begin

text \<open>
  The upgrade policy and the persisted upgrade state of clients and agents, \<^verbatim>\<open>internal/selfupdate\<close>: which version to move to
  (\<^verbatim>\<open>planner.go\<close>), the state file and the directory of downloaded versions (\<^verbatim>\<open>store.go\<close>), and the operations the supervisor calls
  (\<^verbatim>\<open>upgrader.go\<close>). The disk is the state file and the version directories; a directory may have lost its binary. Saving is
  atomic (a rename), and so is the appearance of an installed version; every write may fail, and a supervisor that dies between two
  writes is the case where the later ones fail. Fetching, the preflight run and the release source are outcomes given to the
  operations. Paths are version names; log texts are left out.

  The lemmas show that the target of an upgrade stays within the policy, and that outside a trial only a version runs whose
  installed copy passed its trial, as long as the writes of rollbacks succeed; a failed one breaks this.
\<close>

section \<open>State\<close>

record pending_trial =
  pd_Target :: string
  pd_From :: string
  pd_StartedAt :: int

record bad_mark =
  bm_Reason :: string
  bm_Until :: int

record up_state =
  us_Current :: string
  us_Previous :: string
  us_Pending :: "pending_trial option"
  us_Bad :: "(string \<times> bad_mark) list"
  us_LastCheck :: int

definition empty_state :: up_state where
  "empty_state = \<lparr>us_Current = [], us_Previous = [], us_Pending = None, us_Bad = [], us_LastCheck = 0\<rparr>"

definition IsBad :: "up_state \<Rightarrow> string \<Rightarrow> int \<Rightarrow> bool" where
  "IsBad s version now = (case map_of (us_Bad s) version of None \<Rightarrow> False | Some mark \<Rightarrow> now < bm_Until mark)"

definition MarkBad :: "up_state \<Rightarrow> string \<Rightarrow> string \<Rightarrow> int \<Rightarrow> int \<Rightarrow> up_state" where
  "MarkBad s version reason now ttl =
     s\<lparr>us_Bad := AList.update version \<lparr>bm_Reason = reason, bm_Until = now + ttl\<rparr> (us_Bad s)\<rparr>"

definition Expire :: "up_state \<Rightarrow> int \<Rightarrow> up_state" where
  "Expire s now = s\<lparr>us_Bad := filter (\<lambda>(_, mark). now < bm_Until mark) (us_Bad s)\<rparr>"

text \<open>What may be found in place of the state file.\<close>

datatype state_file = NoState | Unreadable | Damaged | NewerSchema | Saved up_state

definition Load :: "state_file \<Rightarrow> up_state option" where
  "Load f = (case f of NoState \<Rightarrow> Some empty_state | Unreadable \<Rightarrow> None | Damaged \<Rightarrow> Some empty_state
     | NewerSchema \<Rightarrow> Some empty_state | Saved st \<Rightarrow> Some st)"

text \<open>The version directories, with whether the binary is there.\<close>

record disk =
  dk_state :: state_file
  dk_versions :: "(string \<times> bool) list"

definition Save :: "bool \<Rightarrow> up_state \<Rightarrow> disk \<Rightarrow> disk" where
  "Save ok st d = (if ok then d\<lparr>dk_state := Saved st\<rparr> else d)"

definition has_binary :: "disk \<Rightarrow> string \<Rightarrow> bool" where
  "has_binary d v \<longleftrightarrow> map_of (dk_versions d) v = Some True"

definition versionDir :: "string \<Rightarrow> string option" where
  "versionDir v = (case ParseVersion v of None \<Rightarrow> None | Some parsed \<Rightarrow> if Version_String parsed = v then Some v else None)"

text \<open>A removal that fails may still have removed the binary.\<close>

datatype removal = RemoveOk | RemoveFails bool

definition remove_dir :: "removal \<Rightarrow> string \<Rightarrow> (string \<times> bool) list \<Rightarrow> (string \<times> bool) list" where
  "remove_dir r v vs =
     (case r of RemoveOk \<Rightarrow> AList.delete v vs
      | RemoveFails gone \<Rightarrow> if gone \<and> map_of vs v \<noteq> None then AList.update v False vs else vs)"

definition removed_ok :: "removal \<Rightarrow> bool" where
  "removed_ok r \<longleftrightarrow> r = RemoveOk"

definition Install :: "removal \<Rightarrow> bool \<Rightarrow> string \<Rightarrow> disk \<Rightarrow> bool \<times> disk" where
  "Install rem renames version d =
     (case versionDir version of None \<Rightarrow> (False, d)
      | Some v \<Rightarrow>
          (let d = d\<lparr>dk_versions := remove_dir rem v (dk_versions d)\<rparr> in
           if \<not> removed_ok rem \<or> \<not> renames then (False, d)
           else (True, d\<lparr>dk_versions := AList.update v True (dk_versions d)\<rparr>)))"

text \<open>\<^verbatim>\<open>Prune\<close>: the directories with a canonical version name, newest first; \<open>rem\<close> says how each removal ends.\<close>

definition newer_name :: "string \<Rightarrow> string \<Rightarrow> bool" where
  "newer_name a b = (case (ParseVersion a, ParseVersion b) of (Some v, Some w) \<Rightarrow> Compare v w > 0 | _ \<Rightarrow> False)"

definition prunable :: "int \<Rightarrow> string list \<Rightarrow> disk \<Rightarrow> string list" where
  "prunable keep inUse d =
     (let versions = SliceStable newer_name (filter (\<lambda>n. versionDir n \<noteq> None) (map fst (dk_versions d))) in
      map snd (filter (\<lambda>(i, v). \<not> (int i < keep \<or> v \<in> set inUse)) (enumerate 0 versions)))"

definition Prune :: "int \<Rightarrow> string list \<Rightarrow> (string \<Rightarrow> removal) \<Rightarrow> disk \<Rightarrow> disk" where
  "Prune keep inUse rem d =
     d\<lparr>dk_versions := fold (\<lambda>v vs. remove_dir (rem v) v vs) (prunable keep inUse d) (dk_versions d)\<rparr>"

section \<open>Policy\<close>

datatype reason = DevelopmentBuild | ServerUnknown | UpToDate | OntoPreRelease | FailedRecently

definition Decide :: "string \<Rightarrow> up_state \<Rightarrow> int \<Rightarrow> version \<Rightarrow> string \<Rightarrow> reason + version" where
  "Decide running st now latest serverVersion =
     (case ParseVersion running of None \<Rightarrow> Inl DevelopmentBuild
      | Some current \<Rightarrow>
        (case ParseVersion serverVersion of None \<Rightarrow> Inl ServerUnknown
         | Some server \<Rightarrow>
             (let target = Min_version latest server in
              if Compare target current \<le> 0 then Inl UpToDate
              else if IsPre target \<and> \<not> IsPre current then Inl OntoPreRelease
              else if IsBad st (Version_String target) now then Inl FailedRecently
              else Inr target)))"

section \<open>Operations\<close>

record upgrader =
  ug_InstalledVersion :: string
  ug_BadVersionTTL :: int
  ug_KeepVersions :: int
  ug_CheckInterval :: int
  ug_FirstCheckDelay :: int
  ug_FirstCheckJitter :: int

definition installedIsNewer :: "upgrader \<Rightarrow> string \<Rightarrow> bool" where
  "installedIsNewer u current =
     (current \<noteq> [] \<and>
      (case (ParseVersion current, ParseVersion (ug_InstalledVersion u)) of
         (Some cur, Some installed) \<Rightarrow> Compare installed cur \<ge> 0
       | _ \<Rightarrow> False))"

text \<open>The version to launch and whether it is on trial; \<open>None\<close> is the installed binary.\<close>

definition Binary :: "upgrader \<Rightarrow> disk \<Rightarrow> (string \<times> bool) option" where
  "Binary u d =
     (case Load (dk_state d) of None \<Rightarrow> None
      | Some st \<Rightarrow>
          if us_Current st = [] then None
          else if versionDir (us_Current st) = None then None
          else if installedIsNewer u (us_Current st) then None
          else if \<not> has_binary d (us_Current st) then None
          else Some (us_Current st, case us_Pending st of None \<Rightarrow> False | Some p \<Rightarrow> pd_Target p = us_Current st))"

definition rollbackInState :: "upgrader \<Rightarrow> string \<Rightarrow> int \<Rightarrow> removal \<Rightarrow> up_state \<Rightarrow> disk \<Rightarrow> up_state \<times> disk" where
  "rollbackInState u why now rem st d =
     (let abandoned = (case us_Pending st of None \<Rightarrow> us_Current st | Some p \<Rightarrow> pd_Target p);
          (st, d) = (if abandoned = [] then (st, d)
            else (MarkBad st abandoned why now (ug_BadVersionTTL u),
                  case versionDir abandoned of None \<Rightarrow> d | Some v \<Rightarrow> d\<lparr>dk_versions := remove_dir rem v (dk_versions d)\<rparr>)) in
      (st\<lparr>us_Current := us_Previous st, us_Previous := [], us_Pending := None\<rparr>, d))"

definition Resume :: "upgrader \<Rightarrow> int \<Rightarrow> removal \<Rightarrow> bool \<Rightarrow> (string \<Rightarrow> removal) \<Rightarrow> disk \<Rightarrow> disk" where
  "Resume u now rem saves rems d =
     (case Load (dk_state d) of None \<Rightarrow> d
      | Some st \<Rightarrow>
          (let (st, d) = (if us_Pending st \<noteq> None then rollbackInState u ''the supervisor stopped during the upgrade trial'' now rem st d else (st, d));
               st = (if installedIsNewer u (us_Current st) then st\<lparr>us_Current := [], us_Previous := []\<rparr> else st);
               st = Expire st now;
               d = Save saves st d in
           if \<not> saves then d else Prune (ug_KeepVersions u) [us_Current st, us_Previous st] rems d))"

definition recordCheck :: "int \<Rightarrow> bool \<Rightarrow> disk \<Rightarrow> disk" where
  "recordCheck now saves d =
     (case Load (dk_state d) of None \<Rightarrow> d | Some st \<Rightarrow> Save saves (st\<lparr>us_LastCheck := now\<rparr>) d)"

definition blacklist :: "upgrader \<Rightarrow> string \<Rightarrow> string \<Rightarrow> int \<Rightarrow> bool \<Rightarrow> removal \<Rightarrow> disk \<Rightarrow> disk" where
  "blacklist u version why now saves rem d =
     (let d = (case Load (dk_state d) of None \<Rightarrow> d | Some st \<Rightarrow> Save saves (MarkBad st version why now (ug_BadVersionTTL u)) d) in
      case versionDir version of None \<Rightarrow> d | Some v \<Rightarrow> d\<lparr>dk_versions := remove_dir rem v (dk_versions d)\<rparr>)"

text \<open>The wait before the next check; \<open>roll n\<close> is the random number below \<open>n\<close> (\<^verbatim>\<open>Int63n\<close>). Durations are in nanoseconds.\<close>

definition NextCheck :: "(int \<Rightarrow> int) \<Rightarrow> upgrader \<Rightarrow> bool \<Rightarrow> int" where
  "NextCheck roll u first =
     (if ug_CheckInterval u \<le> 0 then 0
      else if first then
        (let delay = (if ug_FirstCheckDelay u \<le> 0 then 60 * 10 ^ 9 else ug_FirstCheckDelay u);
             jitter = (if ug_FirstCheckJitter u \<le> 0 then 5 * 60 * 10 ^ 9 else ug_FirstCheckJitter u) in
         delay + roll jitter)
      else ug_CheckInterval u + roll (ug_CheckInterval u div 4 + 1))"

text \<open>
  \<^verbatim>\<open>Check\<close> in two parts, since the installed version is on disk while its preflight runs: up to the installation (\<open>fetched\<close> says
  whether the download and its checksum were good), and the preflight (\<open>cancelled\<close>: its context had ended).
\<close>

datatype check_result = NoUpgrade | CheckFailed | Installed string

definition check_install ::
  "string \<Rightarrow> version option \<Rightarrow> string \<Rightarrow> int \<Rightarrow> bool \<Rightarrow> bool \<Rightarrow> removal \<Rightarrow> bool \<Rightarrow> disk \<Rightarrow> check_result \<times> disk" where
  "check_install running latest server now saves fetched rem renames d =
     (case latest of None \<Rightarrow> (CheckFailed, d)
      | Some rel \<Rightarrow>
        (case Load (dk_state d) of None \<Rightarrow> (CheckFailed, d)
         | Some st \<Rightarrow>
             (let decision = Decide running st now rel server; d = recordCheck now saves d in
              case decision of Inl _ \<Rightarrow> (NoUpgrade, d)
              | Inr target \<Rightarrow>
                  if \<not> fetched then (CheckFailed, d)
                  else (case Install rem renames (Version_String target) d of
                      (False, d) \<Rightarrow> (CheckFailed, d)
                    | (True, d) \<Rightarrow> (Installed (Version_String target), d)))))"

definition check_preflight :: "upgrader \<Rightarrow> string \<Rightarrow> bool \<Rightarrow> bool \<Rightarrow> int \<Rightarrow> bool \<Rightarrow> removal \<Rightarrow> disk \<Rightarrow> bool \<times> disk" where
  "check_preflight u target passes cancelled now saves rem d =
     (if passes then (True, d)
      else (False, if cancelled then d else blacklist u target ''preflight'' now saves rem d))"

definition Activate :: "string \<Rightarrow> int \<Rightarrow> bool \<Rightarrow> disk \<Rightarrow> disk" where
  "Activate version now saves d =
     (case Load (dk_state d) of None \<Rightarrow> d
      | Some st \<Rightarrow>
          Save saves (st\<lparr>us_Pending := Some \<lparr>pd_Target = version, pd_From = us_Current st, pd_StartedAt = now\<rparr>,
                         us_Previous := us_Current st, us_Current := version\<rparr>) d)"

definition Commit :: "upgrader \<Rightarrow> int \<Rightarrow> bool \<Rightarrow> (string \<Rightarrow> removal) \<Rightarrow> disk \<Rightarrow> disk" where
  "Commit u now saves rems d =
     (case Load (dk_state d) of None \<Rightarrow> d
      | Some st \<Rightarrow>
          (let st = Expire (st\<lparr>us_Pending := None\<rparr>) now; d = Save saves st d in
           if \<not> saves then d else Prune (ug_KeepVersions u) [us_Current st, us_Previous st] rems d))"

definition Rollback :: "upgrader \<Rightarrow> string \<Rightarrow> int \<Rightarrow> removal \<Rightarrow> bool \<Rightarrow> disk \<Rightarrow> disk" where
  "Rollback u why now rem saves d =
     (case Load (dk_state d) of None \<Rightarrow> d
      | Some st \<Rightarrow> (case rollbackInState u why now rem st d of (st, d) \<Rightarrow> Save saves st d))"

section \<open>Sessions of the supervisor\<close>

text \<open>
  What the supervisor and the upgrader do to the disk, in any order the supervisor allows. \<open>ux_running\<close> is the version of the running
  worker (\<open>[]\<close> for the installed binary) and whether it is still on trial; \<open>ux_target\<close> is a version the running check has
  installed and whether its preflight passed. \<open>ux_confirmed\<close> records which installed copies passed their trial: a commit enters the
  running version, a new installation of a version removes it. A start may be that of a reinstalled binary, and ends
  whatever the previous supervisor left running. A check ends with the worker it was started for. The release source parses the tag
  it reports.
\<close>

record upgrade_sys =
  ux_u :: upgrader
  ux_disk :: disk
  ux_running :: "(string \<times> bool) option"
  ux_target :: "(string \<times> bool) option"
  ux_confirmed :: "string list"

definition reported :: "upgrader \<Rightarrow> string \<Rightarrow> string" where
  "reported u r = (if r = [] then ug_InstalledVersion u else r)"

datatype upgrade_event =
    SupervisorStarts string int removal bool "string \<Rightarrow> removal"
  | WorkerStarts
  | WorkerEnds
  | CheckInstalls string string int bool bool removal bool
  | PreflightEnds bool bool int bool removal
  | SwitchVersion int bool
  | TrialSucceeds int bool "string \<Rightarrow> removal"
  | TrialFails string int removal bool
  | StateLost state_file

fun upgrade_step :: "upgrade_sys \<Rightarrow> upgrade_event \<Rightarrow> upgrade_sys" where
  "upgrade_step s (SupervisorStarts installed now rem saves rems) =
     (let u = (ux_u s)\<lparr>ug_InstalledVersion := installed\<rparr> in
      s\<lparr>ux_u := u, ux_running := None, ux_target := None, ux_disk := Resume u now rem saves rems (ux_disk s)\<rparr>)"
| "upgrade_step s WorkerStarts =
     (if ux_running s \<noteq> None then s
      else s\<lparr>ux_running := Some (case Binary (ux_u s) (ux_disk s) of None \<Rightarrow> ([], False) | Some b \<Rightarrow> b)\<rparr>)"
| "upgrade_step s WorkerEnds = s\<lparr>ux_running := None, ux_target := None\<rparr>"
| "upgrade_step s (CheckInstalls tag server now saves fetched rem renames) =
     (case (ux_running s, ux_target s) of
        (Some (r, False), None) \<Rightarrow>
          (case check_install (reported (ux_u s) r) (ParseVersion tag) server now saves fetched rem renames (ux_disk s) of
             (Installed t, d) \<Rightarrow> s\<lparr>ux_disk := d, ux_target := Some (t, False), ux_confirmed := removeAll t (ux_confirmed s)\<rparr>
           | (_, d) \<Rightarrow> s\<lparr>ux_disk := d\<rparr>)
      | _ \<Rightarrow> s)"
| "upgrade_step s (PreflightEnds passes cancelled now saves rem) =
     (case ux_target s of
        Some (t, False) \<Rightarrow>
          (case check_preflight (ux_u s) t passes cancelled now saves rem (ux_disk s) of
             (ok, d) \<Rightarrow> s\<lparr>ux_disk := d, ux_target := (if ok then Some (t, True) else None)\<rparr>)
      | _ \<Rightarrow> s)"
| "upgrade_step s (SwitchVersion now saves) =
     (case ux_target s of
        Some (t, True) \<Rightarrow> s\<lparr>ux_running := None, ux_target := None, ux_disk := Activate t now saves (ux_disk s)\<rparr>
      | _ \<Rightarrow> s)"
| "upgrade_step s (TrialSucceeds now saves rems) =
     (case ux_running s of
        Some (r, True) \<Rightarrow> s\<lparr>ux_running := Some (r, False), ux_confirmed := r # ux_confirmed s,
                           ux_disk := Commit (ux_u s) now saves rems (ux_disk s)\<rparr>
      | _ \<Rightarrow> s)"
| "upgrade_step s (TrialFails why now rem saves) =
     (case ux_running s of
        Some (r, True) \<Rightarrow> s\<lparr>ux_running := None, ux_disk := Rollback (ux_u s) why now rem saves (ux_disk s)\<rparr>
      | _ \<Rightarrow> s)"
| "upgrade_step s (StateLost f) = (case f of Saved _ \<Rightarrow> s | _ \<Rightarrow> s\<lparr>ux_disk := (ux_disk s)\<lparr>dk_state := f\<rparr>\<rparr>)"

definition fresh_install :: "upgrader \<Rightarrow> upgrade_sys" where
  "fresh_install u = \<lparr>ux_u = u, ux_disk = \<lparr>dk_state = NoState, dk_versions = []\<rparr>, ux_running = None, ux_target = None, ux_confirmed = []\<rparr>"

definition upgrade_run :: "upgrader \<Rightarrow> upgrade_event list \<Rightarrow> upgrade_sys" where
  "upgrade_run u evs = foldl upgrade_step (fresh_install u) evs"

text \<open>The writes on which a rollback depends succeed.\<close>

fun rollback_saved :: "upgrade_event \<Rightarrow> bool" where
  "rollback_saved (SupervisorStarts _ _ _ saves _) = saves"
| "rollback_saved (TrialFails _ _ _ saves) = saves"
| "rollback_saved _ = True"

section \<open>The policy\<close>

lemma Decide_target:
  assumes "Decide running st now latest serverVersion = Inr target"
  obtains current server where "ParseVersion running = Some current" "ParseVersion serverVersion = Some server"
    "target = Min_version latest server" "version_less current target" "IsPre target \<longrightarrow> IsPre current"
    "\<not> IsBad st (Version_String target) now"
  using assms by (auto simp: Decide_def Let_def Compare_iff split: option.splits if_splits)

section \<open>Names\<close>

definition older_version :: "string \<Rightarrow> string \<Rightarrow> bool" where
  "older_version a b \<longleftrightarrow> (\<exists>v w. ParseVersion a = Some v \<and> ParseVersion b = Some w \<and> version_less v w)"

lemma older_version_irrefl: "\<not> older_version a a"
  by (auto simp: older_version_def version_order.irrefl)

lemma older_version_trans: "older_version a b \<Longrightarrow> older_version b c \<Longrightarrow> older_version a c"
  unfolding older_version_def using version_less_trans by fastforce

definition not_above :: "string \<Rightarrow> string \<Rightarrow> bool" where
  "not_above a b \<longleftrightarrow> (\<forall>v w. ParseVersion a = Some v \<longrightarrow> ParseVersion b = Some w \<longrightarrow> \<not> version_less w v)"

lemma versionDir_iff: "versionDir v \<noteq> None \<longleftrightarrow> (\<exists>p. ParseVersion v = Some p \<and> Version_String p = v)"
  by (auto simp: versionDir_def split: option.splits)

lemma versionDir_SomeD: "versionDir v = Some w \<Longrightarrow> w = v"
  by (auto simp: versionDir_def split: option.splits if_splits)

lemma not_above_older: "not_above a r \<Longrightarrow> versionDir a \<noteq> None \<Longrightarrow> ParseVersion r = Some c \<Longrightarrow> version_less c t \<Longrightarrow>
  ParseVersion n = Some t \<Longrightarrow> older_version a n"
  unfolding not_above_def older_version_def versionDir_iff
  using version_order.neg_trans by blast

lemma installedIsNewer_iff:
  "installedIsNewer u v \<longleftrightarrow> v \<noteq> [] \<and> (\<exists>c i. ParseVersion v = Some c \<and> ParseVersion (ug_InstalledVersion u) = Some i \<and> \<not> version_less i c)"
  by (auto simp: installedIsNewer_def Compare_iff not_less [symmetric] split: option.splits)

section \<open>The disk\<close>

lemma remove_dir_other: "w \<noteq> v \<Longrightarrow> map_of (remove_dir r v vs) w = map_of vs w"
  by (auto simp: remove_dir_def AList.delete_conv' AList.update_conv' restrict_map_def split: removal.splits)

lemma has_binary_remove [simp]: "w \<noteq> v \<Longrightarrow> has_binary (d\<lparr>dk_versions := remove_dir r v (dk_versions d)\<rparr>) w = has_binary d w"
  by (simp add: has_binary_def remove_dir_other)

lemma has_binary_Save [simp]: "has_binary (Save ok st d) = has_binary d"
  by (simp add: has_binary_def Save_def fun_eq_iff)

lemma has_binary_state [simp]: "has_binary (d\<lparr>dk_state := f\<rparr>) = has_binary d"
  by (simp add: has_binary_def fun_eq_iff)

lemma Prune_keeps: "v \<in> set inUse \<Longrightarrow> has_binary (Prune keep inUse rem d) v = has_binary d v"
proof -
  assume "v \<in> set inUse"
  then have "v \<notin> set (prunable keep inUse d)"
    by (auto simp: prunable_def Let_def)
  moreover have "v \<notin> set ks \<Longrightarrow> map_of (fold (\<lambda>v vs. remove_dir (rem v) v vs) ks vs) v = map_of vs v" for ks vs
    by (induction ks arbitrary: vs) (auto simp: remove_dir_other)
  ultimately show ?thesis by (simp add: has_binary_def Prune_def)
qed

lemma Prune_state [simp]: "dk_state (Prune keep inUse rem d) = dk_state d"
  by (simp add: Prune_def)

definition state_of :: "disk \<Rightarrow> up_state" where
  "state_of d = (case Load (dk_state d) of None \<Rightarrow> empty_state | Some st \<Rightarrow> st)"

lemma state_of_Save [simp]: "state_of (Save ok st d) = (if ok then st else state_of d)"
  by (simp add: state_of_def Save_def Load_def)

lemma state_of_versions [simp]: "state_of (d\<lparr>dk_versions := vs\<rparr>) = state_of d" "state_of (Prune keep inUse rem d) = state_of d"
  by (simp_all add: state_of_def)

lemma Load_state_of: "Load (dk_state d) = Some st \<Longrightarrow> state_of d = st"
  by (simp add: state_of_def)

section \<open>Only confirmed versions run outside a trial\<close>

text \<open>What the disk satisfies in every reachable state: \<open>cf\<close> are the confirmed copies.\<close>

definition disk_sound :: "upgrader \<Rightarrow> string list \<Rightarrow> (string \<Rightarrow> bool) \<Rightarrow> up_state \<Rightarrow> bool" where
  "disk_sound u cf bin st \<longleftrightarrow>
     (us_Current st \<noteq> [] \<longrightarrow> versionDir (us_Current st) \<noteq> None \<and> bin (us_Current st) \<and> \<not> installedIsNewer u (us_Current st)) \<and>
     (us_Previous st \<noteq> [] \<longrightarrow>
        us_Current st \<noteq> [] \<and> versionDir (us_Previous st) \<noteq> None \<and> bin (us_Previous st) \<and> us_Previous st \<in> set cf \<and>
        older_version (us_Previous st) (us_Current st)) \<and>
     (case us_Pending st of
        None \<Rightarrow> us_Current st = [] \<or> us_Current st \<in> set cf
      | Some p \<Rightarrow> pd_Target p = us_Current st \<and> us_Current st \<noteq> [] \<and> (us_Previous st = [] \<or> \<not> installedIsNewer u (us_Previous st)))"

definition worker_sound :: "upgrader \<Rightarrow> string list \<Rightarrow> up_state \<Rightarrow> (string \<times> bool) option \<Rightarrow> bool" where
  "worker_sound u cf st running \<longleftrightarrow>
     (case running of
        None \<Rightarrow> True
      | Some (r, True) \<Rightarrow> (us_Current st = [] \<or> (us_Pending st \<noteq> None \<and> r = us_Current st)) \<and> \<not> installedIsNewer u r
      | Some (r, False) \<Rightarrow>
          (us_Current st = [] \<or> not_above (us_Current st) (reported u r)) \<and> (us_Pending st \<noteq> None \<longrightarrow> us_Current st \<in> set cf) \<and>
          \<not> installedIsNewer u r)"

definition target_sound :: "upgrader \<Rightarrow> (string \<Rightarrow> bool) \<Rightarrow> up_state \<Rightarrow> (string \<times> bool) option \<Rightarrow> (string \<times> bool) option \<Rightarrow> bool" where
  "target_sound u bin st running target \<longleftrightarrow>
     (case target of
        None \<Rightarrow> True
      | Some (t, _) \<Rightarrow> (\<exists>r. running = Some (r, False)) \<and> versionDir t \<noteq> None \<and> bin t \<and> t \<noteq> [] \<and>
          (us_Current st = [] \<or> older_version (us_Current st) t) \<and> \<not> installedIsNewer u t)"

definition sys_sound :: "upgrade_sys \<Rightarrow> bool" where
  "sys_sound s \<longleftrightarrow>
     (let u = ux_u s; d = ux_disk s; st = state_of d in
      disk_sound u (ux_confirmed s) (has_binary d) st \<and> worker_sound u (ux_confirmed s) st (ux_running s) \<and>
      target_sound u (has_binary d) st (ux_running s) (ux_target s))"

lemma disk_sound_empty: "us_Current st = [] \<Longrightarrow> us_Previous st = [] \<Longrightarrow> us_Pending st = None \<Longrightarrow> disk_sound u cf bin st"
  by (simp add: disk_sound_def)

lemma sound_bin: "disk_sound u cf bin st \<Longrightarrow> (\<And>v. v \<in> {us_Current st, us_Previous st} \<Longrightarrow> bin v \<Longrightarrow> bin' v) \<Longrightarrow> disk_sound u cf bin' st"
  unfolding disk_sound_def by blast

lemma sound_same:
  assumes "us_Current st' = us_Current st" "us_Previous st' = us_Previous st" "us_Pending st' = us_Pending st"
  shows "disk_sound u cf bin st' = disk_sound u cf bin st" "worker_sound u cf st' r = worker_sound u cf st r"
    "target_sound u bin st' r t = target_sound u bin st r t"
  unfolding disk_sound_def worker_sound_def target_sound_def assms by simp_all

text \<open>A rollback goes back to the version before the trial, which is confirmed and on disk.\<close>

lemma rollback_sound:
  assumes "disk_sound u cf (has_binary d) st" and r: "rollbackInState u why now rem st d = (st', d')" and p: "us_Pending st \<noteq> None"
  shows "disk_sound u cf (has_binary d') st' \<and> us_Previous st' = [] \<and> us_Pending st' = None \<and> dk_state d' = dk_state d"
proof -
  obtain p where p: "us_Pending st = Some p" "pd_Target p = us_Current st" "us_Current st \<noteq> []" "versionDir (us_Current st) \<noteq> None"
    using assms(1) p by (auto simp: disk_sound_def)
  then have v: "versionDir (us_Current st) = Some (us_Current st)" using versionDir_SomeD by blast
  have st': "us_Current st' = us_Previous st" "us_Previous st' = []" "us_Pending st' = None"
    and d': "d' = d\<lparr>dk_versions := remove_dir rem (us_Current st) (dk_versions d)\<rparr>"
    using r p v by (auto simp: rollbackInState_def Let_def MarkBad_def)
  have "us_Previous st \<noteq> us_Current st" using assms(1) p(3) older_version_irrefl by (auto simp: disk_sound_def)
  then show ?thesis using assms(1) p st' d' by (auto simp: disk_sound_def)
qed

lemma Resume_sound:
  assumes "disk_sound u0 cf (has_binary d) (state_of d)" "u = u0\<lparr>ug_InstalledVersion := i\<rparr>"
  shows "disk_sound u cf (has_binary (Resume u now rem True rems d)) (state_of (Resume u now rem True rems d))"
proof (cases "Load (dk_state d)")
  case None
  then show ?thesis by (simp add: Resume_def state_of_def disk_sound_empty empty_state_def)
next
  case (Some st)
  then have st: "state_of d = st" by (rule Load_state_of)
  define why where "why = ''the supervisor stopped during the upgrade trial''"
  obtain st1 d1 where r: "(if us_Pending st \<noteq> None then rollbackInState u why now rem st d else (st, d)) = (st1, d1)" by fastforce
  have s1: "disk_sound u0 cf (has_binary d1) st1 \<and> us_Pending st1 = None"
  proof (cases "us_Pending st = None")
    case True
    then show ?thesis using r assms(1) unfolding st by simp
  next
    case False
    have "rollbackInState u0 why now rem st d = rollbackInState u why now rem st d"
      by (simp add: rollbackInState_def Let_def assms(2))
    with False r have "rollbackInState u0 why now rem st d = (st1, d1)" by simp
    from rollback_sound [OF assms(1) [unfolded st] this False] show ?thesis by simp
  qed
  define st2 where "st2 = (if installedIsNewer u (us_Current st1) then st1\<lparr>us_Current := [], us_Previous := []\<rparr> else st1)"
  have s2: "disk_sound u cf (has_binary d1) (Expire st2 now)"
    using s1 by (auto simp: st2_def Expire_def disk_sound_def)
  define d2 where "d2 = Save True (Expire st2 now) d1"
  have "Resume u now rem True rems d = Prune (ug_KeepVersions u) [us_Current (Expire st2 now), us_Previous (Expire st2 now)] rems d2"
    by (simp only: Resume_def Some option.case why_def [symmetric] Let_def r prod.case st2_def [symmetric] d2_def [symmetric] simp_thms if_False)
  then show ?thesis using sound_bin [OF s2] by (auto simp: d2_def Prune_keeps intro!: sound_bin [OF s2])
qed

lemma Commit_sound:
  assumes "disk_sound u cf (has_binary d) (state_of d)" "us_Current (state_of d) = [] \<or> r = us_Current (state_of d)"
  shows "disk_sound u (r # cf) (has_binary (Commit u now saves rems d)) (state_of (Commit u now saves rems d))"
proof (cases "Load (dk_state d)")
  case None
  then show ?thesis by (simp add: Commit_def state_of_def disk_sound_empty empty_state_def)
next
  case (Some st)
  then have st: "state_of d = st" by (rule Load_state_of)
  have grow: "disk_sound u (r # cf) (has_binary d) st" using assms(1) by (auto simp: st disk_sound_def split: option.splits)
  show ?thesis
  proof (cases saves)
    case False
    then show ?thesis using Some grow by (simp add: Commit_def Save_def st)
  next
    case True
    define st2 where "st2 = Expire (st\<lparr>us_Pending := None\<rparr>) now"
    have "disk_sound u (r # cf) (has_binary d) st2"
      using grow assms(2) by (auto simp: st st2_def Expire_def disk_sound_def)
    from sound_bin [OF this] show ?thesis
      using True Some by (auto simp: Commit_def Let_def st2_def [symmetric] Prune_keeps intro!: sound_bin [OF \<open>disk_sound u (r # cf) (has_binary d) st2\<close>])
  qed
qed

lemma Rollback_sound:
  assumes "disk_sound u cf (has_binary d) (state_of d)" "us_Current (state_of d) = [] \<or> us_Pending (state_of d) \<noteq> None"
  shows "disk_sound u cf (has_binary (Rollback u why now rem True d)) (state_of (Rollback u why now rem True d))"
proof (cases "Load (dk_state d)")
  case None
  then show ?thesis by (simp add: Rollback_def state_of_def disk_sound_empty empty_state_def)
next
  case (Some st)
  then have st: "state_of d = st" by (rule Load_state_of)
  obtain st' d' where r: "rollbackInState u why now rem st d = (st', d')" by fastforce
  have "disk_sound u cf (has_binary d') st'"
  proof (cases "us_Pending st = None")
    case False
    then show ?thesis using rollback_sound [OF assms(1) [unfolded st] r] by simp
  next
    case True
    then have c: "us_Current st = []" using assms(2) st by simp
    then have "us_Previous st = []" using assms(1) by (auto simp: st disk_sound_def)
    then show ?thesis using r True c by (auto simp: rollbackInState_def Let_def intro!: disk_sound_empty)
  qed
  then show ?thesis using Some r by (simp add: Rollback_def)
qed

lemma Activate_sound:
  assumes "disk_sound u cf (has_binary d) (state_of d)" "worker_sound u cf (state_of d) running" "target_sound u (has_binary d) (state_of d) running (Some (t, b))"
  shows "disk_sound u cf (has_binary (Activate t now saves d)) (state_of (Activate t now saves d))"
proof (cases "Load (dk_state d)")
  case None
  then show ?thesis using assms(1) by (simp add: Activate_def)
next
  case (Some st)
  then have st: "state_of d = st" by (rule Load_state_of)
  from assms(3) obtain r where r: "running = Some (r, False)" by (auto simp: target_sound_def)
  with assms(1,2) have "us_Current st = [] \<or> us_Current st \<in> set cf"
    by (cases "us_Pending st") (auto simp: st worker_sound_def disk_sound_def)
  with assms(1,3) have "disk_sound u cf (has_binary d) (st\<lparr>us_Pending := Some \<lparr>pd_Target = t, pd_From = us_Current st, pd_StartedAt = now\<rparr>,
      us_Previous := us_Current st, us_Current := t\<rparr>)"
    by (auto simp: st disk_sound_def target_sound_def)
  then show ?thesis using Some assms(1) by (auto simp: Activate_def st)
qed

lemma Launch_sound:
  assumes "disk_sound u cf (has_binary d) (state_of d)"
  shows "worker_sound u cf (state_of d) (Some (case Binary u d of None \<Rightarrow> ([], False) | Some b \<Rightarrow> b))"
proof (cases "us_Current (state_of d) = []")
  case True
  then have "Binary u d = None" by (auto simp: Binary_def state_of_def split: option.splits)
  moreover have "us_Pending (state_of d) = None" using assms True by (auto simp: disk_sound_def split: option.splits)
  ultimately show ?thesis using True by (simp add: worker_sound_def installedIsNewer_def)
next
  case False
  then obtain st where st: "Load (dk_state d) = Some st" "state_of d = st"
    by (cases "Load (dk_state d)") (auto simp: state_of_def empty_state_def)
  have s: "versionDir (us_Current st) \<noteq> None" "has_binary d (us_Current st)" "\<not> installedIsNewer u (us_Current st)" "us_Current st \<noteq> []"
    using assms False by (simp_all add: st disk_sound_def)
  then have "Binary u d = Some (us_Current st, us_Pending st \<noteq> None)"
    using assms by (auto simp: Binary_def st disk_sound_def split: option.splits)
  moreover have "not_above (us_Current st) (us_Current st)" by (auto simp: not_above_def version_order.irrefl)
  ultimately show ?thesis using s by (cases "us_Pending st") (simp_all add: st worker_sound_def reported_def)
qed

lemma recordCheck_simps [simp]:
  "has_binary (recordCheck now saves d) = has_binary d" "dk_versions (recordCheck now saves d) = dk_versions d"
  by (auto simp: recordCheck_def Save_def split: option.splits)

lemma state_of_recordCheck:
  "us_Current (state_of (recordCheck now saves d)) = us_Current (state_of d)"
  "us_Previous (state_of (recordCheck now saves d)) = us_Previous (state_of d)"
  "us_Pending (state_of (recordCheck now saves d)) = us_Pending (state_of d)"
  by (auto simp: recordCheck_def state_of_def Save_def Load_def split: option.splits state_file.splits)

text \<open>The version a check installs is newer than what runs, so it is neither the current nor the previous one.\<close>

lemma decided_target:
  assumes dec: "Decide (reported u r) st' now rel server = Inr target" and tag: "ParseVersion tag = Some rel" and t: "t = Version_String target"
    and s: "disk_sound u cf bin st" "worker_sound u cf st (Some (r, False))"
  shows "versionDir t = Some t \<and> t \<noteq> [] \<and> (us_Current st = [] \<or> older_version (us_Current st) t) \<and> \<not> installedIsNewer u t \<and>
    t \<noteq> us_Current st \<and> t \<noteq> us_Previous st"
proof -
  from dec obtain current sv where dc: "ParseVersion (reported u r) = Some current" "ParseVersion server = Some sv"
    "target = Min_version rel sv" "version_less current target" by (rule Decide_target)
  have "valid_version target" using parsed_valid [OF tag] parsed_valid [OF dc(2)] Min_version_le(3) [of rel sv] dc(3) by auto
  then have pt: "ParseVersion t = Some target" unfolding t by (rule version_roundtrip)
  have ne: "t \<noteq> []" by (simp add: t Version_String_def)
  have cur: "us_Current st = [] \<or> older_version (us_Current st) t"
    using s not_above_older [OF _ _ dc(1,4) pt] by (auto simp: worker_sound_def disk_sound_def)
  have "\<not> installedIsNewer u t"
  proof (cases "r = []")
    case True
    then show ?thesis using dc(1,4) pt version_order.asym by (auto simp: installedIsNewer_iff reported_def)
  next
    case False
    then have "\<not> installedIsNewer u r" "ParseVersion r = Some current" using s(2) dc(1) by (simp_all add: worker_sound_def reported_def)
    then show ?thesis using False pt dc(4) version_less_trans by (auto simp: installedIsNewer_iff)
  qed
  moreover have "t \<noteq> us_Previous st"
  proof
    assume e: "t = us_Previous st"
    then have "older_version t (us_Current st)" "us_Current st \<noteq> []" using s(1) ne by (auto simp: disk_sound_def)
    then show False using cur older_version_trans older_version_irrefl by blast
  qed
  ultimately show ?thesis using cur ne pt older_version_irrefl by (auto simp: versionDir_def t)
qed

lemma check_install_cases:
  assumes "check_install running (ParseVersion tag) server now saves fetched rem renames d = (res, d')"
  obtains (same) "d' = d" "\<forall>t. res \<noteq> Installed t" | (recorded) "d' = recordCheck now saves d" "\<forall>t. res \<noteq> Installed t"
  | (target) rel st target where "ParseVersion tag = Some rel" "Decide running st now rel server = Inr target"
      "Install rem renames (Version_String target) (recordCheck now saves d) = (res = Installed (Version_String target), d')"
      "(\<forall>t. res \<noteq> Installed t) \<or> res = Installed (Version_String target)"
  using assms by (auto simp: check_install_def Let_def split: option.splits sum.splits if_splits prod.splits bool.splits)

lemma check_sound:
  assumes c: "check_install (reported u r) (ParseVersion tag) server now saves fetched rem renames d = (res, d')"
    and s: "disk_sound u cf (has_binary d) (state_of d)" "worker_sound u cf (state_of d) (Some (r, False))"
  shows "case res of
      Installed t \<Rightarrow> disk_sound u (removeAll t cf) (has_binary d') (state_of d') \<and> worker_sound u (removeAll t cf) (state_of d') (Some (r, False)) \<and>
        target_sound u (has_binary d') (state_of d') (Some (r, False)) (Some (t, False))
    | _ \<Rightarrow> disk_sound u cf (has_binary d') (state_of d') \<and> worker_sound u cf (state_of d') (Some (r, False))"
  using c
proof (cases rule: check_install_cases)
  case same
  then show ?thesis using s by (cases res) auto
next
  case recorded
  then show ?thesis using s by (cases res) (auto simp: sound_same [OF state_of_recordCheck])
next
  case (target rel st target)
  define t where "t = Version_String target"
  note d = decided_target [OF target(2,1) t_def s]
  have b: "has_binary d' v = has_binary d v" if "v \<noteq> t" for v
    using target(3) d that by (auto simp: Install_def t_def [symmetric] Let_def has_binary_def remove_dir_other AList.update_conv' split: if_splits)
  have st: "state_of d' = state_of (recordCheck now saves d)"
    using target(3) d by (auto simp: Install_def t_def [symmetric] Let_def split: if_splits)
  have ok: "disk_sound u cf (has_binary d') (state_of d)" using d b by (intro sound_bin [OF s(1)]) auto
  show ?thesis
  proof (cases "res = Installed t")
    case False
    then show ?thesis using ok s(2) target(4) by (cases res) (auto simp: st sound_same [OF state_of_recordCheck] t_def)
  next
    case True
    then have "has_binary d' t" using target(3) d
      by (auto simp: Install_def t_def [symmetric] Let_def has_binary_def AList.update_conv' split: if_splits)
    moreover have "disk_sound u (removeAll t cf) (has_binary d') (state_of d)"
      using ok d by (auto simp: disk_sound_def split: option.splits)
    moreover have "worker_sound u (removeAll t cf) (state_of d) (Some (r, False))" using s(2) d by (auto simp: worker_sound_def)
    ultimately show ?thesis using d True
      by (simp add: st sound_same [OF state_of_recordCheck] target_sound_def [of _ _ "state_of d"])
  qed
qed

lemma preflight_sound:
  assumes "check_preflight u t passes cancelled now saves rem d = (ok, d')"
    and "disk_sound u cf (has_binary d) (state_of d)" "target_sound u (has_binary d) (state_of d) running (Some (t, b))"
  shows "disk_sound u cf (has_binary d') (state_of d') \<and> worker_sound u cf (state_of d') running = worker_sound u cf (state_of d) running \<and>
    (ok \<longrightarrow> d' = d)"
proof (cases "passes \<or> cancelled")
  case True
  then show ?thesis using assms by (auto simp: check_preflight_def split: if_splits)
next
  case False
  then have d': "d' = blacklist u t ''preflight'' now saves rem d" "\<not> ok" using assms(1) by (auto simp: check_preflight_def)
  have vt: "versionDir t = Some t" using assms(3) versionDir_SomeD by (auto simp: target_sound_def)
  have tc: "t \<noteq> us_Current (state_of d)" "t \<noteq> us_Previous (state_of d)"
    using assms(2,3) older_version_irrefl older_version_trans by (auto simp: target_sound_def disk_sound_def)
  then have b: "has_binary d' v = has_binary d v" if "v \<in> {us_Current (state_of d), us_Previous (state_of d)}" for v
    using that by (auto simp: d' blacklist_def Let_def vt split: option.splits)
  have "us_Current (state_of d') = us_Current (state_of d)" "us_Previous (state_of d') = us_Previous (state_of d)"
    "us_Pending (state_of d') = us_Pending (state_of d)"
    by (auto simp: d' blacklist_def Let_def vt MarkBad_def state_of_def Load_def Save_def split: option.splits state_file.splits)
  note same = sound_same [OF this]
  have "disk_sound u cf (has_binary d') (state_of d)" using b by (intro sound_bin [OF assms(2)]) auto
  then show ?thesis using d'(2) by (simp add: same)
qed

lemma Commit_state:
  "us_Current (state_of (Commit u now saves rems d)) = us_Current (state_of d)"
  by (auto simp: Commit_def Let_def Expire_def state_of_def Load_def Save_def split: option.splits state_file.splits)

lemma trial_sound:
  assumes "disk_sound u cf (has_binary d) (state_of d)" "worker_sound u cf (state_of d) (Some (r, True))"
  shows "worker_sound u (r # cf) (state_of (Commit u now saves rems d)) (Some (r, False))"
proof (cases "us_Current (state_of d) = []")
  case True
  then have "us_Pending (state_of (Commit u now saves rems d)) = None"
    using Commit_sound [OF assms(1), of r now saves rems] by (auto simp: disk_sound_def Commit_state split: option.splits)
  then show ?thesis using True assms(2) by (auto simp: worker_sound_def Commit_state)
next
  case False
  then have "us_Current (state_of d) = r" "r \<noteq> []" using assms(2) by (auto simp: worker_sound_def)
  moreover have "not_above r r" by (auto simp: not_above_def version_order.irrefl)
  ultimately show ?thesis using assms(2) by (auto simp: worker_sound_def Commit_state reported_def)
qed

lemmas sys_sound_parts = sys_sound_def Let_def

lemma target_sound_None [simp]: "target_sound u b st r None"
  by (simp add: target_sound_def)

lemma worker_sound_None [simp]: "worker_sound u cf st None"
  by (simp add: worker_sound_def)

lemma check_step_sound:
  assumes s: "sys_sound s"
  shows "sys_sound (upgrade_step s (CheckInstalls tag server now saves fetched rem renames))" (is "sys_sound (upgrade_step s ?ev)")
proof (cases "\<exists>r. ux_running s = Some (r, False) \<and> ux_target s = None")
  case True
  then obtain r where r: "ux_running s = Some (r, False)" "ux_target s = None" by blast
  obtain res d where c: "check_install (reported (ux_u s) r) (ParseVersion tag) server now saves fetched rem renames (ux_disk s) = (res, d)"
    by fastforce
  from s r have "disk_sound (ux_u s) (ux_confirmed s) (has_binary (ux_disk s)) (state_of (ux_disk s))"
    "worker_sound (ux_u s) (ux_confirmed s) (state_of (ux_disk s)) (Some (r, False))" by (simp_all add: sys_sound_parts)
  from check_sound [OF c this] show ?thesis by (cases res) (simp_all add: sys_sound_parts r c)
next
  case False
  then have "upgrade_step s ?ev = s" by (auto split: option.splits bool.splits)
  then show ?thesis using s by simp
qed

lemma preflight_step_sound:
  assumes s: "sys_sound s"
  shows "sys_sound (upgrade_step s (PreflightEnds passes cancelled now saves rem))" (is "sys_sound (upgrade_step s ?ev)")
proof (cases "\<exists>t. ux_target s = Some (t, False)")
  case True
  then obtain t where t: "ux_target s = Some (t, False)" by blast
  obtain ok d where c: "check_preflight (ux_u s) t passes cancelled now saves rem (ux_disk s) = (ok, d)" by fastforce
  from s t preflight_sound [OF c, of "ux_confirmed s" "ux_running s" False] show ?thesis
    by (auto simp: sys_sound_parts t c target_sound_def)
next
  case False
  then have "upgrade_step s ?ev = s" by (auto split: option.splits bool.splits)
  then show ?thesis using s by simp
qed

lemma trial_steps_sound:
  assumes s: "sys_sound s"
  shows "sys_sound (upgrade_step s (TrialSucceeds now saves rems))" "sys_sound (upgrade_step s (TrialFails why now rem True))"
proof -
  have "sys_sound (upgrade_step s (TrialSucceeds now saves rems)) \<and> sys_sound (upgrade_step s (TrialFails why now rem True))"
  proof (cases "\<exists>r. ux_running s = Some (r, True)")
    case True
    then obtain r where r: "ux_running s = Some (r, True)" by blast
    then have t: "ux_target s = None" using s by (auto simp: sys_sound_parts target_sound_def split: option.splits)
    have "us_Current (state_of (ux_disk s)) = [] \<or> (r = us_Current (state_of (ux_disk s)) \<and> us_Pending (state_of (ux_disk s)) \<noteq> None)"
      using s r by (auto simp: sys_sound_parts worker_sound_def)
    then show ?thesis using s r t by (auto simp: sys_sound_parts Commit_sound trial_sound Rollback_sound)
  next
    case False
    then have "upgrade_step s (TrialSucceeds now saves rems) = s" "upgrade_step s (TrialFails why now rem True) = s"
      by (auto split: option.splits bool.splits)
    then show ?thesis using s by simp
  qed
  then show "sys_sound (upgrade_step s (TrialSucceeds now saves rems))" "sys_sound (upgrade_step s (TrialFails why now rem True))" by simp_all
qed

lemma lost_step_sound:
  assumes s: "sys_sound s"
  shows "sys_sound (upgrade_step s (StateLost f))"
proof -
  have e: "us_Current empty_state = []" "us_Previous empty_state = []" "us_Pending empty_state = None" by (simp_all add: empty_state_def)
  have "sys_sound (s\<lparr>ux_disk := (ux_disk s)\<lparr>dk_state := f\<rparr>\<rparr>)" if "\<forall>x. f \<noteq> Saved x"
  proof -
    have st: "state_of ((ux_disk s)\<lparr>dk_state := f\<rparr>) = empty_state" using that by (cases f) (auto simp: state_of_def Load_def)
    show ?thesis using s
      by (auto simp: sys_sound_parts st e disk_sound_empty worker_sound_def target_sound_def split: option.splits prod.splits bool.splits)
  qed
  then show ?thesis using s by (cases f) auto
qed

lemma upgrade_step_sound:
  assumes s: "sys_sound s" and ev: "rollback_saved ev"
  shows "sys_sound (upgrade_step s ev)"
proof (cases ev)
  case (SupervisorStarts i now rem saves rems)
  then show ?thesis using s ev by (simp add: sys_sound_parts Resume_sound [OF _ refl])
next
  case WorkerStarts
  have "ux_target s = None" if "ux_running s = None" using s that by (auto simp: sys_sound_parts target_sound_def split: option.splits)
  then show ?thesis using WorkerStarts s by (cases "ux_running s") (auto simp: sys_sound_parts Launch_sound)
next
  case WorkerEnds
  then show ?thesis using s by (simp add: sys_sound_parts)
next
  case (SwitchVersion now saves)
  then show ?thesis using s Activate_sound [of "ux_u s" "ux_confirmed s" "ux_disk s" "ux_running s"]
    by (auto simp: sys_sound_parts split: option.splits prod.splits bool.splits)
next
  case (TrialFails why now rem saves)
  then show ?thesis using ev trial_steps_sound(2) [OF s, of why now rem] by (simp del: upgrade_step.simps)
qed (auto simp del: upgrade_step.simps intro: check_step_sound preflight_step_sound trial_steps_sound lost_step_sound s)

lemma upgrade_run_sound: "list_all rollback_saved evs \<Longrightarrow> sys_sound (upgrade_run u evs)"
proof (induction evs rule: rev_induct)
  case Nil
  then show ?case by (simp add: upgrade_run_def fresh_install_def sys_sound_def worker_sound_def target_sound_def
    state_of_def Load_def empty_state_def disk_sound_empty)
next
  case (snoc e evs)
  then show ?case using upgrade_step_sound by (simp add: upgrade_run_def)
qed

lemma sound_Binary:
  assumes "sys_sound s" "Binary (ux_u s) (ux_disk s) = Some (v, trial)"
  shows "if trial then us_Previous (state_of (ux_disk s)) = [] \<or>
      (us_Previous (state_of (ux_disk s)) \<in> set (ux_confirmed s) \<and> has_binary (ux_disk s) (us_Previous (state_of (ux_disk s))))
    else v \<in> set (ux_confirmed s)"
proof -
  obtain st where st: "Load (dk_state (ux_disk s)) = Some st" using assms(2) by (cases "Load (dk_state (ux_disk s))") (auto simp: Binary_def)
  with assms show ?thesis using Load_state_of [OF st]
    by (auto simp: Binary_def sys_sound_parts disk_sound_def split: if_splits option.splits)
qed

text \<open>
  C1. Whatever the order of starts, checks, switches, crashes, lost state files and failed writes other than those of
  rollbacks, the version the supervisor launches outside a trial is one whose installed copy passed a trial; and during a trial the
  version to go back to is the installed binary or a confirmed version that is still on disk.
\<close>

theorem launched_versions_confirmed:
  assumes "list_all rollback_saved evs" "Binary (ux_u (upgrade_run u evs)) (ux_disk (upgrade_run u evs)) = Some (v, trial)"
  shows "if trial then (let st = state_of (ux_disk (upgrade_run u evs)) in
        us_Previous st = [] \<or> (us_Previous st \<in> set (ux_confirmed (upgrade_run u evs)) \<and> has_binary (ux_disk (upgrade_run u evs)) (us_Previous st)))
    else v \<in> set (ux_confirmed (upgrade_run u evs))"
  using sound_Binary [OF upgrade_run_sound [OF assms(1)] assms(2)] by (simp add: Let_def)

definition sample_upgrader :: upgrader where
  "sample_upgrader = \<lparr>ug_InstalledVersion = ''v1.0.0'', ug_BadVersionTTL = 100, ug_KeepVersions = 3,
     ug_CheckInterval = 3600, ug_FirstCheckDelay = 0, ug_FirstCheckJitter = 0\<rparr>"

definition sample_upgrade :: "int \<Rightarrow> upgrade_event list" where
  "sample_upgrade now =
     [WorkerStarts, CheckInstalls ''v1.1.0'' ''v1.2.0'' now True True RemoveOk True, PreflightEnds True False now True RemoveOk,
      SwitchVersion now True, WorkerStarts]"

definition sample_start :: upgrade_event where
  "sample_start = SupervisorStarts ''v1.0.0'' 0 RemoveOk True (\<lambda>_. RemoveOk)"

lemma sample_version_texts:
  "Version_String \<lparr>v_Major = 1, v_Minor = 0, v_Patch = 0, v_Pre = []\<rparr> = ''v1.0.0''"
  "Version_String \<lparr>v_Major = 1, v_Minor = 1, v_Patch = 0, v_Pre = []\<rparr> = ''v1.1.0''"
  "Version_String \<lparr>v_Major = 1, v_Minor = 2, v_Patch = 0, v_Pre = []\<rparr> = ''v1.2.0''"
  by (simp_all add: Version_String_def) code_simp+

lemma sample_versions:
  "ParseVersion ''v1.0.0'' = Some \<lparr>v_Major = 1, v_Minor = 0, v_Patch = 0, v_Pre = []\<rparr>"
  "ParseVersion ''v1.1.0'' = Some \<lparr>v_Major = 1, v_Minor = 1, v_Patch = 0, v_Pre = []\<rparr>"
  "ParseVersion ''v1.2.0'' = Some \<lparr>v_Major = 1, v_Minor = 2, v_Patch = 0, v_Pre = []\<rparr>"
  unfolding sample_version_texts [symmetric] by (rule version_roundtrip, simp add: valid_version_def validPre_def)+

lemmas upgrade_evaluation = sample_versions sample_version_texts sample_upgrader_def sample_upgrade_def sample_start_def upgrade_run_def
  fresh_install_def Let_def Binary_def Load_def Save_def empty_state_def Resume_def Expire_def Prune_def prunable_def check_install_def
  check_preflight_def Decide_def recordCheck_def Install_def remove_dir_def removed_ok_def has_binary_def versionDir_def installedIsNewer_def
  Compare_def Min_version_def IsPre_def IsBad_def MarkBad_def Activate_def Commit_def Rollback_def rollbackInState_def reported_def newer_name_def

theorem launched_versions_confirmed_witness:
  "''v1.1.0'' \<in> set (ux_confirmed (upgrade_run sample_upgrader (sample_start # sample_upgrade 1 @ [TrialSucceeds 2 True (\<lambda>_. RemoveOk)])))"
proof -
  let ?evs = "sample_start # sample_upgrade 1 @ [TrialSucceeds 2 True (\<lambda>_. RemoveOk)]"
  have "list_all rollback_saved ?evs" by (simp add: sample_upgrade_def sample_start_def)
  moreover have "Binary (ux_u (upgrade_run sample_upgrader ?evs)) (ux_disk (upgrade_run sample_upgrader ?evs)) = Some (''v1.1.0'', False)"
    by (simp add: upgrade_evaluation)
  ultimately show ?thesis using launched_versions_confirmed [of ?evs sample_upgrader "''v1.1.0''" False] by (simp only: if_False)
qed


end
