(* ===== verification/Reconnect.thy ===== *)
theory Reconnect
  imports Rounding "HOL-Library.Word" "HOL-Library.Signed_Division"
begin

text \<open>
  The retry policy of the reconnect loops and of the supervisor, \<^verbatim>\<open>internal/reconnect/backoff.go\<close>. Durations are 64-bit numbers of
  nanoseconds, so the doubling wraps; the random factor below 1 and the rounding of the product are arguments. Whether an error
  is a rejection (\<^verbatim>\<open>IsRejected\<close>) is given with the failure, since it depends on the error values of the websocket package.

  The lemmas show that the two counters are functions of the history and give the wait in closed form up to its jitter.
\<close>

section \<open>Operations\<close>

definition StableAfter :: int where
  "StableAfter = 60 * 10 ^ 9"

definition rejectedThreshold :: nat where
  "rejectedThreshold = 3"

definition RejectedMaxBackoff :: int where
  "RejectedMaxBackoff = 5 * 60 * 10 ^ 9"

record backoff =
  bo_base :: int
  bo_max :: int
  bo_attempt :: nat
  bo_rejected :: nat

definition New_backoff :: "int \<Rightarrow> int \<Rightarrow> backoff" where
  "New_backoff base mx = \<lparr>bo_base = base, bo_max = mx, bo_attempt = 0, bo_rejected = 0\<rparr>"

definition double :: "int \<Rightarrow> int" where
  "double d = sint (2 * word_of_int d :: 64 word)"

text \<open>The loop of \<^verbatim>\<open>Delay\<close>, with the number of rounds still allowed.\<close>

fun delay_loop :: "int \<Rightarrow> nat \<Rightarrow> int \<Rightarrow> int" where
  "delay_loop mx 0 delay = delay"
| "delay_loop mx (Suc n) delay = (if delay < mx then delay_loop mx n (double delay) else delay)"

definition to_duration :: "rat \<Rightarrow> int" where
  "to_duration x = (if x < 0 then \<lceil>x\<rceil> else \<lfloor>x\<rfloor>)"

definition Delay :: "(rat \<Rightarrow> rat) \<Rightarrow> rat \<Rightarrow> int \<Rightarrow> int \<Rightarrow> nat \<Rightarrow> int" where
  "Delay fl random base mx attempt =
     (let delay = delay_loop mx (attempt - 1) base;
          delay = (if delay > mx then mx else delay);
          half = delay sdiv 2 in
      half + to_duration (fl (random * fl (of_int (delay - half)))))"

definition AfterDialFailure :: "(rat \<Rightarrow> rat) \<Rightarrow> rat \<Rightarrow> bool \<Rightarrow> backoff \<Rightarrow> int \<times> backoff" where
  "AfterDialFailure fl random rejected b0 =
     (let b = b0\<lparr>bo_attempt := bo_attempt b0 + 1, bo_rejected := (if rejected then bo_rejected b0 + 1 else 0)\<rparr>;
          ceil = (if bo_rejected b \<ge> rejectedThreshold \<and> bo_max b < RejectedMaxBackoff then RejectedMaxBackoff else bo_max b) in
      (Delay fl random (bo_base b) ceil (bo_attempt b), b))"

definition AfterSession :: "(rat \<Rightarrow> rat) \<Rightarrow> rat \<Rightarrow> int \<Rightarrow> backoff \<Rightarrow> int \<times> backoff" where
  "AfterSession fl random lived b0 =
     (let b = b0\<lparr>bo_attempt := (if lived \<ge> StableAfter then 0 else bo_attempt b0) + 1, bo_rejected := 0\<rparr> in
      (Delay fl random (bo_base b) (bo_max b) (bo_attempt b), b))"

section \<open>The wait\<close>

lemma double_exact: "0 \<le> d \<Longrightarrow> d < 2 ^ 62 \<Longrightarrow> double d = 2 * d"
proof -
  assume d: "0 \<le> d" "d < 2 ^ 62"
  have "(2 :: 64 word) * word_of_int d = word_of_int (2 * d)" by (metis wi_hom_mult word_of_int_numeral)
  then have "double d = signed_take_bit 63 (2 * d)" unfolding double_def by (simp only: sint_sbintrunc') simp
  also have "\<dots> = 2 * d" using d by (intro signed_take_bit_int_eq_self) simp_all
  finally show ?thesis .
qed

lemma delay_loop_exact: "0 < d \<Longrightarrow> mx \<le> 2 ^ 62 \<Longrightarrow> min mx (delay_loop mx n d) = min mx (d * 2 ^ n)"
proof (induction n arbitrary: d)
  case (Suc n)
  show ?case
  proof (cases "d < mx")
    case True
    then have "double d = 2 * d" using Suc.prems by (intro double_exact) simp_all
    then show ?thesis using True Suc.IH [of "2 * d"] Suc.prems by (simp add: mult.assoc mult.left_commute)
  next
    case False
    moreover have "d * 1 \<le> d * 2 ^ Suc n" using Suc.prems by (intro mult_left_mono) (simp_all add: one_le_power del: power_Suc)
    ultimately show ?thesis by (simp add: min_def)
  qed
qed simp

lemma Delay_bounds:
  assumes "rounds fl" "0 \<le> random" "random < 1" "0 < base" "0 < mx" "mx \<le> 2 ^ 53" "d = min mx (base * 2 ^ (attempt - 1))"
  shows "d div 2 \<le> Delay fl random base mx attempt \<and> Delay fl random base mx attempt \<le> d"
proof -
  have "min mx (delay_loop mx (attempt - 1) base) = d"
    unfolding assms(7) using assms(4,6) by (intro delay_loop_exact) simp_all
  then have loop: "(if delay_loop mx (attempt - 1) base > mx then mx else delay_loop mx (attempt - 1) base) = d" by (auto simp: min_def)
  have d: "0 < d" "d \<le> 2 ^ 53" using assms(4-7) by (auto simp: min_def)
  then have half: "d sdiv 2 = d div 2" by (simp add: signed_divide_int_def)
  define n where "n = d - d div 2"
  have n: "0 \<le> n" "n \<le> 2 ^ 53" using d unfolding n_def by linarith+
  have e: "fl (of_int n) = of_int n" using n by (intro rounds_exact [OF assms(1)]) simp
  have "0 \<le> fl (random * of_int n)" using assms(2) n by (intro rounds_nonneg [OF assms(1)]) simp
  moreover have "random * of_int n \<le> of_int n" using assms(3) n by (simp add: mult_left_le_one_le assms(2) less_imp_le)
  then have "fl (random * of_int n) \<le> of_int n" using n by (intro rounds_le [OF assms(1)]) simp_all
  ultimately have "0 \<le> to_duration (fl (random * of_int n)) \<and> to_duration (fl (random * of_int n)) \<le> n"
    unfolding to_duration_def by (auto simp: floor_le_iff)
  moreover have "Delay fl random base mx attempt = d div 2 + to_duration (fl (random * of_int n))"
    unfolding Delay_def Let_def loop half n_def [symmetric] e by (rule refl)
  ultimately show ?thesis by (simp add: n_def)
qed

section \<open>The counters\<close>

text \<open>What a reconnect loop meets: a failed dial, rejected or not, or the end of a session that lived for some time.\<close>

datatype retry_event = DialFailed bool | SessionEnded int

definition after_event :: "(rat \<Rightarrow> rat) \<Rightarrow> rat \<Rightarrow> retry_event \<Rightarrow> backoff \<Rightarrow> int \<times> backoff" where
  "after_event fl random ev b = (case ev of DialFailed rejected \<Rightarrow> AfterDialFailure fl random rejected b | SessionEnded lived \<Rightarrow> AfterSession fl random lived b)"

definition backoff_after :: "(rat \<Rightarrow> rat) \<Rightarrow> int \<Rightarrow> int \<Rightarrow> (rat \<times> retry_event) list \<Rightarrow> backoff" where
  "backoff_after fl base mx evs = foldl (\<lambda>b (random, ev). snd (after_event fl random ev b)) (New_backoff base mx) evs"

text \<open>The counters as functions of the history, latest event first: the events since the last stable session, and the latest rejections.\<close>

fun attempts :: "retry_event list \<Rightarrow> nat" where
  "attempts [] = 0"
| "attempts (ev # evs) = (case ev of SessionEnded lived \<Rightarrow> if lived \<ge> StableAfter then 1 else Suc (attempts evs) | DialFailed _ \<Rightarrow> Suc (attempts evs))"

definition rejections :: "retry_event list \<Rightarrow> nat" where
  "rejections evs = length (takeWhile (\<lambda>ev. ev = DialFailed True) evs)"

lemma backoff_counts:
  "backoff_after fl base mx evs = \<lparr>bo_base = base, bo_max = mx, bo_attempt = attempts (rev (map snd evs)), bo_rejected = rejections (rev (map snd evs))\<rparr>"
proof (induction evs rule: rev_induct)
  case Nil
  then show ?case by (simp add: backoff_after_def New_backoff_def rejections_def)
next
  case (snoc e evs)
  have "backoff_after fl base mx (evs @ [e]) = snd (after_event fl (fst e) (snd e) (backoff_after fl base mx evs))"
    by (simp add: backoff_after_def case_prod_beta)
  then show ?case unfolding snoc
    by (cases "snd e") (auto simp: after_event_def AfterDialFailure_def AfterSession_def Let_def rejections_def)
qed

text \<open>
  The wait after any history of failures is between one half of and the whole of the base doubled once for every failure since
  the last stable session, cut at the ceiling; the ceiling is five minutes, where that is more, exactly while the latest three
  events are rejections. In particular the first wait after a stable session is at most the base.
\<close>

lemma retry_wait_exact:
  assumes "rounds fl" "0 \<le> random" "random < 1" "0 < base" "0 < mx" "mx \<le> 2 ^ 53" "history = ev # rev (map snd evs)"
    and "mx' = (if \<exists>rest. history = replicate 3 (DialFailed True) @ rest then max mx RejectedMaxBackoff else mx)"
    and "d = min mx' (base * 2 ^ (attempts history - 1))"
  shows "d div 2 \<le> fst (after_event fl random ev (backoff_after fl base mx evs)) \<and> fst (after_event fl random ev (backoff_after fl base mx evs)) \<le> d"
proof -
  have rej: "(\<exists>rest. history = replicate 3 (DialFailed True) @ rest) \<longleftrightarrow> 3 \<le> rejections history" for history
    by (cases history; cases "tl history"; cases "tl (tl history)") (auto simp: rejections_def numeral_3_eq_3)
  have "fst (after_event fl random ev (backoff_after fl base mx evs)) = Delay fl random base mx' (attempts history)"
    unfolding assms(8) rej unfolding assms(7) backoff_counts
    by (cases ev) (auto simp: after_event_def AfterDialFailure_def AfterSession_def Let_def rejections_def rejectedThreshold_def)
  moreover have "0 < mx'" "mx' \<le> 2 ^ 53" using assms(5,6) by (auto simp: assms(8) RejectedMaxBackoff_def max_def)
  ultimately show ?thesis using Delay_bounds [OF assms(1-4) _ _ assms(9)] by simp
qed

end
