(* ===== verification/Supervisor.thy ===== *)
theory Supervisor
  imports Self_Update Reconnect
begin

text \<open>
  The supervisor of a worker process, \<^verbatim>\<open>internal/supervisor/supervisor.go\<close>, with the upgrader of \<open>Self_Update\<close> behind its
  \<^verbatim>\<open>Upgrades\<close> interface and the exit codes of \<^verbatim>\<open>internal/workerproto\<close>. One launch is a sequence of the cases its \<^verbatim>\<open>select\<close> takes, each
  with the clock reading at which it is taken; a timer case is taken only when the timer is set and due. The steps of the goroutine
  that runs a check are events of their own, so they interleave with everything else; a check whose worker has ended takes no further
  step. What a worker does may depend on the binary that was launched.

  The lemmas show that a supervisor whose workers never become ready exits after a bounded number of launches, and that the
  supervisor drives the upgrader only in the orders of \<open>upgrade_run\<close>, so that its guarantees hold for what is launched.
\<close>

section \<open>Configuration\<close>

definition ExitOK :: int where "ExitOK = 0"

definition ExitSupervisorGaveUp :: int where "ExitSupervisorGaveUp = 70"

definition ExitLockHeld :: int where "ExitLockHeld = 75"

definition ExitAuthFatal :: int where "ExitAuthFatal = 77"

definition ExitConfig :: int where "ExitConfig = 78"

record ready_info =
  ri_Version :: string
  ri_ServerVersion :: string

record sup_config =
  sc_BackoffBase :: int
  sc_BackoffMax :: int
  sc_StopGrace :: int
  sc_ReadyPoll :: int
  sc_GiveUpAfter :: int
  sc_LockRetries :: int
  sc_LockRetryDelay :: int
  sc_Upgrades :: "upgrader option"
  sc_HealthTimeout :: int
  sc_StableWindow :: int

definition New_supervisor :: "sup_config \<Rightarrow> sup_config" where
  "New_supervisor cfg = cfg\<lparr>
     sc_BackoffBase := (if sc_BackoffBase cfg \<le> 0 then 10 ^ 9 else sc_BackoffBase cfg),
     sc_BackoffMax := (if sc_BackoffMax cfg \<le> 0 then 60 * 10 ^ 9 else sc_BackoffMax cfg),
     sc_StopGrace := (if sc_StopGrace cfg \<le> 0 then 10 * 10 ^ 9 else sc_StopGrace cfg),
     sc_ReadyPoll := (if sc_ReadyPoll cfg \<le> 0 then 500 * 10 ^ 6 else sc_ReadyPoll cfg),
     sc_GiveUpAfter := (if sc_GiveUpAfter cfg \<le> 0 then 5 else sc_GiveUpAfter cfg),
     sc_LockRetries := (if sc_LockRetries cfg \<le> 0 then 10 else sc_LockRetries cfg),
     sc_LockRetryDelay := (if sc_LockRetryDelay cfg \<le> 0 then 10 ^ 9 else sc_LockRetryDelay cfg),
     sc_HealthTimeout := (if sc_HealthTimeout cfg \<le> 0 then 2 * 60 * 10 ^ 9 else sc_HealthTimeout cfg)\<rparr>"

section \<open>One launch\<close>

datatype trial_failure = NotStarted | EndedWith int | NotReady

record launch_result =
  rr_exit :: int
  rr_ready :: bool
  rr_stopped :: bool
  rr_lived :: int
  rr_launchErr :: bool
  rr_upgrade :: "string option"
  rr_trialFailed :: "trial_failure option"

definition no_result :: launch_result where
  "no_result = \<lparr>rr_exit = 0, rr_ready = False, rr_stopped = False, rr_lived = 0, rr_launchErr = False, rr_upgrade = None, rr_trialFailed = None\<rparr>"

text \<open>A check: not running, looking for a version, running the preflight of an installed one, or done with its candidate.\<close>

datatype check_state = NoCheck | Checking ready_info | Preflighting string | CheckEnded "string option"

record watch =
  wa_trial :: bool
  wa_ready :: bool
  wa_running :: ready_info
  wa_health :: "int option"
  wa_stable :: "int option"
  wa_check :: "int option"
  wa_checking :: check_state
  wa_first :: bool
  wa_poll :: int
  wa_started :: int
  wa_disk :: disk

text \<open>The circumstances of a step: the clock, the writes, the random numbers.\<close>

record step_env =
  en_now :: int
  en_saves :: bool
  en_removal :: "string \<Rightarrow> removal"
  en_roll :: "int \<Rightarrow> int"

datatype watch_event =
    CtxDone
  | ChildExits int "ready_info option"
  | PollFires "ready_info option"
  | HealthFires
  | StableFires
  | CheckFires
  | CheckGoes string bool removal bool
  | PreflightGoes bool bool removal
  | CheckDelivers

definition scheduleCheck :: "sup_config \<Rightarrow> step_env \<Rightarrow> watch \<Rightarrow> watch" where
  "scheduleCheck cfg en w =
     (case sc_Upgrades cfg of
        None \<Rightarrow> w
      | Some u \<Rightarrow>
          if wa_trial w then w
          else (let d = NextCheck (en_roll en) u (wa_first w) in
            w\<lparr>wa_check := (if d > 0 then Some (en_now en + d) else wa_check w), wa_first := False\<rparr>))"

text \<open>Only a version of the upgrader is ever on trial, so there is one.\<close>

definition commit_trial :: "sup_config \<Rightarrow> step_env \<Rightarrow> watch \<Rightarrow> watch" where
  "commit_trial cfg en w =
     (let d = (case sc_Upgrades cfg of None \<Rightarrow> wa_disk w | Some u \<Rightarrow> Commit u (en_now en) (en_saves en) (en_removal en) (wa_disk w)) in
      scheduleCheck cfg en (w\<lparr>wa_disk := d, wa_trial := False, wa_stable := None\<rparr>))"

definition onFirstReady :: "sup_config \<Rightarrow> step_env \<Rightarrow> watch \<Rightarrow> watch" where
  "onFirstReady cfg en w =
     (if wa_trial w then
        (let w = w\<lparr>wa_health := None\<rparr> in
         if sc_StableWindow cfg \<le> 0 then commit_trial cfg en w
         else w\<lparr>wa_stable := Some (en_now en + sc_StableWindow cfg)\<rparr>)
      else scheduleCheck cfg en w)"

text \<open>The argument is what the ready file holds; \<open>None\<close> also stands for a launch without a ready directory.\<close>

definition checkReady :: "sup_config \<Rightarrow> step_env \<Rightarrow> ready_info option \<Rightarrow> watch \<Rightarrow> watch" where
  "checkReady cfg en found w =
     (case found of
        None \<Rightarrow> w
      | Some info \<Rightarrow>
          if \<not> wa_ready w \<or> ri_ServerVersion info \<noteq> ri_ServerVersion (wa_running w)
          then (let w' = w\<lparr>wa_ready := True, wa_running := info\<rparr> in if \<not> wa_ready w then onFirstReady cfg en w' else w')
          else w)"

definition due :: "step_env \<Rightarrow> int option \<Rightarrow> bool" where
  "due en timer = (case timer of None \<Rightarrow> False | Some t \<Rightarrow> t \<le> en_now en)"

definition watch_step :: "sup_config \<Rightarrow> step_env \<Rightarrow> watch_event \<Rightarrow> watch \<Rightarrow> (launch_result \<times> disk) + watch" where
  "watch_step cfg en ev w =
     (let lived = en_now en - wa_started w in
      case ev of
        CtxDone \<Rightarrow> Inl (no_result\<lparr>rr_stopped := True, rr_lived := lived\<rparr>, wa_disk w)
      | ChildExits code found \<Rightarrow>
          (let w = checkReady cfg en found w in
           Inl (no_result\<lparr>rr_exit := code, rr_ready := wa_ready w, rr_lived := lived,
                  rr_trialFailed := (if wa_trial w \<and> code \<noteq> ExitLockHeld then Some (EndedWith code) else None)\<rparr>, wa_disk w))
      | PollFires found \<Rightarrow>
          if wa_poll w \<le> en_now en then Inr (checkReady cfg en found (w\<lparr>wa_poll := en_now en + sc_ReadyPoll cfg\<rparr>)) else Inr w
      | HealthFires \<Rightarrow>
          if due en (wa_health w) then Inl (no_result\<lparr>rr_lived := lived, rr_trialFailed := Some NotReady\<rparr>, wa_disk w) else Inr w
      | StableFires \<Rightarrow> Inr (if due en (wa_stable w) then commit_trial cfg en w else w)
      | CheckFires \<Rightarrow> Inr (if due en (wa_check w) then w\<lparr>wa_check := None, wa_checking := Checking (wa_running w)\<rparr> else w)
      | CheckGoes tag fetched rem renames \<Rightarrow>
          (case (sc_Upgrades cfg, wa_checking w) of
             (Some u, Checking info) \<Rightarrow>
               (case check_install (ri_Version info) (ParseVersion tag) (ri_ServerVersion info) (en_now en) (en_saves en) fetched
                   rem renames (wa_disk w) of
                  (Installed t, d) \<Rightarrow> Inr (w\<lparr>wa_checking := Preflighting t, wa_disk := d\<rparr>)
                | (_, d) \<Rightarrow> Inr (w\<lparr>wa_checking := CheckEnded None, wa_disk := d\<rparr>))
           | _ \<Rightarrow> Inr w)
      | PreflightGoes passes cancelled rem \<Rightarrow>
          (case (sc_Upgrades cfg, wa_checking w) of
             (Some u, Preflighting t) \<Rightarrow>
               (case check_preflight u t passes cancelled (en_now en) (en_saves en) rem (wa_disk w) of
                  (ok, d) \<Rightarrow> Inr (w\<lparr>wa_checking := CheckEnded (if ok then Some t else None), wa_disk := d\<rparr>))
           | _ \<Rightarrow> Inr w)
      | CheckDelivers \<Rightarrow>
          (case wa_checking w of
             CheckEnded None \<Rightarrow> Inr (scheduleCheck cfg en (w\<lparr>wa_checking := NoCheck\<rparr>))
           | CheckEnded (Some t) \<Rightarrow> Inl (no_result\<lparr>rr_upgrade := Some t, rr_lived := lived\<rparr>, wa_disk w)
           | _ \<Rightarrow> Inr w))"

fun watch_run :: "sup_config \<Rightarrow> (step_env \<times> watch_event) list \<Rightarrow> watch \<Rightarrow> (launch_result \<times> disk) + watch" where
  "watch_run cfg [] w = Inr w"
| "watch_run cfg ((en, ev) # evs) w = (case watch_step cfg en ev w of Inl r \<Rightarrow> Inl r | Inr w' \<Rightarrow> watch_run cfg evs w')"

text \<open>
  \<^verbatim>\<open>runOnce\<close>: the worker does not start, or is watched. Before its first READY document the running version is the
  zero value.
\<close>

definition runOnce :: "sup_config \<Rightarrow> bool \<Rightarrow> int \<Rightarrow> (step_env \<times> watch_event) list \<Rightarrow> bool \<Rightarrow> disk \<Rightarrow> (launch_result \<times> disk) + watch" where
  "runOnce cfg startErr started evs trial d =
     (if startErr then Inl (no_result\<lparr>rr_launchErr := True, rr_trialFailed := (if trial then Some NotStarted else None)\<rparr>, d)
      else watch_run cfg evs \<lparr>wa_trial = trial, wa_ready = False, wa_running = \<lparr>ri_Version = [], ri_ServerVersion = []\<rparr>,
        wa_health = (if trial then Some (started + sc_HealthTimeout cfg) else None), wa_stable = None, wa_check = None,
        wa_checking = NoCheck, wa_first = True, wa_poll = started + sc_ReadyPoll cfg, wa_started = started, wa_disk = d\<rparr>)"

section \<open>The loop\<close>

record sup_loop =
  su_backoff :: backoff
  su_neverReady :: int
  su_lockRetries :: int
  su_disk :: disk

text \<open>
  The circumstances of a launch: whether the supervisor is told to stop before it or during the wait after it, whether the process
  starts, what the worker does, and how the writes of an activation or a rollback go.
\<close>

record launch =
  la_ctxErr :: bool
  la_startErr :: bool
  la_started :: int
  la_events :: "string \<Rightarrow> (step_env \<times> watch_event) list"
  la_now :: int
  la_activates :: bool
  la_rolls_back :: bool
  la_removal :: removal
  la_slept :: bool
  la_random :: rat

datatype sup_state = Exited int disk | Watching string watch | Launching sup_loop

definition binary :: "sup_config \<Rightarrow> disk \<Rightarrow> string \<times> bool" where
  "binary cfg d = (case sc_Upgrades cfg of None \<Rightarrow> ([], False)
     | Some u \<Rightarrow> (case Binary u d of None \<Rightarrow> ([], False) | Some b \<Rightarrow> b))"

definition after_run :: "sup_config \<Rightarrow> (rat \<Rightarrow> rat) \<Rightarrow> (trial_failure \<Rightarrow> string) \<Rightarrow> launch \<Rightarrow> launch_result \<Rightarrow> disk \<Rightarrow> sup_loop \<Rightarrow> sup_state" where
  "after_run cfg fl why l run d s0 =
     (let s = s0\<lparr>su_disk := d\<rparr> in
      if rr_stopped run then Exited ExitOK d
      else case rr_upgrade run of
        Some t \<Rightarrow> Launching (s\<lparr>su_disk := Activate t (la_now l) (la_activates l) d, su_neverReady := 0, su_lockRetries := 0\<rparr>)
      | None \<Rightarrow>
        (case rr_trialFailed run of
          Some failure \<Rightarrow>
            Launching (s\<lparr>su_disk := (case sc_Upgrades cfg of None \<Rightarrow> d
                          | Some u \<Rightarrow> Rollback u (why failure) (la_now l) (la_removal l) (la_rolls_back l) d),
                        su_neverReady := 0, su_lockRetries := 0\<rparr>)
        | None \<Rightarrow>
          if \<not> rr_launchErr run \<and> rr_exit run = ExitOK then Exited ExitOK d
          else if \<not> rr_launchErr run \<and> (rr_exit run = ExitConfig \<or> rr_exit run = ExitAuthFatal) then Exited (rr_exit run) d
          else if \<not> rr_launchErr run \<and> rr_exit run = ExitLockHeld then
            (let s = s\<lparr>su_lockRetries := su_lockRetries s + 1\<rparr> in
             if su_lockRetries s > sc_LockRetries cfg then Exited ExitLockHeld d
             else if \<not> la_slept l then Exited ExitOK d
             else Launching s)
          else
            (let s = s\<lparr>su_lockRetries := 0, su_neverReady := (if rr_ready run then 0 else su_neverReady s + 1)\<rparr> in
             if su_neverReady s \<ge> sc_GiveUpAfter cfg then Exited ExitSupervisorGaveUp d
             else (case AfterSession fl (la_random l) (rr_lived run) (su_backoff s) of
               (delay, b) \<Rightarrow> if \<not> la_slept l then Exited ExitOK d else Launching (s\<lparr>su_backoff := b\<rparr>)))))"

definition launch_step :: "sup_config \<Rightarrow> (rat \<Rightarrow> rat) \<Rightarrow> (trial_failure \<Rightarrow> string) \<Rightarrow> launch \<Rightarrow> sup_loop \<Rightarrow> sup_state" where
  "launch_step cfg fl why l s =
     (if la_ctxErr l then Exited ExitOK (su_disk s)
      else (case binary cfg (su_disk s) of (bin, trial) \<Rightarrow>
        (case runOnce cfg (la_startErr l) (la_started l) (la_events l bin) trial (su_disk s) of
           Inl (run, d) \<Rightarrow> after_run cfg fl why l run d s
         | Inr w \<Rightarrow> Watching bin w)))"

fun run_loop :: "sup_config \<Rightarrow> (rat \<Rightarrow> rat) \<Rightarrow> (trial_failure \<Rightarrow> string) \<Rightarrow> launch list \<Rightarrow> sup_loop \<Rightarrow> sup_state" where
  "run_loop cfg fl why [] s = Launching s"
| "run_loop cfg fl why (l # ls) s = (case launch_step cfg fl why l s of Launching s' \<Rightarrow> run_loop cfg fl why ls s' | st \<Rightarrow> st)"

text \<open>What a supervisor has come to after the given launches; \<open>rm\<close> are the removals of \<^verbatim>\<open>Resume\<close>.\<close>

definition Run :: "sup_config \<Rightarrow> (rat \<Rightarrow> rat) \<Rightarrow> (trial_failure \<Rightarrow> string) \<Rightarrow> step_env \<Rightarrow> removal \<Rightarrow> launch list \<Rightarrow> disk \<Rightarrow> sup_state" where
  "Run cfg fl why en rm ls d =
     run_loop cfg fl why ls \<lparr>su_backoff = New_backoff (sc_BackoffBase cfg) (sc_BackoffMax cfg), su_neverReady = 0, su_lockRetries = 0,
       su_disk = (case sc_Upgrades cfg of None \<Rightarrow> d | Some u \<Rightarrow> Resume u (en_now en) rm (en_saves en) (en_removal en) d)\<rparr>"

section \<open>A supervisor whose workers never become ready gives up\<close>

text \<open>An event that shows no READY document, and one with which a launch ends.\<close>

definition silent :: "watch_event \<Rightarrow> bool" where
  "silent ev = (case ev of ChildExits _ found \<Rightarrow> found = None | PollFires found \<Rightarrow> found = None | _ \<Rightarrow> True)"

definition ends_launch :: "watch_event \<Rightarrow> bool" where
  "ends_launch ev = (case ev of CtxDone \<Rightarrow> True | ChildExits _ _ \<Rightarrow> True | _ \<Rightarrow> False)"

definition fails_early :: "launch \<Rightarrow> bool" where
  "fails_early l \<longleftrightarrow> la_startErr l \<or> (list_all (silent \<circ> snd) (la_events l []) \<and> list_ex (ends_launch \<circ> snd) (la_events l []))"

definition plain_watch :: "watch \<Rightarrow> bool" where
  "plain_watch w \<longleftrightarrow> \<not> wa_trial w \<and> \<not> wa_ready w \<and> wa_health w = None \<and> wa_stable w = None \<and> wa_check w = None \<and> wa_checking w = NoCheck"

lemma plain_run:
  assumes "sc_Upgrades cfg = None" "plain_watch w" "list_all (silent \<circ> snd) evs" "list_ex (ends_launch \<circ> snd) evs"
  shows "\<exists>r d. watch_run cfg evs w = Inl (r, d) \<and> rr_upgrade r = None \<and> rr_trialFailed r = None \<and> \<not> rr_ready r"
  using assms(2-)
proof (induction evs arbitrary: w)
  case (Cons e evs)
  obtain en ev where e: "e = (en, ev)" by fastforce
  show ?case
  proof (cases "ends_launch ev")
    case True
    then show ?thesis using Cons.prems
      by (cases ev) (auto simp: e ends_launch_def watch_step_def silent_def checkReady_def no_result_def plain_watch_def Let_def)
  next
    case False
    then have "\<exists>w'. watch_step cfg en ev w = Inr w' \<and> plain_watch w'" using Cons.prems assms(1)
      by (cases ev) (auto simp: e ends_launch_def watch_step_def silent_def checkReady_def plain_watch_def due_def)
    then obtain w' where "watch_step cfg en ev w = Inr w'" "plain_watch w'" by blast
    then show ?thesis using Cons.IH [of w'] Cons.prems False by (simp add: e)
  qed
qed simp

text \<open>How many launches a supervisor has left.\<close>

definition launches_left :: "sup_config \<Rightarrow> sup_loop \<Rightarrow> int" where
  "launches_left cfg s = (sc_GiveUpAfter cfg - su_neverReady s) * (sc_LockRetries cfg + 1) - su_lockRetries s"

definition counting :: "sup_config \<Rightarrow> sup_loop \<Rightarrow> bool" where
  "counting cfg s \<longleftrightarrow> su_neverReady s < sc_GiveUpAfter cfg \<and> 0 \<le> su_lockRetries s \<and> su_lockRetries s \<le> sc_LockRetries cfg"

lemma counting_left:
  assumes "counting cfg s"
  shows "1 \<le> launches_left cfg s"
proof -
  define n k where "n = sc_GiveUpAfter cfg - su_neverReady s" and "k = sc_LockRetries cfg + 1"
  have "1 \<le> n" "su_lockRetries s < k" "0 \<le> k" using assms by (simp_all add: counting_def n_def k_def)
  then have "k \<le> n * k" using mult_right_mono [of 1 n k] by simp
  then have "1 \<le> n * k - su_lockRetries s" using \<open>su_lockRetries s < k\<close> by simp
  then show ?thesis by (simp add: launches_left_def n_def k_def)
qed

lemma after_failed_run:
  assumes "counting cfg s" "rr_upgrade r = None" "rr_trialFailed r = None" "\<not> rr_ready r"
  shows "case after_run cfg fl why l r d s of
      Exited code _ \<Rightarrow> code \<in> {ExitOK, ExitSupervisorGaveUp, ExitLockHeld, ExitAuthFatal, ExitConfig}
    | Watching _ _ \<Rightarrow> False
    | Launching s' \<Rightarrow> counting cfg s' \<and> launches_left cfg s' < launches_left cfg s"
proof -
  have "launches_left cfg (s\<lparr>su_neverReady := su_neverReady s + 1, su_lockRetries := 0\<rparr>) < launches_left cfg s"
    using assms(1) by (simp add: launches_left_def counting_def algebra_simps)
  then show ?thesis using assms
    by (auto simp: after_run_def Let_def counting_def launches_left_def split: prod.splits)
qed

lemma run_loop_ends:
  assumes "sc_Upgrades cfg = None" "list_all fails_early ls" "counting cfg s" "launches_left cfg s \<le> int (length ls)"
  shows "\<exists>code d. run_loop cfg fl why ls s = Exited code d \<and> code \<in> {ExitOK, ExitSupervisorGaveUp, ExitLockHeld, ExitAuthFatal, ExitConfig}"
  using assms(2-)
proof (induction ls arbitrary: s)
  case Nil
  then show ?case using counting_left [of cfg s] by simp
next
  case (Cons l ls)
  show ?case
  proof (cases "la_ctxErr l")
    case True
    then show ?thesis by (simp add: launch_step_def)
  next
    case False
    have "\<exists>r d. runOnce cfg (la_startErr l) (la_started l) (la_events l []) False (su_disk s) = Inl (r, d)
        \<and> rr_upgrade r = None \<and> rr_trialFailed r = None \<and> \<not> rr_ready r"
    proof (cases "la_startErr l")
      case False
      then have "list_all (silent \<circ> snd) (la_events l [])" "list_ex (ends_launch \<circ> snd) (la_events l [])"
        using Cons.prems(1) by (simp_all add: fails_early_def)
      then show ?thesis using False unfolding runOnce_def
        by (simp only: if_False simp_thms) (rule plain_run [OF assms(1)], simp_all add: plain_watch_def)
    qed (simp add: runOnce_def no_result_def)
    then obtain r d where r: "launch_step cfg fl why l s = after_run cfg fl why l r d s" "rr_upgrade r = None" "rr_trialFailed r = None" "\<not> rr_ready r"
      using False assms(1) by (auto simp: launch_step_def binary_def)
    note a = after_failed_run [OF Cons.prems(2) r(2-), of fl why l d]
    show ?thesis
    proof (cases "after_run cfg fl why l r d s")
      case (Launching s')
      then show ?thesis using a Cons.IH [of s'] Cons.prems by (simp add: r(1))
    qed (use a r(1) in auto)
  qed
qed


definition sample_crash :: launch where
  "sample_crash = \<lparr>la_ctxErr = False, la_startErr = False, la_started = 0,
     la_events = (\<lambda>_. [(\<lparr>en_now = 1, en_saves = True, en_removal = (\<lambda>_. RemoveOk), en_roll = (\<lambda>_. 0)\<rparr>, ChildExits 1 None)]),
     la_now = 2, la_activates = True, la_rolls_back = True, la_removal = RemoveOk, la_slept = True, la_random = 0\<rparr>"

definition sample_sup_config :: sup_config where
  "sample_sup_config = \<lparr>sc_BackoffBase = 0, sc_BackoffMax = 0, sc_StopGrace = 0, sc_ReadyPoll = 0, sc_GiveUpAfter = 3, sc_LockRetries = 1,
     sc_LockRetryDelay = 0, sc_Upgrades = None, sc_HealthTimeout = 0, sc_StableWindow = 0\<rparr>"


section \<open>A trial ends well only after the stable window\<close>

lemma watch_run_snoc:
  "watch_run cfg (evs @ [(en, ev)]) w = (case watch_run cfg evs w of Inl r \<Rightarrow> Inl r | Inr w' \<Rightarrow> watch_step cfg en ev w')"
  by (induction evs arbitrary: w) (auto split: sum.splits)

definition ready_seen :: "step_env \<times> watch_event \<Rightarrow> bool" where
  "ready_seen e = (case snd e of PollFires (Some _) \<Rightarrow> True | _ \<Rightarrow> False)"

text \<open>The window was awaited between the poll with index \<open>i\<close> and the timer with index \<open>j\<close>.\<close>

definition window_passed :: "sup_config \<Rightarrow> (step_env \<times> watch_event) list \<Rightarrow> bool" where
  "window_passed cfg evs \<longleftrightarrow> (\<exists>i j. i < j \<and> j < length evs \<and> ready_seen (evs ! i) \<and> snd (evs ! j) = StableFires \<and>
     en_now (fst (evs ! i)) + sc_StableWindow cfg \<le> en_now (fst (evs ! j)))"

definition window_open :: "sup_config \<Rightarrow> (step_env \<times> watch_event) list \<Rightarrow> int \<Rightarrow> bool" where
  "window_open cfg evs t \<longleftrightarrow> (\<exists>i<length evs. ready_seen (evs ! i) \<and> t = en_now (fst (evs ! i)) + sc_StableWindow cfg)"

lemma window_passed_grows:
  assumes "window_passed cfg evs"
  shows "window_passed cfg (evs @ [e])"
proof -
  obtain i j where ij: "i < j" "j < length evs" "ready_seen (evs ! i)" "snd (evs ! j) = StableFires"
    "en_now (fst (evs ! i)) + sc_StableWindow cfg \<le> en_now (fst (evs ! j))" using assms unfolding window_passed_def by blast
  then have "(evs @ [e]) ! i = evs ! i" "(evs @ [e]) ! j = evs ! j" "j < length (evs @ [e])" by (simp_all add: nth_append)
  then show ?thesis unfolding window_passed_def using ij(1,3,4,5) by (intro exI [of _ i] exI [of _ j]) (simp only: simp_thms)
qed

lemma window_open_grows:
  assumes "window_open cfg evs t"
  shows "window_open cfg (evs @ [e]) t"
proof -
  obtain i where i: "i < length evs" "ready_seen (evs ! i)" "t = en_now (fst (evs ! i)) + sc_StableWindow cfg"
    using assms unfolding window_open_def by blast
  then have "(evs @ [e]) ! i = evs ! i" "i < length (evs @ [e])" by (simp_all add: nth_append)
  then show ?thesis unfolding window_open_def using i(2,3) by (intro exI [of _ i]) (simp only: simp_thms)
qed

lemmas window_grows = window_passed_grows window_open_grows

lemma window_ends:
  assumes "window_open cfg evs t" "t \<le> en_now en"
  shows "window_passed cfg (evs @ [(en, StableFires)])"
proof -
  obtain i where "i < length evs" "ready_seen (evs ! i)" "t = en_now (fst (evs ! i)) + sc_StableWindow cfg" using assms(1) by (auto simp: window_open_def)
  then show ?thesis using assms(2) unfolding window_passed_def by (intro exI [of _ i] exI [of _ "length evs"]) (simp add: nth_append)
qed

definition on_trial :: "sup_config \<Rightarrow> (step_env \<times> watch_event) list \<Rightarrow> watch \<Rightarrow> bool" where
  "on_trial cfg evs w \<longleftrightarrow> (if wa_trial w then \<forall>t. wa_stable w = Some t \<longrightarrow> window_open cfg evs t else window_passed cfg evs \<and> wa_stable w = None)"

lemma scheduleCheck_trial [simp]: "wa_trial (scheduleCheck cfg en w) = wa_trial w" "wa_stable (scheduleCheck cfg en w) = wa_stable w"
  by (simp_all add: scheduleCheck_def Let_def split: option.splits)

lemma on_trial_checkReady:
  assumes "on_trial cfg evs w" "0 < sc_StableWindow cfg"
  shows "on_trial cfg (evs @ [(en, PollFires found)]) (checkReady cfg en found w)"
proof -
  have "window_open cfg (evs @ [(en, PollFires (Some info))]) (en_now en + sc_StableWindow cfg)" for info
    unfolding window_open_def by (intro exI [of _ "length evs"]) (simp add: ready_seen_def)
  then show ?thesis using assms window_grows [of cfg evs]
    by (auto simp: on_trial_def checkReady_def onFirstReady_def Let_def split: option.splits if_splits)
qed

lemma on_trial_same:
  "on_trial cfg evs w \<Longrightarrow> wa_trial w' = wa_trial w \<Longrightarrow> wa_stable w' = wa_stable w \<Longrightarrow> on_trial cfg (evs @ [e]) w'"
  unfolding on_trial_def using window_grows by auto

lemma other_steps_keep:
  assumes "watch_step cfg en ev w = Inr w'" "ev \<noteq> StableFires" "\<forall>found. ev \<noteq> PollFires found"
  shows "wa_trial w' = wa_trial w \<and> wa_stable w' = wa_stable w"
proof (cases ev)
  case (CheckGoes tag fetched rem renames)
  then show ?thesis using assms(1) by (auto simp: watch_step_def split: option.splits check_state.splits prod.splits check_result.splits)
next
  case (PreflightGoes passes cancelled rem)
  then show ?thesis using assms(1) by (auto simp: watch_step_def split: option.splits check_state.splits prod.splits)
next
  case CheckDelivers
  then show ?thesis using assms(1) by (auto simp: watch_step_def Let_def split: option.splits check_state.splits)
qed (use assms in \<open>auto simp: watch_step_def Let_def split: if_splits\<close>)

lemma on_trial_step:
  assumes t: "on_trial cfg evs w" and "0 < sc_StableWindow cfg" and s: "watch_step cfg en ev w = Inr w'"
  shows "on_trial cfg (evs @ [(en, ev)]) w'"
proof (cases "\<exists>found. ev = PollFires found")
  case True
  then obtain found where f: "ev = PollFires found" by blast
  have "on_trial cfg evs (w\<lparr>wa_poll := en_now en + sc_ReadyPoll cfg\<rparr>)" using t by (simp add: on_trial_def)
  from on_trial_checkReady [OF this assms(2)] show ?thesis using s on_trial_same [OF t]
    by (cases "wa_poll w \<le> en_now en") (auto simp: f watch_step_def)
next
  case False
  note no_poll = this
  show ?thesis
  proof (cases "ev = StableFires \<and> due en (wa_stable w)")
    case True
    then obtain x where "wa_stable w = Some x" "x \<le> en_now en" by (auto simp: due_def split: option.splits)
    moreover have "w' = commit_trial cfg en w" using s True by (simp add: watch_step_def)
    ultimately show ?thesis using t True window_ends [of cfg evs x en] by (auto simp: on_trial_def commit_trial_def split: if_splits)
  next
    case False
    then have "wa_trial w' = wa_trial w \<and> wa_stable w' = wa_stable w"
      using other_steps_keep [OF s] no_poll s by (cases "ev = StableFires") (auto simp: watch_step_def)
    then show ?thesis using on_trial_same [OF t] by blast
  qed
qed

text \<open>
  C36. A version on trial is confirmed only by staying up: when a launch that began as a trial is no longer one, a poll found its READY
  document and the worker was still being watched at a clock reading at least the stable window later.
\<close>

theorem confirmed_after_stable_window:
  assumes "0 < sc_StableWindow cfg" "runOnce cfg False started evs True d = Inr w" "\<not> wa_trial w"
  shows "window_passed cfg evs"
proof -
  define w0 where "w0 = \<lparr>wa_trial = True, wa_ready = False, wa_running = \<lparr>ri_Version = [], ri_ServerVersion = []\<rparr>,
    wa_health = Some (started + sc_HealthTimeout cfg), wa_stable = None, wa_check = None, wa_checking = NoCheck, wa_first = True,
    wa_poll = started + sc_ReadyPoll cfg, wa_started = started, wa_disk = d\<rparr>"
  have "watch_run cfg evs w0 = Inr w \<Longrightarrow> on_trial cfg evs w" for w
  proof (induction evs arbitrary: w rule: rev_induct)
    case (snoc e evs)
    then show ?case using on_trial_step [OF _ assms(1)] by (cases e) (auto simp: watch_run_snoc split: sum.splits)
  qed (auto simp: on_trial_def w0_def)
  moreover have "watch_run cfg evs w0 = Inr w" using assms(2) by (simp add: runOnce_def w0_def)
  ultimately show ?thesis using assms(3) by (simp add: on_trial_def)
qed

definition sample_step_env :: "int \<Rightarrow> step_env" where
  "sample_step_env now = \<lparr>en_now = now, en_saves = True, en_removal = (\<lambda>_. RemoveOk), en_roll = (\<lambda>_. 0)\<rparr>"

theorem confirmed_after_stable_window_witness:
  "window_passed (sample_sup_config\<lparr>sc_StableWindow := 10\<rparr>)
     [(sample_step_env 5, PollFires (Some \<lparr>ri_Version = ''v1.1.0'', ri_ServerVersion = []\<rparr>)), (sample_step_env 15, StableFires)]"
proof -
  let ?cfg = "sample_sup_config\<lparr>sc_StableWindow := 10\<rparr>"
  let ?evs = "[(sample_step_env 5, PollFires (Some \<lparr>ri_Version = ''v1.1.0'', ri_ServerVersion = []\<rparr>)), (sample_step_env 15, StableFires)]"
  have "\<exists>w. runOnce ?cfg False 0 ?evs True \<lparr>dk_state = NoState, dk_versions = []\<rparr> = Inr w \<and> \<not> wa_trial w"
    by (simp add: runOnce_def watch_step_def checkReady_def onFirstReady_def due_def commit_trial_def sample_step_env_def sample_sup_config_def Let_def)
  moreover have "0 < sc_StableWindow ?cfg" by simp
  ultimately show ?thesis using confirmed_after_stable_window [of ?cfg 0 ?evs "\<lparr>dk_state = NoState, dk_versions = []\<rparr>"] by blast
qed

section \<open>The supervisor drives the upgrader in the orders of an upgrade run\<close>

text \<open>The state of an upgrade run that a watched worker corresponds to, with what the local variables of \<^verbatim>\<open>runOnce\<close> keep.\<close>

definition drives :: "upgrader \<Rightarrow> string \<Rightarrow> watch \<Rightarrow> upgrade_sys \<Rightarrow> bool" where
  "drives u bin w x \<longleftrightarrow>
     ux_u x = u \<and> ux_disk x = wa_disk w \<and> ux_running x = Some (bin, wa_trial w) \<and>
     ux_target x = (case wa_checking w of Preflighting t \<Rightarrow> Some (t, False) | CheckEnded (Some t) \<Rightarrow> Some (t, True) | _ \<Rightarrow> None) \<and>
     (wa_ready w \<longrightarrow> ri_Version (wa_running w) = reported u bin) \<and>
     (wa_check w \<noteq> None \<longrightarrow> wa_ready w \<and> \<not> wa_trial w \<and> wa_checking w = NoCheck) \<and>
     (wa_checking w \<noteq> NoCheck \<longrightarrow> wa_ready w \<and> \<not> wa_trial w) \<and>
     (\<forall>info. wa_checking w = Checking info \<longrightarrow> ri_Version info = reported u bin) \<and>
     (wa_stable w \<noteq> None \<longrightarrow> wa_ready w \<and> wa_trial w) \<and> (wa_health w \<noteq> None \<longrightarrow> wa_trial w \<and> \<not> wa_ready w)"

definition ended :: "upgrader \<Rightarrow> launch_result \<Rightarrow> disk \<Rightarrow> upgrade_sys \<Rightarrow> bool" where
  "ended u r d x \<longleftrightarrow> ux_u x = u \<and> ux_disk x = d \<and> (\<forall>t. rr_upgrade r = Some t \<longrightarrow> ux_target x = Some (t, True)) \<and>
     (rr_trialFailed r \<noteq> None \<longrightarrow> (\<exists>b. ux_running x = Some (b, True)))"

text \<open>A worker publishes its own version.\<close>

definition publishes :: "string \<Rightarrow> watch_event \<Rightarrow> bool" where
  "publishes version ev =
     (case ev of ChildExits _ (Some info) \<Rightarrow> ri_Version info = version | PollFires (Some info) \<Rightarrow> ri_Version info = version | _ \<Rightarrow> True)"

definition honest_launch :: "upgrader \<Rightarrow> launch \<Rightarrow> bool" where
  "honest_launch u l \<longleftrightarrow> (\<forall>bin. \<forall>e\<in>set (la_events l bin). publishes (reported u bin) (snd e))"

lemma scheduleCheck_drives:
  "drives u bin w x \<Longrightarrow> wa_ready w \<Longrightarrow> wa_checking w = NoCheck \<Longrightarrow> drives u bin (scheduleCheck cfg en w) x"
  by (auto simp: drives_def scheduleCheck_def Let_def split: option.splits)

lemma commit_drives:
  assumes "sc_Upgrades cfg = Some u" "drives u bin w x" "wa_trial w" "wa_ready w" "wa_health w = None"
  shows "drives u bin (commit_trial cfg en w) (upgrade_step x (TrialSucceeds (en_now en) (en_saves en) (en_removal en)))"
  unfolding commit_trial_def Let_def using assms by (intro scheduleCheck_drives) (auto simp: drives_def)

lemma checkReady_drives:
  assumes "sc_Upgrades cfg = Some u" "drives u bin w x" "\<forall>info. found = Some info \<longrightarrow> ri_Version info = reported u bin"
  shows "\<exists>evs. list_all rollback_saved evs \<and> drives u bin (checkReady cfg en found w) (foldl upgrade_step x evs)"
proof (cases "\<exists>info. found = Some info \<and> (\<not> wa_ready w \<or> ri_ServerVersion info \<noteq> ri_ServerVersion (wa_running w))")
  case False
  then have "checkReady cfg en found w = w" by (auto simp: checkReady_def split: option.splits)
  then show ?thesis using assms(2) by (intro exI [of _ "[]"]) simp
next
  case True
  then obtain info where i: "found = Some info" "\<not> wa_ready w \<or> ri_ServerVersion info \<noteq> ri_ServerVersion (wa_running w)" by blast
  define w' where "w' = w\<lparr>wa_ready := True, wa_running := info, wa_health := None\<rparr>"
  have w': "drives u bin w' x" "wa_ready w'" "wa_health w' = None" "wa_trial w' = wa_trial w" using assms i by (auto simp: drives_def w'_def)
  have "w\<lparr>wa_ready := True, wa_running := info\<rparr> = w'" if "wa_ready w \<or> \<not> wa_trial w"
    using assms(2) that by (cases w) (auto simp: drives_def w'_def)
  then have r: "checkReady cfg en found w = (if wa_ready w then w' else if \<not> wa_trial w then scheduleCheck cfg en w'
      else if sc_StableWindow cfg \<le> 0 then commit_trial cfg en w' else w'\<lparr>wa_stable := Some (en_now en + sc_StableWindow cfg)\<rparr>)"
    using i by (auto simp: checkReady_def onFirstReady_def w'_def Let_def)
  show ?thesis
  proof (cases "\<not> wa_ready w \<and> wa_trial w \<and> sc_StableWindow cfg \<le> 0")
    case True
    then have "drives u bin (checkReady cfg en found w) (foldl upgrade_step x [TrialSucceeds (en_now en) (en_saves en) (en_removal en)])"
      using commit_drives [OF assms(1) w'(1) _ w'(2,3)] by (simp add: r w'(4) del: upgrade_step.simps)
    then show ?thesis by (intro exI [of _ "[TrialSucceeds (en_now en) (en_saves en) (en_removal en)]"]) simp
  next
    case False
    consider "wa_ready w" | "\<not> wa_ready w" "\<not> wa_trial w" | "\<not> wa_ready w" "wa_trial w" "0 < sc_StableWindow cfg" using False by linarith
    then have "drives u bin (checkReady cfg en found w) x"
    proof cases
      case 2
      then have "wa_checking w' = NoCheck" using assms(2) by (auto simp: drives_def w'_def)
      then show ?thesis using scheduleCheck_drives [OF w'(1,2)] 2 by (simp add: r)
    qed (use w' r in \<open>simp_all add: drives_def\<close>)
    then show ?thesis by (intro exI [of _ "[]"]) simp
  qed
qed

text \<open>Every step of a watched worker is a sequence of steps of the upgrade run.\<close>

definition simulated :: "upgrader \<Rightarrow> string \<Rightarrow> upgrade_sys \<Rightarrow> (launch_result \<times> disk) + watch \<Rightarrow> bool" where
  "simulated u bin x res \<longleftrightarrow>
     (\<exists>evs. list_all rollback_saved evs \<and>
        (case res of Inl (r, d) \<Rightarrow> ended u r d (foldl upgrade_step x evs) | Inr w \<Rightarrow> drives u bin w (foldl upgrade_step x evs)))"

lemma simulated_here: "drives u bin w x \<Longrightarrow> simulated u bin x (Inr w)"
  unfolding simulated_def by (intro exI [of _ "[]"]) simp

lemma simulated_step: "rollback_saved ev \<Longrightarrow> drives u bin w (upgrade_step x ev) \<Longrightarrow> simulated u bin x (Inr w)"
  unfolding simulated_def by (intro exI [of _ "[ev]"]) (simp del: upgrade_step.simps)

lemma simulated_end: "ended u r d x \<Longrightarrow> simulated u bin x (Inl (r, d))"
  unfolding simulated_def by (intro exI [of _ "[]"]) simp

lemma exit_simulated:
  assumes "sc_Upgrades cfg = Some u" "drives u bin w x" "publishes (reported u bin) (ChildExits code found)"
  shows "simulated u bin x (watch_step cfg en (ChildExits code found) w)"
proof -
  have "\<forall>info. found = Some info \<longrightarrow> ri_Version info = reported u bin" using assms(3) by (auto simp: publishes_def)
  from checkReady_drives [OF assms(1,2) this] obtain evs where
    "list_all rollback_saved evs" "drives u bin (checkReady cfg en found w) (foldl upgrade_step x evs)" by blast
  then show ?thesis unfolding simulated_def watch_step_def
    by (intro exI [of _ evs]) (auto simp: ended_def drives_def no_result_def Let_def)
qed

lemma poll_simulated:
  assumes "sc_Upgrades cfg = Some u" "drives u bin w x" "publishes (reported u bin) (PollFires found)"
  shows "simulated u bin x (watch_step cfg en (PollFires found) w)"
proof (cases "wa_poll w \<le> en_now en")
  case True
  have "\<forall>info. found = Some info \<longrightarrow> ri_Version info = reported u bin" using assms(3) by (auto simp: publishes_def)
  moreover have "drives u bin (w\<lparr>wa_poll := en_now en + sc_ReadyPoll cfg\<rparr>) x" using assms(2) by (simp add: drives_def)
  ultimately show ?thesis using checkReady_drives [OF assms(1)] True unfolding simulated_def watch_step_def by (auto simp: Let_def)
next
  case False
  then show ?thesis using simulated_here [OF assms(2)] by (simp add: watch_step_def)
qed

lemma check_simulated:
  assumes "sc_Upgrades cfg = Some u" "drives u bin w x"
  shows "simulated u bin x (watch_step cfg en (CheckGoes tag fetched rem renames) w)"
proof (cases "wa_checking w")
  case (Checking info)
  obtain res d where c: "check_install (reported u bin) (ParseVersion tag) (ri_ServerVersion info) (en_now en) (en_saves en) fetched rem renames (wa_disk w) = (res, d)"
    by fastforce
  define ev where "ev = CheckInstalls tag (ri_ServerVersion info) (en_now en) (en_saves en) fetched rem renames"
  have x: "ux_u x = u" "ux_running x = Some (bin, False)" "ux_target x = None" "ux_disk x = wa_disk w" "ri_Version info = reported u bin"
    using assms(2) Checking by (auto simp: drives_def)
  have w: "watch_step cfg en (CheckGoes tag fetched rem renames) w =
      Inr (w\<lparr>wa_checking := (case res of Installed t \<Rightarrow> Preflighting t | _ \<Rightarrow> CheckEnded None), wa_disk := d\<rparr>)"
    using Checking assms(1) c x by (cases res) (simp_all add: watch_step_def)
  have "drives u bin (w\<lparr>wa_checking := (case res of Installed t \<Rightarrow> Preflighting t | _ \<Rightarrow> CheckEnded None), wa_disk := d\<rparr>) (upgrade_step x ev)"
    using assms(2) Checking x c by (cases res) (auto simp: ev_def drives_def)
  then show ?thesis unfolding w by (intro simulated_step [of ev]) (simp add: ev_def)
qed (use assms in \<open>auto simp: watch_step_def intro!: simulated_here\<close>)

lemma preflight_simulated:
  assumes "sc_Upgrades cfg = Some u" "drives u bin w x"
  shows "simulated u bin x (watch_step cfg en (PreflightGoes passes cancelled rem) w)"
proof (cases "wa_checking w")
  case (Preflighting t)
  obtain ok d where c: "check_preflight u t passes cancelled (en_now en) (en_saves en) rem (wa_disk w) = (ok, d)" by fastforce
  define ev where "ev = PreflightEnds passes cancelled (en_now en) (en_saves en) rem"
  have "drives u bin (w\<lparr>wa_checking := CheckEnded (if ok then Some t else None), wa_disk := d\<rparr>) (upgrade_step x ev)"
    using assms(2) Preflighting c by (auto simp: ev_def drives_def)
  moreover have "watch_step cfg en (PreflightGoes passes cancelled rem) w = Inr (w\<lparr>wa_checking := CheckEnded (if ok then Some t else None), wa_disk := d\<rparr>)"
    using Preflighting assms(1) c by (simp add: watch_step_def)
  ultimately show ?thesis by (simp only:) (rule simulated_step [of ev], simp_all add: ev_def del: upgrade_step.simps)
qed (use assms in \<open>auto simp: watch_step_def intro!: simulated_here\<close>)

lemma watch_step_simulated:
  assumes u: "sc_Upgrades cfg = Some u" and d: "drives u bin w x" and p: "publishes (reported u bin) ev"
  shows "simulated u bin x (watch_step cfg en ev w)"
proof (cases ev)
  case CtxDone
  then show ?thesis using d by (auto simp: watch_step_def no_result_def ended_def drives_def Let_def intro!: simulated_end)
next
  case HealthFires
  then show ?thesis using d
    by (auto simp: watch_step_def no_result_def ended_def drives_def Let_def due_def intro!: simulated_end simulated_here split: option.splits)
next
  case StableFires
  show ?thesis
  proof (cases "due en (wa_stable w)")
    case True
    then have "wa_trial w" "wa_ready w" "wa_health w = None" using d by (auto simp: due_def drives_def split: option.splits)
    from commit_drives [OF u d this, of en] show ?thesis using StableFires True
      by (auto simp: watch_step_def simp del: upgrade_step.simps intro!: simulated_step [of "TrialSucceeds (en_now en) (en_saves en) (en_removal en)"])
  qed (use StableFires simulated_here [OF d] in \<open>simp add: watch_step_def\<close>)
next
  case CheckFires
  then show ?thesis using d by (auto simp: watch_step_def drives_def due_def intro!: simulated_here split: option.splits)
next
  case CheckDelivers
  show ?thesis
  proof (cases "wa_checking w")
    case (CheckEnded res)
    show ?thesis
    proof (cases res)
      case None
      then have "drives u bin (w\<lparr>wa_checking := NoCheck\<rparr>) x" "wa_ready w" using d CheckEnded by (auto simp: drives_def)
      then have "drives u bin (scheduleCheck cfg en (w\<lparr>wa_checking := NoCheck\<rparr>)) x" by (intro scheduleCheck_drives) simp_all
      then show ?thesis using CheckDelivers CheckEnded None by (auto simp: watch_step_def intro: simulated_here)
    next
      case (Some t)
      then show ?thesis using d CheckDelivers CheckEnded
        by (auto simp: watch_step_def no_result_def ended_def drives_def Let_def intro!: simulated_end)
    qed
  qed (use CheckDelivers simulated_here [OF d] in \<open>simp_all add: watch_step_def\<close>)
next
  case (ChildExits code found)
  then show ?thesis using exit_simulated [OF u d] p by blast
next
  case (PollFires found)
  then show ?thesis using poll_simulated [OF u d] p by blast
qed (use check_simulated [OF u d] preflight_simulated [OF u d] in blast)+

lemma watch_run_simulated:
  assumes "sc_Upgrades cfg = Some u" "drives u bin w x" "\<forall>e\<in>set evs. publishes (reported u bin) (snd e)"
  shows "simulated u bin x (watch_run cfg evs w)"
  using assms(2,3)
proof (induction evs arbitrary: w x)
  case Nil
  then show ?case by (simp add: simulated_here)
next
  case (Cons e evs)
  obtain en ev where e: "e = (en, ev)" by fastforce
  then have s: "simulated u bin x (watch_step cfg en ev w)" using Cons.prems by (intro watch_step_simulated [OF assms(1)]) auto
  show ?case
  proof (cases "watch_step cfg en ev w")
    case (Inr w')
    with s obtain es where es: "list_all rollback_saved es" "drives u bin w' (foldl upgrade_step x es)" by (auto simp: simulated_def)
    from Cons.IH [OF this(2)] Cons.prems(2) obtain es' where "list_all rollback_saved es'"
      "case watch_run cfg evs w' of Inl (r, d) \<Rightarrow> ended u r d (foldl upgrade_step (foldl upgrade_step x es) es')
       | Inr w \<Rightarrow> drives u bin w (foldl upgrade_step (foldl upgrade_step x es) es')" by (auto simp: simulated_def)
    then show ?thesis using es(1) unfolding simulated_def by (intro exI [of _ "es @ es'"]) (auto simp: e Inr foldl_append split: sum.splits prod.splits)
  qed (use s e in simp)
qed

text \<open>The state of an upgrade run that a supervisor corresponds to.\<close>

definition between :: "upgrader \<Rightarrow> disk \<Rightarrow> upgrade_sys \<Rightarrow> bool" where
  "between u d x \<longleftrightarrow> ux_u x = u \<and> ux_disk x = d \<and> ux_running x = None \<and> ux_target x = None"

definition corresponds :: "upgrader \<Rightarrow> sup_state \<Rightarrow> upgrade_sys \<Rightarrow> bool" where
  "corresponds u st x = (case st of Exited _ d \<Rightarrow> between u d x | Launching s \<Rightarrow> between u (su_disk s) x | Watching bin w \<Rightarrow> drives u bin w x)"

lemma after_run_corresponds:
  assumes "sc_Upgrades cfg = Some u" "ended u r d x" "la_rolls_back l"
  shows "\<exists>evs. list_all rollback_saved evs \<and> corresponds u (after_run cfg fl why l r d s) (foldl upgrade_step x evs)"
proof -
  define ev where "ev = (if rr_stopped r then WorkerEnds else case rr_upgrade r of Some t \<Rightarrow> SwitchVersion (la_now l) (la_activates l)
    | None \<Rightarrow> (case rr_trialFailed r of Some f \<Rightarrow> TrialFails (why f) (la_now l) (la_removal l) True | None \<Rightarrow> WorkerEnds))"
  have "corresponds u (after_run cfg fl why l r d s) (foldl upgrade_step x [ev, WorkerEnds])"
    using assms by (auto simp: corresponds_def between_def after_run_def ended_def ev_def Let_def split: option.splits prod.splits)
  moreover have "list_all rollback_saved [ev, WorkerEnds]" by (auto simp: ev_def split: option.splits)
  ultimately show ?thesis by blast
qed

lemma launch_corresponds:
  assumes u: "sc_Upgrades cfg = Some u" and x: "between u (su_disk s) x" and l: "la_rolls_back l"
    and p: "honest_launch u l"
  shows "\<exists>evs. list_all rollback_saved evs \<and> corresponds u (launch_step cfg fl why l s) (foldl upgrade_step x evs)"
proof (cases "la_ctxErr l")
  case True
  then show ?thesis using x by (intro exI [of _ "[]"]) (simp add: launch_step_def corresponds_def)
next
  case False
  obtain bin trial where b: "binary cfg (su_disk s) = (bin, trial)" by fastforce
  define x1 where "x1 = upgrade_step x WorkerStarts"
  have x1: "ux_u x1 = u" "ux_disk x1 = su_disk s" "ux_running x1 = Some (bin, trial)" "ux_target x1 = None"
    using x b u by (auto simp: x1_def between_def binary_def split: option.splits)
  have "simulated u bin x1 (runOnce cfg (la_startErr l) (la_started l) (la_events l bin) trial (su_disk s))"
  proof (cases "la_startErr l")
    case False
    have "\<forall>e\<in>set (la_events l bin). publishes (reported u bin) (snd e)" using p by (simp add: honest_launch_def)
    then show ?thesis using False x1 unfolding runOnce_def
      by (simp only: if_False) (rule watch_run_simulated [OF u], auto simp: drives_def)
  qed (use x1 in \<open>auto simp: runOnce_def ended_def no_result_def intro!: simulated_end\<close>)
  then obtain es where es: "list_all rollback_saved es"
    "case runOnce cfg (la_startErr l) (la_started l) (la_events l bin) trial (su_disk s) of
       Inl (r, d) \<Rightarrow> ended u r d (foldl upgrade_step x1 es) | Inr w \<Rightarrow> drives u bin w (foldl upgrade_step x1 es)" by (auto simp: simulated_def)
  have "\<exists>es'. list_all rollback_saved es' \<and> corresponds u (launch_step cfg fl why l s) (foldl upgrade_step (foldl upgrade_step x1 es) es')"
  proof (cases "runOnce cfg (la_startErr l) (la_started l) (la_events l bin) trial (su_disk s)")
    case (Inl rd)
    then show ?thesis using es(2) False b after_run_corresponds [OF u _ l] by (cases rd) (simp add: launch_step_def)
  next
    case (Inr w)
    then show ?thesis using es(2) False b by (intro exI [of _ "[]"]) (simp add: launch_step_def corresponds_def)
  qed
  then obtain es' where "list_all rollback_saved es'" "corresponds u (launch_step cfg fl why l s) (foldl upgrade_step (foldl upgrade_step x1 es) es')" by blast
  then show ?thesis using es(1) by (intro exI [of _ "WorkerStarts # es @ es'"]) (simp add: x1_def)
qed

lemma run_loop_corresponds:
  assumes u: "sc_Upgrades cfg = Some u" and "between u (su_disk s) x" "list_all la_rolls_back ls" "list_all (honest_launch u) ls"
  shows "\<exists>evs. list_all rollback_saved evs \<and> corresponds u (run_loop cfg fl why ls s) (foldl upgrade_step x evs)"
  using assms(2-)
proof (induction ls arbitrary: s x)
  case Nil
  then show ?case by (intro exI [of _ "[]"]) (simp add: corresponds_def)
next
  case (Cons l ls)
  from Cons.prems have "la_rolls_back l" "honest_launch u l" by simp_all
  from launch_corresponds [OF u Cons.prems(1) this, of fl why] obtain es where
    es: "list_all rollback_saved es" "corresponds u (launch_step cfg fl why l s) (foldl upgrade_step x es)" by blast
  show ?case
  proof (cases "launch_step cfg fl why l s")
    case (Launching s')
    then have "between u (su_disk s') (foldl upgrade_step x es)" using es(2) by (simp add: corresponds_def)
    from Cons.IH [OF this] Cons.prems obtain es' where
      "list_all rollback_saved es'" "corresponds u (run_loop cfg fl why ls s') (foldl upgrade_step (foldl upgrade_step x es) es')" by auto
    then show ?thesis using es(1) Launching by (intro exI [of _ "es @ es'"]) simp
  qed (use es in auto)
qed



end
