(* ===== verification/Totp.thy ===== *)
theory Totp
  imports Proxy_Handshake "HOL-Library.Signed_Division"
begin

unbundle bit_operations_syntax

text \<open>
  One-time passwords and recovery codes, \<^verbatim>\<open>internal/auth/totp.go\<close> and \<^verbatim>\<open>recovery_code.go\<close>. Times and durations are numbers of
  nanoseconds. The keyed hash (HMAC with SHA-1, 20 bytes) and the digest of recovery codes (SHA-256) are the parameters \<open>mac\<close> and
  \<open>sha\<close>; the standard library's base32 codec is written out. A step that would index outside a slice is \<open>None\<close>.

  The lemmas show that secrets survive being written and read, that no code makes the computation fail, and that exactly the codes
  of the steps within the accepted skew are accepted.
\<close>

section \<open>Base32 text\<close>

definition b32_char :: "nat \<Rightarrow> char" where
  "b32_char n = (if n < 26 then char_of (65 + n) else char_of (24 + n))"

definition b32_val :: "char \<Rightarrow> nat option" where
  "b32_val c = (let n = of_char c in if 65 \<le> n \<and> n \<le> 90 then Some (n - 65) else if 50 \<le> n \<and> n \<le> 55 then Some (n - 24) else None)"

definition quintets :: "nat \<Rightarrow> nat \<Rightarrow> nat \<Rightarrow> nat \<Rightarrow> nat \<Rightarrow> nat list" where
  "quintets a b c d e =
     [a div 8, a mod 8 * 4 + b div 64, b div 2 mod 32, b mod 2 * 16 + c div 16, c mod 16 * 2 + d div 128, d div 4 mod 32, d mod 4 * 8 + e div 32, e mod 32]"

text \<open>\<^verbatim>\<open>StdEncoding.WithPadding(NoPadding)\<close>: the characters of an incomplete group end with its last bits.\<close>

fun b32_encode :: "bytes \<Rightarrow> string" where
  "b32_encode [] = []"
| "b32_encode [a] = map b32_char (take 2 (quintets (unat a) 0 0 0 0))"
| "b32_encode [a, b] = map b32_char (take 4 (quintets (unat a) (unat b) 0 0 0))"
| "b32_encode [a, b, c] = map b32_char (take 5 (quintets (unat a) (unat b) (unat c) 0 0))"
| "b32_encode [a, b, c, d] = map b32_char (take 7 (quintets (unat a) (unat b) (unat c) (unat d) 0))"
| "b32_encode (a # b # c # d # e # r) = map b32_char (quintets (unat a) (unat b) (unat c) (unat d) (unat e)) @ b32_encode r"

text \<open>The bytes of a group of eight values, zero for those that are missing.\<close>

definition group_bytes :: "nat list \<Rightarrow> bytes" where
  "group_bytes v =
     [of_nat (v ! 0 * 8 + v ! 1 div 4), of_nat (v ! 1 mod 4 * 64 + v ! 2 * 2 + v ! 3 div 16), of_nat (v ! 3 mod 16 * 16 + v ! 4 div 2),
      of_nat (v ! 4 mod 2 * 128 + v ! 5 * 4 + v ! 6 div 8), of_nat (v ! 6 mod 8 * 32 + v ! 7)]"

text \<open>
  One group at a time: padding is recognised behind at least two characters when fewer than eight characters are left behind its first
  one, must fill the group, and ends the text.
\<close>

fun b32_groups :: "nat \<Rightarrow> string \<Rightarrow> bytes option" where
  "b32_groups 0 s = (if s = [] then Some [] else None)"
| "b32_groups (Suc n) s =
     (if s = [] then Some []
      else if length s < 8 then None
      else (let g = take 8 s; r = drop 8 s; w = takeWhile (\<lambda>c. c \<noteq> CHR ''='') g; j = length w in
        if list_ex (\<lambda>c. b32_val c = None) w then None
        else if j = 8 then map_option (\<lambda>bs. group_bytes (map (the \<circ> b32_val) w) @ bs) (b32_groups n r)
        else if j \<in> {2, 4, 5, 7} \<and> length s - 1 - j < 8 \<and> drop j g = replicate (8 - j) CHR ''=''
        then Some (take (j * 5 div 8) (group_bytes (map (the \<circ> b32_val) w @ replicate (8 - j) 0)))
        else None))"

definition b32_decode :: "string \<Rightarrow> bytes option" where
  "b32_decode s = (let s = filter (\<lambda>c. c \<noteq> CHR 0x0A \<and> c \<noteq> CHR 0x0D) s in b32_groups (length s) s)"

section \<open>One-time passwords\<close>

datatype totp_error = ErrTOTPDigits | ErrTOTPPeriod | ErrTOTPSkew | ErrTOTPSecret

record TOTPParams =
  tp_Digits :: nat
  tp_Period :: int
  tp_Skew :: int

definition DefaultTOTPParams :: TOTPParams where
  "DefaultTOTPParams = \<lparr>tp_Digits = 6, tp_Period = 30 * 10 ^ 9, tp_Skew = 1\<rparr>"

definition totp_validate :: "TOTPParams \<Rightarrow> totp_error + TOTPParams" where
  "totp_validate p =
     (if tp_Digits p \<noteq> 6 \<and> tp_Digits p \<noteq> 8 then Inl ErrTOTPDigits
      else if tp_Period p < 15 * 10 ^ 9 \<or> tp_Period p > 120 * 10 ^ 9 then Inl ErrTOTPPeriod
      else if tp_Skew p < 0 \<or> tp_Skew p > 2 then Inl ErrTOTPSkew
      else Inr p)"

text \<open>\<open>random\<close> are the 20 bytes that were drawn.\<close>

definition GenerateTOTPSecret :: "bytes \<Rightarrow> string" where
  "GenerateTOTPSecret random = b32_encode random"

definition decodeTOTPSecret :: "(string \<Rightarrow> string) \<Rightarrow> string \<Rightarrow> totp_error + bytes" where
  "decodeTOTPSecret uu secret =
     (let normalized = filter (\<lambda>c. c \<noteq> CHR '' '') (ToUpper uu (TrimSpace secret));
          pad = length normalized mod 8;
          normalized = (if pad \<noteq> 0 then normalized @ replicate (8 - pad) CHR ''='' else normalized) in
      case b32_decode normalized of None \<Rightarrow> Inl ErrTOTPSecret | Some decoded \<Rightarrow> if decoded = [] then Inl ErrTOTPSecret else Inr decoded)"

definition put_be64 :: "uint64 \<Rightarrow> bytes" where
  "put_be64 w = put_be32 (ucast (drop_bit 32 w)) @ put_be32 (ucast w)"

definition hotp :: "(bytes \<Rightarrow> bytes \<Rightarrow> bytes) \<Rightarrow> bytes \<Rightarrow> uint64 \<Rightarrow> nat \<Rightarrow> string option" where
  "hotp mac secret counter digits =
     (let sum = mac secret (put_be64 counter) in
      if sum = [] then None
      else (let offset = unat (last sum AND 0x0f) in
        case take 4 (drop offset sum) of
          [a, b, c, d] \<Rightarrow>
            (let value = be32 a b c d AND 0x7fffffff; code = value mod 10 ^ digits; digits_text = show_nat (unat code) in
             if length digits_text > digits then None
             else Some (replicate (digits - length digits_text) CHR ''0'' @ digits_text))
        | _ \<Rightarrow> None))"

definition toptStep :: "int \<Rightarrow> int \<Rightarrow> int" where
  "toptStep at period = (at div 10 ^ 9) sdiv (period sdiv 10 ^ 9)"

definition skewOrder :: "int \<Rightarrow> int list" where
  "skewOrder skew = 0 # concat (map (\<lambda>delta. [- int delta, int delta]) [1..<Suc (nat skew)])"

record totp_env =
  te_mac :: "bytes \<Rightarrow> bytes \<Rightarrow> bytes"
  te_upper :: "string \<Rightarrow> string"

text \<open>\<open>None\<close> is a panic.\<close>

definition TOTPCode :: "totp_env \<Rightarrow> string \<Rightarrow> int \<Rightarrow> TOTPParams \<Rightarrow> (totp_error + string) option" where
  "TOTPCode env secret at params =
     (case totp_validate params of Inl e \<Rightarrow> Some (Inl e)
      | Inr p \<Rightarrow>
        (case decodeTOTPSecret (te_upper env) secret of Inl e \<Rightarrow> Some (Inl e)
         | Inr decoded \<Rightarrow> map_option Inr (hotp (te_mac env) decoded (word_of_int (toptStep at (tp_Period p))) (tp_Digits p))))"

fun totp_scan :: "totp_env \<Rightarrow> bytes \<Rightarrow> nat \<Rightarrow> string \<Rightarrow> int list \<Rightarrow> int option option" where
  "totp_scan env decoded digits code [] = Some None"
| "totp_scan env decoded digits code (step # steps) =
     (if step < 0 then totp_scan env decoded digits code steps
      else (case hotp (te_mac env) decoded (word_of_int step) digits of
          None \<Rightarrow> None
        | Some expected \<Rightarrow> if expected = code then Some (Some step) else totp_scan env decoded digits code steps))"

definition VerifyTOTP :: "totp_env \<Rightarrow> string \<Rightarrow> string \<Rightarrow> int \<Rightarrow> TOTPParams \<Rightarrow> (totp_error + int option) option" where
  "VerifyTOTP env secret code0 at params =
     (case totp_validate params of Inl e \<Rightarrow> Some (Inl e)
      | Inr p \<Rightarrow>
        (case decodeTOTPSecret (te_upper env) secret of Inl e \<Rightarrow> Some (Inl e)
         | Inr decoded \<Rightarrow>
             (let code = TrimSpace code0 in
              if length code \<noteq> tp_Digits p \<or> Atoi code = None then Some (Inr None)
              else map_option Inr (totp_scan env decoded (tp_Digits p) code (map (\<lambda>offset. toptStep at (tp_Period p) + offset) (skewOrder (tp_Skew p)))))))"

section \<open>Recovery codes\<close>

definition recoveryCodePrefix :: string where
  "recoveryCodePrefix = ''tmrc-''"

definition normalizeRecoveryCode :: "(string \<Rightarrow> string) \<Rightarrow> string \<Rightarrow> string" where
  "normalizeRecoveryCode uu code = filter (\<lambda>c. c \<noteq> CHR ''-'') (filter (\<lambda>c. c \<noteq> CHR '' '') (ToUpper uu (TrimSpace code)))"

definition HashRecoveryCode :: "(bytes \<Rightarrow> bytes) \<Rightarrow> (string \<Rightarrow> string) \<Rightarrow> string \<Rightarrow> bytes" where
  "HashRecoveryCode sha uu code = sha (map (of_nat \<circ> of_char) (normalizeRecoveryCode uu code))"

definition IsRecoveryCode :: "(string \<Rightarrow> string) \<Rightarrow> string \<Rightarrow> bool" where
  "IsRecoveryCode ul candidate = HasPrefix (ToLower ul (TrimSpace candidate)) recoveryCodePrefix"

text \<open>The codes of the given draws of 16 random bytes; a code that was drawn before is skipped.\<close>

fun recovery_codes :: "nat \<Rightarrow> string list \<Rightarrow> bytes list \<Rightarrow> string list option" where
  "recovery_codes 0 seen draws = Some (rev seen)"
| "recovery_codes (Suc n) seen [] = None"
| "recovery_codes (Suc n) seen (draw # draws) =
     (let code = recoveryCodePrefix @ take 20 (b32_encode draw) in
      if code \<in> set seen then recovery_codes (Suc n) seen draws else recovery_codes n (code # seen) draws)"

definition GenerateRecoveryCodes :: "(bytes \<Rightarrow> bytes) \<Rightarrow> (string \<Rightarrow> string) \<Rightarrow> int \<Rightarrow> bytes list \<Rightarrow> (string list \<times> bytes list) option" where
  "GenerateRecoveryCodes sha uu n draws =
     (if n \<le> 0 then None
      else map_option (\<lambda>codes. (codes, map (HashRecoveryCode sha uu) codes)) (recovery_codes (nat n) [] draws))"

section \<open>Secrets round trip\<close>

lemma b32_val_char [simp]: "n < 32 \<Longrightarrow> b32_val (b32_char n) = Some n"
  by (auto simp: b32_val_def b32_char_def Let_def)

lemma b32_char_upper: "n < 32 \<Longrightarrow> (65 \<le> (of_char (b32_char n) :: nat) \<and> of_char (b32_char n) \<le> (90 :: nat)) \<or> (50 \<le> (of_char (b32_char n) :: nat) \<and> of_char (b32_char n) \<le> (55 :: nat))"
  by (auto simp: b32_char_def)

lemma b32_char_not_pad [simp]: "n < 32 \<Longrightarrow> b32_char n \<noteq> CHR ''=''"
  using b32_char_upper [of n] by auto

lemma group_arith:
  fixes a b c d e :: nat
  assumes "b < 256" "c < 256" "d < 256" "e < 256"
  shows "a div 8 * 8 + (a mod 8 * 4 + b div 64) div 4 = a"
    "(a mod 8 * 4 + b div 64) mod 4 * 64 + b div 2 mod 32 * 2 + (b mod 2 * 16 + c div 16) div 16 = b"
    "(b mod 2 * 16 + c div 16) mod 16 * 16 + (c mod 16 * 2 + d div 128) div 2 = c"
    "(c mod 16 * 2 + d div 128) mod 2 * 128 + d div 4 mod 32 * 4 + (d mod 4 * 8 + e div 32) div 8 = d"
    "(d mod 4 * 8 + e div 32) mod 8 * 32 + e mod 32 = e"
proof -
  have regroup: "q * 64 + m * 2 = y * 2" "q * 128 + m * 4 = y * 4" if "q * 32 + m = y" for q m y :: nat using that by simp_all
  have q: "(x * k + y) div k = x \<and> (x * k + y) mod k = y" if "y < k" for x y k :: nat using that by simp
  have "b div 64 < 4" "c div 16 < 16" "d div 128 < 2" "e div 32 < 8" using assms by (simp_all add: div_less_iff_less_mult)
  note r = q [OF this(1), of "a mod 8"] q [OF this(2), of "b mod 2"] q [OF this(3), of "c mod 16"] q [OF this(4), of "d mod 4"]
  have "b div 64 = b div 2 div 32" "d div 128 = d div 4 div 32" by (simp_all add: div_mult2_eq [symmetric])
  then have "b div 64 * 64 + b div 2 mod 32 * 2 = b div 2 * 2" "d div 128 * 128 + d div 4 mod 32 * 4 = d div 4 * 4"
    using regroup [OF div_mult_mod_eq [of "b div 2" 32]] regroup [OF div_mult_mod_eq [of "d div 4" 32]] by (simp_all only:)
  then show "a div 8 * 8 + (a mod 8 * 4 + b div 64) div 4 = a"
    "(a mod 8 * 4 + b div 64) mod 4 * 64 + b div 2 mod 32 * 2 + (b mod 2 * 16 + c div 16) div 16 = b"
    "(b mod 2 * 16 + c div 16) mod 16 * 16 + (c mod 16 * 2 + d div 128) div 2 = c"
    "(c mod 16 * 2 + d div 128) mod 2 * 128 + d div 4 mod 32 * 4 + (d mod 4 * 8 + e div 32) div 8 = d"
    "(d mod 4 * 8 + e div 32) mod 8 * 32 + e mod 32 = e" using r by simp_all
qed

lemma quintets_less:
  assumes "a < 256" "b < 256" "c < 256" "d < 256" "e < 256"
  shows "\<forall>x\<in>set (quintets a b c d e). x < 32"
proof -
  have sum: "x * k + y < n * k" if "x < n" "y < k" for x y k n :: nat
  proof -
    have "x * k + y < (x + 1) * k" using that(2) by simp
    also have "\<dots> \<le> n * k" using that(1) by (intro mult_right_mono) simp_all
    finally show ?thesis .
  qed
  have "b div 64 < 4" "c div 16 < 16" "d div 128 < 2" "e div 32 < 8" "a div 8 < 32" using assms by (simp_all add: div_less_iff_less_mult)
  then show ?thesis using sum [of "a mod 8" 8 "b div 64" 4] sum [of "b mod 2" 2 "c div 16" 16] sum [of "c mod 16" 16 "d div 128" 2] sum [of "d mod 4" 4 "e div 32" 8]
    by (simp add: quintets_def)
qed

lemma group_bytes_quintets:
  assumes "a < 256" "b < 256" "c < 256" "d < 256" "e < 256"
  shows "group_bytes (quintets a b c d e) = map of_nat [a, b, c, d, e]"
  using group_arith [OF assms(2-)] by (simp add: group_bytes_def quintets_def)

lemma b32_group:
  assumes "length q = 8" "\<forall>x\<in>set q. x < 32" "j \<in> {2, 4, 5, 7}" "drop j q = replicate (8 - j) 0"
  shows "b32_groups (Suc n) (map b32_char (take j q) @ replicate (8 - j) CHR ''='') = Some (take (j * 5 div 8) (group_bytes q))"
proof -
  let ?w = "map b32_char (take j q)" and ?s = "map b32_char (take j q) @ replicate (8 - j) CHR ''=''"
  have len: "length ?w = j" "length ?s = 8" using assms(1,3) by auto
  have ok: "\<forall>x\<in>set (take j q). x < 32" using assms(2) by (meson in_set_takeD)
  have w: "takeWhile (\<lambda>c. c \<noteq> CHR ''='') ?s = ?w"
  proof -
    have "\<forall>c\<in>set ?w. c \<noteq> CHR ''=''" using ok by auto
    then show ?thesis using assms(3) by (auto simp: takeWhile_append)
  qed
  have v: "map (the \<circ> b32_val) ?w = take j q" using ok by (simp add: map_idI)
  then have "map (the \<circ> b32_val) ?w @ replicate (8 - j) 0 = q" using assms(4) append_take_drop_id [of j q] by simp
  moreover have "\<not> list_ex (\<lambda>c. b32_val c = None) ?w" using ok by (auto simp: list_ex_iff)
  moreover have "take 8 ?s = ?s" "drop 8 ?s = []" "drop j ?s = replicate (8 - j) CHR ''=''" using len by simp_all
  moreover have "j \<noteq> 8" using assms(3) by auto
  ultimately show ?thesis using len assms(3) w by (simp add: Let_def del: take_map)
qed

lemma b32_group_full:
  assumes "length q = 8" "\<forall>x\<in>set q. x < 32" "b32_groups n r = Some bs"
  shows "b32_groups (Suc n) (map b32_char q @ r) = Some (group_bytes q @ bs)"
proof -
  have w: "takeWhile (\<lambda>c. c \<noteq> CHR ''='') (map b32_char q) = map b32_char q" using assms(2) by (simp add: takeWhile_eq_all_conv)
  have v: "map (the \<circ> b32_val \<circ> b32_char) q = q" using assms(2) by (simp add: map_idI)
  have "\<not> list_ex (\<lambda>c. b32_val c = None) (map b32_char q)" "q \<noteq> []" using assms(1,2) by (auto simp: list_ex_iff)
  then show ?thesis using assms(1,3) by (simp add: Let_def w v)
qed

lemma small_replicate: "replicate 6 x = [x, x, x, x, x, x]" "replicate 4 x = [x, x, x, x]" "replicate 3 x = [x, x, x]"
  by (simp_all add: numeral_eq_Suc)

definition b32_padded :: "bytes \<Rightarrow> string" where
  "b32_padded bs = b32_encode bs @ replicate ((8 - length (b32_encode bs) mod 8) mod 8) CHR ''=''"

lemma length_quintets [simp]: "length (quintets a b c d e) = 8"
  by (simp add: quintets_def)

lemma b32_partial:
  assumes "a < 256" "b < 256" "c < 256" "d < 256" "e < 256" "j \<in> {2, 4, 5, 7}" "drop j (quintets a b c d e) = replicate (8 - j) 0" "0 < n"
    and "b32_encode bs = map b32_char (take j (quintets a b c d e))" "bs = take (j * 5 div 8) (map of_nat [a, b, c, d, e])"
  shows "b32_groups n (b32_padded bs) = Some bs"
proof -
  obtain m where n: "n = Suc m" using assms(8) by (cases n) auto
  have "length (b32_encode bs) = j" "j < 8" "j \<noteq> 0" using assms(6) unfolding assms(9) by auto
  then have "b32_padded bs = map b32_char (take j (quintets a b c d e)) @ replicate (8 - j) CHR ''=''"
    unfolding b32_padded_def assms(9) [symmetric] by simp
  moreover have "bs = take (j * 5 div 8) (group_bytes (quintets a b c d e))"
    unfolding group_bytes_quintets [OF assms(1-5)] by (rule assms(10))
  ultimately show ?thesis unfolding n using b32_group [OF length_quintets quintets_less [OF assms(1-5)] assms(6,7)] by (simp only:)
qed

lemma b32_roundtrip: "length bs \<le> n \<Longrightarrow> b32_groups n (b32_padded bs) = Some bs"
proof (induction bs arbitrary: n rule: b32_encode.induct)
  case 1
  then show ?case by (cases n) (simp_all add: b32_padded_def)
next
  case (2 a)
  then show ?case by (intro b32_partial [where a = "unat a" and b = 0 and c = 0 and d = 0 and e = 0 and j = 2])
    (simp_all add: byte_less small_replicate, simp add: quintets_def)
next
  case (3 a b)
  then show ?case by (intro b32_partial [where a = "unat a" and b = "unat b" and c = 0 and d = 0 and e = 0 and j = 4])
    (simp_all add: byte_less small_replicate, simp add: quintets_def)
next
  case (4 a b c)
  then show ?case by (intro b32_partial [where a = "unat a" and b = "unat b" and c = "unat c" and d = 0 and e = 0 and j = 5])
    (simp_all add: byte_less small_replicate, simp add: quintets_def)
next
  case (5 a b c d)
  then show ?case by (intro b32_partial [where a = "unat a" and b = "unat b" and c = "unat c" and d = "unat d" and e = 0 and j = 7])
    (simp_all add: byte_less small_replicate, simp add: quintets_def)
next
  case (6 a b c d e r)
  then obtain m where m: "n = Suc m" "length r \<le> m" by (cases n) auto
  let ?q = "quintets (unat a) (unat b) (unat c) (unat d) (unat e)"
  note less = byte_less [of a] byte_less [of b] byte_less [of c] byte_less [of d] byte_less [of e]
  have "b32_padded (a # b # c # d # e # r) = map b32_char ?q @ b32_padded r" by (simp add: b32_padded_def)
  moreover have "group_bytes ?q @ r = a # b # c # d # e # r" unfolding group_bytes_quintets [OF less] by simp
  ultimately show ?case using b32_group_full [OF length_quintets quintets_less [OF less] 6(1) [OF m(2)]] by (simp only: m(1))
qed

definition b32_text :: "char \<Rightarrow> bool" where
  "b32_text c \<longleftrightarrow> (\<exists>n<32. c = b32_char n)"

lemma b32_text_plain:
  assumes "b32_text c"
  shows "graphic c" "of_char c < (128 :: nat)" "upper_char c = c" "c \<noteq> CHR '' ''" "c \<noteq> CHR 0x0A" "c \<noteq> CHR 0x0D"
proof -
  have "(65 \<le> (of_char c :: nat) \<and> of_char c \<le> (90 :: nat)) \<or> (50 \<le> (of_char c :: nat) \<and> of_char c \<le> (55 :: nat))"
    using assms b32_char_upper by (auto simp: b32_text_def)
  then show "graphic c" "of_char c < (128 :: nat)" "upper_char c = c" "c \<noteq> CHR '' ''" "c \<noteq> CHR 0x0A" "c \<noteq> CHR 0x0D"
    by (auto simp: graphic_def upper_char_def)
qed

lemma b32_encode_text: "\<forall>c\<in>set (b32_encode bs). b32_text c"
proof -
  have q: "b32_text (b32_char x)" if "x \<in> set (quintets a b c d e)" "a < 256" "b < 256" "c < 256" "d < 256" "e < 256" for x a b c d e
    using that(1) quintets_less [OF that(2-)] by (auto simp: b32_text_def)
  show ?thesis
    by (induction bs rule: b32_encode.induct) (auto dest!: in_set_takeD elim!: q simp: byte_less)
qed

lemma secret_roundtrip:
  assumes "bs \<noteq> []"
  shows "decodeTOTPSecret uu (GenerateTOTPSecret bs) = Inr bs"
proof -
  let ?s = "b32_encode bs"
  note plain_text = b32_encode_text [of bs] b32_text_plain
  have ne: "?s \<noteq> []" using assms by (cases bs rule: b32_encode.cases) (simp_all add: quintets_def)
  then have "TrimSpace ?s = ?s" using plain_text by (intro TrimSpace_graphic) auto
  moreover have "ToUpper uu ?s = ?s" using plain_text by (auto simp: ToUpper_def is_ascii_def map_idI)
  moreover have "filter (\<lambda>c. c \<noteq> CHR '' '') ?s = ?s" using plain_text by (auto intro!: filter_True)
  ultimately have n: "filter (\<lambda>c. c \<noteq> CHR '' '') (ToUpper uu (TrimSpace ?s)) = ?s" by simp
  have p: "(if length ?s mod 8 \<noteq> 0 then ?s @ replicate (8 - length ?s mod 8) CHR ''='' else ?s) = b32_padded bs"
    by (auto simp: b32_padded_def)
  have "filter (\<lambda>c. c \<noteq> CHR 0x0A \<and> c \<noteq> CHR 0x0D) (b32_padded bs) = b32_padded bs"
    using plain_text by (auto simp: b32_padded_def intro!: filter_True)
  moreover have "length bs \<le> length (b32_padded bs)"
    by (induction bs rule: b32_encode.induct) (simp_all add: b32_padded_def)
  ultimately have "b32_decode (b32_padded bs) = Some bs" by (simp add: b32_decode_def b32_roundtrip)
  then show ?thesis using assms unfolding decodeTOTPSecret_def GenerateTOTPSecret_def Let_def n p by simp
qed

section \<open>Codes\<close>

lemma show_nat_length: "n < 10 ^ d \<Longrightarrow> 0 < d \<Longrightarrow> length (show_nat n) \<le> d"
proof (induction d arbitrary: n)
  case (Suc d)
  show ?case
  proof (cases "n < 10")
    case False
    then have "0 < d" using Suc.prems(1) by (cases d) auto
    moreover have "n div 10 < 10 ^ d" using Suc.prems(1) by (simp add: div_less_iff_less_mult mult.commute)
    ultimately show ?thesis using Suc.IH [of "n div 10"] False by (simp add: show_nat.simps [of n])
  qed (simp add: show_nat.simps [of n])
qed simp

text \<open>What is used of the keyed hash: its length.\<close>

definition mac_sized :: "(bytes \<Rightarrow> bytes \<Rightarrow> bytes) \<Rightarrow> bool" where
  "mac_sized mac \<longleftrightarrow> (\<forall>k m. length (mac k m) = 20)"

lemma hotp_total:
  assumes "mac_sized mac" "digits \<in> {6, 8}"
  shows "\<exists>code. hotp mac secret counter digits = Some code \<and> length code = digits \<and> list_all is_digit code"
proof -
  define sum where "sum = mac secret (put_be64 counter)"
  define offset where "offset = unat (last sum AND 0x0f)"
  have "length sum = 20" using assms(1) by (simp add: sum_def mac_sized_def)
  then have sum: "length sum = 20" "sum \<noteq> []" by auto
  have "last sum AND 0x0f \<le> 0x0f" by (rule word_and_le1)
  then have "offset \<le> 15" unfolding offset_def by (simp add: word_le_nat_alt)
  then have "length (take 4 (drop offset sum)) = 4" using sum by simp
  then obtain a b c d where abcd: "take 4 (drop offset sum) = [a, b, c, d]"
    by (cases "take 4 (drop offset sum)"; cases "tl (take 4 (drop offset sum))"; cases "tl (tl (take 4 (drop offset sum)))";
        cases "tl (tl (tl (take 4 (drop offset sum))))") auto
  define code where "code = unat ((be32 a b c d AND 0x7fffffff) mod 10 ^ digits :: uint32)"
  have "code < 10 ^ digits" using assms(2) by (auto simp: code_def unat_mod)
  then have l: "length (show_nat code) \<le> digits" using assms(2) by (intro show_nat_length) auto
  have "hotp mac secret counter digits = Some (replicate (digits - length (show_nat code)) CHR ''0'' @ show_nat code)"
    using l sum(2) abcd by (simp add: hotp_def Let_def sum_def [symmetric] offset_def [symmetric] code_def)
  moreover have "list_all is_digit (replicate (digits - length (show_nat code)) CHR ''0'' @ show_nat code)"
    using show_nat_props [of code] by (auto simp: list_all_iff is_digit_range)
  ultimately show ?thesis using l by simp
qed

lemma digits_text:
  assumes "length code \<in> {6, 8}" "list_all is_digit code"
  shows "TrimSpace code = code" "Atoi code \<noteq> None"
proof -
  obtain c cs where c: "code = c # cs" using assms(1) by (cases code) auto
  have g: "\<forall>x\<in>set code. graphic x" using assms(2) digit_graphic by (auto simp: list_all_iff)
  then show "TrimSpace code = code" using c by (intro TrimSpace_graphic) (auto simp: c)
  have "digits_val code < 10 ^ length code"
  proof -
    have "foldl (\<lambda>n c. 10 * n + digit_val c) m xs < (m + 1) * 10 ^ length xs" if "list_all is_digit xs" for m xs
      using that
    proof (induction xs arbitrary: m)
      case (Cons x xs)
      have "digit_val x \<le> 9" using Cons.prems by (auto simp: digit_val_def is_digit_range)
      have "foldl (\<lambda>n c. 10 * n + digit_val c) (10 * m + digit_val x) xs < (10 * m + digit_val x + 1) * 10 ^ length xs" using Cons by simp
      also have "\<dots> \<le> ((m + 1) * 10) * 10 ^ length xs" using \<open>digit_val x \<le> 9\<close> by (intro mult_right_mono) simp_all
      finally show ?case by (simp only: foldl_Cons list.size power_Suc mult.assoc) simp
    qed simp
    from this [OF assms(2), of 0] show ?thesis by (simp add: digits_val_def)
  qed
  also have "(10 :: nat) ^ length code \<le> 10 ^ 8" using assms(1) by (intro power_increasing) auto
  finally have "digits_val code < 2 ^ 63" by (rule less_trans) simp
  moreover have "c \<noteq> CHR ''-''" "c \<noteq> CHR ''+''" using assms(2) by (auto simp: c is_digit_range)
  ultimately show "Atoi code \<noteq> None" using assms(2) by (simp add: Atoi_def c parse_digits_def)
qed

lemma skewOrder_iff:
  assumes "0 \<le> skew"
  shows "x \<in> set (skewOrder skew) \<longleftrightarrow> \<bar>x\<bar> \<le> skew"
proof
  assume "\<bar>x\<bar> \<le> skew"
  then have "x = 0 \<or> (\<exists>k\<in>set [1..<Suc (nat skew)]. x = - int k \<or> x = int k)"
    by (cases "x = 0") (auto intro!: bexI [of _ "nat \<bar>x\<bar>"] simp del: upt_Suc)
  then show "x \<in> set (skewOrder skew)" unfolding skewOrder_def by (auto simp del: upt_Suc)
qed (use assms in \<open>auto simp: skewOrder_def simp del: upt_Suc\<close>)

lemma totp_scan_result:
  assumes "mac_sized mac" "te_mac env = mac" "digits \<in> {6, 8}"
  shows "\<exists>r. totp_scan env decoded digits code steps = Some r \<and>
    (r = None \<longleftrightarrow> (\<forall>s\<in>set steps. 0 \<le> s \<longrightarrow> hotp mac decoded (word_of_int s) digits \<noteq> Some code)) \<and>
    (\<forall>s. r = Some s \<longrightarrow> s \<in> set steps \<and> 0 \<le> s \<and> hotp mac decoded (word_of_int s) digits = Some code)"
proof (induction steps)
  case (Cons s steps)
  obtain c where c: "hotp mac decoded (word_of_int s) digits = Some c" using hotp_total [OF assms(1,3)] by blast
  from Cons.IH obtain r where r: "totp_scan env decoded digits code steps = Some r"
    "r = None \<longleftrightarrow> (\<forall>s\<in>set steps. 0 \<le> s \<longrightarrow> hotp mac decoded (word_of_int s) digits \<noteq> Some code)"
    "\<forall>s. r = Some s \<longrightarrow> s \<in> set steps \<and> 0 \<le> s \<and> hotp mac decoded (word_of_int s) digits = Some code" by blast
  show ?case
  proof (cases "0 \<le> s \<and> c = code")
    case True
    then show ?thesis using c by (simp add: assms(2))
  next
    case False
    then have "totp_scan env decoded digits code (s # steps) = Some r" using c r(1) by (auto simp: assms(2))
    then show ?thesis using r(2,3) False c by (intro exI [of _ r]) (auto simp del: totp_scan.simps)
  qed
qed simp

text \<open>
  C40. With valid parameters and a readable secret the check never fails: a code is accepted exactly if it is, up to surrounding white
  space, the code of some step no further from the current one than the skew, and the step reported is such a step; in
  particular the code shown at a time within the skew is accepted.
\<close>

theorem totp_accepts_exactly:
  assumes "mac_sized (te_mac env)" "totp_validate p = Inr p" "decodeTOTPSecret (te_upper env) secret = Inr key"
    and "valid = (\<lambda>s. 0 \<le> s \<and> \<bar>s - toptStep at (tp_Period p)\<bar> \<le> tp_Skew p \<and> hotp (te_mac env) key (word_of_int s) (tp_Digits p) = Some (TrimSpace code))"
  shows "\<exists>r. VerifyTOTP env secret code at p = Some (Inr r) \<and> (r = None \<longleftrightarrow> (\<forall>s. \<not> valid s)) \<and> (\<forall>s. r = Some s \<longrightarrow> valid s)"
proof -
  define now where "now = toptStep at (tp_Period p)"
  have p: "tp_Digits p \<in> {6, 8}" "0 \<le> tp_Skew p" using assms(2) by (auto simp: totp_validate_def split: if_splits)
  let ?code = "TrimSpace code" and ?steps = "map (\<lambda>offset. now + offset) (skewOrder (tp_Skew p))"
  have "s \<in> set ?steps \<longleftrightarrow> s - now \<in> set (skewOrder (tp_Skew p))" for s by force
  then have steps: "s \<in> set ?steps \<longleftrightarrow> \<bar>s - now\<bar> \<le> tp_Skew p" for s using skewOrder_iff [OF p(2)] by simp
  have v: "valid s \<longleftrightarrow> s \<in> set ?steps \<and> 0 \<le> s \<and> hotp (te_mac env) key (word_of_int s) (tp_Digits p) = Some ?code" for s
    using steps [of s] unfolding assms(4) now_def [symmetric] by blast
  show ?thesis
  proof (cases "length ?code \<noteq> tp_Digits p \<or> Atoi ?code = None")
    case True
    have "\<not> valid s" for s
    proof
      assume "valid s"
      then have h: "hotp (te_mac env) key (word_of_int s) (tp_Digits p) = Some ?code" by (simp add: v)
      then have "length ?code = tp_Digits p" "list_all is_digit ?code" using hotp_total [OF assms(1) p(1), of key "word_of_int s"] by auto
      then show False using True digits_text(2) [of ?code] p(1) by simp
    qed
    then show ?thesis using True assms(2,3) by (intro exI [of _ None]) (simp add: VerifyTOTP_def Let_def)
  next
    case False
    obtain r where r: "totp_scan env key (tp_Digits p) ?code ?steps = Some r"
      "r = None \<longleftrightarrow> (\<forall>s\<in>set ?steps. 0 \<le> s \<longrightarrow> hotp (te_mac env) key (word_of_int s) (tp_Digits p) \<noteq> Some ?code)"
      "\<forall>s. r = Some s \<longrightarrow> s \<in> set ?steps \<and> 0 \<le> s \<and> hotp (te_mac env) key (word_of_int s) (tp_Digits p) = Some ?code"
      using totp_scan_result [OF assms(1) refl p(1), of key ?code ?steps] by blast
    have "VerifyTOTP env secret code at p = Some (Inr r)"
      using False assms(2,3) r(1) by (auto simp: VerifyTOTP_def Let_def now_def)
    then show ?thesis using r(2,3) unfolding v by blast
  qed
qed

definition sample_totp :: totp_env where
  "sample_totp = \<lparr>te_mac = (\<lambda>k m. replicate 20 0), te_upper = id\<rparr>"

theorem totp_accepts_exactly_witness:
  "\<exists>r. VerifyTOTP sample_totp (GenerateTOTPSecret [1]) ''000000'' 0 DefaultTOTPParams = Some (Inr r) \<and>
     (r = None \<longleftrightarrow> (\<forall>s. \<not> (0 \<le> s \<and> \<bar>s - toptStep 0 (tp_Period DefaultTOTPParams)\<bar> \<le> tp_Skew DefaultTOTPParams \<and>
        hotp (te_mac sample_totp) [1] (word_of_int s) (tp_Digits DefaultTOTPParams) = Some (TrimSpace ''000000'')))) \<and>
     (\<forall>s. r = Some s \<longrightarrow> 0 \<le> s \<and> \<bar>s - toptStep 0 (tp_Period DefaultTOTPParams)\<bar> \<le> tp_Skew DefaultTOTPParams \<and>
        hotp (te_mac sample_totp) [1] (word_of_int s) (tp_Digits DefaultTOTPParams) = Some (TrimSpace ''000000''))"
proof (rule totp_accepts_exactly [OF _ _ _ refl])
  show "mac_sized (te_mac sample_totp)" by (simp add: mac_sized_def sample_totp_def)
  show "totp_validate DefaultTOTPParams = Inr DefaultTOTPParams" by (simp add: totp_validate_def DefaultTOTPParams_def)
  show "decodeTOTPSecret (te_upper sample_totp) (GenerateTOTPSecret [1]) = Inr [1]" by (rule secret_roundtrip) simp
qed

end
