(* ===== verification/Identity_Store.thy ===== *)
theory Identity_Store
  imports Prelude Go_Strings "HOL-Library.AList"
begin

text \<open>
  The tables behind login, second factor and device trust, and the repositories that read and write them:
  \<^verbatim>\<open>internal/storage/identity_repository.go\<close>. A table is an association list by its primary key; the recovery codes, which are only
  ever selected by user and digest, are a list of rows. A conditional \<^verbatim>\<open>UPDATE\<close> changes the rows that satisfy its condition, and the number of
  rows affected decides the result. Inside a transaction an error undoes everything, so a repository operation either returns an error or
  its result with the new tables; \<open>IdentityTransaction\<close> keeps the old ones after an error or when the database fails. Columns
  that no modelled code reads (\<^verbatim>\<open>updated_at\<close> outside the login attempts, \<^verbatim>\<open>created_at\<close>) are left out, and so are the
  texts of audit details. \<open>ErrStorage\<close> is a failure of the database, \<open>ErrOther\<close> any error without a name.

  The lemmas show that one-time credentials are one-time: over every sequence of the operations of any number of nodes, a
  challenge is consumed at most once, a time step and a recovery code are accepted at most once per enrolment, and the wrong
  guesses a challenge survives stay below its budget.
\<close>

section \<open>Tables\<close>

datatype auth_error =
    ErrStorage | ErrNoRows | ErrIdentityConflict | ErrMFAStepReplay
  | ErrSecretStorageUnavailable | ErrMFANotEnrolled | ErrMFAPendingNotConfirmed | ErrMFACodeInvalid | ErrMFAReplayDetected
  | ErrMFARequiredByPolicy | ErrMFAAlreadyEnabled | ErrCurrentPasswordRequired | ErrCurrentPasswordInvalid
  | ErrDeviceTrustDisabled | ErrDeviceNotFound | ErrForbidden | ErrLoginThrottled | ErrChallengeInvalid | ErrChallengeExhausted
  | ErrInvalidLogin | ErrInvalidCredentials | ErrUnauthenticated | ErrOther

datatype mfa_mode = MFAModeDisabled | MFAModeOptional | MFAModeRequired

datatype mfa_status = MFAStatusPending | MFAStatusEnabled

datatype challenge_kind = ChallengeKindLoginMFA | ChallengeKindOIDCState | ChallengeKindLoginTicket

record auth_settings =
  at_MFAMode :: mfa_mode
  at_DeviceTrustEnabled :: bool
  at_DeviceTrustTTLSeconds :: int
  at_AllowTrustedDeviceBypass :: bool
  at_MaxTrustedDevices :: int
  at_SessionTokenTTLSeconds :: int

record id_user =
  iu_ID :: string
  iu_Username :: string
  iu_Role :: string
  iu_PasswordHash :: string
  iu_Disabled :: bool
  iu_Deleted :: bool
  iu_MFARequired :: bool

definition PasswordHashNone :: string where
  "PasswordHashNone = ''*''"

record user_mfa =
  um_SecretCiphertext :: string
  um_SecretNonce :: string
  um_SecretKeyID :: string
  um_SecretVersion :: int
  um_Status :: mfa_status
  um_EnrolledAt :: int
  um_EnabledAt :: "int option"
  um_LastUsedAt :: "int option"
  um_LastUsedStep :: int

record recovery_row =
  rc_UserID :: string
  rc_CodeHash :: bytes
  rc_UsedAt :: "int option"

record user_device =
  ud_UserID :: string
  ud_TokenHash :: string
  ud_Name :: string
  ud_UserAgent :: string
  ud_IP :: string
  ud_TrustedAt :: int
  ud_ExpiresAt :: int
  ud_LastSeenAt :: "int option"
  ud_RevokedAt :: "int option"

record auth_challenge =
  ac_Kind :: challenge_kind
  ac_UserID :: string
  ac_PayloadCiphertext :: string
  ac_PayloadNonce :: string
  ac_PayloadKeyID :: string
  ac_PayloadVersion :: int
  ac_Attempts :: int
  ac_MaxAttempts :: int
  ac_ConsumedAt :: "int option"
  ac_ExpiresAt :: int

record login_attempt =
  lt_Attempts :: int
  lt_WindowStart :: int
  lt_BlockedUntil :: "int option"
  lt_UpdatedAt :: int

record api_token =
  tk_UserID :: string
  tk_TokenHash :: string
  tk_ExpiresAt :: "int option"
  tk_RevokedAt :: "int option"

record id_db =
  db_users :: "(string \<times> id_user) list"
  db_settings :: "auth_settings option"
  db_mfa :: "(string \<times> user_mfa) list"
  db_codes :: "recovery_row list"
  db_devices :: "(string \<times> user_device) list"
  db_challenges :: "(string \<times> auth_challenge) list"
  db_attempts :: "(string \<times> login_attempt) list"
  db_tokens :: "(string \<times> api_token) list"
  db_audits :: "(string \<times> string) list"

type_synonym 'a tx = "id_db \<Rightarrow> auth_error + 'a \<times> id_db"

definition IdentityTransaction :: "bool \<Rightarrow> 'a tx \<Rightarrow> id_db \<Rightarrow> (auth_error + 'a) \<times> id_db" where
  "IdentityTransaction fails f db =
     (if fails then (Inl ErrStorage, db)
      else case f db of Inl e \<Rightarrow> (Inl e, db) | Inr (x, db') \<Rightarrow> (Inr x, db'))"

text \<open>A repository that updates the row of a key, with the condition of the statement; without a row it reports \<open>missing\<close>.\<close>

definition update_row :: "'e \<Rightarrow> ('r \<Rightarrow> bool) \<Rightarrow> ('r \<Rightarrow> 'r) \<Rightarrow> string \<Rightarrow> (string \<times> 'r) list \<Rightarrow> 'e + (string \<times> 'r) list" where
  "update_row missing cond f key rows =
     (case map_of rows key of None \<Rightarrow> Inl missing
      | Some r \<Rightarrow> if cond r then Inr (AList.update key (f r) rows) else Inl missing)"

section \<open>Policy and audit\<close>

definition audit_Create :: "string \<Rightarrow> string \<Rightarrow> unit tx" where
  "audit_Create actor action db = Inr ((), db\<lparr>db_audits := (actor, action) # db_audits db\<rparr>)"

definition SeedIfMissing :: "auth_settings \<Rightarrow> auth_settings tx" where
  "SeedIfMissing defaults db =
     (case db_settings db of Some s \<Rightarrow> Inr (s, db) | None \<Rightarrow> Inr (defaults, db\<lparr>db_settings := Some defaults\<rparr>))"

definition settings_Update :: "auth_settings \<Rightarrow> unit tx" where
  "settings_Update s db = (case db_settings db of None \<Rightarrow> Inl ErrNoRows | Some _ \<Rightarrow> Inr ((), db\<lparr>db_settings := Some s\<rparr>))"

section \<open>The second factor\<close>

definition mfa_Upsert :: "string \<Rightarrow> user_mfa \<Rightarrow> unit tx" where
  "mfa_Upsert user v db =
     (if user = [] then Inl ErrStorage
      else Inr ((), db\<lparr>db_mfa := AList.update user
        (case map_of (db_mfa db) user of None \<Rightarrow> v
         | Some _ \<Rightarrow> v\<lparr>um_EnabledAt := None, um_LastUsedAt := None, um_LastUsedStep := - 1\<rparr>) (db_mfa db)\<rparr>))"

definition mfa_Get :: "string \<Rightarrow> id_db \<Rightarrow> user_mfa option" where
  "mfa_Get user db = map_of (db_mfa db) user"

definition mfa_SetStatus :: "string \<Rightarrow> mfa_status \<Rightarrow> int \<Rightarrow> unit tx" where
  "mfa_SetStatus user status when db =
     bindR (update_row ErrNoRows (\<lambda>_. True) (\<lambda>r. r\<lparr>um_Status := status, um_EnabledAt := Some when\<rparr>) user (db_mfa db))
       (\<lambda>rows. Inr ((), db\<lparr>db_mfa := rows\<rparr>))"

definition MarkUsed :: "string \<Rightarrow> int \<Rightarrow> int \<Rightarrow> unit tx" where
  "MarkUsed user step when db =
     bindR (update_row ErrMFAStepReplay (\<lambda>r. um_LastUsedStep r < step) (\<lambda>r. r\<lparr>um_LastUsedStep := step, um_LastUsedAt := Some when\<rparr>) user (db_mfa db))
       (\<lambda>rows. Inr ((), db\<lparr>db_mfa := rows\<rparr>))"

definition TouchLastUsed :: "string \<Rightarrow> int \<Rightarrow> unit tx" where
  "TouchLastUsed user when db =
     Inr ((), case update_row () (\<lambda>_. True) (\<lambda>r. r\<lparr>um_LastUsedAt := Some when\<rparr>) user (db_mfa db) of
        Inl _ \<Rightarrow> db | Inr rows \<Rightarrow> db\<lparr>db_mfa := rows\<rparr>)"

definition mfa_Delete :: "string \<Rightarrow> unit tx" where
  "mfa_Delete user db =
     (if map_of (db_mfa db) user = None then Inl ErrNoRows else Inr ((), db\<lparr>db_mfa := AList.delete user (db_mfa db)\<rparr>))"

text \<open>Digests are unique in the table.\<close>

definition ReplaceAll :: "string \<Rightarrow> bytes list \<Rightarrow> unit tx" where
  "ReplaceAll user hashes db =
     (let others = filter (\<lambda>r. rc_UserID r \<noteq> user) (db_codes db) in
      if user = [] then Inl ErrStorage
      else if \<not> distinct hashes \<or> list_ex (\<lambda>r. rc_CodeHash r \<in> set hashes) others then Inl ErrStorage
      else Inr ((), db\<lparr>db_codes := others @ map (\<lambda>h. \<lparr>rc_UserID = user, rc_CodeHash = h, rc_UsedAt = None\<rparr>) hashes\<rparr>))"

definition unused_code :: "string \<Rightarrow> bytes \<Rightarrow> recovery_row \<Rightarrow> bool" where
  "unused_code user hash r \<longleftrightarrow> rc_UserID r = user \<and> rc_CodeHash r = hash \<and> rc_UsedAt r = None"

definition codes_Consume :: "string \<Rightarrow> bytes \<Rightarrow> int \<Rightarrow> bool tx" where
  "codes_Consume user hash now db =
     Inr (list_ex (unused_code user hash) (db_codes db),
          db\<lparr>db_codes := map (\<lambda>r. if unused_code user hash r then r\<lparr>rc_UsedAt := Some now\<rparr> else r) (db_codes db)\<rparr>)"

definition codes_DeleteByUser :: "string \<Rightarrow> unit tx" where
  "codes_DeleteByUser user db = Inr ((), db\<lparr>db_codes := filter (\<lambda>r. rc_UserID r \<noteq> user) (db_codes db)\<rparr>)"

definition CountUnused :: "string \<Rightarrow> id_db \<Rightarrow> nat" where
  "CountUnused user db = length (filter (\<lambda>r. rc_UserID r = user \<and> rc_UsedAt r = None) (db_codes db))"

section \<open>Accounts and console tokens\<close>

definition user_Get :: "string \<Rightarrow> id_db \<Rightarrow> id_user option" where
  "user_Get i db = map_of (db_users db) i"

text \<open>Usernames are unique.\<close>

definition GetByUsername :: "string \<Rightarrow> id_db \<Rightarrow> id_user option" where
  "GetByUsername name db = find (\<lambda>u. iu_Username u = name) (map snd (db_users db))"

definition user_Create :: "id_user \<Rightarrow> unit tx" where
  "user_Create v db =
     (if map_of (db_users db) (iu_ID v) \<noteq> None \<or> GetByUsername (iu_Username v) db \<noteq> None then Inl ErrStorage
      else Inr ((), db\<lparr>db_users := (iu_ID v, v\<lparr>iu_Role := (if iu_Role v = [] then ''user'' else iu_Role v)\<rparr>) # db_users db\<rparr>))"

definition token_Create :: "string \<Rightarrow> api_token \<Rightarrow> unit tx" where
  "token_Create newID v db =
     (if map_of (db_tokens db) newID \<noteq> None \<or> list_ex (\<lambda>(_, t). tk_TokenHash t = tk_TokenHash v) (db_tokens db) then Inl ErrStorage
      else Inr ((), db\<lparr>db_tokens := (newID, v) # db_tokens db\<rparr>))"

definition GetByHash :: "string \<Rightarrow> id_db \<Rightarrow> api_token option" where
  "GetByHash h db = find (\<lambda>t. tk_TokenHash t = h) (map snd (db_tokens db))"

section \<open>Trusted devices\<close>

definition truncateField :: "string \<Rightarrow> nat \<Rightarrow> string" where
  "truncateField value mx = take mx (TrimSpace value)"

definition device_Create :: "string \<Rightarrow> user_device \<Rightarrow> unit tx" where
  "device_Create newID v db =
     (if ud_TokenHash v = [] then Inl ErrStorage
      else if map_of (db_devices db) newID \<noteq> None \<or> list_ex (\<lambda>(_, d). ud_TokenHash d = ud_TokenHash v) (db_devices db) then Inl ErrIdentityConflict
      else Inr ((), db\<lparr>db_devices := (newID, v\<lparr>ud_UserAgent := truncateField (ud_UserAgent v) 512, ud_IP := truncateField (ud_IP v) 64\<rparr>) # db_devices db\<rparr>))"

definition GetByTokenHash :: "string \<Rightarrow> id_db \<Rightarrow> (string \<times> user_device) option" where
  "GetByTokenHash hash db = (if hash = [] then None else find (\<lambda>(_, d). ud_TokenHash d = hash) (db_devices db))"

definition device_Get :: "string \<Rightarrow> string \<Rightarrow> id_db \<Rightarrow> user_device option" where
  "device_Get user i db = (case map_of (db_devices db) i of Some d \<Rightarrow> if ud_UserID d = user then Some d else None | None \<Rightarrow> None)"

definition device_Rename :: "string \<Rightarrow> string \<Rightarrow> string \<Rightarrow> unit tx" where
  "device_Rename user i name db =
     bindR (update_row ErrNoRows (\<lambda>d. ud_UserID d = user) (\<lambda>d. d\<lparr>ud_Name := truncateField name 191\<rparr>) i (db_devices db))
       (\<lambda>rows. Inr ((), db\<lparr>db_devices := rows\<rparr>))"

definition device_Touch :: "string \<Rightarrow> int \<Rightarrow> id_db \<Rightarrow> id_db" where
  "device_Touch i when db =
     (case update_row () (\<lambda>_. True) (\<lambda>d. d\<lparr>ud_LastSeenAt := Some when\<rparr>) i (db_devices db) of Inl _ \<Rightarrow> db | Inr rows \<Rightarrow> db\<lparr>db_devices := rows\<rparr>)"

definition device_Revoke :: "string \<Rightarrow> string \<Rightarrow> int \<Rightarrow> unit tx" where
  "device_Revoke user i when db =
     bindR (update_row ErrNoRows (\<lambda>d. ud_UserID d = user)
         (\<lambda>d. d\<lparr>ud_RevokedAt := (case ud_RevokedAt d of None \<Rightarrow> Some when | Some t \<Rightarrow> Some t)\<rparr>) i (db_devices db))
       (\<lambda>rows. Inr ((), db\<lparr>db_devices := rows\<rparr>))"

definition RevokeAllForUser :: "string \<Rightarrow> int \<Rightarrow> nat tx" where
  "RevokeAllForUser user when db =
     (let hit = (\<lambda>d. ud_UserID d = user \<and> ud_RevokedAt d = None) in
      Inr (length (filter (hit \<circ> snd) (db_devices db)),
           db\<lparr>db_devices := map (\<lambda>(i, d). (i, if hit d then d\<lparr>ud_RevokedAt := Some when\<rparr> else d)) (db_devices db)\<rparr>))"

definition active_device :: "string \<Rightarrow> int \<Rightarrow> user_device \<Rightarrow> bool" where
  "active_device user now d \<longleftrightarrow> ud_UserID d = user \<and> ud_RevokedAt d = None \<and> ud_ExpiresAt d > now"

definition CountActive :: "string \<Rightarrow> int \<Rightarrow> id_db \<Rightarrow> nat" where
  "CountActive user now db = length (filter (active_device user now \<circ> snd) (db_devices db))"

definition seen_key :: "string \<times> user_device \<Rightarrow> int \<times> string" where
  "seen_key e = ((case ud_LastSeenAt (snd e) of None \<Rightarrow> ud_TrustedAt (snd e) | Some t \<Rightarrow> t), fst e)"

text \<open>\<^verbatim>\<open>ORDER BY COALESCE(last_seen_at, trusted_at), id LIMIT 1\<close>.\<close>

definition seen_before :: "int \<times> string \<Rightarrow> int \<times> string \<Rightarrow> bool" where
  "seen_before a b \<longleftrightarrow> fst a < fst b \<or> (fst a = fst b \<and> snd a < snd b)"

definition OldestActive :: "string \<Rightarrow> int \<Rightarrow> id_db \<Rightarrow> (string \<times> user_device) option" where
  "OldestActive user now db =
     fold (\<lambda>e best. case best of None \<Rightarrow> Some e | Some b \<Rightarrow> if seen_before (seen_key e) (seen_key b) then Some e else best)
       (filter (active_device user now \<circ> snd) (db_devices db)) None"

definition device_DeleteExpired :: "int \<Rightarrow> nat tx" where
  "device_DeleteExpired olderThan db =
     (let gone = (\<lambda>d. ud_ExpiresAt d < olderThan \<or> (case ud_RevokedAt d of None \<Rightarrow> False | Some t \<Rightarrow> t < olderThan)) in
      Inr (length (filter (gone \<circ> snd) (db_devices db)), db\<lparr>db_devices := filter (\<lambda>e. \<not> gone (snd e)) (db_devices db)\<rparr>))"

section \<open>Challenges\<close>

definition challenge_Create :: "string \<Rightarrow> auth_challenge \<Rightarrow> unit tx" where
  "challenge_Create i v db =
     (if i = [] \<or> ac_PayloadCiphertext v = [] then Inl ErrStorage
      else if map_of (db_challenges db) i \<noteq> None then Inl ErrStorage
      else Inr ((), db\<lparr>db_challenges := (i, v\<lparr>ac_MaxAttempts := (if ac_MaxAttempts v \<le> 0 then 1 else ac_MaxAttempts v)\<rparr>) # db_challenges db\<rparr>))"

definition challenge_Get :: "string \<Rightarrow> id_db \<Rightarrow> auth_challenge option" where
  "challenge_Get i db = (if i = [] then None else map_of (db_challenges db) i)"

definition challenge_Consume :: "string \<Rightarrow> int \<Rightarrow> bool tx" where
  "challenge_Consume i when db =
     Inr (case update_row () (\<lambda>c. ac_ConsumedAt c = None) (\<lambda>c. c\<lparr>ac_ConsumedAt := Some when\<rparr>) i (db_challenges db) of
        Inl _ \<Rightarrow> (False, db) | Inr rows \<Rightarrow> (True, db\<lparr>db_challenges := rows\<rparr>))"

definition IncrementAttempts :: "string \<Rightarrow> int \<Rightarrow> (int \<times> bool) tx" where
  "IncrementAttempts i now db =
     Inr (case update_row () (\<lambda>c. ac_ConsumedAt c = None) (\<lambda>c. c\<lparr>ac_Attempts := ac_Attempts c + 1\<rparr>) i (db_challenges db) of
        Inl _ \<Rightarrow> ((0, True), db)
      | Inr rows \<Rightarrow>
          (case map_of rows i of None \<Rightarrow> ((0, True), db)
           | Some c \<Rightarrow>
               if ac_Attempts c \<ge> ac_MaxAttempts c
               then ((ac_Attempts c, True), db\<lparr>db_challenges := AList.update i (c\<lparr>ac_ConsumedAt := Some now\<rparr>) rows\<rparr>)
               else ((ac_Attempts c, False), db\<lparr>db_challenges := rows\<rparr>)))"

definition challenge_DeleteExpired :: "int \<Rightarrow> nat tx" where
  "challenge_DeleteExpired now db =
     Inr (length (filter (\<lambda>(_, c). ac_ExpiresAt c < now) (db_challenges db)),
          db\<lparr>db_challenges := filter (\<lambda>(_, c). \<not> ac_ExpiresAt c < now) (db_challenges db)\<rparr>)"

section \<open>Failed logins\<close>

text \<open>Not a transaction: the statements run one by one, and \<open>fails n\<close> says that the one with number \<open>n\<close> does not succeed.\<close>

definition RegisterFailure :: "(nat \<Rightarrow> bool) \<Rightarrow> string \<Rightarrow> int \<Rightarrow> int \<Rightarrow> int \<Rightarrow> int \<Rightarrow> id_db \<Rightarrow> (auth_error + bool) \<times> id_db" where
  "RegisterFailure fails bucket window maxAttempts block now db =
     (let mx = (if maxAttempts \<le> 0 then 1 else maxAttempts) in
      if bucket = [] \<or> fails 0 then (Inl ErrStorage, db)
      else
        (let fresh = \<lparr>lt_Attempts = 1, lt_WindowStart = now, lt_BlockedUntil = None, lt_UpdatedAt = now\<rparr>;
             counted = (case map_of (db_attempts db) bucket of
                None \<Rightarrow> fresh
              | Some r \<Rightarrow> if lt_WindowStart r < now - window then fresh
                  else r\<lparr>lt_Attempts := lt_Attempts r + 1, lt_BlockedUntil := None, lt_UpdatedAt := now\<rparr>) in
         if map_of (db_attempts db) bucket = None \<and> fails 1 then (Inl ErrStorage, db)
         else
           (let db = db\<lparr>db_attempts := AList.update bucket counted (db_attempts db)\<rparr> in
            if fails 2 then (Inl ErrStorage, db)
            else if lt_Attempts counted < mx then (Inr False, db)
            else if fails 3 then (Inl ErrStorage, db)
            else (Inr True, db\<lparr>db_attempts := AList.update bucket (counted\<lparr>lt_BlockedUntil := Some (now + block)\<rparr>) (db_attempts db)\<rparr>))))"

text \<open>A failing query is taken for an open bucket.\<close>

definition IsBlocked :: "bool \<Rightarrow> string \<Rightarrow> int \<Rightarrow> id_db \<Rightarrow> bool" where
  "IsBlocked fails bucket now db =
     (\<not> fails \<and> (case map_of (db_attempts db) bucket of None \<Rightarrow> False
        | Some r \<Rightarrow> (case lt_BlockedUntil r of None \<Rightarrow> False | Some until \<Rightarrow> until > now)))"

definition RegisterSuccess :: "bool \<Rightarrow> string \<Rightarrow> id_db \<Rightarrow> (auth_error + unit) \<times> id_db" where
  "RegisterSuccess fails bucket db =
     (if bucket = [] then (Inr (), db)
      else if fails then (Inl ErrStorage, db)
      else (Inr (), db\<lparr>db_attempts := AList.delete bucket (db_attempts db)\<rparr>))"

definition attempts_DeleteExpired :: "int \<Rightarrow> nat tx" where
  "attempts_DeleteExpired olderThan db =
     Inr (length (filter (\<lambda>e. lt_UpdatedAt (snd e) < olderThan) (db_attempts db)),
          db\<lparr>db_attempts := filter (\<lambda>e. \<not> lt_UpdatedAt (snd e) < olderThan) (db_attempts db)\<rparr>)"

section \<open>One-time credentials\<close>

text \<open>
  The transactions that touch them, in the order in which they commit, whichever node they come from. \<open>granted\<close> tells those that
  accept a credential: a time step marked as used, a recovery code consumed, a challenge consumed, and a wrong guess that the
  challenge survives. A transaction that fails leaves no trace and is left out.
\<close>

datatype repo_op =
    RUpsert string user_mfa | RSetStatus string mfa_status int | RMarkUsed string int int | RTouch string int | RMfaDelete string
  | RReplaceCodes string "bytes list" | RUseCode string bytes int | RDeleteCodes string
  | RCreate string auth_challenge | RConsume string int | RGuess string int | RExpire int

definition commit_tx :: "('a \<Rightarrow> bool) \<Rightarrow> 'a tx \<Rightarrow> id_db \<Rightarrow> bool \<times> id_db" where
  "commit_tx granted f db = (case f db of Inl _ \<Rightarrow> (False, db) | Inr (x, db') \<Rightarrow> (granted x, db'))"

fun repo_step :: "repo_op \<Rightarrow> id_db \<Rightarrow> bool \<times> id_db" where
  "repo_step (RUpsert user v) = commit_tx (\<lambda>_. False) (mfa_Upsert user v)"
| "repo_step (RSetStatus user status when) = commit_tx (\<lambda>_. False) (mfa_SetStatus user status when)"
| "repo_step (RMarkUsed user step when) = commit_tx (\<lambda>_. True) (MarkUsed user step when)"
| "repo_step (RTouch user when) = commit_tx (\<lambda>_. False) (TouchLastUsed user when)"
| "repo_step (RMfaDelete user) = commit_tx (\<lambda>_. False) (mfa_Delete user)"
| "repo_step (RReplaceCodes user hashes) = commit_tx (\<lambda>_. False) (ReplaceAll user hashes)"
| "repo_step (RUseCode user hash now) = commit_tx id (codes_Consume user hash now)"
| "repo_step (RDeleteCodes user) = commit_tx (\<lambda>_. False) (codes_DeleteByUser user)"
| "repo_step (RCreate i v) = commit_tx (\<lambda>_. False) (challenge_Create i v)"
| "repo_step (RConsume i when) = commit_tx id (challenge_Consume i when)"
| "repo_step (RGuess i now) = commit_tx (\<lambda>(_, exhausted). \<not> exhausted) (IncrementAttempts i now)"
| "repo_step (RExpire now) = commit_tx (\<lambda>_. False) (challenge_DeleteExpired now)"

fun grants :: "repo_op list \<Rightarrow> id_db \<Rightarrow> repo_op list" where
  "grants [] db = []"
| "grants (op # ops) db = (case repo_step op db of (granted, db') \<Rightarrow> (if granted then [op] else []) @ grants ops db')"

lemmas repo_defs = commit_tx_def mfa_Upsert_def mfa_SetStatus_def MarkUsed_def TouchLastUsed_def mfa_Delete_def ReplaceAll_def codes_Consume_def
  codes_DeleteByUser_def challenge_Create_def challenge_Consume_def IncrementAttempts_def challenge_DeleteExpired_def

lemma update_row_Inr:
  "update_row missing cond f key rows = Inr rows' \<longleftrightarrow> (\<exists>r. map_of rows key = Some r \<and> cond r \<and> rows' = AList.update key (f r) rows)"
  by (auto simp: update_row_def split: option.splits)

lemma update_row_Inl:
  "update_row missing cond f key rows = Inl e \<longleftrightarrow> e = missing \<and> (\<forall>r. map_of rows key = Some r \<longrightarrow> \<not> cond r)"
  by (auto simp: update_row_def split: option.splits)

lemmas update_row_results = update_row_Inr update_row_Inl

text \<open>Challenges have distinct ids (their primary key).\<close>

definition keyed :: "id_db \<Rightarrow> bool" where
  "keyed db \<longleftrightarrow> distinct (map fst (db_challenges db))"

lemma keyed_step: "keyed db \<Longrightarrow> keyed (snd (repo_step op db))"
proof (cases op)
  case (RExpire now)
  then show "keyed db \<Longrightarrow> ?thesis" by (simp add: keyed_def repo_defs distinct_map_filter)
next
  case (RCreate i v)
  then show "keyed db \<Longrightarrow> ?thesis" by (auto simp: keyed_def repo_defs map_of_eq_None_iff)
qed (auto simp: keyed_def repo_defs update_row_results bindR_def Let_def distinct_update split: sum.splits option.splits)

text \<open>What is granted is paid for from a potential.\<close>

lemma grants_potential:
  assumes "\<And>op db. ok op \<Longrightarrow> keyed db \<Longrightarrow> (if fst (repo_step op db) \<and> P op then 1 else 0) + pot (snd (repo_step op db)) \<le> (pot db :: nat)"
    and "list_all ok ops" "keyed db"
  shows "length (filter P (grants ops db)) \<le> pot db"
  using assms(2,3)
proof (induction ops arbitrary: db)
  case (Cons op ops)
  obtain g db' where s: "repo_step op db = (g, db')" by fastforce
  have "length (filter P (grants ops db')) \<le> pot db'" using Cons keyed_step [of db op] s by simp
  moreover have "(if g \<and> P op then 1 else 0) + pot db' \<le> pot db" using assms(1) [of op db] Cons.prems s by simp
  ultimately show ?case by (auto simp: s split: if_splits)
qed simp

text \<open>The wrong guesses a challenge can still survive; one that was consumed has none, and is not consumed again.\<close>

definition challenge_row :: "string \<Rightarrow> id_db \<Rightarrow> auth_challenge option" where
  "challenge_row i db = (case map_of (db_challenges db) i of Some c \<Rightarrow> if ac_ConsumedAt c = None then Some c else None | None \<Rightarrow> None)"

lemma map_of_filter_distinct:
  "distinct (map fst rows) \<Longrightarrow> map_of (filter (\<lambda>(_, c). P c) rows) i = (case map_of rows i of Some c \<Rightarrow> if P c then Some c else None | None \<Rightarrow> None)"
  by (induction rows) (auto split: option.splits simp: map_of_eq_None_iff dest!: map_of_SomeD)

definition spent :: "auth_challenge option \<Rightarrow> auth_challenge option \<Rightarrow> bool" where
  "spent c c' \<longleftrightarrow> c' = None \<or> c' = c"

lemma challenge_row_step:
  assumes "keyed db" "\<forall>v. op \<noteq> RCreate i v"
  shows "case op of
      RConsume j t \<Rightarrow> if j = i then challenge_row i (snd (repo_step op db)) = None \<and> (fst (repo_step op db) \<longleftrightarrow> challenge_row i db \<noteq> None)
        else challenge_row i (snd (repo_step op db)) = challenge_row i db
    | RGuess j t \<Rightarrow> if j = i then (case challenge_row i db of None \<Rightarrow> \<not> fst (repo_step op db) \<and> challenge_row i (snd (repo_step op db)) = None
          | Some c \<Rightarrow> if ac_Attempts c + 1 < ac_MaxAttempts c
              then fst (repo_step op db) \<and> challenge_row i (snd (repo_step op db)) = Some (c\<lparr>ac_Attempts := ac_Attempts c + 1\<rparr>)
              else \<not> fst (repo_step op db) \<and> challenge_row i (snd (repo_step op db)) = None)
        else challenge_row i (snd (repo_step op db)) = challenge_row i db
    | RExpire t \<Rightarrow> spent (challenge_row i db) (challenge_row i (snd (repo_step op db)))
    | _ \<Rightarrow> challenge_row i (snd (repo_step op db)) = challenge_row i db"
proof (cases op)
  case (RConsume j t)
  then show ?thesis
    by (cases "j = i") (auto simp: challenge_row_def repo_defs update_row_results AList.update_conv' split: sum.splits option.splits)
next
  case (RGuess j t)
  then show ?thesis
    by (cases "j = i") (auto simp: challenge_row_def repo_defs update_row_results AList.update_conv' split: sum.splits option.splits prod.splits)
next
  case (RExpire t)
  then show ?thesis using assms(1) by (auto simp: challenge_row_def repo_defs spent_def keyed_def map_of_filter_distinct split: option.splits)
qed (use assms in \<open>auto simp: challenge_row_def repo_defs update_row_results bindR_def Let_def split: sum.splits option.splits\<close>)

lemma consumed_once:
  assumes "list_all (\<lambda>op. \<forall>v. op \<noteq> RCreate i v) ops" "keyed db"
  shows "length (filter (\<lambda>op. \<exists>t. op = RConsume i t) (grants ops db)) \<le> 1"
proof -
  define pot where "pot = (\<lambda>db. if challenge_row i db = None then 0 else (1 :: nat))"
  have "length (filter (\<lambda>op. \<exists>t. op = RConsume i t) (grants ops db)) \<le> pot db"
  proof (rule grants_potential [OF _ assms])
    fix op and db :: id_db
    assume "\<forall>v. op \<noteq> RCreate i v" "keyed db"
    from challenge_row_step [OF this(2,1)]
    show "(if fst (repo_step op db) \<and> (\<exists>t. op = RConsume i t) then 1 else 0) + pot (snd (repo_step op db)) \<le> pot db"
      by (cases op) (auto simp: pot_def spent_def simp del: repo_step.simps split: if_splits option.splits)
  qed
  also have "\<dots> \<le> 1" by (simp add: pot_def)
  finally show ?thesis .
qed

lemma guesses_bounded:
  assumes "list_all (\<lambda>op. \<forall>v. op \<noteq> RCreate i v) ops" "keyed db" "challenge_row i db = Some c"
  shows "length (filter (\<lambda>op. \<exists>t. op = RGuess i t) (grants ops db)) \<le> nat (ac_MaxAttempts c - ac_Attempts c - 1)"
proof -
  define pot where "pot = (\<lambda>db. case challenge_row i db of None \<Rightarrow> 0 | Some c \<Rightarrow> nat (ac_MaxAttempts c - ac_Attempts c - 1))"
  have "length (filter (\<lambda>op. \<exists>t. op = RGuess i t) (grants ops db)) \<le> pot db"
  proof (rule grants_potential [OF _ assms(1,2)])
    fix op and db :: id_db
    assume "\<forall>v. op \<noteq> RCreate i v" "keyed db"
    from challenge_row_step [OF this(2,1)]
    show "(if fst (repo_step op db) \<and> (\<exists>t. op = RGuess i t) then 1 else 0) + pot (snd (repo_step op db)) \<le> pot db"
      by (cases op) (auto simp: pot_def spent_def simp del: repo_step.simps split: if_splits option.splits)
  qed
  then show ?thesis by (simp add: pot_def assms(3))
qed

lemma codes_step:
  assumes "\<forall>hashes. op \<noteq> RReplaceCodes user hashes" "r \<in> set (db_codes (snd (repo_step op db)))" "unused_code user hash r"
  shows "r \<in> set (db_codes db) \<and> (\<forall>t. op \<noteq> RUseCode user hash t)"
proof (cases op)
  case (RReplaceCodes other hashes)
  then have "r \<in> set (db_codes db) \<or> rc_UserID r = other"
    using assms(2) by (auto simp: repo_defs Let_def simp del: list_ex_iff split: if_splits)
  then show ?thesis using RReplaceCodes assms(1,3) by (auto simp: unused_code_def)
next
  case (RUseCode other h t)
  then obtain q where "q \<in> set (db_codes db)" "r = (if unused_code other h q then q\<lparr>rc_UsedAt := Some t\<rparr> else q)"
    using assms(2) by (auto simp: repo_defs)
  then show ?thesis using RUseCode assms(3) by (cases "unused_code other h q") (auto simp: unused_code_def)
qed (use assms in \<open>auto simp: repo_defs update_row_results bindR_def split: sum.splits option.splits if_splits prod.splits\<close>)

lemma code_used_once:
  assumes "list_all (\<lambda>op. \<forall>hashes. op \<noteq> RReplaceCodes user hashes) ops" "keyed db"
  shows "length (filter (\<lambda>op. \<exists>t. op = RUseCode user hash t) (grants ops db)) \<le> 1"
proof -
  define pot where "pot = (\<lambda>db :: id_db. if list_ex (unused_code user hash) (db_codes db) then (1 :: nat) else 0)"
  have "length (filter (\<lambda>op. \<exists>t. op = RUseCode user hash t) (grants ops db)) \<le> pot db"
  proof (rule grants_potential [OF _ assms])
    fix op and db :: id_db
    assume "\<forall>hashes. op \<noteq> RReplaceCodes user hashes" "keyed db"
    note step = codes_step [OF this(1), of _ db hash]
    show "(if fst (repo_step op db) \<and> (\<exists>t. op = RUseCode user hash t) then 1 else 0) + pot (snd (repo_step op db)) \<le> pot db"
    proof (cases "\<exists>t. op = RUseCode user hash t")
      case True
      then have "pot (snd (repo_step op db)) = 0" using step by (auto simp: pot_def list_ex_iff simp del: repo_step.simps)
      moreover have "fst (repo_step op db) \<Longrightarrow> pot db = 1" using True by (auto simp: pot_def repo_defs)
      ultimately show ?thesis by auto
    next
      case False
      then show ?thesis using step by (auto simp: pot_def list_ex_iff)
    qed
  qed
  also have "\<dots> \<le> 1" by (simp add: pot_def)
  finally show ?thesis .
qed

text \<open>The time steps accepted for an account, in order.\<close>

fun marked :: "string \<Rightarrow> repo_op list \<Rightarrow> int list" where
  "marked user [] = []"
| "marked user (op # ops) = (case op of RMarkUsed u s _ \<Rightarrow> (if u = user then [s] else []) | _ \<Rightarrow> []) @ marked user ops"

lemma steps_increase:
  assumes "list_all (\<lambda>op. \<forall>v. op \<noteq> RUpsert user v) ops"
  shows "sorted_wrt (<) (marked user (grants ops db)) \<and>
    (\<forall>s\<in>set (marked user (grants ops db)). \<exists>r. map_of (db_mfa db) user = Some r \<and> um_LastUsedStep r < s)"
  using assms
proof (induction ops arbitrary: db)
  case (Cons op ops)
  obtain g db' where s: "repo_step op db = (g, db')" by fastforce
  have gr: "grants (op # ops) db = (if g then [op] else []) @ grants ops db'" by (simp add: s)
  have IH: "sorted_wrt (<) (marked user (grants ops db'))"
    "\<forall>s\<in>set (marked user (grants ops db')). \<exists>r. map_of (db_mfa db') user = Some r \<and> um_LastUsedStep r < s"
    using Cons.IH [of db'] Cons.prems by auto
  show ?case
  proof (cases "g \<and> (\<exists>s t. op = RMarkUsed user s t)")
    case True
    then obtain step t where op: "op = RMarkUsed user step t" "g" by blast
    with s obtain r where "map_of (db_mfa db) user = Some r" "um_LastUsedStep r < step"
      "db' = db\<lparr>db_mfa := AList.update user (r\<lparr>um_LastUsedStep := step, um_LastUsedAt := Some t\<rparr>) (db_mfa db)\<rparr>"
      by (auto simp: repo_defs bindR_def update_row_results split: sum.splits)
    moreover have "marked user (grants (op # ops) db) = step # marked user (grants ops db')" by (simp only: gr) (simp add: op)
    ultimately show ?thesis using IH by (auto simp: AList.update_conv')
  next
    case False
    have "\<exists>r. map_of (db_mfa db) user = Some r \<and> um_LastUsedStep r \<le> um_LastUsedStep r'" if "map_of (db_mfa db') user = Some r'" for r'
      using s that Cons.prems False
      by (cases op) (auto simp: repo_defs bindR_def update_row_results AList.update_conv' AList.delete_conv' restrict_map_def Let_def
          split: sum.splits option.splits if_splits prod.splits)
    moreover have "marked user (grants (op # ops) db) = marked user (grants ops db')"
      using False by (simp only: gr) (cases op; auto)
    ultimately show ?thesis using IH by fastforce
  qed
qed simp

text \<open>
  C5. One-time credentials are one-time, over every sequence of transactions of any number of nodes that does not issue them anew: a
  challenge is consumed at most once and survives fewer wrong guesses than its budget, a recovery code is accepted at most
  once, and the time steps accepted for an account strictly increase, so no code is accepted again.
\<close>

theorem one_time_credentials:
  assumes "keyed db" "list_all (\<lambda>op. (\<forall>v. op \<noteq> RCreate i v) \<and> (\<forall>v. op \<noteq> RUpsert user v) \<and> (\<forall>hashes. op \<noteq> RReplaceCodes user hashes)) ops"
    and "map_of (db_challenges db) i = Some c" "ac_ConsumedAt c = None"
  shows "length (filter (\<lambda>op. \<exists>t. op = RConsume i t) (grants ops db)) \<le> 1 \<and>
    length (filter (\<lambda>op. \<exists>t. op = RGuess i t) (grants ops db)) \<le> nat (ac_MaxAttempts c - ac_Attempts c - 1) \<and>
    length (filter (\<lambda>op. \<exists>t. op = RUseCode user hash t) (grants ops db)) \<le> 1 \<and>
    sorted_wrt (<) (marked user (grants ops db))"
proof -
  have "list_all (\<lambda>op. \<forall>v. op \<noteq> RCreate i v) ops" "list_all (\<lambda>op. \<forall>v. op \<noteq> RUpsert user v) ops"
    "list_all (\<lambda>op. \<forall>hashes. op \<noteq> RReplaceCodes user hashes) ops" using assms(2) by (auto simp: list_all_iff)
  moreover have "challenge_row i db = Some c" using assms(3,4) by (simp add: challenge_row_def)
  ultimately show ?thesis using consumed_once guesses_bounded code_used_once steps_increase assms(1) by blast
qed

definition sample_challenge :: auth_challenge where
  "sample_challenge = \<lparr>ac_Kind = ChallengeKindLoginMFA, ac_UserID = ''u'', ac_PayloadCiphertext = ''x'', ac_PayloadNonce = [], ac_PayloadKeyID = [],
     ac_PayloadVersion = 1, ac_Attempts = 0, ac_MaxAttempts = 5, ac_ConsumedAt = None, ac_ExpiresAt = 100\<rparr>"

definition sample_db :: id_db where
  "sample_db = \<lparr>db_users = [], db_settings = None, db_mfa = [], db_codes = [\<lparr>rc_UserID = ''u'', rc_CodeHash = [1], rc_UsedAt = None\<rparr>], db_devices = [],
     db_challenges = [(''c'', sample_challenge)], db_attempts = [], db_tokens = [], db_audits = []\<rparr>"

theorem one_time_credentials_witness:
  "let ops = [RGuess ''c'' 1, RUseCode ''u'' [1] 2, RUseCode ''u'' [1] 3, RConsume ''c'' 4, RConsume ''c'' 5] in
   length (filter (\<lambda>op. \<exists>t. op = RConsume ''c'' t) (grants ops sample_db)) \<le> 1 \<and>
   length (filter (\<lambda>op. \<exists>t. op = RGuess ''c'' t) (grants ops sample_db)) \<le> nat (ac_MaxAttempts sample_challenge - ac_Attempts sample_challenge - 1) \<and>
   length (filter (\<lambda>op. \<exists>t. op = RUseCode ''u'' [1] t) (grants ops sample_db)) \<le> 1 \<and>
   sorted_wrt (<) (marked ''u'' (grants ops sample_db))"
  unfolding Let_def by (rule one_time_credentials) (simp_all add: keyed_def sample_db_def sample_challenge_def)

end
