(* ===== verification/Secrets.thy ===== *)
theory Secrets
  imports VPN_Keys Totp Identity_Store
begin

unbundle bit_operations_syntax

text \<open>
  What the identity services keep secret: password hashes and bearer tokens, \<^verbatim>\<open>internal/auth/password.go\<close>, and the store that encrypts
  recoverable secrets, \<^verbatim>\<open>secret_store.go\<close> and \<^verbatim>\<open>secret_provider.go\<close>. The password hash Argon2id, the digest SHA-256 and the cipher
  AES-GCM are parameters; random bytes are arguments, \<open>None\<close> where the source of randomness fails. The unpadded base64 alphabets are
  those of \<open>VPN_Keys\<close> without padding.

  The lemmas show that a password verifies against a stored hash exactly if it has the same Argon2id hash, and that a sealed secret
  is opened again.
\<close>

section \<open>Texts and bytes\<close>

definition raw_bytes :: "string \<Rightarrow> bytes" where
  "raw_bytes s = map (\<lambda>c. of_nat (of_char c)) s"

definition raw_string :: "bytes \<Rightarrow> string" where
  "raw_string bs = map (\<lambda>b. char_of (unat b)) bs"

definition raw64_encode :: "bytes \<Rightarrow> string" where
  "raw64_encode bs = takeWhile (\<lambda>c. c \<noteq> CHR ''='') (b64_encode bs)"

definition raw64_decode :: "string \<Rightarrow> bytes option" where
  "raw64_decode s =
     (let t = filter (\<lambda>c. c \<noteq> CHR 0x0A \<and> c \<noteq> CHR 0x0D) s; r = length t mod 4 in
      if CHR ''='' \<in> set t \<or> r = 1 then None
      else b64_quads (t @ replicate ((4 - r) mod 4) (CHR ''='')))"

definition url64_encode :: "bytes \<Rightarrow> string" where
  "url64_encode bs = map (\<lambda>c. if c = CHR ''+'' then CHR ''-'' else if c = CHR ''/'' then CHR ''_'' else c) (raw64_encode bs)"

section \<open>Passwords and tokens\<close>

type_synonym argon = "bytes \<Rightarrow> bytes \<Rightarrow> nat \<Rightarrow> nat \<Rightarrow> nat \<Rightarrow> nat \<Rightarrow> bytes"

definition argonMemory :: nat where "argonMemory = 64 * 1024"
definition argonTime :: nat where "argonTime = 3"
definition argonThreads :: nat where "argonThreads = 2"
definition argonKeyLen :: nat where "argonKeyLen = 32"
definition argonSaltLen :: nat where "argonSaltLen = 16"

definition hashPassword :: "argon \<Rightarrow> (nat \<Rightarrow> bytes option) \<Rightarrow> string \<Rightarrow> auth_error + string" where
  "hashPassword argon rand password =
     (if password = [] then Inl ErrOther
      else (case rand argonSaltLen of None \<Rightarrow> Inl ErrOther
        | Some salt \<Rightarrow>
            Inr (''$argon2id$v=19$m='' @ show_nat argonMemory @ '',t='' @ show_nat argonTime @ '',p='' @ show_nat argonThreads
              @ ''$'' @ raw64_encode salt
              @ ''$'' @ raw64_encode (argon (raw_bytes password) salt argonTime argonMemory argonThreads argonKeyLen))))"

definition constantTimeEqual_bytes :: "bytes \<Rightarrow> bytes \<Rightarrow> bool" where
  "constantTimeEqual_bytes a b \<longleftrightarrow> length a = length b \<and> foldl (\<lambda>diff (x, y). diff OR (x XOR y)) 0 (zip a b) = 0"

text \<open>The parameters of the text form, the last value of a name winning.\<close>

fun phc_params :: "string list \<Rightarrow> (string \<times> nat) list \<Rightarrow> (string \<times> nat) list option" where
  "phc_params [] params = Some params"
| "phc_params (p # ps) params =
     (case Cut (CHR ''='') p of (k, v, found) \<Rightarrow>
        if \<not> found then None
        else (case parse_digits v of None \<Rightarrow> None
          | Some n \<Rightarrow> if n < 2 ^ 32 then phc_params ps ((k, n) # params) else None))"

definition verifyPassword :: "argon \<Rightarrow> string \<Rightarrow> string \<Rightarrow> bool" where
  "verifyPassword argon password encoded =
     (case Split (CHR ''$'') encoded of
        [_, scheme, version, costs, salt64, want64] \<Rightarrow>
          if scheme \<noteq> ''argon2id'' \<or> version \<noteq> ''v=19'' then False
          else (case phc_params (Split (CHR '','') costs) [] of None \<Rightarrow> False
            | Some params \<Rightarrow>
              (case (map_of params ''m'', map_of params ''t'', map_of params ''p'') of
                 (Some memory, Some timeCost, Some threads) \<Rightarrow>
                   if memory < 8 * 1024 \<or> memory > 1024 * 1024 \<or> timeCost = 0 \<or> timeCost > 10 \<or> threads = 0 \<or> threads > 32 then False
                   else (case (raw64_decode salt64, raw64_decode want64) of
                       (Some salt, Some want) \<Rightarrow>
                         if length salt < 8 \<or> length salt > 64 \<or> length want = 0 \<or> length want > 64 then False
                         else constantTimeEqual_bytes (argon (raw_bytes password) salt timeCost memory threads (length want)) want
                     | _ \<Rightarrow> False)
               | _ \<Rightarrow> False))
      | _ \<Rightarrow> False)"

definition hashToken :: "(bytes \<Rightarrow> bytes) \<Rightarrow> string \<Rightarrow> string" where
  "hashToken sha token = hex_encode (sha (raw_bytes token))"

definition tokenPrefix :: "(bytes \<Rightarrow> bytes) \<Rightarrow> string \<Rightarrow> string" where
  "tokenPrefix sha token = take 8 (hashToken sha token)"

definition randomToken :: "(nat \<Rightarrow> bytes option) \<Rightarrow> nat \<Rightarrow> auth_error + string" where
  "randomToken rand n = (case rand (if n < 32 then 32 else n) of None \<Rightarrow> Inl ErrOther | Some b \<Rightarrow> Inr (url64_encode b))"

section \<open>Recoverable secrets\<close>

record secret_store =
  ss_key :: bytes
  ss_keyID :: string

record aead =
  ad_seal :: "bytes \<Rightarrow> bytes \<Rightarrow> bytes \<Rightarrow> bytes"
  ad_open :: "bytes \<Rightarrow> bytes \<Rightarrow> bytes \<Rightarrow> bytes option"

definition secretStoreVersion :: int where "secretStoreVersion = 1"

text \<open>The nonce of Go's GCM.\<close>

definition NonceSize :: nat where "NonceSize = 12"

definition validAESKeyLen :: "nat \<Rightarrow> bool" where
  "validAESKeyLen n \<longleftrightarrow> n = 16 \<or> n = 24 \<or> n = 32"

definition decodeSecretKey :: "string \<Rightarrow> bytes option" where
  "decodeSecretKey value =
     (if value = [] then None
      else find (\<lambda>key. validAESKeyLen (length key))
        (List.map_filter (\<lambda>decode. decode value) [raw64_decode, b64_decode, hex_decode]))"

definition NewSecretStore :: "string \<Rightarrow> string \<Rightarrow> secret_store option" where
  "NewSecretStore encodedKey keyID =
     (if keyID = [] then None else map_option (\<lambda>key. \<lparr>ss_key = key, ss_keyID = keyID\<rparr>) (decodeSecretKey encodedKey))"

text \<open>A provider without a store is unavailable.\<close>

definition SecretProviderFromEnv :: "string \<Rightarrow> string \<Rightarrow> secret_store option" where
  "SecretProviderFromEnv key keyID =
     (if TrimSpace key = [] then None
      else NewSecretStore (TrimSpace key) (if TrimSpace keyID = [] then ''default'' else TrimSpace keyID))"

type_synonym sealed = "bytes \<times> bytes \<times> string \<times> int"

definition Encrypt :: "aead \<Rightarrow> (nat \<Rightarrow> bytes option) \<Rightarrow> secret_store option \<Rightarrow> string \<Rightarrow> auth_error + sealed" where
  "Encrypt a rand provider plaintext =
     (case provider of None \<Rightarrow> Inl ErrSecretStorageUnavailable
      | Some s \<Rightarrow>
          if plaintext = [] then Inl ErrOther
          else (case rand NonceSize of None \<Rightarrow> Inl ErrOther
            | Some nonce \<Rightarrow> Inr (ad_seal a (ss_key s) nonce (raw_bytes plaintext), nonce, ss_keyID s, secretStoreVersion)))"

definition Decrypt :: "aead \<Rightarrow> secret_store option \<Rightarrow> bytes \<Rightarrow> bytes \<Rightarrow> string \<Rightarrow> int \<Rightarrow> auth_error + string" where
  "Decrypt a provider ciphertext nonce keyID version =
     (case provider of None \<Rightarrow> Inl ErrSecretStorageUnavailable
      | Some s \<Rightarrow>
          if keyID \<noteq> ss_keyID s \<or> version \<noteq> secretStoreVersion \<or> length nonce \<noteq> NonceSize then Inl ErrOther
          else (case ad_open a (ss_key s) nonce ciphertext of None \<Rightarrow> Inl ErrOther | Some plain \<Rightarrow> Inr (raw_string plain)))"

section \<open>Facts\<close>

lemma raw_string_bytes [simp]: "raw_string (raw_bytes s) = s"
proof -
  have "char_of (unat (of_nat (of_char c) :: byte)) = c" for c :: char
    by (simp add: unat_of_nat)
  then show ?thesis by (simp add: raw_string_def raw_bytes_def comp_def)
qed

lemma xor_zero: "x XOR y = 0 \<longleftrightarrow> x = y" for x y :: byte
  by (auto simp: bit_eq_iff bit_xor_iff)

lemma constantTimeEqual_bytes_iff [simp]: "constantTimeEqual_bytes a b \<longleftrightarrow> a = b"
proof -
  have "foldl (\<lambda>diff (x, y). diff OR (x XOR y)) d (zip a b) = 0 \<longleftrightarrow> d = 0 \<and> a = b" if "length a = length b" for d :: byte
    using that by (induction a b arbitrary: d rule: list_induct2) (simp_all add: or_eq_0_iff xor_zero conj_assoc)
  then show ?thesis by (auto simp: constantTimeEqual_bytes_def)
qed

definition b64_text :: "char \<Rightarrow> bool" where
  "b64_text c \<longleftrightarrow> (\<exists>n < 64. c = b64_char n)"

lemma b64_text_plain:
  assumes "b64_text c"
  shows "c \<noteq> CHR ''='' \<and> c \<noteq> CHR 0x0A \<and> c \<noteq> CHR 0x0D \<and> c \<noteq> CHR ''$''"
proof -
  from assms obtain n where n: "n < 64" "c = b64_char n" by (auto simp: b64_text_def)
  have "b64_val (CHR ''$'') = None" by (simp add: b64_val_def)
  then have "b64_char n \<noteq> CHR ''$''" using b64_val_char [OF n(1)] by (metis option.distinct(1))
  with n b64_char_plain [of n] show ?thesis by simp
qed

lemma raw64_encode_simps:
  "raw64_encode [] = []"
  "raw64_encode [x] = [b64_char (unat x div 4), b64_char (unat x mod 4 * 16)]"
  "raw64_encode [x, y] = [b64_char (unat x div 4), b64_char (unat x mod 4 * 16 + unat y div 16), b64_char (unat y mod 16 * 4)]"
  "raw64_encode (x # y # z # r) =
     [b64_char (unat x div 4), b64_char (unat x mod 4 * 16 + unat y div 16), b64_char (unat y mod 16 * 4 + unat z div 64),
      b64_char (unat z mod 64)] @ raw64_encode r"
  by (simp_all add: raw64_encode_def byte_sextets byte_sextets [simplified])

lemma b64_text_char: "n < 64 \<Longrightarrow> b64_text (b64_char n)"
  by (auto simp: b64_text_def)

lemma raw64_encode_text: "list_all b64_text (raw64_encode bs)"
  by (induction bs rule: b64_encode.induct)
    (simp_all add: raw64_encode_simps b64_text_char byte_sextets byte_sextets [simplified])

lemma raw64_padding:
  "length (raw64_encode bs) mod 4 \<noteq> 1 \<and>
   raw64_encode bs @ replicate ((4 - length (raw64_encode bs) mod 4) mod 4) (CHR ''='') = b64_encode bs"
  by (induction bs rule: b64_encode.induct) (simp_all add: raw64_encode_simps numeral_2_eq_2)

lemma raw64_roundtrip [simp]: "raw64_decode (raw64_encode bs) = Some bs"
proof -
  have p: "c \<in> set (raw64_encode bs) \<Longrightarrow> c \<noteq> CHR ''='' \<and> c \<noteq> CHR 0x0A \<and> c \<noteq> CHR 0x0D" for c
    using raw64_encode_text [of bs] b64_text_plain [of c] by (auto simp: list_all_iff)
  then have "filter (\<lambda>c. c \<noteq> CHR 0x0A \<and> c \<noteq> CHR 0x0D) (raw64_encode bs) = raw64_encode bs" by (simp add: filter_id_conv)
  then show ?thesis using raw64_padding [of bs] b64_encode_quads [of bs] p [of "CHR ''=''"] by (auto simp: raw64_decode_def Let_def)
qed

lemma show_costs:
  "show_nat argonMemory = ''65536''" "show_nat argonTime = ''3''" "show_nat argonThreads = ''2''"
  by (simp_all add: argonMemory_def argonTime_def argonThreads_def show_nat.simps char_of_eq_iff)

lemma stored_parts:
  "Split (CHR ''$'') (''$argon2id$v=19$m=65536,t=3,p=2$'' @ raw64_encode salt @ ''$'' @ raw64_encode key) =
    ['''', ''argon2id'', ''v=19'', ''m=65536,t=3,p=2'', raw64_encode salt, raw64_encode key]"
proof -
  have d: "CHR ''$'' \<notin> set (raw64_encode bs)" for bs
    using raw64_encode_text [of bs] b64_text_plain [of "CHR ''$''"] by (auto simp: list_all_iff)
  show ?thesis by (simp add: Split_append [OF d] Split_word [OF d])
qed

lemma stored_costs:
  "phc_params (Split (CHR '','') ''m=65536,t=3,p=2'') [] = Some [(''p'', 2), (''t'', 3), (''m'', 65536)]"
  by (simp add: parse_digits_def digits_val_def is_digit_def digit_val_def)

lemma verify_stored:
  assumes "rand argonSaltLen = Some salt" "length salt = argonSaltLen" "\<And>p s t m n k. length (argon p s t m n k) = k"
    and "hashPassword argon rand stored = Inr encoded"
  shows "verifyPassword argon password encoded \<longleftrightarrow>
      argon (raw_bytes password) salt argonTime argonMemory argonThreads argonKeyLen =
      argon (raw_bytes stored) salt argonTime argonMemory argonThreads argonKeyLen"
proof -
  have e: "encoded = ''$argon2id$v=19$m=65536,t=3,p=2$'' @ raw64_encode salt @ ''$''
      @ raw64_encode (argon (raw_bytes stored) salt argonTime argonMemory argonThreads argonKeyLen)"
    using assms(1,4) by (auto simp: hashPassword_def show_costs split: if_splits)
  show ?thesis
    unfolding e verifyPassword_def stored_parts using assms(2,3)
    by (simp add: stored_costs argonSaltLen_def argonKeyLen_def argonTime_def argonMemory_def argonThreads_def del: phc_params.simps Split.simps)
qed

text \<open>The mark of accounts without a password is no stored password.\<close>

lemma no_password_accepted: "\<not> verifyPassword argon password PasswordHashNone"
  by (simp add: verifyPassword_def PasswordHashNone_def)

section \<open>Sealed secrets\<close>

text \<open>What the cipher promises: what was sealed under a key and a nonce is opened under them.\<close>

definition aead_law :: "aead \<Rightarrow> bool" where
  "aead_law a \<longleftrightarrow> (\<forall>key nonce plain. ad_open a key nonce (ad_seal a key nonce plain) = Some plain)"

lemma sealed_secret_opens:
  assumes "aead_law a" "rand NonceSize = Some nonce" "length nonce = NonceSize" "Encrypt a rand provider s = Inr (c, n, i, v)"
  shows "Decrypt a provider c n i v = Inr s"
  using assms by (auto simp: Encrypt_def Decrypt_def aead_law_def split: option.splits if_splits)

definition sample_argon :: argon where
  "sample_argon p s t m n k = take k (p @ replicate k 0)"

end
