(* ===== verification/Auth_Services.thy ===== *)
theory Auth_Services
  imports Secrets
begin

text \<open>
  The services behind login: the policy (\<^verbatim>\<open>internal/auth/policy.go\<close>), trusted devices (\<^verbatim>\<open>device_service.go\<close>), challenges
  (\<^verbatim>\<open>challenge.go\<close>) and the second factor (\<^verbatim>\<open>mfa_service.go\<close>). A call is an action on a world of the tables and a counter: the
  counter numbers the points where the outside decides, so \<open>ax_clock\<close>, \<open>ax_fails\<close> and \<open>ax_rand\<close> give each reading of the clock, each
  failure of the database and each draw of random bytes its own answer. The hash functions, the cipher and the JSON text of challenge
  payloads are parameters. Times and durations are nanoseconds; nil services and the texts of audit details are left out.

  The lemmas give what a successful call needed and what it leaves alone; the login service builds on them.
\<close>

section \<open>Actions\<close>

record identity_env =
  ax_clock :: "nat \<Rightarrow> int"
  ax_fails :: "nat \<Rightarrow> bool"
  ax_rand :: "nat \<Rightarrow> nat \<Rightarrow> bytes option"
  ax_draws :: "nat \<Rightarrow> bytes list"
  ax_id :: "nat \<Rightarrow> string"
  ax_totp :: totp_env
  ax_lower :: "string \<Rightarrow> string"
  ax_sha :: "bytes \<Rightarrow> bytes"
  ax_argon :: argon
  ax_aead :: aead
  ax_secrets :: "secret_store option"
  ax_marshal :: "(string \<times> string) list \<Rightarrow> string"
  ax_unmarshal :: "string \<Rightarrow> (string \<times> string) list option"

record auth_world =
  aw_db :: id_db
  aw_tick :: nat

type_synonym 'a act = "auth_world \<Rightarrow> (auth_error + 'a) \<times> auth_world"

definition then_act :: "'a act \<Rightarrow> ('a \<Rightarrow> 'b act) \<Rightarrow> 'b act" where
  "then_act m f w = (case m w of (Inl e, w') \<Rightarrow> (Inl e, w') | (Inr x, w') \<Rightarrow> f x w')"

definition result :: "auth_error + 'a \<Rightarrow> 'a act" where
  "result r w = (r, w)"

definition then_tx :: "'a tx \<Rightarrow> ('a \<Rightarrow> 'b tx) \<Rightarrow> 'b tx" where
  "then_tx f g db = bindR (f db) (\<lambda>(x, db'). g x db')"

definition advance :: "nat \<Rightarrow> auth_world \<Rightarrow> auth_world" where
  "advance n w = w\<lparr>aw_tick := aw_tick w + n\<rparr>"

definition now_act :: "identity_env \<Rightarrow> int act" where
  "now_act env w = (Inr (ax_clock env (aw_tick w)), advance 1 w)"

definition rand_act :: "identity_env \<Rightarrow> nat \<Rightarrow> bytes act" where
  "rand_act env n w = (case ax_rand env (aw_tick w) n of None \<Rightarrow> Inl ErrOther | Some b \<Rightarrow> Inr b, advance 1 w)"

text \<open>A transaction; its body is given the point it runs at, for its readings of the clock and the ids it makes.\<close>

definition transact :: "identity_env \<Rightarrow> (nat \<Rightarrow> 'a tx) \<Rightarrow> 'a act" where
  "transact env f w =
     (case IdentityTransaction (ax_fails env (aw_tick w)) (f (aw_tick w)) (aw_db w) of
        (r, db) \<Rightarrow> (r, advance 8 (w\<lparr>aw_db := db\<rparr>)))"

definition IdentityRead :: "identity_env \<Rightarrow> (id_db \<Rightarrow> auth_error + 'a) \<Rightarrow> 'a act" where
  "IdentityRead env f w = (if ax_fails env (aw_tick w) then Inl ErrStorage else f (aw_db w), advance 1 w)"

section \<open>Policy\<close>

record auth_policy =
  ap_Mode :: mfa_mode
  ap_Required :: bool
  ap_DeviceTrustEnabled :: bool
  ap_AllowTrustedDeviceBypass :: bool
  ap_SessionTokenTTL :: int

definition one_second :: int where "one_second = 10 ^ 9"

definition ResolvePolicy :: "auth_settings \<Rightarrow> id_user \<Rightarrow> bool \<Rightarrow> auth_policy" where
  "ResolvePolicy settings user mfaEnabled =
     \<lparr>ap_Mode = at_MFAMode settings,
      ap_Required = (iu_MFARequired user \<or> at_MFAMode settings = MFAModeRequired \<or> (at_MFAMode settings = MFAModeOptional \<and> mfaEnabled)),
      ap_DeviceTrustEnabled = at_DeviceTrustEnabled settings,
      ap_AllowTrustedDeviceBypass = (at_AllowTrustedDeviceBypass settings \<and> at_DeviceTrustEnabled settings),
      ap_SessionTokenTTL = at_SessionTokenTTLSeconds settings * one_second\<rparr>"

definition DefaultAuthSettings :: "mfa_mode \<Rightarrow> bool \<Rightarrow> bool \<Rightarrow> int \<Rightarrow> int \<Rightarrow> int \<Rightarrow> auth_settings" where
  "DefaultAuthSettings mfaMode deviceTrustEnabled allowBypass deviceTTL maxDevices sessionTTL =
     \<lparr>at_MFAMode = mfaMode, at_DeviceTrustEnabled = deviceTrustEnabled,
      at_DeviceTrustTTLSeconds = (if deviceTTL \<le> 0 then 30 * 24 * 3600 * one_second else deviceTTL) div one_second,
      at_AllowTrustedDeviceBypass = allowBypass,
      at_MaxTrustedDevices = (if maxDevices \<le> 0 then 10 else maxDevices),
      at_SessionTokenTTLSeconds = (if sessionTTL < 0 then 0 else sessionTTL) div one_second\<rparr>"

section \<open>Trusted devices\<close>

record device_trust_config =
  dc_Enabled :: bool
  dc_TTL :: int
  dc_MaxPerUser :: int
  dc_TouchThrottle :: int

definition DefaultDeviceTrustConfig :: device_trust_config where
  "DefaultDeviceTrustConfig = \<lparr>dc_Enabled = True, dc_TTL = 30 * 24 * 3600 * one_second, dc_MaxPerUser = 10, dc_TouchThrottle = 300 * one_second\<rparr>"

definition device_withDefaults :: "device_trust_config \<Rightarrow> device_trust_config" where
  "device_withDefaults c =
     c\<lparr>dc_TTL := (if dc_TTL c \<le> 0 then 30 * 24 * 3600 * one_second else dc_TTL c),
       dc_MaxPerUser := (if dc_MaxPerUser c \<le> 0 then 10 else dc_MaxPerUser c),
       dc_TouchThrottle := (if dc_TouchThrottle c \<le> 0 then 300 * one_second else dc_TouchThrottle c)\<rparr>"

record device_service =
  dv_cfg :: device_trust_config
  dv_defaults :: auth_settings

definition NewDeviceService :: "device_trust_config \<Rightarrow> device_service" where
  "NewDeviceService cfg0 =
     (let cfg = device_withDefaults cfg0 in
      \<lparr>dv_cfg = cfg, dv_defaults = DefaultAuthSettings MFAModeDisabled (dc_Enabled cfg) True (dc_TTL cfg) (dc_MaxPerUser cfg) 0\<rparr>)"

definition stored_policy :: "device_trust_config \<Rightarrow> auth_settings \<Rightarrow> device_trust_config" where
  "stored_policy cfg settings =
     cfg\<lparr>dc_Enabled := at_DeviceTrustEnabled settings,
         dc_TTL := (if at_DeviceTrustTTLSeconds settings > 0 then at_DeviceTrustTTLSeconds settings * one_second else dc_TTL cfg),
         dc_MaxPerUser := (if at_MaxTrustedDevices settings > 0 then at_MaxTrustedDevices settings else dc_MaxPerUser cfg)\<rparr>"

definition effective :: "device_service \<Rightarrow> device_trust_config tx" where
  "effective s = then_tx (SeedIfMissing (dv_defaults s)) (\<lambda>settings db. Inr (stored_policy (dv_cfg s) settings, db))"

text \<open>Any error of the query is taken for a missing row.\<close>

definition effectiveForRead :: "device_service \<Rightarrow> bool \<Rightarrow> id_db \<Rightarrow> device_trust_config" where
  "effectiveForRead s fails db =
     (case db_settings db of None \<Rightarrow> dv_cfg s | Some settings \<Rightarrow> if fails then dv_cfg s else stored_policy (dv_cfg s) settings)"

definition HashDeviceToken :: "(bytes \<Rightarrow> bytes) \<Rightarrow> string \<Rightarrow> string" where
  "HashDeviceToken sha token = hex_encode (sha (raw_bytes (TrimSpace token)))"

definition GenerateDeviceToken :: "identity_env \<Rightarrow> (string \<times> string) act" where
  "GenerateDeviceToken env =
     then_act (rand_act env 32) (\<lambda>buffer. result (Inr (url64_encode buffer, HashDeviceToken (ax_sha env) (url64_encode buffer))))"

text \<open>Room for one more device.\<close>

definition evict_oldest :: "identity_env \<Rightarrow> string \<Rightarrow> device_trust_config \<Rightarrow> int \<Rightarrow> nat \<Rightarrow> unit tx" where
  "evict_oldest env userID cfg now t db =
     (if int (CountActive userID (ax_clock env t) db) \<ge> dc_MaxPerUser cfg
      then (case OldestActive userID (ax_clock env (t + 1)) db of None \<Rightarrow> Inr ((), db) | Some (i, _) \<Rightarrow> device_Revoke userID i now db)
      else Inr ((), db))"

text \<open>The token, the id and the row of the new device.\<close>

definition Device_Issue :: "identity_env \<Rightarrow> device_service \<Rightarrow> string \<Rightarrow> string \<Rightarrow> string \<Rightarrow> (string \<times> string \<times> user_device) act" where
  "Device_Issue env s userID userAgent ip =
     (if TrimSpace userID = [] then result (Inl ErrOther)
      else then_act (GenerateDeviceToken env) (\<lambda>(token, hash). then_act (now_act env) (\<lambda>now.
        transact env (\<lambda>t.
          then_tx (effective s) (\<lambda>cfg.
          if \<not> dc_Enabled cfg then (\<lambda>db. Inl ErrDeviceTrustDisabled)
          else then_tx (evict_oldest env userID cfg now t) (\<lambda>_.
            let device = \<lparr>ud_UserID = userID, ud_TokenHash = hash, ud_Name = [], ud_UserAgent = userAgent, ud_IP = ip,
                ud_TrustedAt = now, ud_ExpiresAt = now + dc_TTL cfg, ud_LastSeenAt = Some now, ud_RevokedAt = None\<rparr> in
            then_tx (device_Create (ax_id env t) device) (\<lambda>_.
            then_tx (audit_Create userID ''auth.device.trust'') (\<lambda>_ db. Inr ((token, ax_id env t, device), db)))))))))"

text \<open>The device of a token that is trusted now, with its id. The refresh of \<^verbatim>\<open>last_seen_at\<close> may fail.\<close>

definition Device_Validate :: "identity_env \<Rightarrow> device_service \<Rightarrow> string \<Rightarrow> (string \<times> user_device) option act" where
  "Device_Validate env s token w =
     (let t = aw_tick w; w' = advance 4 w in
      if TrimSpace token = [] then (Inr None, w)
      else if \<not> dc_Enabled (effectiveForRead s (ax_fails env t) (aw_db w)) then (Inr None, w')
      else if ax_fails env (t + 1) then (Inl ErrStorage, w')
      else (case GetByTokenHash (HashDeviceToken (ax_sha env) (TrimSpace token)) (aw_db w) of
          None \<Rightarrow> (Inr None, w')
        | Some (i, d) \<Rightarrow>
            (let now = ax_clock env (t + 2) in
             if ud_RevokedAt d \<noteq> None \<or> \<not> ud_ExpiresAt d > now then (Inr None, w')
             else if ud_LastSeenAt d = None \<or> now - the (ud_LastSeenAt d) \<ge> dc_TouchThrottle (dv_cfg s)
             then (Inr (Some (i, d\<lparr>ud_LastSeenAt := Some now\<rparr>)),
                   if ax_fails env (t + 3) then w' else w'\<lparr>aw_db := device_Touch i now (aw_db w)\<rparr>)
             else (Inr (Some (i, d)), w'))))"

definition device_owned :: "string \<Rightarrow> string \<Rightarrow> unit tx" where
  "device_owned userID deviceID db = (case device_Get userID deviceID db of None \<Rightarrow> Inl ErrDeviceNotFound | Some _ \<Rightarrow> Inr ((), db))"

definition Device_Rename :: "identity_env \<Rightarrow> string \<Rightarrow> string \<Rightarrow> string \<Rightarrow> unit act" where
  "Device_Rename env userID deviceID name =
     transact env (\<lambda>t. then_tx (device_owned userID deviceID) (\<lambda>_. device_Rename userID deviceID name))"

definition Device_Revoke :: "identity_env \<Rightarrow> string \<Rightarrow> string \<Rightarrow> string \<Rightarrow> bool \<Rightarrow> unit act" where
  "Device_Revoke env actorID userID deviceID actorIsAdmin =
     (if \<not> actorIsAdmin \<and> actorID \<noteq> userID then result (Inl ErrForbidden)
      else transact env (\<lambda>t. then_tx (device_owned userID deviceID) (\<lambda>_.
        then_tx (device_Revoke userID deviceID (ax_clock env t)) (\<lambda>_. audit_Create actorID ''auth.device.revoke''))))"

definition Device_RevokeAll :: "identity_env \<Rightarrow> string \<Rightarrow> string \<Rightarrow> bool \<Rightarrow> nat act" where
  "Device_RevokeAll env actorID userID actorIsAdmin =
     (if \<not> actorIsAdmin \<and> actorID \<noteq> userID then result (Inl ErrForbidden)
      else transact env (\<lambda>t. then_tx (RevokeAllForUser userID (ax_clock env t)) (\<lambda>count.
        if count = 0 then (\<lambda>db. Inr (0, db))
        else then_tx (audit_Create actorID ''auth.device.revoke_all'') (\<lambda>_ db. Inr (count, db)))))"

section \<open>Challenges\<close>

definition defaultChallengeTTL :: int where "defaultChallengeTTL = 300 * one_second"

definition Challenge_Create ::
  "identity_env \<Rightarrow> challenge_kind \<Rightarrow> string \<Rightarrow> (string \<times> string) list \<Rightarrow> int \<Rightarrow> int \<Rightarrow> string act" where
  "Challenge_Create env kind userID payload ttl maxAttempts =
     (if ax_secrets env = None then result (Inl ErrSecretStorageUnavailable)
      else then_act (\<lambda>w. (Encrypt (ax_aead env) (ax_rand env (aw_tick w)) (ax_secrets env) (ax_marshal env payload), advance 1 w))
        (\<lambda>(ciphertext, nonce, keyID, version).
          then_act (\<lambda>w. (randomToken (ax_rand env (aw_tick w)) 24, advance 1 w)) (\<lambda>raw.
          then_act (now_act env) (\<lambda>now.
          then_act (transact env (\<lambda>t. challenge_Create (''ch_'' @ raw)
            \<lparr>ac_Kind = kind, ac_UserID = userID, ac_PayloadCiphertext = b64_encode ciphertext, ac_PayloadNonce = b64_encode nonce,
             ac_PayloadKeyID = keyID, ac_PayloadVersion = version, ac_Attempts = 0,
             ac_MaxAttempts = (if maxAttempts \<le> 0 then 1 else maxAttempts), ac_ConsumedAt = None,
             ac_ExpiresAt = now + (if ttl \<le> 0 then defaultChallengeTTL else ttl)\<rparr>)) (\<lambda>_.
          result (Inr (''ch_'' @ raw)))))))"

definition Challenge_Load :: "identity_env \<Rightarrow> string \<Rightarrow> challenge_kind \<Rightarrow> (auth_challenge \<times> (string \<times> string) list) act" where
  "Challenge_Load env i kind =
     then_act (IdentityRead env (\<lambda>db. case challenge_Get i db of None \<Rightarrow> Inl ErrChallengeInvalid | Some c \<Rightarrow> Inr c)) (\<lambda>row.
     then_act (now_act env) (\<lambda>now.
       result
         (if ac_Kind row \<noteq> kind \<or> ac_ConsumedAt row \<noteq> None \<or> \<not> ac_ExpiresAt row > now then Inl ErrChallengeInvalid
          else if ax_secrets env = None then Inl ErrSecretStorageUnavailable
          else (case (b64_decode (ac_PayloadCiphertext row), b64_decode (ac_PayloadNonce row)) of
              (Some ciphertext, Some nonce) \<Rightarrow>
                (case Decrypt (ax_aead env) (ax_secrets env) ciphertext nonce (ac_PayloadKeyID row) (ac_PayloadVersion row) of
                   Inl _ \<Rightarrow> Inl ErrChallengeInvalid
                 | Inr plain \<Rightarrow>
                     if plain = [] then Inr (row, [])
                     else (case ax_unmarshal env plain of None \<Rightarrow> Inl ErrChallengeInvalid | Some payload \<Rightarrow> Inr (row, payload)))
            | _ \<Rightarrow> Inl ErrChallengeInvalid))))"

definition Challenge_Consume :: "identity_env \<Rightarrow> string \<Rightarrow> bool act" where
  "Challenge_Consume env i = transact env (\<lambda>t. challenge_Consume i (ax_clock env t))"

definition Challenge_Fail :: "identity_env \<Rightarrow> string \<Rightarrow> (int \<times> bool) act" where
  "Challenge_Fail env i = transact env (\<lambda>t. IncrementAttempts i (ax_clock env t))"

definition Challenge_DeleteExpired :: "identity_env \<Rightarrow> int \<Rightarrow> nat act" where
  "Challenge_DeleteExpired env cutoff = transact env (\<lambda>t. challenge_DeleteExpired cutoff)"

section \<open>The second factor\<close>

record mfa_config =
  mc_Issuer :: string
  mc_Params :: TOTPParams
  mc_RecoveryCodes :: int
  mc_EnrollmentTTL :: int

definition mfa_withDefaults :: "mfa_config \<Rightarrow> mfa_config" where
  "mfa_withDefaults c =
     c\<lparr>mc_Issuer := (if mc_Issuer c = [] then ''TunnelMesh'' else mc_Issuer c),
       mc_Params := (if tp_Digits (mc_Params c) = 0 then DefaultTOTPParams else mc_Params c),
       mc_RecoveryCodes := (if mc_RecoveryCodes c \<le> 0 then 10 else mc_RecoveryCodes c),
       mc_EnrollmentTTL := (if mc_EnrollmentTTL c \<le> 0 then 900 * one_second else mc_EnrollmentTTL c)\<rparr>"

text \<open>The enrolment if it is usable; what is loaded of an unusable one is not looked at by any caller.\<close>

definition mfa_load :: "identity_env \<Rightarrow> mfa_config \<Rightarrow> string \<Rightarrow> user_mfa option act" where
  "mfa_load env c userID =
     then_act (IdentityRead env (\<lambda>db. Inr (mfa_Get userID db))) (\<lambda>found.
     case found of None \<Rightarrow> result (Inr None)
     | Some row \<Rightarrow>
         if um_Status row = MFAStatusPending
         then then_act (now_act env) (\<lambda>now. result (Inr (if um_EnrolledAt row + mc_EnrollmentTTL c > now then Some row else None)))
         else result (Inr (Some row)))"

definition IsEnabled :: "identity_env \<Rightarrow> mfa_config \<Rightarrow> string \<Rightarrow> bool act" where
  "IsEnabled env c userID =
     then_act (mfa_load env c userID) (\<lambda>r. result (Inr (case r of None \<Rightarrow> False | Some row \<Rightarrow> um_Status row = MFAStatusEnabled)))"

text \<open>Whether the link for authenticator apps can be rendered; its text is left out.\<close>

definition OTPAuthURL :: "totp_env \<Rightarrow> string \<Rightarrow> string \<Rightarrow> string \<Rightarrow> TOTPParams \<Rightarrow> auth_error + unit" where
  "OTPAuthURL te issuer account secret params =
     (case totp_validate params of Inl _ \<Rightarrow> Inl ErrOther
      | Inr _ \<Rightarrow>
          if TrimSpace issuer = [] \<or> length (TrimSpace issuer) > 64 \<or> CHR '':'' \<in> set (TrimSpace issuer) \<or> TrimSpace account = [] then Inl ErrOther
          else (case decodeTOTPSecret (te_upper te) secret of Inl _ \<Rightarrow> Inl ErrOther | Inr _ \<Rightarrow> Inr ()))"

text \<open>A new enrolment of an account, inside a transaction; the name of the account is the result.\<close>

definition enroll_tx :: "identity_env \<Rightarrow> string \<Rightarrow> string \<Rightarrow> sealed \<Rightarrow> bytes list \<Rightarrow> nat \<Rightarrow> string tx" where
  "enroll_tx env userID currentPassword sealed hashes t db =
     (case user_Get userID db of None \<Rightarrow> Inl ErrNoRows
      | Some user \<Rightarrow>
          if iu_PasswordHash user \<noteq> PasswordHashNone \<and> currentPassword = [] then Inl ErrCurrentPasswordRequired
          else if iu_PasswordHash user \<noteq> PasswordHashNone \<and> \<not> verifyPassword (ax_argon env) currentPassword (iu_PasswordHash user)
          then Inl ErrCurrentPasswordInvalid
          else (case sealed of (ciphertext, nonce, keyID, version) \<Rightarrow>
            then_tx (mfa_Upsert userID
              \<lparr>um_SecretCiphertext = b64_encode ciphertext, um_SecretNonce = b64_encode nonce, um_SecretKeyID = keyID,
               um_SecretVersion = version, um_Status = MFAStatusPending, um_EnrolledAt = ax_clock env t, um_EnabledAt = None,
               um_LastUsedAt = None, um_LastUsedStep = - 1\<rparr>) (\<lambda>_.
            then_tx (ReplaceAll userID hashes) (\<lambda>_.
            then_tx (audit_Create userID ''auth.mfa.enroll'') (\<lambda>_ db. Inr (iu_Username user, db)))) db))"

text \<open>The secret, the recovery codes and the time until which the enrolment can be confirmed.\<close>

definition Enroll :: "identity_env \<Rightarrow> mfa_config \<Rightarrow> string \<Rightarrow> string \<Rightarrow> (string \<times> string list \<times> int) act" where
  "Enroll env c userID currentPassword =
     (if ax_secrets env = None then result (Inl ErrSecretStorageUnavailable)
      else then_act (rand_act env 20) (\<lambda>random.
        let secret = GenerateTOTPSecret random in
        then_act (\<lambda>w. (Encrypt (ax_aead env) (ax_rand env (aw_tick w)) (ax_secrets env) secret, advance 1 w)) (\<lambda>sealed.
        then_act (\<lambda>w. (case GenerateRecoveryCodes (ax_sha env) (te_upper (ax_totp env)) (mc_RecoveryCodes c) (ax_draws env (aw_tick w)) of
            None \<Rightarrow> Inl ErrOther | Some r \<Rightarrow> Inr r, advance 1 w)) (\<lambda>(codes, hashes).
        then_act (transact env (enroll_tx env userID currentPassword sealed hashes)) (\<lambda>account.
        then_act (result (OTPAuthURL (ax_totp env) (mc_Issuer c) account secret (mc_Params c))) (\<lambda>_.
        then_act (now_act env) (\<lambda>now. result (Inr (secret, codes, now + mc_EnrollmentTTL c)))))))))"

definition openSecret :: "identity_env \<Rightarrow> user_mfa \<Rightarrow> auth_error + string" where
  "openSecret env row =
     (if ax_secrets env = None then Inl ErrSecretStorageUnavailable
      else (case (b64_decode (um_SecretCiphertext row), b64_decode (um_SecretNonce row)) of
          (Some ciphertext, Some nonce) \<Rightarrow> Decrypt (ax_aead env) (ax_secrets env) ciphertext nonce (um_SecretKeyID row) (um_SecretVersion row)
        | _ \<Rightarrow> Inl ErrOther))"

text \<open>
  The time step of a code against the secret of a row. The check cannot panic with the 20 bytes of HMAC-SHA1 (\<open>hotp_total\<close>);
  a panic would end the request and is an unnamed error here.
\<close>

definition check_totp :: "identity_env \<Rightarrow> mfa_config \<Rightarrow> user_mfa \<Rightarrow> string \<Rightarrow> int act" where
  "check_totp env c row code =
     then_act (result (openSecret env row)) (\<lambda>secret.
     then_act (now_act env) (\<lambda>now.
       result (case VerifyTOTP (ax_totp env) secret code now (mc_Params c) of
           None \<Rightarrow> Inl ErrOther | Some (Inl _) \<Rightarrow> Inl ErrOther
         | Some (Inr None) \<Rightarrow> Inl ErrMFACodeInvalid | Some (Inr (Some step)) \<Rightarrow> Inr step)))"

definition mark_step :: "string \<Rightarrow> int \<Rightarrow> int \<Rightarrow> unit tx" where
  "mark_step userID step now db = (case MarkUsed userID step now db of Inl e \<Rightarrow> Inl (if e = ErrMFAStepReplay then ErrMFAReplayDetected else e) | Inr r \<Rightarrow> Inr r)"

definition Enable :: "identity_env \<Rightarrow> mfa_config \<Rightarrow> string \<Rightarrow> string \<Rightarrow> unit act" where
  "Enable env c userID code =
     then_act (mfa_load env c userID) (\<lambda>r.
     case r of None \<Rightarrow> result (Inl ErrMFANotEnrolled)
     | Some row \<Rightarrow>
         if um_Status row = MFAStatusEnabled then result (Inl ErrMFAAlreadyEnabled)
         else then_act (check_totp env c row code) (\<lambda>step.
           transact env (\<lambda>t.
             then_tx (mark_step userID step (ax_clock env t)) (\<lambda>_.
             then_tx (mfa_SetStatus userID MFAStatusEnabled (ax_clock env (t + 1))) (\<lambda>_.
             audit_Create userID ''auth.mfa.enable'')))))"

datatype verify_method = TotpCode | RecoveryCode

text \<open>The method and the number of recovery codes that are left.\<close>

definition verifyRecoveryCode :: "identity_env \<Rightarrow> string \<Rightarrow> string \<Rightarrow> (verify_method \<times> nat) act" where
  "verifyRecoveryCode env userID code =
     then_act (transact env (\<lambda>t.
       then_tx (codes_Consume userID (HashRecoveryCode (ax_sha env) (te_upper (ax_totp env)) code) (ax_clock env t)) (\<lambda>consumed.
       if \<not> consumed then (\<lambda>db. Inr (None, db))
       else then_tx (\<lambda>db. Inr (CountUnused userID db, db)) (\<lambda>count.
         then_tx (TouchLastUsed userID (ax_clock env (t + 1))) (\<lambda>_.
         then_tx (audit_Create userID ''auth.mfa.verify'') (\<lambda>_ db. Inr (Some count, db)))))))
     (\<lambda>r. result (case r of None \<Rightarrow> Inl ErrMFACodeInvalid | Some remaining \<Rightarrow> Inr (RecoveryCode, remaining)))"

definition VerifyCode :: "identity_env \<Rightarrow> mfa_config \<Rightarrow> string \<Rightarrow> string \<Rightarrow> (verify_method \<times> nat) act" where
  "VerifyCode env c userID code =
     then_act (mfa_load env c userID) (\<lambda>r.
     case r of None \<Rightarrow> result (Inl ErrMFANotEnrolled)
     | Some row \<Rightarrow>
         if um_Status row \<noteq> MFAStatusEnabled then result (Inl ErrMFAPendingNotConfirmed)
         else if IsRecoveryCode (ax_lower env) code then verifyRecoveryCode env userID code
         else then_act (check_totp env c row code) (\<lambda>step.
           then_act (transact env (\<lambda>t. then_tx (mark_step userID step (ax_clock env t)) (\<lambda>_. audit_Create userID ''auth.mfa.verify''))) (\<lambda>_.
           then_act (transact env (\<lambda>t db. Inr (CountUnused userID db, db))) (\<lambda>remaining. result (Inr (TotpCode, remaining))))))"

definition drop_factor :: "identity_env \<Rightarrow> string \<Rightarrow> string \<Rightarrow> string \<Rightarrow> nat \<Rightarrow> unit tx" where
  "drop_factor env actorID userID action t =
     then_tx (\<lambda>db. case mfa_Delete userID db of Inl e \<Rightarrow> if e = ErrNoRows then Inr ((), db) else Inl e | Inr r \<Rightarrow> Inr r) (\<lambda>_.
     then_tx (codes_DeleteByUser userID) (\<lambda>_.
     then_tx (RevokeAllForUser userID (ax_clock env t)) (\<lambda>revoked.
     audit_Create actorID action)))"

definition Disable :: "identity_env \<Rightarrow> mfa_config \<Rightarrow> string \<Rightarrow> string \<Rightarrow> auth_policy \<Rightarrow> unit act" where
  "Disable env c userID code policy =
     (if ap_Required policy then result (Inl ErrMFARequiredByPolicy)
      else then_act (mfa_load env c userID) (\<lambda>r.
        case r of None \<Rightarrow> result (Inl ErrMFANotEnrolled)
        | Some row \<Rightarrow>
            if um_Status row \<noteq> MFAStatusEnabled then result (Inl ErrMFAPendingNotConfirmed)
            else then_act (VerifyCode env c userID code) (\<lambda>_. transact env (drop_factor env userID userID ''auth.mfa.disable''))))"

definition AdminReset :: "identity_env \<Rightarrow> string \<Rightarrow> string \<Rightarrow> unit act" where
  "AdminReset env actorID userID = transact env (drop_factor env actorID userID ''auth.mfa.reset'')"

definition RegenerateRecoveryCodes :: "identity_env \<Rightarrow> mfa_config \<Rightarrow> string \<Rightarrow> string \<Rightarrow> string list act" where
  "RegenerateRecoveryCodes env c userID code =
     then_act (mfa_load env c userID) (\<lambda>r.
     case r of None \<Rightarrow> result (Inl ErrMFANotEnrolled)
     | Some row \<Rightarrow>
         if um_Status row \<noteq> MFAStatusEnabled then result (Inl ErrMFAPendingNotConfirmed)
         else then_act (check_totp env c row code) (\<lambda>step.
           then_act (\<lambda>w. (case GenerateRecoveryCodes (ax_sha env) (te_upper (ax_totp env)) (mc_RecoveryCodes c) (ax_draws env (aw_tick w)) of
               None \<Rightarrow> Inl ErrOther | Some r \<Rightarrow> Inr r, advance 1 w)) (\<lambda>(codes, hashes).
           then_act (transact env (\<lambda>t.
             then_tx (mark_step userID step (ax_clock env t)) (\<lambda>_.
             then_tx (ReplaceAll userID hashes) (\<lambda>_. audit_Create userID ''auth.mfa.recovery_regenerate'')))) (\<lambda>_. result (Inr codes)))))"

section \<open>What actions need and keep\<close>

lemma then_act_Inr: "then_act m f w = (Inr y, w2) \<longleftrightarrow> (\<exists>x w1. m w = (Inr x, w1) \<and> f x w1 = (Inr y, w2))"
  by (auto simp: then_act_def split: prod.splits sum.splits)

lemma then_tx_Inr: "then_tx f g db = Inr r \<longleftrightarrow> (\<exists>x db1. f db = Inr (x, db1) \<and> g x db1 = Inr r)"
  by (auto simp: then_tx_def bindR_def split: sum.splits)

lemma result_iff [simp]: "result r w = (r', w') \<longleftrightarrow> r = r' \<and> w' = w"
  by (auto simp: result_def)

lemma advance_simps [simp]: "aw_db (advance n w) = aw_db w" "aw_tick (advance n w) = aw_tick w + n"
  by (simp_all add: advance_def)

lemma now_act_iff [simp]: "now_act env w = (r, w') \<longleftrightarrow> r = Inr (ax_clock env (aw_tick w)) \<and> w' = advance 1 w"
  by (auto simp: now_act_def)

lemma transact_Inr:
  "transact env f w = (Inr x, w') \<longleftrightarrow>
    \<not> ax_fails env (aw_tick w) \<and> (\<exists>db. f (aw_tick w) (aw_db w) = Inr (x, db) \<and> w' = advance 8 (w\<lparr>aw_db := db\<rparr>))"
  by (auto simp: transact_def IdentityTransaction_def split: prod.splits sum.splits if_splits)

lemma IdentityRead_Inr:
  "IdentityRead env f w = (Inr x, w') \<longleftrightarrow> \<not> ax_fails env (aw_tick w) \<and> f (aw_db w) = Inr x \<and> w' = advance 1 w"
  by (auto simp: IdentityRead_def)

lemmas act_results = then_act_Inr then_tx_Inr transact_Inr IdentityRead_Inr

text \<open>A part of the tables that an action leaves as it is, whether it succeeds or not.\<close>

definition keeps :: "(id_db \<Rightarrow> 'b) \<Rightarrow> 'a act \<Rightarrow> bool" where
  "keeps sel m \<longleftrightarrow> (\<forall>w. sel (aw_db (snd (m w))) = sel (aw_db w))"

definition keeps_tx :: "(id_db \<Rightarrow> 'b) \<Rightarrow> 'a tx \<Rightarrow> bool" where
  "keeps_tx sel f \<longleftrightarrow> (\<forall>db x db'. f db = Inr (x, db') \<longrightarrow> sel db' = sel db)"

named_theorems keeps_intros

lemma keeps_then [keeps_intros]: "keeps sel m \<Longrightarrow> (\<And>x. keeps sel (f x)) \<Longrightarrow> keeps sel (then_act m f)"
  unfolding keeps_def then_act_def by (auto split: prod.splits sum.splits) (metis snd_conv)+

lemma keeps_basic [keeps_intros]:
  "keeps sel (result r)" "keeps sel (now_act env)" "keeps sel (rand_act env n)" "keeps sel (IdentityRead env g)"
  "keeps sel (\<lambda>w. (h w, advance n w))"
  by (simp_all add: keeps_def result_def now_act_def rand_act_def IdentityRead_def)

lemma keeps_transact [keeps_intros]: "(\<And>t. keeps_tx sel (f t)) \<Longrightarrow> keeps sel (transact env f)"
  by (auto simp: keeps_def keeps_tx_def transact_def IdentityTransaction_def split: prod.splits sum.splits)

lemma keeps_tx_then [keeps_intros]: "keeps_tx sel f \<Longrightarrow> (\<And>x. keeps_tx sel (g x)) \<Longrightarrow> keeps_tx sel (then_tx f g)"
  unfolding keeps_tx_def then_tx_Inr by metis

lemma keeps_tx_return [keeps_intros]: "keeps_tx sel (\<lambda>db. Inr (x, db))" "keeps_tx sel (\<lambda>db. Inl e)" "keeps_tx sel (\<lambda>db. Inr (h db, db))"
  by (simp_all add: keeps_tx_def)

text \<open>The tables that neither the policy nor devices nor the audit log are part of.\<close>

definition account_part :: "(id_db \<Rightarrow> 'b) \<Rightarrow> bool" where
  "account_part sel \<longleftrightarrow>
     (\<forall>db x. sel (db\<lparr>db_settings := x\<rparr>) = sel db) \<and> (\<forall>db x. sel (db\<lparr>db_devices := x\<rparr>) = sel db) \<and> (\<forall>db x. sel (db\<lparr>db_audits := x\<rparr>) = sel db)"

lemma account_parts [keeps_intros]:
  "account_part db_tokens" "account_part db_mfa" "account_part db_codes" "account_part db_challenges" "account_part db_users"
  by (simp_all add: account_part_def)

lemma account_part_kept [keeps_intros]:
  assumes "account_part sel"
  shows "keeps_tx sel (SeedIfMissing d)" "keeps_tx sel (audit_Create a x)" "keeps_tx sel (device_Create i v)"
    "keeps_tx sel (evict_oldest env u cfg n t)"
  using assms
  by (auto simp: keeps_tx_def account_part_def SeedIfMissing_def audit_Create_def device_Create_def evict_oldest_def device_Revoke_def bindR_def
      split: option.splits if_splits sum.splits)

lemma repositories_keep [keeps_intros]:
  "keeps_tx db_tokens (codes_Consume u h n)" "keeps_tx db_tokens (TouchLastUsed u n)" "keeps_tx db_tokens (mark_step u k n)"
  "keeps_tx db_tokens (challenge_Create i c)" "keeps_tx db_tokens (challenge_Consume i n)" "keeps_tx db_tokens (IncrementAttempts i n)"
  "keeps_tx db_mfa (challenge_Consume i n)" "keeps_tx db_codes (challenge_Consume i n)"
  "keeps_tx db_challenges (codes_Consume u h n)" "keeps_tx db_challenges (TouchLastUsed u n)" "keeps_tx db_challenges (mark_step u k n)"
  by (auto simp: keeps_tx_def codes_Consume_def TouchLastUsed_def mark_step_def MarkUsed_def challenge_Create_def challenge_Consume_def
      IncrementAttempts_def bindR_def split: option.splits if_splits sum.splits)

lemma Device_Issue_keeps [keeps_intros]: "account_part sel \<Longrightarrow> keeps sel (Device_Issue env s u a ip)"
  unfolding Device_Issue_def effective_def GenerateDeviceToken_def Let_def by (auto intro!: keeps_intros)

lemma Device_Validate_db: "aw_db (snd (Device_Validate env s token w)) = aw_db w \<or> (\<exists>i now. aw_db (snd (Device_Validate env s token w)) = device_Touch i now (aw_db w))"
  by (auto simp: Device_Validate_def Let_def split: option.splits prod.splits)

lemma Device_Validate_keeps_tokens [keeps_intros]: "keeps db_tokens (Device_Validate env s token)"
proof -
  have "db_tokens (device_Touch i n db) = db_tokens db" for i n db by (simp add: device_Touch_def split: sum.splits)
  then show ?thesis unfolding keeps_def using Device_Validate_db by metis
qed

lemma challenges_keep_tokens [keeps_intros]:
  "keeps db_tokens (Challenge_Create env kind u p ttl n)" "keeps db_tokens (Challenge_Load env i kind)"
  "keeps db_tokens (Challenge_Consume env i)" "keeps db_tokens (Challenge_Fail env i)"
  unfolding Challenge_Create_def Challenge_Load_def Challenge_Consume_def Challenge_Fail_def
  by (auto intro!: keeps_intros split: prod.splits)

lemma mfa_load_keeps [keeps_intros]: "keeps sel (mfa_load env c u)"
  unfolding mfa_load_def by (auto intro!: keeps_intros split: option.splits)

lemma IsEnabled_keeps [keeps_intros]: "keeps sel (IsEnabled env c u)"
  unfolding IsEnabled_def by (auto intro!: keeps_intros)

lemma VerifyCode_keeps [keeps_intros]: "keeps db_tokens (VerifyCode env c u code)" "keeps db_challenges (VerifyCode env c u code)"
  unfolding VerifyCode_def verifyRecoveryCode_def check_totp_def Let_def
  by (auto intro!: keeps_intros split: option.splits)

text \<open>The enrolment an account has, and whether it is confirmed.\<close>

definition mfa_enabled :: "string \<Rightarrow> id_db \<Rightarrow> bool" where
  "mfa_enabled u db \<longleftrightarrow> (case mfa_Get u db of None \<Rightarrow> False | Some r \<Rightarrow> um_Status r = MFAStatusEnabled)"

lemma mfa_load_Inr:
  assumes "mfa_load env c u w = (Inr r, w')"
  shows "aw_db w' = aw_db w \<and> aw_tick w \<le> aw_tick w' \<and> (r = mfa_Get u (aw_db w) \<or> (r = None \<and> \<not> mfa_enabled u (aw_db w)))"
proof (cases "mfa_Get u (aw_db w)")
  case None
  then show ?thesis using assms by (auto simp: mfa_load_def then_act_def IdentityRead_def result_def advance_def split: if_splits)
next
  case (Some row)
  then show ?thesis using assms
    by (cases "um_Status row") (auto simp: mfa_load_def then_act_def IdentityRead_def result_def now_act_def advance_def mfa_enabled_def split: if_splits)
qed

lemma IsEnabled_Inr:
  assumes "IsEnabled env c u w = (Inr b, w')"
  shows "b = mfa_enabled u (aw_db w) \<and> aw_db w' = aw_db w \<and> aw_tick w \<le> aw_tick w'"
proof -
  from assms obtain r where "mfa_load env c u w = (Inr r, w')" "b = (case r of None \<Rightarrow> False | Some row \<Rightarrow> um_Status row = MFAStatusEnabled)"
    unfolding IsEnabled_def then_act_Inr by auto
  with mfa_load_Inr [OF this(1)] show ?thesis by (auto simp: mfa_enabled_def)
qed

text \<open>A code that is a live factor in the first tables and spent in the second.\<close>

definition code_spent :: "identity_env \<Rightarrow> mfa_config \<Rightarrow> string \<Rightarrow> string \<Rightarrow> id_db \<Rightarrow> id_db \<Rightarrow> bool" where
  "code_spent env c u code db db' \<longleftrightarrow>
     (let unused = unused_code u (HashRecoveryCode (ax_sha env) (te_upper (ax_totp env)) code) in
      IsRecoveryCode (ax_lower env) code \<and> list_ex unused (db_codes db) \<and> \<not> list_ex unused (db_codes db')) \<or>
     (\<exists>row secret t step. mfa_Get u db = Some row \<and> openSecret env row = Inr secret \<and>
        VerifyTOTP (ax_totp env) secret code (ax_clock env t) (mc_Params c) = Some (Inr (Some step)) \<and> um_LastUsedStep row < step \<and>
        map_option um_LastUsedStep (mfa_Get u db') = Some step)"

lemma check_totp_Inr:
  assumes "check_totp env c row code w = (Inr step, w')"
  shows "\<exists>secret t. openSecret env row = Inr secret \<and> VerifyTOTP (ax_totp env) secret code (ax_clock env t) (mc_Params c) = Some (Inr (Some step))
    \<and> aw_db w' = aw_db w"
proof -
  from assms obtain secret where "openSecret env row = Inr secret" "w' = advance 1 w"
    "(case VerifyTOTP (ax_totp env) secret code (ax_clock env (aw_tick w)) (mc_Params c) of
        None \<Rightarrow> Inl ErrOther | Some (Inl _) \<Rightarrow> Inl ErrOther
      | Some (Inr None) \<Rightarrow> Inl ErrMFACodeInvalid | Some (Inr (Some step)) \<Rightarrow> Inr step) = Inr step"
    unfolding check_totp_def then_act_Inr by auto
  then show ?thesis by (auto split: option.splits sum.splits)
qed

lemma verifyRecoveryCode_Inr:
  assumes "verifyRecoveryCode env u code w = (Inr r, w')" "IsRecoveryCode (ax_lower env) code"
  shows "code_spent env c u code (aw_db w) (aw_db w')"
proof -
  define unused where "unused = unused_code u (HashRecoveryCode (ax_sha env) (te_upper (ax_totp env)) code)"
  from assms(1) obtain db db2 n1 n2 m where "codes_Consume u (HashRecoveryCode (ax_sha env) (te_upper (ax_totp env)) code) n1 (aw_db w) = Inr (True, db)"
    "TouchLastUsed u n2 db = Inr ((), db2)" "db_codes (aw_db w') = db_codes db2"
    unfolding verifyRecoveryCode_def act_results by (auto simp: then_tx_Inr audit_Create_def split: if_splits option.splits)
  then have "list_ex unused (db_codes (aw_db w))" "\<not> list_ex unused (db_codes (aw_db w'))"
    by (auto simp: codes_Consume_def unused_def TouchLastUsed_def list_ex_iff unused_code_def split: sum.splits)
  then show ?thesis using assms(2) by (simp add: code_spent_def unused_def Let_def)
qed

lemma VerifyCode_Inr:
  assumes "VerifyCode env c u code w = (Inr r, w')"
  shows "mfa_enabled u (aw_db w) \<and> code_spent env c u code (aw_db w) (aw_db w')"
proof -
  from assms obtain row w1 where l: "mfa_load env c u w = (Inr (Some row), w1)" and e: "um_Status row = MFAStatusEnabled"
    and v: "(if IsRecoveryCode (ax_lower env) code then verifyRecoveryCode env u code
         else then_act (check_totp env c row code) (\<lambda>step.
           then_act (transact env (\<lambda>t. then_tx (mark_step u step (ax_clock env t)) (\<lambda>_. audit_Create u ''auth.mfa.verify''))) (\<lambda>_.
           then_act (transact env (\<lambda>t db. Inr (CountUnused u db, db))) (\<lambda>remaining. result (Inr (TotpCode, remaining)))))) w1 = (Inr r, w')"
    unfolding VerifyCode_def then_act_Inr [of "mfa_load env c u"] by (auto split: option.splits if_splits)
  from mfa_load_Inr [OF l] have g: "mfa_Get u (aw_db w) = Some row" "aw_db w1 = aw_db w" by auto
  show ?thesis
  proof (cases "IsRecoveryCode (ax_lower env) code")
    case True
    then show ?thesis using v g e verifyRecoveryCode_Inr [of env u code w1 r w' c] by (simp add: mfa_enabled_def)
  next
    case False
    with v obtain step w2 db t0 where c: "check_totp env c row code w1 = (Inr step, w2)"
      and m: "mark_step u step (ax_clock env t0) (aw_db w2) = Inr ((), db)" and d: "db_mfa (aw_db w') = db_mfa db"
      by (auto simp: act_results audit_Create_def)
    from check_totp_Inr [OF c] obtain secret t where k: "openSecret env row = Inr secret"
      "VerifyTOTP (ax_totp env) secret code (ax_clock env t) (mc_Params c) = Some (Inr (Some step))" "aw_db w2 = aw_db w" using g(2) by auto
    from m k(3) g have "um_LastUsedStep row < step \<and> map_option um_LastUsedStep (mfa_Get u (aw_db w')) = Some step"
      by (auto simp: mark_step_def MarkUsed_def mfa_Get_def update_row_results bindR_def d AList.update_conv' split: sum.splits)
    with k g e show ?thesis unfolding code_spent_def by (auto simp: mfa_enabled_def)
  qed
qed

end
