(* ===== verification/Login.thy ===== *)
theory Login
  imports Auth_Services
begin

text \<open>
  Console sessions: \<^verbatim>\<open>internal/auth/login_service.go\<close> with the tokens of \<^verbatim>\<open>service.go\<close>. A session is a row of the token table, so what
  is shown about sessions is stated of that table and covers calls that fail half way. The lemmas show which proofs a session needs,
  that completing a second factor spends the challenge and the code, and two ways in which a factor is lost without being proved.
\<close>

section \<open>Tokens\<close>

record principal =
  pr_UserID :: string
  pr_Username :: string
  pr_Role :: string

text \<open>The insert is one statement, which succeeds or fails as a whole.\<close>

definition IssueToken :: "identity_env \<Rightarrow> string \<Rightarrow> int \<Rightarrow> string act" where
  "IssueToken env userID ttl =
     (if TrimSpace userID = [] then result (Inl ErrOther)
      else then_act (\<lambda>w. (randomToken (ax_rand env (aw_tick w)) 32, advance 1 w)) (\<lambda>plain.
        then_act (now_act env) (\<lambda>now.
        then_act (transact env (\<lambda>t. token_Create (ax_id env t)
          \<lparr>tk_UserID = userID, tk_TokenHash = hashToken (ax_sha env) plain, tk_ExpiresAt = (if ttl > 0 then Some (now + ttl) else None),
           tk_RevokedAt = None\<rparr>)) (\<lambda>_. result (Inr plain)))))"

definition ValidateToken :: "identity_env \<Rightarrow> string \<Rightarrow> principal act" where
  "ValidateToken env plain w =
     (let t = aw_tick w; w' = advance 3 w in
      if TrimSpace plain = [] then (Inl ErrUnauthenticated, w)
      else if ax_fails env t then (Inl ErrUnauthenticated, w')
      else (case GetByHash (hashToken (ax_sha env) plain) (aw_db w) of None \<Rightarrow> (Inl ErrUnauthenticated, w')
        | Some tok \<Rightarrow>
            if tk_RevokedAt tok \<noteq> None \<or> (case tk_ExpiresAt tok of None \<Rightarrow> False | Some e \<Rightarrow> \<not> e > ax_clock env (t + 1))
            then (Inl ErrUnauthenticated, w')
            else if ax_fails env (t + 2) then (Inl ErrUnauthenticated, w')
            else (case user_Get (tk_UserID tok) (aw_db w) of None \<Rightarrow> (Inl ErrUnauthenticated, w')
              | Some u \<Rightarrow>
                  if iu_Disabled u \<or> iu_Deleted u then (Inl ErrUnauthenticated, w')
                  else (Inr \<lparr>pr_UserID = iu_ID u, pr_Username = iu_Username u, pr_Role = iu_Role u\<rparr>, w'))))"

definition RequireRole :: "(string \<Rightarrow> string) \<Rightarrow> principal \<Rightarrow> string \<Rightarrow> auth_error option" where
  "RequireRole lower p role0 =
     (let role = ToLower lower (TrimSpace role0) in
      if pr_UserID p = [] then Some ErrUnauthenticated
      else if pr_Role p \<noteq> role \<and> \<not> (pr_Role p = ''admin'' \<and> role = ''user'') then Some ErrForbidden
      else None)"

definition CreateUser :: "identity_env \<Rightarrow> string \<Rightarrow> string \<Rightarrow> string \<Rightarrow> id_user act" where
  "CreateUser env username0 password role0 =
     (let username = TrimSpace username0; role1 = ToLower (ax_lower env) (TrimSpace role0); role = (if role1 = [] then ''user'' else role1) in
      if username = [] \<or> (role \<noteq> ''admin'' \<and> role \<noteq> ''user'') then result (Inl ErrOther)
      else then_act (\<lambda>w. (hashPassword (ax_argon env) (ax_rand env (aw_tick w)) password, advance 1 w)) (\<lambda>hash.
        then_act (transact env (\<lambda>t. user_Create
          \<lparr>iu_ID = ax_id env t, iu_Username = username, iu_Role = role, iu_PasswordHash = hash, iu_Disabled = False, iu_Deleted = False,
           iu_MFARequired = False\<rparr>)) (\<lambda>_.
        IdentityRead env (\<lambda>db. case GetByUsername username db of None \<Rightarrow> Inl ErrNoRows | Some u \<Rightarrow> Inr u))))"

definition service_Login :: "identity_env \<Rightarrow> string \<Rightarrow> string \<Rightarrow> (id_user \<times> string) act" where
  "service_Login env username password w =
     (case (if ax_fails env (aw_tick w) then None else GetByUsername (TrimSpace username) (aw_db w)) of
        None \<Rightarrow> (Inl ErrInvalidCredentials, advance 1 w)
      | Some u \<Rightarrow>
          if iu_Disabled u \<or> iu_Deleted u \<or> \<not> verifyPassword (ax_argon env) password (iu_PasswordHash u)
          then (Inl ErrInvalidCredentials, advance 1 w)
          else then_act (IssueToken env (iu_ID u) 0) (\<lambda>plain. result (Inr (u, plain))) (advance 1 w))"

section \<open>The login service\<close>

record login_config =
  lc_MaxAttempts :: int
  lc_Window :: int
  lc_Block :: int
  lc_ChallengeTTL :: int
  lc_ChallengeMaxAttempts :: int
  lc_Defaults :: auth_settings

definition login_withDefaults :: "login_config \<Rightarrow> login_config" where
  "login_withDefaults c =
     c\<lparr>lc_MaxAttempts := (if lc_MaxAttempts c \<le> 0 then 10 else lc_MaxAttempts c),
       lc_Window := (if lc_Window c \<le> 0 then 300 * one_second else lc_Window c),
       lc_Block := (if lc_Block c \<le> 0 then 600 * one_second else lc_Block c),
       lc_ChallengeTTL := (if lc_ChallengeTTL c \<le> 0 then 300 * one_second else lc_ChallengeTTL c),
       lc_ChallengeMaxAttempts := (if lc_ChallengeMaxAttempts c \<le> 0 then 5 else lc_ChallengeMaxAttempts c)\<rparr>"

record login_request =
  lq_Username :: string
  lq_Password :: string
  lq_ClientIP :: string
  lq_UserAgent :: string
  lq_TrustDevice :: bool
  lq_DeviceToken :: string

record login_service =
  lg_cfg :: login_config
  lg_mfa :: mfa_config
  lg_devices :: "device_service option"

text \<open>An outcome returned together with an error carries no more than the error and is left out.\<close>

record login_session =
  lo_Token :: string
  lo_User :: id_user
  lo_Method :: string
  lo_DeviceTrusted :: bool
  lo_DeviceToken :: string
  lo_DeviceExpiresAt :: "int option"
  lo_RecoveryCodesExhausted :: bool

datatype login_outcome = Authenticated login_session | MFARequired id_user string "string list" int

definition login_settings :: "identity_env \<Rightarrow> login_service \<Rightarrow> auth_settings act" where
  "login_settings env s = transact env (\<lambda>t. SeedIfMissing (lc_Defaults (lg_cfg s)))"

definition login_audit :: "identity_env \<Rightarrow> string \<Rightarrow> string \<Rightarrow> unit act" where
  "login_audit env actorID action = transact env (\<lambda>t. audit_Create actorID action)"

definition loginBucketKey :: "identity_env \<Rightarrow> string \<Rightarrow> string \<Rightarrow> string" where
  "loginBucketKey env username clientIP =
     hex_encode (ax_sha env (raw_bytes (ToLower (ax_lower env) username @ ''|'' @ TrimSpace clientIP)))"

text \<open>Device trust is best effort: with trust disabled the login is still valid.\<close>

definition issue_rest :: "identity_env \<Rightarrow> login_service \<Rightarrow> id_user \<Rightarrow> string \<Rightarrow> string \<Rightarrow> bool \<Rightarrow> login_session \<Rightarrow> login_outcome act" where
  "issue_rest env s user clientIP userAgent trustDevice outcome =
     then_act
       (case (if trustDevice then lg_devices s else None) of None \<Rightarrow> result (Inr outcome)
        | Some devices \<Rightarrow> (\<lambda>w.
            case Device_Issue env devices (iu_ID user) userAgent clientIP w of
              (Inl ErrDeviceTrustDisabled, w') \<Rightarrow> (Inr outcome, w')
            | (Inl e, w') \<Rightarrow> (Inl e, w')
            | (Inr (deviceToken, _, device), w') \<Rightarrow>
                (Inr (outcome\<lparr>lo_DeviceToken := deviceToken, lo_DeviceExpiresAt := Some (ud_ExpiresAt device), lo_DeviceTrusted := True\<rparr>), w')))
       (\<lambda>outcome. then_act (login_audit env (iu_ID user) ''auth.login.success'') (\<lambda>_. result (Inr (Authenticated outcome))))"

definition issue :: "identity_env \<Rightarrow> login_service \<Rightarrow> id_user \<Rightarrow> string \<Rightarrow> string \<Rightarrow> string \<Rightarrow> bool \<Rightarrow> bool \<Rightarrow> auth_policy \<Rightarrow> login_outcome act" where
  "issue env s user mthd clientIP userAgent trustDevice alreadyTrusted policy =
     then_act (IssueToken env (iu_ID user) (ap_SessionTokenTTL policy)) (\<lambda>token.
     issue_rest env s user clientIP userAgent trustDevice
       \<lparr>lo_Token = token, lo_User = user, lo_Method = mthd, lo_DeviceTrusted = alreadyTrusted, lo_DeviceToken = [],
        lo_DeviceExpiresAt = None, lo_RecoveryCodesExhausted = False\<rparr>)"

definition requireMFA :: "identity_env \<Rightarrow> login_service \<Rightarrow> id_user \<Rightarrow> string \<Rightarrow> string \<Rightarrow> bool \<Rightarrow> login_outcome act" where
  "requireMFA env s user mthd clientIP mfaEnabled =
     (let methods = ''totp'' # (if mfaEnabled then [''recovery''] else []) in
      then_act (Challenge_Create env ChallengeKindLoginMFA (iu_ID user) [(''method'', mthd), (''ip'', clientIP)]
        (lc_ChallengeTTL (lg_cfg s)) (lc_ChallengeMaxAttempts (lg_cfg s))) (\<lambda>i.
      then_act (login_audit env (iu_ID user) ''auth.login.mfa_required'') (\<lambda>_.
      then_act (now_act env) (\<lambda>now. result (Inr (MFARequired user i methods (now + lc_ChallengeTTL (lg_cfg s))))))))"

text \<open>Whether the request comes from a trusted device of the account, where such a device stands for the second factor.\<close>

definition bypassed :: "identity_env \<Rightarrow> login_service \<Rightarrow> id_user \<Rightarrow> auth_policy \<Rightarrow> string \<Rightarrow> bool act" where
  "bypassed env s user policy deviceToken =
     (case lg_devices s of None \<Rightarrow> result (Inr False)
      | Some devices \<Rightarrow>
          if ap_AllowTrustedDeviceBypass policy \<and> TrimSpace deviceToken \<noteq> []
          then then_act (Device_Validate env devices deviceToken) (\<lambda>r.
            result (Inr (case r of None \<Rightarrow> False | Some (_, d) \<Rightarrow> ud_UserID d = iu_ID user)))
          else result (Inr False))"

definition apply_policy ::
  "identity_env \<Rightarrow> login_service \<Rightarrow> id_user \<Rightarrow> string \<Rightarrow> string \<Rightarrow> string \<Rightarrow> bool \<Rightarrow> string \<Rightarrow> bool \<Rightarrow> auth_policy \<Rightarrow> login_outcome act" where
  "apply_policy env s user mthd clientIP userAgent trustDevice deviceToken mfaEnabled policy =
     (if \<not> ap_Required policy then issue env s user mthd clientIP userAgent trustDevice False policy
      else then_act (bypassed env s user policy deviceToken) (\<lambda>trusted.
        if trusted then issue env s user mthd clientIP userAgent False True policy
        else requireMFA env s user mthd clientIP mfaEnabled))"

definition complete :: "identity_env \<Rightarrow> login_service \<Rightarrow> id_user \<Rightarrow> string \<Rightarrow> string \<Rightarrow> string \<Rightarrow> bool \<Rightarrow> string \<Rightarrow> login_outcome act" where
  "complete env s user mthd clientIP userAgent trustDevice deviceToken =
     then_act (login_settings env s) (\<lambda>settings.
     then_act (IsEnabled env (lg_mfa s) (iu_ID user)) (\<lambda>mfaEnabled.
     apply_policy env s user mthd clientIP userAgent trustDevice deviceToken mfaEnabled (ResolvePolicy settings user mfaEnabled)))"

definition failLogin :: "identity_env \<Rightarrow> login_service \<Rightarrow> string \<Rightarrow> string \<Rightarrow> login_outcome act" where
  "failLogin env s bucket userID =
     then_act (\<lambda>w. case RegisterFailure (\<lambda>k. ax_fails env (aw_tick w + k)) bucket (lc_Window (lg_cfg s)) (lc_MaxAttempts (lg_cfg s))
         (lc_Block (lg_cfg s)) (ax_clock env (aw_tick w)) (aw_db w) of (r, db) \<Rightarrow> (r, advance 8 (w\<lparr>aw_db := db\<rparr>))) (\<lambda>_.
     then_act (login_audit env userID ''auth.login.failure'') (\<lambda>_. result (Inl ErrInvalidLogin)))"

definition login_Login :: "identity_env \<Rightarrow> login_service \<Rightarrow> login_request \<Rightarrow> login_outcome act" where
  "login_Login env s req w =
     (let username = TrimSpace (lq_Username req); bucket = loginBucketKey env username (lq_ClientIP req); t = aw_tick w; w1 = advance 2 w in
      if IsBlocked (ax_fails env t) bucket (ax_clock env t) (aw_db w)
      then then_act (login_audit env [] ''auth.login.throttled'') (\<lambda>_. result (Inl ErrLoginThrottled)) w1
      else (case (if ax_fails env (t + 1) then None else GetByUsername username (aw_db w)) of
          None \<Rightarrow> failLogin env s bucket [] w1
        | Some user \<Rightarrow>
            if iu_Disabled user \<or> iu_Deleted user \<or> iu_PasswordHash user = PasswordHashNone
              \<or> \<not> verifyPassword (ax_argon env) (lq_Password req) (iu_PasswordHash user)
            then failLogin env s bucket (iu_ID user) w1
            else then_act (\<lambda>w. case RegisterSuccess (ax_fails env (aw_tick w)) bucket (aw_db w) of (r, db) \<Rightarrow> (r, advance 1 (w\<lparr>aw_db := db\<rparr>)))
              (\<lambda>_. complete env s user ''password'' (lq_ClientIP req) (lq_UserAgent req) (lq_TrustDevice req) (lq_DeviceToken req)) w1))"

text \<open>The account of a challenge, if it may log in.\<close>

definition challenge_user :: "identity_env \<Rightarrow> string \<Rightarrow> id_user act" where
  "challenge_user env userID w =
     (case (if ax_fails env (aw_tick w) then None else user_Get userID (aw_db w)) of
        None \<Rightarrow> (Inl ErrInvalidLogin, advance 1 w)
      | Some user \<Rightarrow> (if iu_Disabled user \<or> iu_Deleted user then Inl ErrInvalidLogin else Inr user, advance 1 w))"

text \<open>A failed second factor: only a wrong or repeated code is charged to the challenge.\<close>

definition charge_guess :: "identity_env \<Rightarrow> string \<Rightarrow> string \<Rightarrow> auth_error \<Rightarrow> login_outcome act" where
  "charge_guess env challengeID userID e =
     (if e = ErrMFACodeInvalid \<or> e = ErrMFAReplayDetected
      then then_act (Challenge_Fail env challengeID) (\<lambda>(_, exhausted).
        then_act (login_audit env userID ''auth.login.failure'') (\<lambda>_. result (Inl (if exhausted then ErrChallengeExhausted else e))))
      else result (Inl e))"

definition mfa_session :: "identity_env \<Rightarrow> login_service \<Rightarrow> string \<Rightarrow> id_user \<Rightarrow> string \<Rightarrow> string \<Rightarrow> bool \<Rightarrow> verify_method \<times> nat \<Rightarrow> login_outcome act" where
  "mfa_session env s i user clientIP userAgent trustDevice = (\<lambda>(mthd, remaining).
     then_act (Challenge_Consume env i) (\<lambda>consumed.
     if \<not> consumed then result (Inl ErrChallengeInvalid)
     else then_act (login_settings env s) (\<lambda>settings.
       then_act (issue env s user (case mthd of TotpCode \<Rightarrow> ''totp'' | RecoveryCode \<Rightarrow> ''recovery'') clientIP userAgent trustDevice False
         (ResolvePolicy settings user True)) (\<lambda>outcome.
       result (Inr (case outcome of Authenticated o1 \<Rightarrow> Authenticated (o1\<lparr>lo_RecoveryCodesExhausted := (remaining = 0)\<rparr>) | o1 \<Rightarrow> o1))))))"

definition VerifyMFA :: "identity_env \<Rightarrow> login_service \<Rightarrow> string \<Rightarrow> string \<Rightarrow> string \<Rightarrow> string \<Rightarrow> bool \<Rightarrow> login_outcome act" where
  "VerifyMFA env s challengeID code clientIP userAgent trustDevice =
     (let i = TrimSpace challengeID in
      then_act (Challenge_Load env i ChallengeKindLoginMFA) (\<lambda>(challenge, _).
      then_act (challenge_user env (ac_UserID challenge)) (\<lambda>user.
      (\<lambda>w. case VerifyCode env (lg_mfa s) (iu_ID user) code w of
          (Inl e, w') \<Rightarrow> charge_guess env i (iu_ID user) e w'
        | (Inr accepted, w') \<Rightarrow> mfa_session env s i user clientIP userAgent trustDevice accepted w'))))"

definition IssueForAuthenticatedUser ::
  "identity_env \<Rightarrow> login_service \<Rightarrow> id_user \<Rightarrow> string \<Rightarrow> string \<Rightarrow> string \<Rightarrow> bool \<Rightarrow> string \<Rightarrow> login_outcome act" where
  "IssueForAuthenticatedUser env s user mthd =
     complete env s user (if TrimSpace mthd = [] then ''oidc'' else mthd)"

text \<open>What a subject of an identity provider still owes: nothing (and whether a trusted device stood in), or a challenge.\<close>

definition PrepareOIDCLogin :: "identity_env \<Rightarrow> login_service \<Rightarrow> id_user \<Rightarrow> string \<Rightarrow> string \<Rightarrow> (bool + login_outcome) act" where
  "PrepareOIDCLogin env s user clientIP deviceToken =
     then_act (login_settings env s) (\<lambda>settings.
     then_act (IsEnabled env (lg_mfa s) (iu_ID user)) (\<lambda>mfaEnabled.
     let policy = ResolvePolicy settings user mfaEnabled in
     if \<not> ap_Required policy then result (Inr (Inl False))
     else then_act (bypassed env s user policy deviceToken) (\<lambda>trusted.
       if trusted then result (Inr (Inl True))
       else then_act (requireMFA env s user ''oidc'' clientIP mfaEnabled) (\<lambda>outcome. result (Inr (Inr outcome))))))"

definition IssueSession ::
  "identity_env \<Rightarrow> login_service \<Rightarrow> id_user \<Rightarrow> string \<Rightarrow> string \<Rightarrow> string \<Rightarrow> bool \<Rightarrow> bool \<Rightarrow> login_outcome act" where
  "IssueSession env s user mthd clientIP userAgent trustDevice alreadyTrusted =
     then_act (login_settings env s) (\<lambda>settings.
     then_act (if alreadyTrusted then result (Inr True) else IsEnabled env (lg_mfa s) (iu_ID user)) (\<lambda>mfaEnabled.
     issue env s user mthd clientIP userAgent trustDevice alreadyTrusted (ResolvePolicy settings user mfaEnabled)))"

section \<open>Which proofs a session needs\<close>

text \<open>An action that adds one session, and for whom.\<close>

definition adds_session :: "string \<Rightarrow> id_db \<Rightarrow> id_db \<Rightarrow> bool" where
  "adds_session u db db' \<longleftrightarrow> (\<exists>i row. db_tokens db' = (i, row) # db_tokens db \<and> tk_UserID row = u)"

definition changes_sessions :: "'a act \<Rightarrow> auth_world \<Rightarrow> bool" where
  "changes_sessions m w \<longleftrightarrow> db_tokens (aw_db (snd (m w))) \<noteq> db_tokens (aw_db w)"

lemma keeps_no_session: "keeps db_tokens m \<Longrightarrow> \<not> changes_sessions m w"
  by (simp add: keeps_def changes_sessions_def)

lemma changes_then:
  assumes "changes_sessions (then_act m f) w" "keeps db_tokens m"
  obtains x w' where "m w = (Inr x, w')" "changes_sessions (f x) w'" "db_tokens (aw_db w') = db_tokens (aw_db w)"
    "snd (then_act m f w) = snd (f x w')"
proof -
  obtain r w' where m: "m w = (r, w')" by fastforce
  with assms(2) have k: "db_tokens (aw_db w') = db_tokens (aw_db w)" unfolding keeps_def by (metis snd_conv)
  show thesis
  proof (cases r)
    case (Inl e)
    then show ?thesis using assms(1) m k by (simp add: changes_sessions_def then_act_def)
  next
    case (Inr x)
    then show ?thesis using assms(1) m k that by (simp add: changes_sessions_def then_act_def)
  qed
qed

lemma settings_audit_keep [keeps_intros]:
  "account_part sel \<Longrightarrow> keeps sel (login_settings env s)" "account_part sel \<Longrightarrow> keeps sel (login_audit env a x)"
  unfolding login_settings_def login_audit_def by (auto intro!: keeps_intros)

lemma login_steps_keep [keeps_intros]:
  "keeps db_tokens (bypassed env s user policy token)" "keeps db_tokens (requireMFA env s user mthd ip enabled)"
  "keeps db_tokens (failLogin env s bucket u)" "keeps db_tokens (challenge_user env u)" "keeps db_tokens (charge_guess env i u e)"
proof -
  show "keeps db_tokens (bypassed env s user policy token)" unfolding bypassed_def by (auto intro!: keeps_intros split: option.splits)
  show "keeps db_tokens (requireMFA env s user mthd ip enabled)" unfolding requireMFA_def Let_def by (auto intro!: keeps_intros)
  show "keeps db_tokens (challenge_user env u)" by (auto simp: keeps_def challenge_user_def split: option.splits)
  show "keeps db_tokens (charge_guess env i u e)" unfolding charge_guess_def by (auto intro!: keeps_intros)
  have "keeps db_tokens (\<lambda>w. case RegisterFailure (f w) bucket a b d (n w) (aw_db w) of (r, db) \<Rightarrow> (r, advance 8 (w\<lparr>aw_db := db\<rparr>)))" for f a b d n
    by (auto simp: keeps_def RegisterFailure_def Let_def split: prod.splits if_splits)
  then show "keeps db_tokens (failLogin env s bucket u)" unfolding failLogin_def by (auto intro!: keeps_intros)
qed

lemma token_issue:
  assumes "changes_sessions (IssueToken env u ttl) w"
  shows "\<exists>plain. IssueToken env u ttl w = (Inr plain, snd (IssueToken env u ttl w)) \<and> adds_session u (aw_db w) (aw_db (snd (IssueToken env u ttl w)))"
  using assms
  by (auto simp: changes_sessions_def IssueToken_def then_act_def now_act_def result_def transact_def IdentityTransaction_def token_Create_def
      adds_session_def split: prod.splits sum.splits if_splits)

lemma issue_rest_keeps [keeps_intros]: "account_part sel \<Longrightarrow> keeps sel (issue_rest env s user ip ua td outcome)"
proof -
  assume a: "account_part sel"
  have d: "sel (aw_db w') = sel (aw_db w)" if "Device_Issue env d u x y w = (r, w')" for d u x y w r w'
    using Device_Issue_keeps [OF a, of env d u x y] that unfolding keeps_def by (metis snd_conv)
  show ?thesis unfolding issue_rest_def
    by (intro keeps_then settings_audit_keep(2) [OF a] keeps_basic)
      (auto simp: keeps_def result_def dest!: d split: option.splits prod.splits sum.splits auth_error.splits)
qed

lemma issue_adds:
  assumes "changes_sessions (issue env s user mthd ip ua td trusted policy) w"
  shows "adds_session (iu_ID user) (aw_db w) (aw_db (snd (issue env s user mthd ip ua td trusted policy w)))"
proof -
  let ?T = "IssueToken env (iu_ID user) (ap_SessionTokenTTL policy)"
  have rest: "db_tokens (aw_db (snd (issue env s user mthd ip ua td trusted policy w))) = db_tokens (aw_db (snd (?T w)))"
    using issue_rest_keeps [OF account_parts(1)] unfolding issue_def keeps_def
    by (cases "?T w"; cases "fst (?T w)") (simp_all add: then_act_def)
  then have "changes_sessions ?T w" using assms by (simp add: changes_sessions_def)
  from token_issue [OF this] rest show ?thesis by (simp add: adds_session_def)
qed

lemma issue_keeps [keeps_intros]:
  assumes "account_part sel" "\<And>db x. sel (db\<lparr>db_tokens := x\<rparr>) = sel db"
  shows "keeps sel (issue env s user mthd ip ua td trusted policy)"
proof -
  have "keeps_tx sel (token_Create i v)" for i v using assms(2) by (auto simp: keeps_tx_def token_Create_def split: if_splits)
  then show ?thesis unfolding issue_def IssueToken_def by (auto intro!: keeps_intros assms(1))
qed

section \<open>Sessions of a password login\<close>

definition settings_of :: "login_service \<Rightarrow> id_db \<Rightarrow> auth_settings" where
  "settings_of s db = (case db_settings db of None \<Rightarrow> lc_Defaults (lg_cfg s) | Some x \<Rightarrow> x)"

text \<open>The policy that applies to an account, and the trusted device of an account that a token names, at a point in time.\<close>

definition policy_of :: "login_service \<Rightarrow> id_user \<Rightarrow> id_db \<Rightarrow> auth_policy" where
  "policy_of s user db = ResolvePolicy (settings_of s db) user (mfa_enabled (iu_ID user) db)"

definition trusted_device :: "identity_env \<Rightarrow> string \<Rightarrow> string \<Rightarrow> int \<Rightarrow> id_db \<Rightarrow> bool" where
  "trusted_device env u token now db \<longleftrightarrow>
     (case GetByTokenHash (HashDeviceToken (ax_sha env) token) db of None \<Rightarrow> False | Some (_, d) \<Rightarrow> active_device u now d)"

lemma login_settings_Inr:
  assumes "login_settings env s w = (Inr settings, w')"
  shows "settings = settings_of s (aw_db w) \<and> db_mfa (aw_db w') = db_mfa (aw_db w) \<and> db_devices (aw_db w') = db_devices (aw_db w)
    \<and> aw_tick w \<le> aw_tick w'"
  using assms by (auto simp: login_settings_def transact_Inr SeedIfMissing_def settings_of_def split: option.splits)

lemma bypassed_Inr:
  assumes "bypassed env s user policy token w = (Inr True, w')"
  shows "ap_AllowTrustedDeviceBypass policy \<and> (\<exists>t \<ge> aw_tick w. trusted_device env (iu_ID user) (TrimSpace token) (ax_clock env t) (aw_db w))"
proof -
  from assms obtain devices i d where a: "ap_AllowTrustedDeviceBypass policy"
    and v: "Device_Validate env devices token w = (Inr (Some (i, d)), w')" "ud_UserID d = iu_ID user"
    by (auto simp: bypassed_def then_act_Inr split: option.splits if_splits)
  then have "trusted_device env (iu_ID user) (TrimSpace token) (ax_clock env (aw_tick w + 2)) (aw_db w)"
    by (auto simp: Device_Validate_def trusted_device_def active_device_def Let_def split: option.splits if_splits)
  with a show ?thesis by (intro conjI exI [of _ "aw_tick w + 2"]) simp_all
qed

lemma apply_policy_needs:
  assumes "changes_sessions (apply_policy env s user mthd ip ua td token enabled policy) w"
  shows "adds_session (iu_ID user) (aw_db w) (aw_db (snd (apply_policy env s user mthd ip ua td token enabled policy w))) \<and>
    (ap_Required policy \<longrightarrow> ap_AllowTrustedDeviceBypass policy \<and>
      (\<exists>t \<ge> aw_tick w. trusted_device env (iu_ID user) (TrimSpace token) (ax_clock env t) (aw_db w)))"
proof (cases "ap_Required policy")
  case False
  then show ?thesis using assms issue_adds by (simp add: apply_policy_def)
next
  case True
  with assms obtain trusted w' where b: "bypassed env s user policy token w = (Inr trusted, w')" "db_tokens (aw_db w') = db_tokens (aw_db w)"
    and c: "changes_sessions (if trusted then issue env s user mthd ip ua False True policy else requireMFA env s user mthd ip enabled) w'"
    and e: "snd (apply_policy env s user mthd ip ua td token enabled policy w) =
      snd ((if trusted then issue env s user mthd ip ua False True policy else requireMFA env s user mthd ip enabled) w')"
    unfolding apply_policy_def by (auto elim!: changes_then intro!: keeps_intros)
  have "trusted" using c keeps_no_session [OF login_steps_keep(2)] by (cases trusted) auto
  then have "adds_session (iu_ID user) (aw_db w) (aw_db (snd (apply_policy env s user mthd ip ua td token enabled policy w)))"
    using b(2) c e issue_adds [of env s user mthd ip ua False True policy w'] by (simp add: adds_session_def)
  then show ?thesis using b(1) \<open>trusted\<close> bypassed_Inr [of env s user policy token w w'] by simp
qed

lemma complete_needs:
  assumes "changes_sessions (complete env s user mthd ip ua td token) w"
  shows "adds_session (iu_ID user) (aw_db w) (aw_db (snd (complete env s user mthd ip ua td token w))) \<and>
    (ap_Required (policy_of s user (aw_db w)) \<longrightarrow> ap_AllowTrustedDeviceBypass (policy_of s user (aw_db w)) \<and>
      (\<exists>t \<ge> aw_tick w. trusted_device env (iu_ID user) (TrimSpace token) (ax_clock env t) (aw_db w)))"
proof -
  from assms obtain settings w1 enabled w2 where s: "login_settings env s w = (Inr settings, w1)"
    and e: "IsEnabled env (lg_mfa s) (iu_ID user) w1 = (Inr enabled, w2)"
    and c: "changes_sessions (apply_policy env s user mthd ip ua td token enabled (ResolvePolicy settings user enabled)) w2"
    and r: "snd (complete env s user mthd ip ua td token w) = snd (apply_policy env s user mthd ip ua td token enabled (ResolvePolicy settings user enabled) w2)"
      "db_tokens (aw_db w2) = db_tokens (aw_db w)"
    unfolding complete_def by (elim changes_then) (auto intro!: keeps_intros)
  from login_settings_Inr [OF s] IsEnabled_Inr [OF e] have p: "ResolvePolicy settings user enabled = policy_of s user (aw_db w)"
    "db_devices (aw_db w2) = db_devices (aw_db w)" "aw_tick w \<le> aw_tick w2"
    by (auto simp: policy_of_def mfa_enabled_def mfa_Get_def)
  then show ?thesis using apply_policy_needs [OF c] r
    by (auto simp: adds_session_def trusted_device_def GetByTokenHash_def intro: order_trans)
qed

text \<open>
  C3. A password login adds a session only for the active account of the given name, whose password was given, and only if the policy in
  force asks for no second factor of the account or a trusted device of this account, neither revoked nor expired, is
  presented after the request came and the policy lets it stand for the second factor. A login that fails half way is no exception.
\<close>

theorem session_needs_factors:
  assumes "changes_sessions (login_Login env s req) w"
  shows "\<exists>user. GetByUsername (TrimSpace (lq_Username req)) (aw_db w) = Some user \<and>
    \<not> iu_Disabled user \<and> \<not> iu_Deleted user \<and> iu_PasswordHash user \<noteq> PasswordHashNone \<and>
    verifyPassword (ax_argon env) (lq_Password req) (iu_PasswordHash user) \<and>
    adds_session (iu_ID user) (aw_db w) (aw_db (snd (login_Login env s req w))) \<and>
    (ap_Required (policy_of s user (aw_db w)) \<longrightarrow> ap_AllowTrustedDeviceBypass (policy_of s user (aw_db w)) \<and>
      (\<exists>t \<ge> aw_tick w. trusted_device env (iu_ID user) (TrimSpace (lq_DeviceToken req)) (ax_clock env t) (aw_db w)))"
proof -
  define bucket where "bucket = loginBucketKey env (TrimSpace (lq_Username req)) (lq_ClientIP req)"
  define w1 where "w1 = advance 2 w"
  have k: "db_tokens (aw_db (snd (m w1))) = db_tokens (aw_db w)" if "keeps db_tokens m" for m :: "login_outcome act"
    using that by (simp add: keeps_def w1_def)
  have "keeps db_tokens (then_act (login_audit env [] ''auth.login.throttled'') (\<lambda>_. result (Inl ErrLoginThrottled)) :: login_outcome act)"
    by (auto intro!: keeps_intros)
  note kk = k [OF this] k [OF login_steps_keep(3)]
  from assms obtain user where u: "GetByUsername (TrimSpace (lq_Username req)) (aw_db w) = Some user"
      "\<not> (iu_Disabled user \<or> iu_Deleted user \<or> iu_PasswordHash user = PasswordHashNone \<or> \<not> verifyPassword (ax_argon env) (lq_Password req) (iu_PasswordHash user))"
    and c: "login_Login env s req w =
      then_act (\<lambda>w. case RegisterSuccess (ax_fails env (aw_tick w)) bucket (aw_db w) of (r, db) \<Rightarrow> (r, advance 1 (w\<lparr>aw_db := db\<rparr>)))
        (\<lambda>_. complete env s user ''password'' (lq_ClientIP req) (lq_UserAgent req) (lq_TrustDevice req) (lq_DeviceToken req)) w1"
    using kk unfolding changes_sessions_def login_Login_def Let_def bucket_def [symmetric] w1_def [symmetric]
    by (auto split: if_splits option.splits)
  obtain r db where s: "RegisterSuccess (ax_fails env (aw_tick w1)) bucket (aw_db w1) = (r, db)" by fastforce
  then have d: "db_tokens db = db_tokens (aw_db w)" "db_mfa db = db_mfa (aw_db w)" "db_settings db = db_settings (aw_db w)" "db_devices db = db_devices (aw_db w)"
    by (auto simp: RegisterSuccess_def w1_def split: if_splits)
  from assms c s d(1) have "r = Inr ()" by (cases r) (auto simp: changes_sessions_def then_act_def)
  with assms c s d(1) have "changes_sessions (complete env s user ''password'' (lq_ClientIP req) (lq_UserAgent req) (lq_TrustDevice req) (lq_DeviceToken req)) (advance 1 (w1\<lparr>aw_db := db\<rparr>))"
    and "snd (login_Login env s req w) = snd (complete env s user ''password'' (lq_ClientIP req) (lq_UserAgent req) (lq_TrustDevice req) (lq_DeviceToken req) (advance 1 (w1\<lparr>aw_db := db\<rparr>)))"
    by (auto simp: changes_sessions_def then_act_def)
  moreover have "aw_tick w \<le> aw_tick (advance 1 (w1\<lparr>aw_db := db\<rparr>))" by (simp add: w1_def)
  ultimately show ?thesis using complete_needs [OF \<open>changes_sessions _ (advance 1 (w1\<lparr>aw_db := db\<rparr>))\<close>] u d
    by (auto simp: adds_session_def policy_of_def settings_of_def mfa_enabled_def mfa_Get_def trusted_device_def GetByTokenHash_def intro: order_trans)
qed

section \<open>Sessions of a second factor\<close>

lemma Challenge_Load_Inr:
  assumes "Challenge_Load env i kind w = (Inr r, w')"
  shows "challenge_Get i (aw_db w) = Some (fst r) \<and> ac_Kind (fst r) = kind \<and> ac_ConsumedAt (fst r) = None \<and> aw_db w' = aw_db w \<and>
    (\<exists>t \<ge> aw_tick w. ac_ExpiresAt (fst r) > ax_clock env t)"
proof -
  define row where "row = the (challenge_Get i (aw_db w))"
  from assms have "challenge_Get i (aw_db w) = Some row" "aw_db w' = aw_db w"
    and b: "\<not> (ac_Kind row \<noteq> kind \<or> ac_ConsumedAt row \<noteq> None \<or> \<not> ac_ExpiresAt row > ax_clock env (aw_tick w + 1))" "fst r = row"
    by (auto simp: Challenge_Load_def then_act_def IdentityRead_def now_act_def result_def row_def
        split: if_splits option.splits sum.splits)
  moreover have "\<exists>t \<ge> aw_tick w. ac_ExpiresAt (fst r) > ax_clock env t" using b by (intro exI [of _ "aw_tick w + 1"]) simp
  ultimately show ?thesis by simp
qed

lemma challenge_user_Inr:
  assumes "challenge_user env u w = (Inr user, w')"
  shows "user_Get u (aw_db w) = Some user \<and> \<not> iu_Disabled user \<and> \<not> iu_Deleted user \<and> aw_db w' = aw_db w"
  using assms by (auto simp: challenge_user_def split: option.splits if_splits)

lemma mfa_session_keeps:
  "keeps db_mfa (mfa_session env s i user ip ua td a)" "keeps db_codes (mfa_session env s i user ip ua td a)"
  unfolding mfa_session_def Challenge_Consume_def by (auto intro!: keeps_intros split: prod.splits)

lemma then_result: "snd (then_act m (\<lambda>x. result (Inr (f x))) w) = snd (m w)"
  by (auto simp: then_act_def result_def split: prod.splits sum.splits)

lemma consume_Inr:
  assumes "Challenge_Consume env i w = (Inr True, w')"
  shows "\<exists>c. map_of (db_challenges (aw_db w')) i = Some c \<and> ac_ConsumedAt c \<noteq> None"
  using assms
  by (auto simp: Challenge_Consume_def transact_Inr challenge_Consume_def update_row_results AList.update_conv' split: sum.splits)

lemma mfa_session_needs:
  assumes "changes_sessions (mfa_session env s i user ip ua td a) w"
  defines "db' \<equiv> aw_db (snd (mfa_session env s i user ip ua td a w))"
  shows "adds_session (iu_ID user) (aw_db w) db' \<and> (\<exists>c. map_of (db_challenges db') i = Some c \<and> ac_ConsumedAt c \<noteq> None)"
proof -
  obtain mthd remaining where a: "a = (mthd, remaining)" by fastforce
  define iss where "iss = (\<lambda>settings. issue env s user (case mthd of TotpCode \<Rightarrow> ''totp'' | RecoveryCode \<Rightarrow> ''recovery'') ip ua td False
    (ResolvePolicy settings user True))"
  define rest where "rest = (\<lambda>settings. then_act (iss settings) (\<lambda>outcome.
       result (Inr (case outcome of Authenticated o1 \<Rightarrow> Authenticated (o1\<lparr>lo_RecoveryCodesExhausted := (remaining = 0)\<rparr>) | o1 \<Rightarrow> o1))))"
  have m: "mfa_session env s i user ip ua td a = then_act (Challenge_Consume env i) (\<lambda>consumed.
     if \<not> consumed then result (Inl ErrChallengeInvalid) else then_act (login_settings env s) rest)"
    unfolding mfa_session_def a rest_def iss_def by simp
  from assms(1) obtain consumed w1 where c: "Challenge_Consume env i w = (Inr consumed, w1)" "db_tokens (aw_db w1) = db_tokens (aw_db w)"
    and c1: "changes_sessions (if \<not> consumed then result (Inl ErrChallengeInvalid) else then_act (login_settings env s) rest) w1"
    and e1: "snd (mfa_session env s i user ip ua td a w) = snd ((if \<not> consumed then result (Inl ErrChallengeInvalid) else then_act (login_settings env s) rest) w1)"
    unfolding m by (rule changes_then [OF _ challenges_keep_tokens(3)])
  then have "consumed" using keeps_no_session [OF keeps_basic(1)] by (cases consumed) auto
  with c1 e1 obtain settings w2 where s: "login_settings env s w1 = (Inr settings, w2)" "db_tokens (aw_db w2) = db_tokens (aw_db w1)"
    and c2: "changes_sessions (rest settings) w2" and e2: "snd (mfa_session env s i user ip ua td a w) = snd (rest settings w2)"
    by (auto elim!: changes_then [OF _ settings_audit_keep(1) [OF account_parts(1)]])
  then have i: "changes_sessions (iss settings) w2" "db' = aw_db (snd (iss settings w2))"
    by (simp_all add: changes_sessions_def rest_def then_result db'_def)
  have "keeps db_challenges (iss settings)" "keeps db_challenges (login_settings env s)" unfolding iss_def by (auto intro!: keeps_intros)
  then have "db_challenges db' = db_challenges (aw_db w1)" using i(2) s(1) unfolding keeps_def by (metis snd_conv)
  with consume_Inr c(1) \<open>consumed\<close> have "\<exists>c. map_of (db_challenges db') i = Some c \<and> ac_ConsumedAt c \<noteq> None" by metis
  moreover have "adds_session (iu_ID user) (aw_db w) db'"
    using issue_adds [OF i(1) [unfolded iss_def]] i(2) c(2) s(2) by (simp add: iss_def adds_session_def)
  ultimately show ?thesis by blast
qed

text \<open>
  C4. The second step of a login adds a session only for the active account of a challenge that was open, unexpired and meant for this, and
  only for a code of the account's confirmed second factor that was not used before: a recovery code that was unused, or the code of a
  time step later than every accepted one. Afterwards the challenge is consumed and the code is spent.
\<close>

theorem second_factor_spent:
  assumes "changes_sessions (VerifyMFA env s challengeID code ip ua td) w"
  defines "db' \<equiv> aw_db (snd (VerifyMFA env s challengeID code ip ua td w))"
  shows "\<exists>c user. challenge_Get (TrimSpace challengeID) (aw_db w) = Some c \<and> ac_Kind c = ChallengeKindLoginMFA \<and> ac_ConsumedAt c = None \<and>
    (\<exists>t \<ge> aw_tick w. ac_ExpiresAt c > ax_clock env t) \<and>
    user_Get (ac_UserID c) (aw_db w) = Some user \<and> \<not> iu_Disabled user \<and> \<not> iu_Deleted user \<and>
    mfa_enabled (iu_ID user) (aw_db w) \<and> code_spent env (lg_mfa s) (iu_ID user) code (aw_db w) db' \<and>
    adds_session (iu_ID user) (aw_db w) db' \<and> (\<exists>c'. map_of (db_challenges db') (TrimSpace challengeID) = Some c' \<and> ac_ConsumedAt c' \<noteq> None)"
proof -
  define i where "i = TrimSpace challengeID"
  define verify where "verify = (\<lambda>user w. case VerifyCode env (lg_mfa s) (iu_ID user) code w of
          (Inl e, w') \<Rightarrow> charge_guess env i (iu_ID user) e w'
        | (Inr accepted, w') \<Rightarrow> mfa_session env s i user ip ua td accepted w')"
  have v: "VerifyMFA env s challengeID code ip ua td =
    then_act (Challenge_Load env i ChallengeKindLoginMFA) (\<lambda>r. then_act (challenge_user env (ac_UserID (fst r))) verify)"
    unfolding VerifyMFA_def i_def verify_def Let_def split_def by simp
  from assms(1) obtain r w1 user w2 where l: "Challenge_Load env i ChallengeKindLoginMFA w = (Inr r, w1)"
    and u: "challenge_user env (ac_UserID (fst r)) w1 = (Inr user, w2)" and k: "db_tokens (aw_db w2) = db_tokens (aw_db w)"
    and c: "changes_sessions (verify user) w2" and e: "snd (VerifyMFA env s challengeID code ip ua td w) = snd (verify user w2)"
    unfolding v by (elim changes_then) (auto intro!: keeps_intros)
  note facts = Challenge_Load_Inr [OF l] challenge_user_Inr [OF u]
  obtain x w3 where vc: "VerifyCode env (lg_mfa s) (iu_ID user) code w2 = (x, w3)" by fastforce
  have k3: "db_tokens (aw_db w3) = db_tokens (aw_db w2)" using VerifyCode_keeps(1) vc unfolding keeps_def by (metis snd_conv)
  have "\<not> changes_sessions (charge_guess env i (iu_ID user) e) w3" for e by (rule keeps_no_session) (rule login_steps_keep(5))
  then obtain accepted where x: "x = Inr accepted" using c vc k3 by (cases x) (auto simp: changes_sessions_def verify_def)
  with c e vc k3 have s: "changes_sessions (mfa_session env s i user ip ua td accepted) w3" "db' = aw_db (snd (mfa_session env s i user ip ua td accepted w3))"
    by (simp_all add: changes_sessions_def verify_def db'_def)
  have d: "db_mfa db' = db_mfa (aw_db w3)" "db_codes db' = db_codes (aw_db w3)" using mfa_session_keeps unfolding s(2) keeps_def by blast+
  have "mfa_enabled (iu_ID user) (aw_db w)" "code_spent env (lg_mfa s) (iu_ID user) code (aw_db w) db'"
    using VerifyCode_Inr [OF vc [unfolded x]] facts d by (simp_all add: code_spent_def mfa_Get_def)
  with facts mfa_session_needs [OF s(1)] s(2) k k3 show ?thesis unfolding i_def by (simp add: adds_session_def)
qed

section \<open>Factors lost and factors never given\<close>


lemma Device_Issue_trusts:
  assumes "Device_Issue env devices u ua ip w = (Inr (token, i, device), w')" "now < ud_ExpiresAt device"
  shows "trusted_device env u token now (aw_db w')"
proof -
  from assms(1) obtain db db' where "device_Create i device db = Inr ((), db')" "db_devices (aw_db w') = db_devices db'"
    and d: "ud_UserID device = u" "ud_TokenHash device = HashDeviceToken (ax_sha env) token" "ud_RevokedAt device = None"
    by (auto simp: Device_Issue_def GenerateDeviceToken_def act_results audit_Create_def Let_def split: if_splits)
  then show ?thesis using assms(2)
    by (auto simp: trusted_device_def GetByTokenHash_def device_Create_def active_device_def split: if_splits)
qed


section \<open>Instances\<close>

text \<open>A small installation; the clock, the random bytes and the cipher are the simplest that qualify.\<close>

definition sample_identity :: identity_env where
  "sample_identity = \<lparr>ax_clock = int, ax_fails = (\<lambda>_. False), ax_rand = (\<lambda>t n. Some (replicate n (of_nat t))), ax_draws = (\<lambda>t. [replicate 16 1]),
     ax_id = (\<lambda>t. ''id''), ax_totp = \<lparr>te_mac = (\<lambda>k m. replicate 20 0), te_upper = id\<rparr>, ax_lower = id, ax_sha = (\<lambda>b. replicate 32 0),
     ax_argon = sample_argon, ax_aead = \<lparr>ad_seal = (\<lambda>k n p. p), ad_open = (\<lambda>k n p. Some p)\<rparr>,
     ax_secrets = Some \<lparr>ss_key = replicate 16 0, ss_keyID = ''k''\<rparr>, ax_marshal = (\<lambda>_. ''{}''), ax_unmarshal = (\<lambda>_. Some [])\<rparr>"

definition sample_mfa :: mfa_config where
  "sample_mfa = \<lparr>mc_Issuer = ''T'', mc_Params = DefaultTOTPParams, mc_RecoveryCodes = 1, mc_EnrollmentTTL = 900 * one_second\<rparr>"

definition sample_service :: login_service where
  "sample_service = \<lparr>lg_cfg = login_withDefaults \<lparr>lc_MaxAttempts = 0, lc_Window = 0, lc_Block = 0, lc_ChallengeTTL = 0, lc_ChallengeMaxAttempts = 0,
     lc_Defaults = DefaultAuthSettings MFAModeOptional True True 0 0 0\<rparr>, lg_mfa = sample_mfa,
     lg_devices = Some (NewDeviceService DefaultDeviceTrustConfig)\<rparr>"

definition sample_user :: "string \<Rightarrow> id_user" where
  "sample_user hash = \<lparr>iu_ID = ''u'', iu_Username = ''ann'', iu_Role = ''user'', iu_PasswordHash = hash, iu_Disabled = False,
     iu_Deleted = False, iu_MFARequired = False\<rparr>"

definition sample_factor :: user_mfa where
  "sample_factor = \<lparr>um_SecretCiphertext = [], um_SecretNonce = [], um_SecretKeyID = ''k'', um_SecretVersion = 1, um_Status = MFAStatusEnabled,
     um_EnrolledAt = 0, um_EnabledAt = Some 0, um_LastUsedAt = None, um_LastUsedStep = - 1\<rparr>"

definition sample_world :: "string \<Rightarrow> (string \<times> user_mfa) list \<Rightarrow> auth_world" where
  "sample_world hash rows = \<lparr>aw_db = sample_db\<lparr>db_users := [(''u'', sample_user hash)], db_mfa := rows,
     db_codes := [\<lparr>rc_UserID = ''u'', rc_CodeHash = replicate 32 0, rc_UsedAt = None\<rparr>],
     db_challenges := [(''c'', sample_challenge\<lparr>ac_PayloadCiphertext := b64_encode (raw_bytes ''{}''), ac_PayloadNonce := b64_encode (replicate 12 0),
       ac_PayloadKeyID := ''k''\<rparr>)]\<rparr>, aw_tick = 0\<rparr>"

lemma sample_trim: "TrimSpace ''u'' = ''u''" "TrimSpace ''c'' = ''c''" "TrimSpace ''T'' = ''T''" "TrimSpace ''ann'' = ''ann''" "TrimSpace ''tmrc-a'' = ''tmrc-a''"
  by (rule TrimSpace_graphic; simp add: graphic_def)+

lemmas act_defs = then_act_def rand_act_def result_def now_act_def transact_def IdentityTransaction_def then_tx_def IdentityRead_def advance_def Let_def

lemmas sample_defs = sample_identity_def sample_mfa_def sample_service_def sample_world_def sample_db_def sample_user_def sample_factor_def sample_challenge_def
  sample_trim

lemma secret_not_empty: "bs \<noteq> [] \<Longrightarrow> GenerateTOTPSecret bs \<noteq> []"
  by (cases bs rule: b32_encode.cases) (simp_all add: GenerateTOTPSecret_def quintets_def)


lemmas issue_defs = issue_def issue_rest_def IssueToken_def randomToken_def token_Create_def login_audit_def audit_Create_def

lemma sample_login:
  assumes "verifyPassword sample_argon ''secret'' hash" "hash \<noteq> PasswordHashNone"
  shows "changes_sessions (login_Login sample_identity sample_service
    \<lparr>lq_Username = ''ann'', lq_Password = ''secret'', lq_ClientIP = [], lq_UserAgent = [], lq_TrustDevice = False, lq_DeviceToken = []\<rparr>) (sample_world hash [])"
  using assms
  by (simp add: changes_sessions_def login_Login_def act_defs sample_defs IsBlocked_def GetByUsername_def RegisterSuccess_def complete_def
      login_settings_def SeedIfMissing_def IsEnabled_def mfa_load_def mfa_Get_def apply_policy_def ResolvePolicy_def login_withDefaults_def
      DefaultAuthSettings_def issue_defs)

theorem session_needs_factors_witness:
  "\<exists>hash. adds_session ''u'' (aw_db (sample_world hash [])) (aw_db (snd (login_Login sample_identity sample_service
    \<lparr>lq_Username = ''ann'', lq_Password = ''secret'', lq_ClientIP = [], lq_UserAgent = [], lq_TrustDevice = False, lq_DeviceToken = []\<rparr> (sample_world hash []))))"
proof -
  obtain hash where h: "hashPassword sample_argon (\<lambda>n. Some (replicate n 7)) ''secret'' = Inr hash" by (simp add: hashPassword_def)
  then have "hash \<noteq> PasswordHashNone" by (auto simp: hashPassword_def PasswordHashNone_def)
  moreover have "verifyPassword sample_argon ''secret'' hash"
    using verify_stored [of "\<lambda>n. Some (replicate n 7)" "replicate argonSaltLen 7" sample_argon, OF _ _ _ h] by (simp add: sample_argon_def)
  ultimately have "changes_sessions (login_Login sample_identity sample_service
    \<lparr>lq_Username = ''ann'', lq_Password = ''secret'', lq_ClientIP = [], lq_UserAgent = [], lq_TrustDevice = False, lq_DeviceToken = []\<rparr>) (sample_world hash [])"
    by (rule sample_login [rotated])
  from session_needs_factors [OF this] show ?thesis
    by (intro exI [of _ hash]) (auto simp: GetByUsername_def sample_world_def sample_user_def sample_db_def split: if_splits)
qed

lemma sample_verify:
  "changes_sessions (VerifyMFA sample_identity sample_service ''c'' ''tmrc-a'' [] [] False) (sample_world PasswordHashNone [(''u'', sample_factor)])"
proof -
  have "IsRecoveryCode id ''tmrc-a''"
    by (simp add: IsRecoveryCode_def sample_trim recoveryCodePrefix_def ToLower_def is_ascii_def lower_char_def Let_def HasPrefix_def)
  moreover have "b64_decode (b64_encode bs) = Some bs" for bs by (simp add: b64_decode_def b64_encode_plain b64_encode_quads)
  ultimately show ?thesis
    by (simp add: changes_sessions_def VerifyMFA_def act_defs sample_defs Challenge_Load_def challenge_Get_def Decrypt_def NonceSize_def secretStoreVersion_def
        challenge_user_def user_Get_def VerifyCode_def mfa_load_def mfa_Get_def verifyRecoveryCode_def codes_Consume_def unused_code_def HashRecoveryCode_def
        TouchLastUsed_def update_row_def mfa_session_def Challenge_Consume_def challenge_Consume_def login_settings_def SeedIfMissing_def issue_defs)
qed

theorem second_factor_spent_witness:
  "let w = sample_world PasswordHashNone [(''u'', sample_factor)]; db' = aw_db (snd (VerifyMFA sample_identity sample_service ''c'' ''tmrc-a'' [] [] False w)) in
   adds_session ''u'' (aw_db w) db' \<and> (\<exists>c'. map_of (db_challenges db') ''c'' = Some c' \<and> ac_ConsumedAt c' \<noteq> None)"
  using second_factor_spent [OF sample_verify]
  by (auto simp: Let_def sample_trim challenge_Get_def user_Get_def sample_world_def sample_challenge_def sample_user_def)


end
