(* ===== verification/Spec2Isabelle.thy ===== *)
theory Spec2Isabelle
  imports Prelude Go_Strings Frame Codec Payloads Trace Stream_State Bounded_Queue Fair_Writer Relay_Service Session_Manager Agent_Metadata
    Flow_Control Relay_Stream Relay_Transport Agent_Stream Relay_Conn Agent_Dispatcher
    Net_Addr Routing VPN_Pool VPN_Keys VPN_Peer Go_Slices VPN_Wire VPN_Flows VPN_Denials VPN_Gateway Proxy_Handshake Proxy_Policy Proxy_Entry
    Semver Self_Update Rounding Reconnect Supervisor Totp Identity_Store Secrets Auth_Services Login
begin

text \<open>
  Verification library of TunnelMesh, a relay that connects clients to private networks through agents.

  \<^bold>\<open>The program.\<close> Agents in private networks keep connections to servers. Clients, proxies and a VPN gateway ask a server for streams to
  targets behind an agent; the server authorizes the request, chooses an agent connection and relays the bytes as frames under credit-based flow
  control. Operators manage the servers through a console with its own login; clients and agents update themselves under a supervisor.

  \<^bold>\<open>Conventions.\<close> A struct is a \<^verbatim>\<open>record\<close>, an error return the left side of a sum, a Go map or table an association list, a fixed-width integer a
  word, a time or duration a number of nanoseconds. A locked method is one state transformer; what happens between locked parts is left to
  the sequences of operations over which the invariants are proved. Readings of the clock, random bytes and failures of the outside
  are arguments. Code of other packages (cryptography, JSON, DNS, floating-point rounding) is a parameter, with what is used of it as a named
  hypothesis (\<open>mac_sized\<close>, \<open>aead_law\<close>, \<open>rounds\<close>). A mapped definition may stand for part of a function whose remaining part is the
  definition beside it; constants of a single line are not listed one by one.

  \<^bold>\<open>Shared theories.\<close> \<open>Prelude\<close> (machine types, errors, byte order, reading), \<open>Go_Strings\<close>, \<open>Go_Slices\<close>, \<open>Net_Addr\<close> (what the sources use of
  the standard library), \<open>Rounding\<close> (floating point).

  \<^bold>\<open>Protocol\<close>, \<^verbatim>\<open>internal/protocol\<close>.
  \<^item> \<open>Frame\<close>, \<open>Codec\<close>, \<open>Payloads\<close>: frames, their byte and JSON formats. What is written over any partially writing connection is read back, and the
    decoder accepts exactly the encodings of valid frames. The locale \<open>self_delimiting\<close> is the contract of the three byte formats.
  \<^item> \<open>Trace\<close>: the signed chain of trace hops.
  \<^item> \<open>Stream_State\<close>: the state machine of a stream, whose windows account exactly for the bytes.

  \<^bold>\<open>Sessions\<close>, \<^verbatim>\<open>internal/session\<close>, \<^verbatim>\<open>internal/relay\<close> and \<^verbatim>\<open>internal/server/session_manager.go\<close>.
  \<^item> \<open>Bounded_Queue\<close>, \<open>Fair_Writer\<close>: queues (locale \<open>bounded_fifo\<close>), the demultiplexer and the writer with its order and its round robin.
  \<^item> \<open>Relay_Service\<close>, \<open>Session_Manager\<close>, \<open>Agent_Metadata\<close>: registries fenced by epochs (locale \<open>fencing\<close>), the ceiling on connections, dead
    generations that stay dead, and metadata of agents and clients.

  \<^bold>\<open>Streams\<close>, \<^verbatim>\<open>internal/server/agent_relay_transport.go\<close> and \<^verbatim>\<open>internal/agent/session.go\<close>.
  \<^item> \<open>Flow_Control\<close>: a sender and any receiver that keeps the laws of the locale \<open>credit_receiver\<close>; no byte is lost and nobody waits for ever.
  \<^item> \<open>Relay_Stream\<close>, \<open>Relay_Transport\<close>, \<open>Relay_Conn\<close>: the server's end, its table of streams, and the calls of its holder.
  \<^item> \<open>Agent_Stream\<close>, \<open>Agent_Dispatcher\<close>: the agent's end, dialling and the ceiling on streams.

  \<^bold>\<open>Routing and VPN\<close>, \<^verbatim>\<open>internal/routing\<close>, \<^verbatim>\<open>internal/vpn\<close> and \<^verbatim>\<open>internal/server/vpn_*.go\<close>.
  \<^item> \<open>Routing\<close>: the choice of a route is the first one in a weak order (locale \<open>weak_order\<close>).
  \<^item> \<open>VPN_Pool\<close>, \<open>VPN_Keys\<close>, \<open>VPN_Peer\<close>: addresses, keys, policies and configurations, with the texts they are stored as.
  \<^item> \<open>VPN_Wire\<close>, \<open>VPN_Flows\<close>, \<open>VPN_Denials\<close>, \<open>VPN_Gateway\<close>: datagrams, the flow table, the log of refusals and the packet pipeline: a datagram
    is forwarded exactly if every check allows it, and only under the peer that owns its source address.

  \<^bold>\<open>Proxies\<close>, \<^verbatim>\<open>internal/proxy\<close>, \<^verbatim>\<open>internal/proxyentry\<close> and \<^verbatim>\<open>internal/server/proxy_entry.go\<close>.
  \<^item> \<open>Proxy_Handshake\<close>, \<open>Proxy_Policy\<close>, \<open>Proxy_Entry\<close>: handshakes, access rules with their lockout, and the requests that get through.

  \<^bold>\<open>Updates\<close>, \<^verbatim>\<open>internal/semver\<close>, \<^verbatim>\<open>internal/selfupdate\<close>, \<^verbatim>\<open>internal/reconnect\<close> and \<^verbatim>\<open>internal/supervisor\<close>.
  \<^item> \<open>Semver\<close>, \<open>Self_Update\<close>, \<open>Reconnect\<close>, \<open>Supervisor\<close>: versions, the persisted state of an upgrade under crashes and failed writes, delays, and
    the supervisor, which refines the orders of the upgrader and gives up on workers that never become ready.

  \<^bold>\<open>Login\<close>, \<^verbatim>\<open>internal/auth\<close> and \<^verbatim>\<open>internal/storage/identity_repository.go\<close>.
  \<^item> \<open>Totp\<close>, \<open>Secrets\<close>: one-time codes, recovery codes, password hashes and sealed secrets.
  \<^item> \<open>Identity_Store\<close>: the tables and their conditional updates; one-time credentials are accepted once over every sequence of transactions.
  \<^item> \<open>Auth_Services\<close>, \<open>Login\<close>: policy, devices, challenges, second factor and sessions; the proofs a session needs and what it spends. Requests
    run one after another here; that concurrent ones cannot spend a credential twice is what \<open>Identity_Store\<close> shows of their transactions.

  \<^bold>\<open>Bounds and fuel.\<close> Loops over data are structural. \<open>strip\<close>, \<open>b32_groups\<close> and \<open>delay_loop\<close> take fuel that is the length of the text or the number of
  rounds the source allows, so it does not run out. Loops that wait for the outside (reading, accepting, supervising) are runs over a list of the
  events that arrive. Recovery codes are drawn from a given list of random blocks; running out of it is a failing source of randomness.

  \<^bold>\<open>Not modelled.\<close> The repositories of the console's objects and the schema (SQL text, whose meaning is the database's); configuration files; the HTTP
  handlers of the management API and the wiring of the server, agent and client processes (decoding, sockets, TLS, QUIC, start and stop); account
  administration, identity providers and stored credentials; browser terminals and the VPN device and TCP stack (third-party packages);
  downloads, archives and processes of updates, whose outcomes are arguments; the desktop tray, the command line and metrics.
\<close>

end
